(* ===== verification/Prelude.thy ===== *)
theory Prelude
  imports Complex_Main "HOL-Library.Word"
begin

text \<open>
  Shared vocabulary of the development: the machine integers of the target
  (an STM32L151, 32-bit, two's complement), the collections of rewrite rules the
  component theories add to, and the generic facts on words and lists they share.
\<close>

unbundle bit_operations_syntax

type_synonym u8 = "8 word"
type_synonym u16 = "16 word"
type_synonym u32 = "32 word"
type_synonym u64 = "64 word"

text \<open>
  \<open>state_simps\<close> collects the equations that read a field after a component's operation
  has run; \<open>step_defs\<close> collects the definitions of the small operations that a proof
  about a larger one unfolds.
\<close>

named_theorems state_simps \<open>fields after an operation\<close>
named_theorems step_defs \<open>small operations to unfold\<close>

subsection \<open>Words\<close>

lemma unat_sub_le: "(b :: 'a :: len word) \<le> a \<Longrightarrow> unat (a - b) = unat a - unat b"
  by (rule unat_sub)

lemma unat_minus_less:
  fixes a b :: "'a :: len word"
  assumes "b \<le> a" and "0 < b"
  shows "unat (a - b) < unat a"
proof -
  have "unat (a - b) = unat a - unat b" using assms(1) by (rule unat_sub)
  moreover have "0 < unat b" using assms(2) by (simp add: word_gt_0 unat_gt_0)
  moreover have "unat b \<le> unat a" using assms(1) by (simp add: word_le_nat_alt)
  ultimately show ?thesis by linarith
qed

lemma of_nat_word_eqI: "unat w = n \<Longrightarrow> w = of_nat n"
  by auto

lemma unat_u32_lt: "unat (w :: u32) < 4294967296"
  using unsigned_less [of w, where ?'a = nat] by simp

lemma unat_u16_lt: "unat (w :: u16) < 65536"
  using unsigned_less [of w, where ?'a = nat] by simp

lemma unat_u8_lt: "unat (w :: u8) < 256"
  using unsigned_less [of w, where ?'a = nat] by simp

lemma unat_u64_lt: "unat (w :: u64) < 18446744073709551616"
  using unsigned_less [of w, where ?'a = nat] by simp

lemma unat_plus: "unat (a :: u32) + k < 4294967296 \<Longrightarrow> unat (a + of_nat k) = unat a + k"
  by (simp add: unat_word_ariths unat_of_nat)

lemma unat_add_u32: "unat (a :: u32) + unat b < 4294967296 \<Longrightarrow> unat (a + b) = unat a + unat b"
  by (simp add: unat_word_ariths)

lemma unat_of_nat_u32: "n < 4294967296 \<Longrightarrow> unat (of_nat n :: u32) = n"
  by (simp add: unat_of_nat)

lemma unat_low_nibble: "unat ((b :: u8) AND 0x0F) = unat b mod 16"
proof -
  have "(0x0F :: u8) = mask 4" by (simp add: mask_eq_exp_minus_1)
  moreover have "b AND mask 4 = take_bit 4 b" by (rule take_bit_eq_mask [symmetric])
  moreover have "take_bit 4 b = b mod 16" by (simp add: take_bit_eq_mod)
  ultimately have "b AND 0x0F = b mod 16" by simp
  then show ?thesis by (simp add: unat_mod_distrib)
qed

lemma unat_high_nibble: "unat (drop_bit 4 ((b :: u8) AND 0xF0)) = unat b div 16"
proof -
  have "drop_bit 4 (b AND 0xF0) = drop_bit 4 b AND 0x0F"
    by (simp add: drop_bit_and)
  moreover have "unat (drop_bit 4 b) = unat b div 16"
    by (simp add: drop_bit_eq_div unat_div_distrib)
  ultimately show ?thesis using unat_u8_lt [of b] by (simp add: unat_low_nibble)
qed

lemma odd_unat_u8: "(w :: u8) mod 2 \<noteq> 0 \<longleftrightarrow> odd (unat w)"
  by (simp add: word_unat_eq_iff unat_mod_distrib odd_iff_mod_2_eq_one)

text \<open>A 16-bit value split into its bytes, high byte first, and put together again.\<close>

lemma unat_high_byte: "unat (drop_bit 8 ((w :: u16) AND 0xFF00)) = unat w div 256"
proof -
  have m: "(0xFF :: u16) = mask 8" by (simp add: mask_eq_exp_minus_1)
  have "drop_bit 8 (w AND 0xFF00) = drop_bit 8 w AND mask 8"
    by (simp add: drop_bit_and m [symmetric])
  also have "\<dots> = take_bit 8 (drop_bit 8 w)" by (rule take_bit_eq_mask [symmetric])
  finally have "unat (drop_bit 8 (w AND 0xFF00)) = unat w div 256 mod 256"
    by (simp add: take_bit_eq_mod drop_bit_eq_div unat_div_distrib unat_mod_distrib)
  then show ?thesis using unat_u16_lt [of w] by simp
qed

lemma unat_low_byte: "unat ((w :: u16) AND 0x00FF) = unat w mod 256"
proof -
  have "(0xFF :: u16) = mask 8" by (simp add: mask_eq_exp_minus_1)
  moreover have "w AND mask 8 = take_bit 8 w" by (rule take_bit_eq_mask [symmetric])
  moreover have "take_bit 8 w = w mod 256" by (simp add: take_bit_eq_mod)
  ultimately have "w AND 0xFF = w mod 256" by simp
  then show ?thesis by (simp add: unat_mod_distrib)
qed

lemma u16_from_bytes:
  fixes w :: u16
  shows "push_bit 8 (ucast (ucast (drop_bit 8 (w AND 0xFF00)) :: u8))
    + ucast (ucast (w AND 0x00FF) :: u8) = w"
proof -
  have hi: "unat (ucast (drop_bit 8 (w AND 0xFF00)) :: u8) = unat w div 256"
    unfolding unsigned_ucast_eq unat_high_byte using unat_u16_lt [of w] by (simp add: take_bit_eq_mod)
  have lo: "unat (ucast (w AND 0x00FF) :: u8) = unat w mod 256"
    unfolding unsigned_ucast_eq unat_low_byte by (simp add: take_bit_eq_mod)
  have "ucast (ucast (drop_bit 8 (w AND 0xFF00)) :: u8) = (of_nat (unat w div 256) :: u16)"
    by (metis hi of_nat_unat)
  moreover have "ucast (ucast (w AND 0x00FF) :: u8) = (of_nat (unat w mod 256) :: u16)"
    by (metis lo of_nat_unat)
  moreover have "push_bit 8 (of_nat a) + of_nat b = (of_nat (a * 256 + b) :: u16)" for a b
    by (simp add: push_bit_eq_mult)
  ultimately show ?thesis by (simp only: div_mult_mod_eq of_nat_unat ucast_id)
qed

lemma unat_Suc_u8:
  assumes "k < 255"
  shows "unat (1 + of_nat k :: u8) = Suc k"
proof -
  have "unat (of_nat (Suc k) :: u8) = Suc k" unfolding unat_of_nat using assms by simp
  then show ?thesis by simp
qed

lemma unat_of_nat_eq: "x < 2 ^ LENGTH('a::len) \<Longrightarrow> unat (of_nat x :: 'a word) = x"
  by (simp add: unat_of_nat)

lemma unat_2p:
  assumes "n < LENGTH('a::len)" shows "unat (2 ^ n :: 'a word) = 2 ^ n"
proof -
  have "unat (of_nat (2 ^ n) :: 'a word) = 2 ^ n"
    using assms by (intro unat_of_nat_eq power_strict_increasing) simp_all
  then show ?thesis by (simp del: unat_of_nat)
qed

lemma unat_ucast_widen:
  "LENGTH('a::len) \<le> LENGTH('b::len) \<Longrightarrow> unat (ucast (x :: 'a word) :: 'b word) = unat x"
  by (simp add: unsigned_ucast_eq take_bit_nat_eq_self_iff)
    (rule less_le_trans [OF unsigned_less], rule power_increasing, simp_all)

lemma round_down_4: "unat (x AND NOT 3 :: u32) = 4 * (unat x div 4)"
proof -
  have m: "3 = (mask 2 :: u32)" by (simp add: mask_eq_exp_minus_1)
  have s: "Suc (Suc (n - 2)) = n" if "2 \<le> n" for n using that by simp
  have "x AND NOT 3 = push_bit 2 (drop_bit 2 x)"
    unfolding m by (rule bit_word_eqI) (auto simp: bit_simps s not_less)
  moreover have "unat (drop_bit 2 x) = unat x div 4" by (simp add: drop_bit_eq_div unat_div)
  moreover have "unat x div 4 * 4 < 4294967296" using unat_u32_lt [of x] by presburger
  ultimately show ?thesis by (simp add: push_bit_eq_mult unat_word_ariths)
qed

end
