(* ===== verification/Rtc_Time.thy ===== *)
theory Rtc_Time
  imports Prelude
begin

text \<open>
  The calendar arithmetic of the real-time clock, platform/source/mbed_mktime.c:
  \<open>_rtc_is_leap_year\<close>, \<open>_rtc_maketime\<close> and \<open>_rtc_localtime\<close>.
  \<open>uint32_t\<close> values are 32-bit words, so every addition wraps as in the code; the
  \<open>int\<close> fields of \<open>struct tm\<close> are integers. A null pointer argument is
  \<open>None\<close>, and a read outside the month table is the separate outcome
  \<open>Mk_undefined\<close>.
\<close>

section \<open>Data\<close>

text \<open>\<open>rtc_leap_year_support_t\<close>, platform/mbed_mktime.h.\<close>

datatype rtc_leap_year_support = RTC_FULL_LEAP_YEAR_SUPPORT | RTC_4_YEAR_LEAP_YEAR_SUPPORT

record tm =
  tm_sec :: int
  tm_min :: int
  tm_hour :: int
  tm_mday :: int
  tm_mon :: int
  tm_year :: int
  tm_wday :: int
  tm_yday :: int

datatype mk_result = Mk_false | Mk_true u32 | Mk_undefined

definition SECONDS_BY_DAY :: u32 where
  "SECONDS_BY_DAY = 24 * (60 * 60)"

definition LAST_VALID_YEAR :: int where
  "LAST_VALID_YEAR = 206"

definition EDGE_TIMESTAMP_FULL_LEAP_YEAR_SUPPORT :: u32 where
  "EDGE_TIMESTAMP_FULL_LEAP_YEAR_SUPPORT = 3220095"

definition EDGE_TIMESTAMP_4_YEAR_LEAP_YEAR_SUPPORT :: u32 where
  "EDGE_TIMESTAMP_4_YEAR_LEAP_YEAR_SUPPORT = 3133695"

text \<open>The table \<open>seconds_before_month[2][12]\<close>: first index the kind of year.\<close>

definition seconds_before_month :: "bool \<Rightarrow> u32 list" where
  "seconds_before_month leap =
     (if leap
      then map (\<lambda>d. d * SECONDS_BY_DAY)
        [0, 31, 31 + 29, 31 + 29 + 31, 31 + 29 + 31 + 30, 31 + 29 + 31 + 30 + 31,
         31 + 29 + 31 + 30 + 31 + 30, 31 + 29 + 31 + 30 + 31 + 30 + 31,
         31 + 29 + 31 + 30 + 31 + 30 + 31 + 31,
         31 + 29 + 31 + 30 + 31 + 30 + 31 + 31 + 30,
         31 + 29 + 31 + 30 + 31 + 30 + 31 + 31 + 30 + 31,
         31 + 29 + 31 + 30 + 31 + 30 + 31 + 31 + 30 + 31 + 30]
      else map (\<lambda>d. d * SECONDS_BY_DAY)
        [0, 31, 31 + 28, 31 + 28 + 31, 31 + 28 + 31 + 30, 31 + 28 + 31 + 30 + 31,
         31 + 28 + 31 + 30 + 31 + 30, 31 + 28 + 31 + 30 + 31 + 30 + 31,
         31 + 28 + 31 + 30 + 31 + 30 + 31 + 31,
         31 + 28 + 31 + 30 + 31 + 30 + 31 + 31 + 30,
         31 + 28 + 31 + 30 + 31 + 30 + 31 + 31 + 30 + 31,
         31 + 28 + 31 + 30 + 31 + 30 + 31 + 31 + 30 + 31 + 30])"

section \<open>Operations\<close>

definition rtc_is_leap_year :: "int \<Rightarrow> rtc_leap_year_support \<Rightarrow> bool" where
  "rtc_is_leap_year year leap_year_support =
     (if leap_year_support = RTC_FULL_LEAP_YEAR_SUPPORT \<and> year = 200 then False
      else year mod 4 = 0)"

text \<open>
  \<open>_rtc_maketime\<close>. \<open>time\<close> and the output pointer may be null (the boolean says
  whether the output pointer is valid); the sum is accumulated in a \<open>uint32_t\<close>.
\<close>

definition rtc_maketime :: "tm option \<Rightarrow> bool \<Rightarrow> rtc_leap_year_support \<Rightarrow> mk_result" where
  "rtc_maketime tmo seconds_ptr lys =
     (case tmo of None \<Rightarrow> Mk_false
      | Some t \<Rightarrow>
        if \<not> seconds_ptr then Mk_false
        else if tm_year t < 70 \<or> LAST_VALID_YEAR < tm_year t then Mk_false
        else if tm_mon t < 0 \<or> 11 < tm_mon t then Mk_undefined
        else
          let result = word_of_int (tm_sec t);
              result = result + word_of_int (tm_min t * 60);
              result = result + word_of_int (tm_hour t * (60 * 60));
              result = result + word_of_int ((tm_mday t - 1) * (24 * (60 * 60)));
              result = result
                + seconds_before_month (rtc_is_leap_year (tm_year t) lys) ! nat (tm_mon t)
          in
          if tm_year t = LAST_VALID_YEAR \<and>
             (lys = RTC_FULL_LEAP_YEAR_SUPPORT \<and> EDGE_TIMESTAMP_FULL_LEAP_YEAR_SUPPORT < result \<or>
              lys = RTC_4_YEAR_LEAP_YEAR_SUPPORT \<and> EDGE_TIMESTAMP_4_YEAR_LEAP_YEAR_SUPPORT < result)
          then Mk_false
          else if tm_year t > 70 then
            let count_of_leap_days = word_of_int ((tm_year t - 1) div 4 - 70 div 4);
                count_of_leap_days =
                  (if lys = RTC_FULL_LEAP_YEAR_SUPPORT \<and> tm_year t > 200
                   then count_of_leap_days - 1 else count_of_leap_days)
            in Mk_true (result
                 + (word_of_int ((tm_year t - 70) * 365) + count_of_leap_days) * SECONDS_BY_DAY)
          else Mk_true result)"

text \<open>The \<open>while (true)\<close> loop that peels whole years off the day count.\<close>

function year_loop :: "rtc_leap_year_support \<Rightarrow> int \<Rightarrow> u32 \<Rightarrow> int \<times> u32" where
  "year_loop lys year days =
     (if rtc_is_leap_year year lys \<and> 366 \<le> days then year_loop lys (year + 1) (days - 366)
      else if \<not> rtc_is_leap_year year lys \<and> 365 \<le> days
      then year_loop lys (year + 1) (days - 365)
      else (year, days))"
  by pat_completeness auto
termination
  by (relation "measure (\<lambda>(lys, year, days). unat days)") (auto intro: unat_minus_less)

declare year_loop.simps [simp del]

text \<open>The \<open>for\<close> loop over the month table: \<open>tm_mon\<close> starts at 11.\<close>

fun month_loop :: "u32 \<Rightarrow> u32 list \<Rightarrow> int \<Rightarrow> int" where
  "month_loop seconds [] i = 11"
| "month_loop seconds (b # bs) i = (if seconds < b then i - 1 else month_loop seconds bs (i + 1))"

definition localtime_fields :: "u32 \<Rightarrow> rtc_leap_year_support \<Rightarrow> tm" where
  "localtime_fields timestamp lys =
     (let seconds = timestamp;
          sec = seconds mod 60;
          seconds = seconds div 60;
          minute = seconds mod 60;
          seconds = seconds div 60;
          hour = seconds mod 24;
          seconds = seconds div 24;
          wday = (seconds + 4) mod 7;
          (year, seconds) = year_loop lys 70 seconds;
          yday = seconds;
          seconds = seconds * SECONDS_BY_DAY;
          leap = rtc_is_leap_year year lys;
          mon = month_loop seconds (seconds_before_month leap) 0;
          seconds = seconds - seconds_before_month leap ! nat mon
      in \<lparr>tm_sec = uint sec, tm_min = uint minute, tm_hour = uint hour,
          tm_mday = uint (seconds div SECONDS_BY_DAY + 1), tm_mon = mon, tm_year = year,
          tm_wday = uint wday, tm_yday = uint yday\<rparr>)"

text \<open>\<open>None\<close> is the result \<open>false\<close> for a null output pointer.\<close>

definition rtc_localtime :: "u32 \<Rightarrow> bool \<Rightarrow> rtc_leap_year_support \<Rightarrow> tm option" where
  "rtc_localtime timestamp time_info_ptr lys =
     (if \<not> time_info_ptr then None else Some (localtime_fields timestamp lys))"

section \<open>The year loop\<close>

definition year_days :: "rtc_leap_year_support \<Rightarrow> int \<Rightarrow> int" where
  "year_days lys y = (if rtc_is_leap_year y lys then 366 else 365)"

definition days_before :: "rtc_leap_year_support \<Rightarrow> int \<Rightarrow> int" where
  "days_before lys y = 365 * (y - 70) + ((y - 1) div 4 - 17)
     - (if lys = RTC_FULL_LEAP_YEAR_SUPPORT \<and> y > 200 then 1 else 0)"

lemma days_before_70: "days_before lys 70 = 0"
  by (simp add: days_before_def)

lemma days_before_Suc: "days_before lys (y + 1) = days_before lys y + year_days lys y"
proof -
  have "y div 4 = (y - 1) div 4 + (if y mod 4 = 0 then 1 else 0)" by presburger
  then show ?thesis
    by (auto simp: days_before_def year_days_def rtc_is_leap_year_def)
qed

lemma days_before_ge: "70 \<le> y \<Longrightarrow> 365 * (y - 70) - 1 \<le> days_before lys y"
  by (auto simp: days_before_def)

lemma year_loop_spec:
  assumes "year_loop lys y d = (y', r)"
  shows "days_before lys y' + uint r = days_before lys y + uint d \<and> y \<le> y' \<and> uint r < year_days lys y'"
  using assms
proof (induction lys y d arbitrary: y' r rule: year_loop.induct)
  case (1 lys y d)
  define n :: u32 where "n = (if rtc_is_leap_year y lys then 366 else 365)"
  have n: "uint n = year_days lys y" by (simp add: n_def year_days_def)
  show ?case
  proof (cases "n \<le> d")
    case True
    have "year_loop lys y d = year_loop lys (y + 1) (d - n)"
      using True
      by (cases "rtc_is_leap_year y lys") (simp_all add: year_loop.simps [of lys y d] n_def)
    with "1.prems" have "year_loop lys (y + 1) (d - n) = (y', r)" by simp
    with "1.IH" True have *: "days_before lys y' + uint r = days_before lys (y + 1) + uint (d - n)
        \<and> y + 1 \<le> y' \<and> uint r < year_days lys y'"
      by (cases "rtc_is_leap_year y lys") (simp_all add: n_def)
    have "uint (d - n) = uint d - uint n"
      using True by (simp add: word_le_def uint_sub_lem)
    with * n show ?thesis by (simp add: days_before_Suc)
  next
    case False
    then have "year_loop lys y d = (y, d)"
      by (cases "rtc_is_leap_year y lys") (simp_all add: year_loop.simps [of lys y d] n_def)
    with "1.prems" have "y' = y" "r = d" by simp_all
    moreover have "uint d < uint n" using False by (simp add: word_le_def)
    ultimately show ?thesis using n by simp
  qed
qed

lemma year_loop_total:
  obtains y r where "year_loop lys 70 (t div 60 div 60 div 24) = (y, r)"
    and "days_before lys y + uint r = uint t div 86400"
    and "70 \<le> y" and "y \<le> 206" and "uint r < year_days lys y"
proof -
  obtain y r where yr: "year_loop lys 70 (t div 60 div 60 div 24) = (y, r)"
    by (cases "year_loop lys 70 (t div 60 div 60 div 24)")
  have d: "uint (t div 60 div 60 div 24) = uint t div 86400"
    by (simp add: uint_div_distrib zdiv_zmult2_eq [symmetric])
  from year_loop_spec [OF yr] have spec: "days_before lys y + uint r = uint t div 86400"
      "70 \<le> y" "uint r < year_days lys y"
    by (simp_all add: d days_before_70)
  have "uint t < 4294967296" using uint_lt2p [of t] by simp
  with spec(1) have "days_before lys y \<le> 49710"
    using unsigned_greater_eq [of r, where ?'a = int] by linarith
  with days_before_ge [OF spec(2), of lys] have "y \<le> 206" by simp
  with yr spec that show thesis by blast
qed

section \<open>The month table\<close>

text \<open>The table in days.\<close>

definition month_days_before :: "bool \<Rightarrow> int list" where
  "month_days_before leap =
     (if leap then [0, 31, 60, 91, 121, 152, 182, 213, 244, 274, 305, 335]
      else [0, 31, 59, 90, 120, 151, 181, 212, 243, 273, 304, 334])"

lemma length_month_days_before [simp]: "length (month_days_before leap) = 12"
  by (simp add: month_days_before_def)

lemma length_seconds_before_month [simp]: "length (seconds_before_month leap) = 12"
  by (simp add: seconds_before_month_def)

lemma seconds_before_month_days:
  "seconds_before_month leap = map (\<lambda>d. word_of_int d * SECONDS_BY_DAY) (month_days_before leap)"
  by (simp add: seconds_before_month_def month_days_before_def SECONDS_BY_DAY_def)

lemma month_days_before_bounds: "d \<in> set (month_days_before leap) \<Longrightarrow> 0 \<le> d \<and> d \<le> 335"
  by (auto simp: month_days_before_def split: if_splits)

lemma month_loop_takeWhile:
  "month_loop s bs i =
     (if \<exists>b \<in> set bs. s < b then i + int (length (takeWhile (\<lambda>b. b \<le> s) bs)) - 1 else 11)"
  by (induction s bs i rule: month_loop.induct) auto

text \<open>The loop picks the last month that starts at or before \<open>r\<close> days into the year.\<close>

lemma word_day_le:
  fixes r :: u32
  assumes "uint r < 366" and "0 \<le> d" and "d \<le> 335"
  shows "word_of_int d * SECONDS_BY_DAY \<le> r * SECONDS_BY_DAY \<longleftrightarrow> d \<le> uint r"
    and "uint (r * SECONDS_BY_DAY) = uint r * 86400"
    and "uint (word_of_int d * SECONDS_BY_DAY :: u32) = d * 86400"
proof -
  show s: "uint (r * SECONDS_BY_DAY) = uint r * 86400"
    using assms(1) unsigned_greater_eq [of r, where ?'a = int]
    by (simp add: SECONDS_BY_DAY_def uint_word_ariths)
  show w: "uint (word_of_int d * SECONDS_BY_DAY :: u32) = d * 86400"
    using assms(2,3) by (simp add: SECONDS_BY_DAY_def uint_word_ariths uint_word_of_int)
  show "word_of_int d * SECONDS_BY_DAY \<le> r * SECONDS_BY_DAY \<longleftrightarrow> d \<le> uint r"
    by (simp add: word_le_def s w)
qed

lemma month_loop_spec:
  fixes r :: u32
  assumes r: "uint r < 366"
    and m: "m = month_loop (r * SECONDS_BY_DAY) (seconds_before_month leap) 0"
  shows "0 \<le> m" and "m \<le> 11" and "month_days_before leap ! nat m \<le> uint r"
    and "m < 11 \<Longrightarrow> uint r < month_days_before leap ! (nat m + 1)"
proof -
  let ?ds = "month_days_before leap"
  define k where "k = length (takeWhile (\<lambda>d. d \<le> uint r) ?ds)"
  have tw: "takeWhile (\<lambda>b. b \<le> r * SECONDS_BY_DAY) (seconds_before_month leap) =
      map (\<lambda>d. word_of_int d * SECONDS_BY_DAY) (takeWhile (\<lambda>d. d \<le> uint r) ?ds)"
    unfolding seconds_before_month_days takeWhile_map
    by (intro arg_cong [where f = "map _"] takeWhile_cong)
       (auto simp: word_day_le(1) [OF r] dest: month_days_before_bounds)
  have cmp: "r * SECONDS_BY_DAY < word_of_int d * SECONDS_BY_DAY \<longleftrightarrow> \<not> d \<le> uint r"
    if "d \<in> set ?ds" for d
    using word_day_le(1) [OF r, of d] month_days_before_bounds [OF that] by (metis not_le)
  have ex: "(\<exists>b \<in> set (seconds_before_month leap). r * SECONDS_BY_DAY < b) \<longleftrightarrow> k < 12"
  proof -
    have "(\<exists>b \<in> set (seconds_before_month leap). r * SECONDS_BY_DAY < b) \<longleftrightarrow>
        (\<exists>d \<in> set ?ds. \<not> d \<le> uint r)"
      unfolding seconds_before_month_days using cmp by auto
    also have "\<dots> \<longleftrightarrow> k \<noteq> length ?ds"
      unfolding k_def by (metis takeWhile_eq_all_conv takeWhile_eq_take take_all order_refl)
    also have "\<dots> \<longleftrightarrow> k < 12"
      using length_takeWhile_le [of "\<lambda>d. d \<le> uint r" ?ds] by (auto simp: k_def)
    finally show ?thesis .
  qed
  have k1: "1 \<le> k" by (simp add: k_def month_days_before_def)
  have k12: "k \<le> 12" using length_takeWhile_le [of "\<lambda>d. d \<le> uint r" ?ds] by (simp add: k_def)
  have mk: "m = int k - 1"
    using m ex k12 by (auto simp: month_loop_takeWhile tw k_def)
  from k1 mk show "0 \<le> m" by simp
  from k12 mk show "m \<le> 11" by simp
  have "takeWhile (\<lambda>d. d \<le> uint r) ?ds ! (k - 1) \<in> set (takeWhile (\<lambda>d. d \<le> uint r) ?ds)"
    using k1 by (intro nth_mem) (simp add: k_def)
  then have "?ds ! (k - 1) \<le> uint r"
    using k1 by (auto dest!: set_takeWhileD simp: takeWhile_nth k_def)
  then show "?ds ! nat m \<le> uint r" using mk k1 by (simp add: nat_diff_distrib)
  assume "m < 11"
  then have "k < length ?ds" using mk by simp
  then have "\<not> ?ds ! k \<le> uint r" unfolding k_def by (rule nth_length_takeWhile)
  then show "uint r < ?ds ! (nat m + 1)" using mk k1 by (simp add: nat_diff_distrib)
qed

section \<open>The calendar specification\<close>

text \<open>
  What a broken-down time means: the days of the whole years since 1970, of the whole
  months, the day of the month, and the time of day. The length of a year is the
  Gregorian one for full leap-year support and a leap year every four years otherwise.
\<close>

definition gregorian_leap :: "int \<Rightarrow> bool" where
  "gregorian_leap y \<longleftrightarrow> y mod 4 = 0 \<and> (y mod 100 \<noteq> 0 \<or> y mod 400 = 0)"

definition spec_leap :: "rtc_leap_year_support \<Rightarrow> int \<Rightarrow> bool" where
  "spec_leap lys y = (case lys of RTC_FULL_LEAP_YEAR_SUPPORT \<Rightarrow> gregorian_leap (1900 + y)
     | RTC_4_YEAR_LEAP_YEAR_SUPPORT \<Rightarrow> (1900 + y) mod 4 = 0)"

definition month_lengths :: "bool \<Rightarrow> int list" where
  "month_lengths leap = [31, if leap then 29 else 28, 31, 30, 31, 30, 31, 31, 30, 31, 30, 31]"

definition spec_year_length :: "rtc_leap_year_support \<Rightarrow> int \<Rightarrow> int" where
  "spec_year_length lys y = (if spec_leap lys y then 366 else 365)"

definition spec_yday :: "rtc_leap_year_support \<Rightarrow> tm \<Rightarrow> int" where
  "spec_yday lys t =
     sum_list (take (nat (tm_mon t)) (month_lengths (spec_leap lys (tm_year t)))) + (tm_mday t - 1)"

definition spec_days :: "rtc_leap_year_support \<Rightarrow> tm \<Rightarrow> int" where
  "spec_days lys t = sum (spec_year_length lys) {70..<tm_year t} + spec_yday lys t"

definition spec_seconds :: "rtc_leap_year_support \<Rightarrow> tm \<Rightarrow> int" where
  "spec_seconds lys t =
     ((spec_days lys t * 24 + tm_hour t) * 60 + tm_min t) * 60 + tm_sec t"

definition valid_tm :: "rtc_leap_year_support \<Rightarrow> tm \<Rightarrow> bool" where
  "valid_tm lys t \<longleftrightarrow> 70 \<le> tm_year t \<and> tm_year t \<le> 206
     \<and> 0 \<le> tm_mon t \<and> tm_mon t \<le> 11
     \<and> 1 \<le> tm_mday t \<and> tm_mday t \<le> month_lengths (spec_leap lys (tm_year t)) ! nat (tm_mon t)
     \<and> 0 \<le> tm_hour t \<and> tm_hour t < 24 \<and> 0 \<le> tm_min t \<and> tm_min t < 60
     \<and> 0 \<le> tm_sec t \<and> tm_sec t < 60"

lemma leap_years_table:
  "\<forall>y \<in> set [70..206]. \<forall>lys \<in> {RTC_FULL_LEAP_YEAR_SUPPORT, RTC_4_YEAR_LEAP_YEAR_SUPPORT}.
     rtc_is_leap_year y lys = spec_leap lys y"
  by code_simp

lemma is_leap_year_spec:
  assumes "70 \<le> y" and "y \<le> 206"
  shows "rtc_is_leap_year y lys = spec_leap lys y"
proof -
  have "y \<in> set [70..206]" unfolding set_upto using assms by (rule atLeastAtMost_iff [THEN iffD2, OF conjI])
  moreover have "lys \<in> {RTC_FULL_LEAP_YEAR_SUPPORT, RTC_4_YEAR_LEAP_YEAR_SUPPORT}"
    by (cases lys) simp_all
  ultimately show ?thesis using leap_years_table by blast
qed

lemma days_before_spec:
  assumes "70 \<le> y" and "y \<le> 207"
  shows "days_before lys y = sum (spec_year_length lys) {70..<y}"
  using assms
proof (induction y rule: int_ge_induct)
  case base
  then show ?case by (simp add: days_before_70)
next
  case (step i)
  have "{70..<i + 1} = insert i {70..<i}" using step.hyps by auto
  then have "sum (spec_year_length lys) {70..<i + 1}
      = spec_year_length lys i + sum (spec_year_length lys) {70..<i}" by simp
  moreover have "year_days lys i = spec_year_length lys i"
    using step by (simp add: year_days_def spec_year_length_def is_leap_year_spec)
  ultimately show ?case using step by (simp add: days_before_Suc)
qed

lemma month_table_sums:
  "\<forall>leap \<in> {False, True}. \<forall>i \<in> set [0..<12].
     month_days_before leap ! i = sum_list (take i (month_lengths leap)) \<and>
     (i < 11 \<longrightarrow> month_days_before leap ! (i + 1)
        = month_days_before leap ! i + month_lengths leap ! i) \<and>
     month_days_before leap ! 11 + month_lengths leap ! 11 = (if leap then 366 else 365)"
  by code_simp

lemma month_days_before_lengths:
  assumes "0 \<le> m" and "m \<le> 11"
  shows "month_days_before leap ! nat m = sum_list (take (nat m) (month_lengths leap))"
    and "m < 11 \<Longrightarrow> month_days_before leap ! (nat m + 1)
       = month_days_before leap ! nat m + month_lengths leap ! nat m"
    and "month_days_before leap ! 11 + month_lengths leap ! 11 = (if leap then 366 else 365)"
proof -
  have "nat m \<in> set [0..<12]" and "leap \<in> {False, True}" using assms by auto
  then have "month_days_before leap ! nat m = sum_list (take (nat m) (month_lengths leap)) \<and>
     (nat m < 11 \<longrightarrow> month_days_before leap ! (nat m + 1)
        = month_days_before leap ! nat m + month_lengths leap ! nat m) \<and>
     month_days_before leap ! 11 + month_lengths leap ! 11 = (if leap then 366 else 365)"
    using month_table_sums by blast
  then show "month_days_before leap ! nat m = sum_list (take (nat m) (month_lengths leap))"
    and "m < 11 \<Longrightarrow> month_days_before leap ! (nat m + 1)
       = month_days_before leap ! nat m + month_lengths leap ! nat m"
    and "month_days_before leap ! 11 + month_lengths leap ! 11 = (if leap then 366 else 365)"
    by simp_all
qed

section \<open>Local time is the calendar date\<close>

lemma localtime_fields_eq:
  assumes yr: "year_loop lys 70 (t div 60 div 60 div 24) = (y, r)" and r: "uint r < 366"
    and m: "m = month_loop (r * SECONDS_BY_DAY) (seconds_before_month (rtc_is_leap_year y lys)) 0"
  shows "localtime_fields t lys =
    \<lparr>tm_sec = uint t mod 60, tm_min = uint t div 60 mod 60, tm_hour = uint t div 3600 mod 24,
     tm_mday = uint r - month_days_before (rtc_is_leap_year y lys) ! nat m + 1, tm_mon = m,
     tm_year = y, tm_wday = (uint t div 86400 + 4) mod 7, tm_yday = uint r\<rparr>"
proof -
  let ?leap = "rtc_is_leap_year y lys"
  let ?d = "month_days_before ?leap ! nat m"
  note mb = month_loop_spec [OF r m]
  have "?d \<in> set (month_days_before ?leap)" using mb(1,2) by (intro nth_mem) simp
  note db = month_days_before_bounds [OF this]
  have tab: "seconds_before_month ?leap ! nat m = word_of_int ?d * SECONDS_BY_DAY"
    using mb(1,2) by (simp add: seconds_before_month_days)
  have sub: "uint (r * SECONDS_BY_DAY - word_of_int ?d * SECONDS_BY_DAY) = (uint r - ?d) * 86400"
    using mb(3) db word_day_le(2,3) [OF r, of ?d]
    by (simp add: uint_sub_lem [THEN iffD1] algebra_simps)
  have day: "uint ((r * SECONDS_BY_DAY - word_of_int ?d * SECONDS_BY_DAY) div SECONDS_BY_DAY)
      = uint r - ?d"
    unfolding uint_div_distrib sub by (simp add: SECONDS_BY_DAY_def)
  have mday: "uint ((r * SECONDS_BY_DAY - word_of_int ?d * SECONDS_BY_DAY) div SECONDS_BY_DAY + 1)
      = uint r - ?d + 1"
    using r db mb(3) by (simp add: uint_word_ariths day)
  have "0 \<le> uint t" and "uint t < 4294967296" using uint_lt2p [of t] by simp_all
  then have "0 \<le> uint t div 86400 + 4" and "uint t div 86400 + 4 < 4294967296"
    by (simp_all add: add_nonneg_nonneg pos_imp_zdiv_nonneg_iff)
  then have wd4: "uint (t div 60 div 60 div 24 + 4) = uint t div 86400 + 4"
    by (simp add: uint_div_distrib uint_word_ariths zdiv_zmult2_eq [symmetric])
  show ?thesis
    by (simp add: localtime_fields_def Let_def yr m [symmetric] tab mday wd4
        uint_mod_distrib uint_div_distrib zdiv_zmult2_eq [symmetric])
qed

lemma seconds_recombine:
  fixes T :: int
  shows "((T div 86400 * 24 + T div 3600 mod 24) * 60 + T div 60 mod 60) * 60 + T mod 60 = T"
proof -
  have "T div 86400 * 24 + T div 3600 mod 24 = T div 3600"
    using div_mult_mod_eq [of "T div 3600" 24] by (simp add: zdiv_zmult2_eq [symmetric])
  moreover have "T div 3600 * 60 + T div 60 mod 60 = T div 60"
    using div_mult_mod_eq [of "T div 60" 60] by (simp add: zdiv_zmult2_eq [symmetric])
  moreover have "T div 60 * 60 + T mod 60 = T" by (rule div_mult_mod_eq)
  ultimately show ?thesis by (simp only:)
qed

lemma localtime_valid:
  "valid_tm lys (localtime_fields t lys) \<and> spec_seconds lys (localtime_fields t lys) = uint t
   \<and> tm_yday (localtime_fields t lys) = spec_yday lys (localtime_fields t lys)
   \<and> tm_wday (localtime_fields t lys) = (spec_days lys (localtime_fields t lys) + 4) mod 7"
proof -
  obtain y r where yr: "year_loop lys 70 (t div 60 div 60 div 24) = (y, r)"
    and days: "days_before lys y + uint r = uint t div 86400"
    and y: "70 \<le> y" "y \<le> 206" and ry: "uint r < year_days lys y"
    by (rule year_loop_total)
  let ?leap = "rtc_is_leap_year y lys"
  define m where "m = month_loop (r * SECONDS_BY_DAY) (seconds_before_month ?leap) 0"
  have r: "uint r < 366" using ry by (auto simp: year_days_def split: if_splits)
  note F = localtime_fields_eq [OF yr r m_def]
  note mb = month_loop_spec [OF r m_def]
  note ml = month_days_before_lengths [OF mb(1,2), of ?leap]
  have leap: "spec_leap lys y = ?leap" by (rule is_leap_year_spec [OF y, symmetric])
  have yd: "spec_yday lys (localtime_fields t lys) = uint r"
    by (simp add: F spec_yday_def leap ml(1) [symmetric])
  have sd: "spec_days lys (localtime_fields t lys) = uint t div 86400"
    using days days_before_spec [of y lys] y by (simp add: spec_days_def yd) (simp add: F)
  have md: "uint r - month_days_before ?leap ! nat m + 1 \<le> month_lengths ?leap ! nat m"
  proof (cases "m < 11")
    case True
    with mb(4) ml(2) show ?thesis by simp
  next
    case False
    then have "nat m = 11" using mb(2) by simp
    with ml(3) ry show ?thesis by (simp add: year_days_def split: if_splits)
  qed
  have "valid_tm lys (localtime_fields t lys)"
    using y mb(1-3) md by (simp add: F valid_tm_def leap)
  moreover have "tm_yday (localtime_fields t lys) = uint r"
    and "tm_wday (localtime_fields t lys) = (uint t div 86400 + 4) mod 7"
    by (simp_all add: F)
  moreover have "spec_seconds lys (localtime_fields t lys) = uint t"
    unfolding spec_seconds_def sd
    by (simp only: F tm.select_convs seconds_recombine)
  ultimately show ?thesis by (simp only: yd sd simp_thms)
qed

section \<open>Making a timestamp\<close>

text \<open>Seconds since the start of the year, as the code accumulates them.\<close>

definition year_seconds :: "rtc_leap_year_support \<Rightarrow> tm \<Rightarrow> int" where
  "year_seconds lys t = ((spec_yday lys t * 24 + tm_hour t) * 60 + tm_min t) * 60 + tm_sec t"

lemma spec_seconds_split:
  assumes "valid_tm lys t"
  shows "spec_seconds lys t = days_before lys (tm_year t) * 86400 + year_seconds lys t"
proof -
  have "days_before lys (tm_year t) = sum (spec_year_length lys) {70..<tm_year t}"
    using assms by (intro days_before_spec) (simp_all add: valid_tm_def)
  then show ?thesis
    by (simp add: spec_seconds_def year_seconds_def spec_days_def algebra_simps)
qed

lemma spec_yday_bounds:
  assumes "valid_tm lys t"
  shows "0 \<le> spec_yday lys t" and "spec_yday lys t < spec_year_length lys (tm_year t)"
    and "month_days_before (spec_leap lys (tm_year t)) ! nat (tm_mon t) \<le> spec_yday lys t"
    and "tm_mon t < 11 \<Longrightarrow> spec_yday lys t
       < month_days_before (spec_leap lys (tm_year t)) ! (nat (tm_mon t) + 1)"
proof -
  let ?leap = "spec_leap lys (tm_year t)"
  have mon: "0 \<le> tm_mon t" "tm_mon t \<le> 11"
    and d: "1 \<le> tm_mday t" "tm_mday t \<le> month_lengths ?leap ! nat (tm_mon t)"
    using assms by (simp_all add: valid_tm_def)
  note ml = month_days_before_lengths [OF mon, of ?leap]
  let ?b = "\<lambda>i. month_days_before ?leap ! i"
  have mem: "?b i \<in> set (month_days_before ?leap)" if "i < 12" for i
    using that by (intro nth_mem) simp
  have yd: "spec_yday lys t = ?b (nat (tm_mon t)) + (tm_mday t - 1)"
    by (simp add: spec_yday_def ml(1))
  show "0 \<le> spec_yday lys t"
    using month_days_before_bounds [OF mem [of "nat (tm_mon t)"]] mon d yd by simp
  show "?b (nat (tm_mon t)) \<le> spec_yday lys t" using d yd by simp
  show "tm_mon t < 11 \<Longrightarrow> spec_yday lys t < ?b (nat (tm_mon t) + 1)"
    using ml(2) d yd by simp
  show "spec_yday lys t < spec_year_length lys (tm_year t)"
  proof (cases "tm_mon t < 11")
    case True
    then have "?b (nat (tm_mon t) + 1) \<le> 335"
      using month_days_before_bounds [OF mem [of "nat (tm_mon t) + 1"]] mon by simp
    with ml(2) True d yd have "spec_yday lys t < 365" by simp
    then show ?thesis by (simp add: spec_year_length_def)
  next
    case False
    then have "nat (tm_mon t) = 11" using mon by simp
    with ml(3) d yd show ?thesis by (simp add: spec_year_length_def split: if_splits)
  qed
qed

lemma year_seconds_bounds:
  assumes "valid_tm lys t"
  shows "0 \<le> year_seconds lys t" and "year_seconds lys t < 366 * 86400"
  using spec_yday_bounds(1,2) [OF assms] assms
  by (simp_all add: year_seconds_def valid_tm_def spec_year_length_def split: if_splits)

lemma days_before_word:
  "70 < y \<Longrightarrow> word_of_int ((y - 70) * 365)
     + (if lys = RTC_FULL_LEAP_YEAR_SUPPORT \<and> y > 200
        then word_of_int ((y - 1) div 4 - 70 div 4) - 1
        else word_of_int ((y - 1) div 4 - 70 div 4)) = (word_of_int (days_before lys y) :: u32)"
  by (simp add: days_before_def algebra_simps)

lemma days_before_206:
  "days_before lys 206 * 86400 + 4294967295 - days_before lys 206 * 86400 = (4294967295 :: int)"
  "4294967295 - days_before RTC_FULL_LEAP_YEAR_SUPPORT 206 * 86400 = 3220095"
  "4294967295 - days_before RTC_4_YEAR_LEAP_YEAR_SUPPORT 206 * 86400 = 3133695"
  by (simp_all add: days_before_def)

lemma days_before_le: "y \<le> 205 \<Longrightarrow> days_before lys y \<le> 49309"
  by (auto simp: days_before_def)

lemma maketime_valid:
  assumes v: "valid_tm lys t"
  shows "rtc_maketime (Some t) True lys =
    (if spec_seconds lys t < 2 ^ 32 then Mk_true (word_of_int (spec_seconds lys t)) else Mk_false)"
proof -
  let ?y = "tm_year t"
  let ?Y = "year_seconds lys t"
  let ?leap = "rtc_is_leap_year ?y lys"
  have y: "70 \<le> ?y" "?y \<le> 206" and mon: "0 \<le> tm_mon t" "tm_mon t \<le> 11"
    using v by (simp_all add: valid_tm_def)
  note Y = year_seconds_bounds [OF v]
  have tab: "seconds_before_month ?leap ! nat (tm_mon t)
      = word_of_int (month_days_before (spec_leap lys ?y) ! nat (tm_mon t)) * SECONDS_BY_DAY"
    using mon by (simp add: seconds_before_month_days is_leap_year_spec [OF y])
  have R: "word_of_int (tm_sec t) + word_of_int (tm_min t * 60) + word_of_int (tm_hour t * (60 * 60))
      + word_of_int ((tm_mday t - 1) * (24 * (60 * 60))) + seconds_before_month ?leap ! nat (tm_mon t)
      = (word_of_int ?Y :: u32)"
    unfolding tab month_days_before_lengths(1) [OF mon]
    by (simp add: year_seconds_def spec_yday_def SECONDS_BY_DAY_def algebra_simps)
  have uR: "uint (word_of_int ?Y :: u32) = ?Y"
    using Y by (simp add: uint_word_of_int)
  let ?E = "lys = RTC_FULL_LEAP_YEAR_SUPPORT \<and> EDGE_TIMESTAMP_FULL_LEAP_YEAR_SUPPORT < (word_of_int ?Y :: u32) \<or>
      lys = RTC_4_YEAR_LEAP_YEAR_SUPPORT \<and> EDGE_TIMESTAMP_4_YEAR_LEAP_YEAR_SUPPORT < (word_of_int ?Y :: u32)"
  have edge: "?E \<longleftrightarrow> 4294967295 < days_before lys 206 * 86400 + ?Y"
    using days_before_206(2,3) uR
    by (cases lys) (simp_all add: EDGE_TIMESTAMP_FULL_LEAP_YEAR_SUPPORT_def
        EDGE_TIMESTAMP_4_YEAR_LEAP_YEAR_SUPPORT_def word_less_def)
  have total: "word_of_int ?Y + word_of_int (days_before lys ?y) * SECONDS_BY_DAY
      = (word_of_int (spec_seconds lys t) :: u32)"
    by (simp add: spec_seconds_split [OF v] SECONDS_BY_DAY_def)
  have M: "rtc_maketime (Some t) True lys =
     (if ?y = LAST_VALID_YEAR \<and> ?E then Mk_false
      else if 70 < ?y then Mk_true (word_of_int ?Y + (word_of_int ((?y - 70) * 365) +
        (if lys = RTC_FULL_LEAP_YEAR_SUPPORT \<and> ?y > 200
         then word_of_int ((?y - 1) div 4 - 70 div 4) - 1
         else word_of_int ((?y - 1) div 4 - 70 div 4))) * SECONDS_BY_DAY)
      else Mk_true (word_of_int ?Y))"
    using y mon unfolding rtc_maketime_def Let_def option.case R
    by (simp add: LAST_VALID_YEAR_def)
  have cond: "?y = LAST_VALID_YEAR \<and> ?E \<longleftrightarrow> \<not> spec_seconds lys t < 2 ^ 32"
  proof (cases "?y = 206")
    case True
    then show ?thesis using edge by (auto simp: LAST_VALID_YEAR_def spec_seconds_split [OF v])
  next
    case False
    then have "days_before lys ?y \<le> 49309" using y by (intro days_before_le) simp
    then have "spec_seconds lys t < 2 ^ 32" using Y(2) by (simp add: spec_seconds_split [OF v])
    with False show ?thesis by (simp add: LAST_VALID_YEAR_def)
  qed
  show ?thesis
  proof (cases "70 < ?y")
    case True
    show ?thesis unfolding M cond days_before_word [OF True] total using True by simp
  next
    case False
    then have "spec_seconds lys t = ?Y"
      using y by (simp add: spec_seconds_split [OF v] days_before_70)
    then show ?thesis unfolding M cond using False by simp
  qed
qed

section \<open>Uniqueness of the broken-down time\<close>

lemma days_before_mono: "a \<le> b \<Longrightarrow> days_before lys a \<le> days_before lys b"
proof (induction b rule: int_ge_induct)
  case base
  then show ?case by simp
next
  case (step i)
  then show ?case by (simp add: days_before_Suc year_days_def)
qed

lemma month_days_before_mono:
  "\<forall>leap \<in> {False, True}. \<forall>j \<in> set [0..<12]. \<forall>i \<in> set [0..<j].
     month_days_before leap ! (i + 1) \<le> month_days_before leap ! j"
  by code_simp

lemma spec_year_unique:
  assumes s: "valid_tm lys s" and t: "valid_tm lys t" and eq: "spec_days lys s = spec_days lys t"
    and less: "tm_year s < tm_year t"
  shows False
proof -
  have d: "spec_days lys u = days_before lys (tm_year u) + spec_yday lys u" if "valid_tm lys u" for u
    using that days_before_spec [of "tm_year u" lys] by (simp add: spec_days_def valid_tm_def)
  have "year_days lys (tm_year s) = spec_year_length lys (tm_year s)"
    using s by (simp add: year_days_def spec_year_length_def is_leap_year_spec valid_tm_def)
  then have "spec_days lys s < days_before lys (tm_year s + 1)"
    using d [OF s] spec_yday_bounds(2) [OF s] by (simp add: days_before_Suc)
  also have "\<dots> \<le> days_before lys (tm_year t)" using less by (intro days_before_mono) simp
  also have "\<dots> \<le> spec_days lys t" using d [OF t] spec_yday_bounds(1) [OF t] by simp
  finally show False using eq by simp
qed

lemma spec_month_unique:
  assumes s: "valid_tm lys s" and t: "valid_tm lys t" and y: "tm_year s = tm_year t"
    and eq: "spec_yday lys s = spec_yday lys t" and less: "tm_mon s < tm_mon t"
  shows False
proof -
  let ?leap = "spec_leap lys (tm_year t)"
  have m: "0 \<le> tm_mon s" "tm_mon t \<le> 11" using s t by (simp_all add: valid_tm_def)
  then have i: "nat (tm_mon s) \<in> set [0..<nat (tm_mon t)]" and j: "nat (tm_mon t) \<in> set [0..<12]"
    using less by auto
  have "?leap \<in> {False, True}" by simp
  with i j have "month_days_before ?leap ! (nat (tm_mon s) + 1) \<le> month_days_before ?leap ! nat (tm_mon t)"
    using month_days_before_mono by blast
  moreover have "spec_yday lys s < month_days_before ?leap ! (nat (tm_mon s) + 1)"
    using spec_yday_bounds(4) [OF s] less m y by simp
  moreover have "month_days_before ?leap ! nat (tm_mon t) \<le> spec_yday lys t"
    by (rule spec_yday_bounds(3) [OF t])
  ultimately show False using eq by simp
qed

lemma base_60_unique:
  fixes a b x y :: int
  assumes "a * n + x = b * n + y" and "0 \<le> x" "x < n" "0 \<le> y" "y < n"
  shows "a = b \<and> x = y"
proof -
  have "(a * n + x) div n = a" and "(b * n + y) div n = b"
    using assms(2-5) by simp_all
  then have "a = b" using assms(1) by metis
  with assms(1) show ?thesis by simp
qed

lemma spec_seconds_unique:
  assumes s: "valid_tm lys s" and t: "valid_tm lys t" and eq: "spec_seconds lys s = spec_seconds lys t"
  shows "tm_sec s = tm_sec t \<and> tm_min s = tm_min t \<and> tm_hour s = tm_hour t
    \<and> tm_mday s = tm_mday t \<and> tm_mon s = tm_mon t \<and> tm_year s = tm_year t"
proof -
  have vs: "0 \<le> tm_sec u" "tm_sec u < 60" "0 \<le> tm_min u" "tm_min u < 60"
    "0 \<le> tm_hour u" "tm_hour u < 24" if "valid_tm lys u" for u
    using that by (simp_all add: valid_tm_def)
  have 1: "(spec_days lys s * 24 + tm_hour s) * 60 + tm_min s
      = (spec_days lys t * 24 + tm_hour t) * 60 + tm_min t \<and> tm_sec s = tm_sec t"
    using eq vs(1,2) [OF s] vs(1,2) [OF t] unfolding spec_seconds_def by (rule base_60_unique)
  have 2: "spec_days lys s * 24 + tm_hour s = spec_days lys t * 24 + tm_hour t
      \<and> tm_min s = tm_min t"
    by (rule base_60_unique [OF conjunct1 [OF 1] vs(3,4) [OF s] vs(3,4) [OF t]])
  have 3: "spec_days lys s = spec_days lys t \<and> tm_hour s = tm_hour t"
    by (rule base_60_unique [OF conjunct1 [OF 2] vs(5,6) [OF s] vs(5,6) [OF t]])
  have y: "tm_year s = tm_year t"
    using spec_year_unique [OF s t] spec_year_unique [OF t s] 3 by (metis linorder_neqE)
  then have yd: "spec_yday lys s = spec_yday lys t" using 3 by (simp add: spec_days_def)
  have m: "tm_mon s = tm_mon t"
    using spec_month_unique [OF s t y yd] spec_month_unique [OF t s] y yd by (metis linorder_neqE)
  have "tm_mday s = tm_mday t" using yd y m by (simp add: spec_yday_def)
  with 1 2 3 y m show ?thesis by simp
qed

section \<open>Properties\<close>

text \<open>
  C22: \<open>_rtc_localtime\<close> turns every 32-bit timestamp into a well-formed calendar date
  that denotes exactly that many seconds since 1970 under the chosen leap-year rule (the
  Gregorian rule for full support), with the right day of the year and the right weekday.
\<close>

theorem rtc_localtime_calendar:
  "\<exists>t. rtc_localtime timestamp True lys = Some t \<and> valid_tm lys t
     \<and> spec_seconds lys t = uint timestamp
     \<and> tm_yday t = spec_yday lys t \<and> tm_wday t = (spec_days lys t + 4) mod 7"
  using localtime_valid [of lys timestamp] by (simp add: rtc_localtime_def)

text \<open>
  C21: \<open>_rtc_maketime\<close> inverts \<open>_rtc_localtime\<close> on the whole 32-bit range, in both
  leap-year modes: no timestamp is rejected by the upper-bound check and none comes back
  changed.
\<close>

theorem rtc_maketime_localtime:
  "map_option (\<lambda>t. rtc_maketime (Some t) True lys) (rtc_localtime timestamp True lys)
     = Some (Mk_true timestamp)"
proof -
  note L = localtime_valid [of lys timestamp]
  have "uint timestamp < 2 ^ 32" using uint_lt2p [of timestamp] by simp
  then show ?thesis
    using maketime_valid [OF conjunct1 [OF L]] L by (simp add: rtc_localtime_def)
qed

text \<open>
  C23: on a well-formed date \<open>_rtc_maketime\<close> returns the number of seconds it denotes
  exactly when that number fits 32 bits, and fails otherwise: the two edge constants are the
  right ones and no intermediate \<open>uint32_t\<close> sum wraps.
\<close>

theorem rtc_maketime_exact:
  assumes "valid_tm lys t"
  shows "rtc_maketime (Some t) True lys =
    (if spec_seconds lys t < 2 ^ 32 then Mk_true (word_of_int (spec_seconds lys t)) else Mk_false)"
  by (rule maketime_valid [OF assms])

theorem rtc_maketime_exact_witness:
  "rtc_maketime (Some \<lparr>tm_sec = 16, tm_min = 28, tm_hour = 6, tm_mday = 7, tm_mon = 1, tm_year = 206,
      tm_wday = 0, tm_yday = 37\<rparr>) True RTC_FULL_LEAP_YEAR_SUPPORT = Mk_false"
proof -
  let ?t = "\<lparr>tm_sec = 16, tm_min = 28, tm_hour = 6, tm_mday = 7, tm_mon = 1, tm_year = 206,
      tm_wday = 0, tm_yday = 37\<rparr>"
  have v: "valid_tm RTC_FULL_LEAP_YEAR_SUPPORT ?t" by code_simp
  have "spec_seconds RTC_FULL_LEAP_YEAR_SUPPORT ?t = 2 ^ 32"
    using spec_seconds_split [OF v]
    by (simp add: year_seconds_def days_before_def spec_yday_def month_lengths_def)
  then show ?thesis using rtc_maketime_exact [OF v] by simp
qed

text \<open>
  C20: converting a well-formed date to a timestamp and back gives the same date, hour,
  minute and second.
\<close>

theorem rtc_localtime_maketime:
  assumes "valid_tm lys t" and "rtc_maketime (Some t) True lys = Mk_true timestamp"
    and "rtc_localtime timestamp True lys = Some u"
  shows "tm_sec u = tm_sec t \<and> tm_min u = tm_min t \<and> tm_hour u = tm_hour t
    \<and> tm_mday u = tm_mday t \<and> tm_mon u = tm_mon t \<and> tm_year u = tm_year t"
proof -
  have s: "spec_seconds lys t < 2 ^ 32" "timestamp = word_of_int (spec_seconds lys t)"
    using maketime_valid [OF assms(1)] assms(2) by (simp_all split: if_splits)
  have "0 \<le> days_before lys (tm_year t)"
    using days_before_mono [of 70 "tm_year t" lys] assms(1)
    by (simp add: days_before_70 valid_tm_def)
  then have "0 \<le> spec_seconds lys t"
    using year_seconds_bounds(1) [OF assms(1)] by (simp add: spec_seconds_split [OF assms(1)])
  with s have "uint timestamp = spec_seconds lys t" by (simp add: uint_word_of_int)
  moreover have u: "u = localtime_fields timestamp lys"
    using assms(3) by (simp add: rtc_localtime_def)
  ultimately have "valid_tm lys u" and "spec_seconds lys u = spec_seconds lys t"
    using localtime_valid [of lys timestamp] by auto
  then show ?thesis using assms(1) by (intro spec_seconds_unique)
qed

theorem rtc_localtime_maketime_witness:
  "\<exists>u. rtc_localtime 951782400 True RTC_FULL_LEAP_YEAR_SUPPORT = Some u
     \<and> tm_mday u = 29 \<and> tm_mon u = 1 \<and> tm_year u = 100"
proof -
  let ?t = "\<lparr>tm_sec = 0, tm_min = 0, tm_hour = 0, tm_mday = 29, tm_mon = 1, tm_year = 100,
      tm_wday = 2, tm_yday = 59\<rparr>"
  have v: "valid_tm RTC_FULL_LEAP_YEAR_SUPPORT ?t" by code_simp
  have m: "rtc_maketime (Some ?t) True RTC_FULL_LEAP_YEAR_SUPPORT = Mk_true 951782400"
    by code_simp
  obtain u where u: "rtc_localtime 951782400 True RTC_FULL_LEAP_YEAR_SUPPORT = Some u"
    by (simp add: rtc_localtime_def)
  from rtc_localtime_maketime [OF v m u] u show ?thesis by simp
qed

end
