(* ===== verification/Binary_Float.thy ===== *)
theory Binary_Float
  imports Prelude
begin

text \<open>
  IEEE 754 binary floating point as the firmware uses it. A finite \<open>float\<close> or
  \<open>double\<close> is represented by its value, a rational; an operation computes the exact
  result and rounds it to nearest, ties to even, with the precision and the least exponent of
  the format. Overflow, infinities and NaNs are outside the model: every value the firmware
  computes is far below the largest finite \<open>float\<close>.
\<close>

text \<open>The exponent of the leading binary digit of a positive integer.\<close>

function ilog :: "int \<Rightarrow> int" where
  "ilog n = (if n < 2 then 0 else 1 + ilog (n div 2))"
  by pat_completeness auto
termination
  by (relation "measure nat") auto

declare ilog.simps [simp del]

text \<open>The exponent of the leading binary digit of the positive fraction \<open>n / d\<close>.\<close>

definition frac_exp :: "int \<Rightarrow> int \<Rightarrow> int" where
  "frac_exp n d = (if d \<le> n then ilog (n div d) else - (1 + ilog ((d - 1) div n)))"

text \<open>Division rounded to nearest, ties to even.\<close>

definition div_even :: "int \<Rightarrow> int \<Rightarrow> int" where
  "div_even n d = (let q = n div d; r = 2 * (n mod d) in
     if r < d then q else if d < r then q + 1 else if even q then q else q + 1)"

definition round_float :: "int \<Rightarrow> int \<Rightarrow> rat \<Rightarrow> rat" where
  "round_float p emin x = (let (n, d) = quotient_of x in
     if n = 0 then 0
     else let e = max (frac_exp \<bar>n\<bar> d - (p - 1)) emin in
       if 0 \<le> e then of_int (div_even n (d * 2 ^ nat e) * 2 ^ nat e)
       else of_int (div_even (n * 2 ^ nat (- e)) d) / of_int (2 ^ nat (- e)))"

text \<open>\<open>float\<close> is binary32, \<open>double\<close> is binary64.\<close>

definition f32 :: "rat \<Rightarrow> rat" where
  "f32 = round_float 24 (-149)"

definition f64 :: "rat \<Rightarrow> rat" where
  "f64 = round_float 53 (-1074)"

text \<open>Conversion of a non-negative floating value to an unsigned byte truncates.\<close>

definition float_to_u8 :: "rat \<Rightarrow> u8" where
  "float_to_u8 x = word_of_int \<lfloor>x\<rfloor>"

lemma f32_0 [simp]: "f32 0 = 0"
  by (simp add: f32_def round_float_def)

lemma f32_1 [simp]: "f32 1 = 1"
  by code_simp

lemma f64_1 [simp]: "f64 1 = 1"
  by code_simp

text \<open>
  The rounding of the literals and tenths the firmware uses, evaluated once.
\<close>

lemma f64_one_fifth: "f64 (1 / 5) = 3602879701896397 / 18014398509481984"
  by code_simp

lemma f32_one_fifth: "f32 (f64 (1 / 5)) = 13421773 / 67108864"
  by code_simp

end
