(* ===== verification/Light_Modes.thy ===== *)
theory Light_Modes
  imports Binary_Float
begin

text \<open>
  The sources of a dimming level under lib/: the hourly curves (DimmingCurves), the on/off
  window (OnOffByTime), the demonstration ramp (DimmingDemo), the photocell with its
  hysteresis (PhotoCell), and the output stage (LightOutput). Each class is a record of its
  data members, each member function a definition.
\<close>

section \<open>DimmingCurves\<close>

record dimming_curves =
  currentCurve :: u8
  staticCurves :: u8

text \<open>\<open>DimmingCurves::curves[][12]\<close>: two hours per byte, the even hour in the low nibble.\<close>

definition curves :: "u8 list list" where
  "curves =
    [[0x46, 0x44, 0x44, 0xA6, 0x00, 0x00, 0x00, 0x00, 0x00, 0x80, 0xAA, 0x8A],
     [0x33, 0x33, 0x33, 0xA5, 0x00, 0x00, 0x00, 0x00, 0x00, 0x80, 0xAA, 0x58],
     [0x55, 0x55, 0x55, 0xA8, 0x00, 0x00, 0x00, 0x00, 0x00, 0x80, 0xAA, 0x88]]"

definition selectCurve :: "u8 \<Rightarrow> dimming_curves \<Rightarrow> dimming_curves" where
  "selectCurve index c =
     (if staticCurves c < index then c\<lparr>currentCurve := 0\<rparr> else c\<lparr>currentCurve := index\<rparr>)"

definition DimmingCurves :: "u8 \<Rightarrow> dimming_curves" where
  "DimmingCurves index =
     selectCurve index \<lparr>currentCurve = index, staticCurves = of_nat (length curves)\<rparr>"

text \<open>
  \<open>getDimming\<close>: \<open>None\<close> is the read of the uninitialised \<open>twoValues\<close> that happens when
  the selected curve is neither static nor the custom one.
\<close>

definition curve_byte :: "u8 list \<Rightarrow> u8 \<Rightarrow> dimming_curves \<Rightarrow> u8 option" where
  "curve_byte customCurve hour c =
     (if currentCurve c < staticCurves c then Some (curves ! unat (currentCurve c) ! unat (hour div 2))
      else if currentCurve c = staticCurves c then Some (customCurve ! unat (hour div 2))
      else None)"

definition curve_nibble :: "u8 \<Rightarrow> u8 \<Rightarrow> u8" where
  "curve_nibble hour twoValues =
     (if hour mod 2 \<noteq> 0 then drop_bit 4 (twoValues AND 0xF0) else twoValues AND 0x0F)"

definition curve_getDimming :: "u8 list \<Rightarrow> u8 \<Rightarrow> dimming_curves \<Rightarrow> rat option" where
  "curve_getDimming customCurve hour c =
     (if 23 < hour then Some 0
      else map_option (\<lambda>twoValues. f32 (of_int (uint (curve_nibble hour twoValues)) / 10))
             (curve_byte customCurve hour c))"

section \<open>OnOffByTime\<close>

record on_off_time =
  onHour :: u8
  onMinute :: u8
  offHour :: u8
  offMinute :: u8

definition setOnOffTime :: "u8 \<Rightarrow> u8 \<Rightarrow> u8 \<Rightarrow> u8 \<Rightarrow> on_off_time \<Rightarrow> on_off_time" where
  "setOnOffTime onH onM offH offM w =
     w\<lparr>onHour := onH, onMinute := onM, offHour := offH, offMinute := offM\<rparr>"

definition OnOffByTime :: "u8 \<Rightarrow> u8 \<Rightarrow> u8 \<Rightarrow> u8 \<Rightarrow> on_off_time" where
  "OnOffByTime onH onM offH offM =
     \<lparr>onHour = onH, onMinute = onM, offHour = offH, offMinute = offM\<rparr>"

text \<open>Minutes since midnight; the products are computed in \<open>int\<close> and stored in 16 bits.\<close>

definition abs_minute :: "u8 \<Rightarrow> u8 \<Rightarrow> u16" where
  "abs_minute h m = word_of_int (uint h * 60 + uint m)"

definition onoff_getDimming :: "u8 \<Rightarrow> u8 \<Rightarrow> on_off_time \<Rightarrow> rat" where
  "onoff_getDimming hour minute w =
     (let absMinuteOn = abs_minute (onHour w) (onMinute w);
          absMinuteOff = abs_minute (offHour w) (offMinute w);
          absMinuteCurrent = abs_minute hour minute;
          (absMinuteOff, absMinuteCurrent) =
            (if absMinuteOff < absMinuteOn
             then (absMinuteOff + 24 * 60, absMinuteCurrent + 24 * 60)
             else (absMinuteOff, absMinuteCurrent))
      in if absMinuteCurrent \<le> absMinuteOff \<and> absMinuteOn \<le> absMinuteCurrent then 1 else 0)"

section \<open>DimmingDemo\<close>

record dimming_demo =
  goingUp :: bool
  lastValue :: rat

definition DIMMING_DEMO_INCREMENT :: rat where
  "DIMMING_DEMO_INCREMENT = f64 (1 / 5)"

definition DimmingDemo :: dimming_demo where
  "DimmingDemo = \<lparr>goingUp = False, lastValue = 1\<rparr>"

text \<open>
  \<open>lastValue\<close> is a \<open>float\<close>; the increment and the bound \<open>0.2\<close> are \<open>double\<close> literals, so the
  sum is a \<open>double\<close> rounded again when it is stored, and the comparisons are between
  \<open>double\<close>s.
\<close>

definition demo_getDimming :: "dimming_demo \<Rightarrow> dimming_demo \<times> rat" where
  "demo_getDimming d =
     (let d = (if goingUp d
        then let d = d\<lparr>lastValue := f32 (f64 (lastValue d + DIMMING_DEMO_INCREMENT))\<rparr> in
          if 1 \<le> lastValue d then d\<lparr>lastValue := 1, goingUp := False\<rparr> else d
        else let d = d\<lparr>lastValue := f32 (f64 (lastValue d - DIMMING_DEMO_INCREMENT))\<rparr> in
          if lastValue d \<le> f64 (1 / 5) then d\<lparr>lastValue := f32 (f64 (1 / 5)), goingUp := True\<rparr>
          else d)
      in (d, lastValue d))"

section \<open>PhotoCell\<close>

record photo_cell =
  onThreshold :: rat
  offThreshold :: rat
  lastState :: bool
  lastRead :: rat

definition setThreshold :: "rat \<Rightarrow> rat \<Rightarrow> photo_cell \<Rightarrow> photo_cell" where
  "setThreshold on off p =
     (let p = p\<lparr>onThreshold := on\<rparr> in
      if on \<le> off then p\<lparr>offThreshold := off\<rparr> else p\<lparr>offThreshold := on\<rparr>)"

definition PhotoCell :: "rat \<Rightarrow> rat \<Rightarrow> photo_cell" where
  "PhotoCell on off =
     setThreshold on off \<lparr>onThreshold = 0, offThreshold = 0, lastState = False, lastRead = 0\<rparr>"

text \<open>
  \<open>read\<close> averages \<open>ammount\<close> samples of the analog pin; the samples are the successive
  results of \<open>AnalogIn::read()\<close>, given as a list whose first \<open>ammount\<close> elements are used.
\<close>

definition photo_average :: "rat list \<Rightarrow> nat \<Rightarrow> rat" where
  "photo_average samples ammount =
     foldl (\<lambda>accumulator v. f32 (accumulator + f32 (v / of_nat ammount))) 0 (take ammount samples)"

definition photo_read :: "rat list \<Rightarrow> u8 \<Rightarrow> photo_cell \<Rightarrow> photo_cell \<times> rat" where
  "photo_read samples ammount p =
     (let accumulator = photo_average samples (unat ammount)
      in (p\<lparr>lastRead := accumulator\<rparr>, accumulator))"

definition shouldBeOn :: "rat list \<Rightarrow> photo_cell \<Rightarrow> photo_cell \<times> bool" where
  "shouldBeOn samples p =
     (let (p, currentRead) = photo_read samples 10 p in
      if lastState p
      then if offThreshold p < currentRead then (p\<lparr>lastState := False\<rparr>, False)
           else (p\<lparr>lastState := True\<rparr>, True)
      else if currentRead < onThreshold p then (p\<lparr>lastState := True\<rparr>, True)
           else (p\<lparr>lastState := False\<rparr>, False))"

section \<open>LightOutput\<close>

text \<open>The relay pin, the duty cycle written to the PWM pin, and the stored level.\<close>

record light_output =
  relay :: bool
  dimmingOutput :: rat
  dimmingValue :: rat

definition dimmingFactor :: rat where
  "dimmingFactor = f32 (f64 (95 / 100))"

definition setOutput :: "rat \<Rightarrow> light_output \<Rightarrow> light_output" where
  "setOutput v l =
     (let v = (if 1 \<le> v then 1 else v); v = (if v < 0 then 0 else v)
      in l\<lparr>dimmingValue := v, dimmingOutput := f32 (v * dimmingFactor), relay := 0 < v\<rparr>)"

definition LightOutput :: light_output where
  "LightOutput = setOutput 0 \<lparr>relay = False, dimmingOutput = 0, dimmingValue = 0\<rparr>"

definition getDimmingValue :: "light_output \<Rightarrow> u8" where
  "getDimmingValue l = float_to_u8 (dimmingValue l)"

section \<open>Curves: invariant and the documented tables\<close>

definition curves_ok :: "dimming_curves \<Rightarrow> bool" where
  "curves_ok c \<longleftrightarrow> staticCurves c = 3 \<and> currentCurve c \<le> 3"

lemma curves_ok_init: "curves_ok (DimmingCurves index)"
  by (simp add: curves_ok_def DimmingCurves_def selectCurve_def curves_def not_less)

lemma curves_ok_select: "curves_ok c \<Longrightarrow> curves_ok (selectCurve index c)"
  by (auto simp: curves_ok_def selectCurve_def not_less)

lemma curves_ok_cases:
  assumes "curves_ok c"
  obtains "currentCurve c = 3" | i where "i \<in> set [0..<3]" and "currentCurve c = of_nat i"
proof (cases "currentCurve c = 3")
  case True
  then show thesis by (rule that(1))
next
  case False
  then have "currentCurve c < 3" using assms by (simp add: curves_ok_def order.not_eq_order_implies_strict)
  then have "unat (currentCurve c) \<in> set [0..<3]" by (simp add: word_less_nat_alt)
  then show thesis by (rule that(2)) simp
qed

text \<open>The level of each hour in the table of the manual (Readme.md), in percent.\<close>

definition readme_level :: "nat \<Rightarrow> nat \<Rightarrow> int" where
  "readme_level curve hour =
     [[60, 40, 40, 40, 40, 40, 60, 100, 0, 0, 0, 0, 0, 0, 0, 0, 0, 0, 0, 80, 100, 100, 100, 80],
      [30, 30, 30, 30, 30, 30, 50, 100, 0, 0, 0, 0, 0, 0, 0, 0, 0, 0, 0, 80, 100, 100, 80, 50],
      [50, 50, 50, 50, 50, 50, 80, 100, 0, 0, 0, 0, 0, 0, 0, 0, 0, 0, 0, 80, 100, 100, 80, 80]]
     ! curve ! hour"

lemma curve_tables:
  "\<forall>i \<in> set [0..<3]. \<forall>h \<in> set [0..<24].
     10 * uint (curve_nibble (of_nat h) (curves ! i ! unat (of_nat h div 2 :: u8))) = readme_level i h"
  by code_simp

lemma f32_level: "f32 (of_int (10 * k) / 100) = f32 (of_int k / 10)"
  by (rule arg_cong [where f = f32]) simp

lemma curve_hour_level:
  assumes "i < 3" and "unat hour < 24" and "staticCurves c = 3" and "currentCurve c = of_nat i"
  shows "curve_getDimming cc hour c = Some (f32 (of_int (readme_level i (unat hour)) / 100))"
proof -
  have h: "\<not> 23 < hour" using assms(2) by (simp add: word_less_nat_alt)
  have i: "currentCurve c < 3" "unat (currentCurve c) = i"
    using assms(1,4) by (simp_all add: word_less_nat_alt unat_of_nat)
  have "i \<in> set [0..<3]" and "unat hour \<in> set [0..<24]" using assms(1,2) by auto
  then have "10 * uint (curve_nibble hour (curves ! i ! unat (hour div 2))) = readme_level i (unat hour)"
    using curve_tables by fastforce
  then show ?thesis
    using h i assms(3) f32_level [of "uint (curve_nibble hour (curves ! i ! unat (hour div 2)))"]
    by (simp add: curve_getDimming_def curve_byte_def)
qed

text \<open>
  C29: for each of the three static curves and every hour of the day the level returned is the
  one documented in the manual's table.
\<close>

theorem static_curves_match_manual:
  assumes "i < 3" and "unat hour < 24"
  shows "curve_getDimming customCurve hour (DimmingCurves (of_nat i))
    = Some (f32 (of_int (readme_level i (unat hour)) / 100))"
proof -
  have "\<not> 3 < (of_nat i :: u8)" using assms(1) by (simp add: word_less_nat_alt unat_of_nat)
  then show ?thesis
    using assms by (intro curve_hour_level)
      (simp_all add: DimmingCurves_def selectCurve_def curves_def)
qed

theorem static_curves_match_manual_witness:
  "curve_getDimming [] 22 (DimmingCurves (of_nat 1)) = Some (f32 (4 / 5))"
  using static_curves_match_manual [of 1 22 "[]"] by (simp add: readme_level_def)

text \<open>
  C30: whatever index is selected, a level is always defined for a valid custom curve (the
  uninitialised branch is never taken); hours beyond 23 give 0, and with the custom curve
  selected the level of an hour is its nibble in tenths, the even hour in the low nibble.
\<close>

theorem curve_level_defined:
  assumes "length customCurve = 12" and "c = selectCurve index (DimmingCurves initial)"
  shows "\<exists>v. curve_getDimming customCurve hour c = Some v
    \<and> (23 < unat hour \<longrightarrow> v = 0)
    \<and> (currentCurve c = 3 \<and> unat hour \<le> 23 \<longrightarrow>
        v = f32 (of_nat (let b = unat (customCurve ! (unat hour div 2)) in
                  if odd (unat hour) then b div 16 else b mod 16) / 10))"
proof -
  have ok: "curves_ok c" unfolding assms(2) by (intro curves_ok_select curves_ok_init)
  have s: "staticCurves c = 3" using ok by (simp add: curves_ok_def)
  have def1: "\<exists>b. curve_byte customCurve hour c = Some b"
    using ok by (auto simp: curve_byte_def curves_ok_def not_less)
  have h: "23 < hour \<longleftrightarrow> 23 < unat hour" by (simp add: word_less_nat_alt)
  have nib: "uint (curve_nibble hour b) = int (if odd (unat hour) then unat b div 16 else unat b mod 16)" for b
    unfolding uint_nat curve_nibble_def odd_unat_u8
    by (simp only: if_distrib [where f = unat] unat_low_nibble unat_high_nibble)
  show ?thesis
  proof (cases "23 < unat hour")
    case True
    then show ?thesis using h by (simp add: curve_getDimming_def)
  next
    case False
    obtain b where b: "curve_byte customCurve hour c = Some b" using def1 by blast
    have "b = customCurve ! (unat hour div 2)" if "currentCurve c = 3"
      using b that s by (simp add: curve_byte_def unat_div_distrib)
    moreover have "(unsigned (curve_nibble hour b) :: rat)
        = of_nat (if odd (unat hour) then unat b div 16 else unat b mod 16)"
      by (metis nib of_int_of_nat_eq of_int_uint)
    ultimately show ?thesis using b False h by (simp add: curve_getDimming_def Let_def)
  qed
qed

theorem curve_level_defined_witness:
  "\<exists>v. curve_getDimming (replicate 12 0xF5) 7 (selectCurve 3 (DimmingCurves 0)) = Some v
     \<and> v = f32 (15 / 10)"
proof -
  let ?c = "selectCurve 3 (DimmingCurves 0)"
  have c: "currentCurve ?c = 3" by (simp add: selectCurve_def DimmingCurves_def curves_def)
  show ?thesis using curve_level_defined [of "replicate 12 0xF5" ?c 3 0 7] c by (simp add: Let_def)
qed

section \<open>The on/off window\<close>

text \<open>A time of day in minutes, and the times the interface allows.\<close>

definition minute_of :: "u8 \<Rightarrow> u8 \<Rightarrow> int" where
  "minute_of h m = 60 * uint h + uint m"

definition valid_time :: "u8 \<Rightarrow> u8 \<Rightarrow> bool" where
  "valid_time h m \<longleftrightarrow> h < 24 \<and> m < 60"

definition valid_window :: "on_off_time \<Rightarrow> bool" where
  "valid_window w \<longleftrightarrow> valid_time (onHour w) (onMinute w) \<and> valid_time (offHour w) (offMinute w)"

lemma valid_minute: "valid_time h m \<Longrightarrow> 0 \<le> minute_of h m \<and> minute_of h m < 1440"
  using uint_lt2p [of h] uint_lt2p [of m]
  by (auto simp: valid_time_def minute_of_def word_less_def)

lemma uint_abs_minute: "uint (abs_minute h m) = minute_of h m"
proof -
  have "0 \<le> uint h * 60 + uint m" and "uint h * 60 + uint m < 2 ^ LENGTH(16)"
    using uint_lt2p [of h] uint_lt2p [of m] by simp_all
  then show ?thesis
    unfolding abs_minute_def minute_of_def uint_word_of_int by (simp only: mod_pos_pos_trivial mult.commute)
qed

lemma uint_abs_minute_next_day:
  "valid_time h m \<Longrightarrow> uint (abs_minute h m + 1440) = minute_of h m + 1440"
  using valid_minute [of h m] by (simp add: uint_word_ariths uint_abs_minute)

lemma onoff_getDimming_eq:
  assumes "valid_window w" and "valid_time hour minute"
  shows "onoff_getDimming hour minute w =
    (let on = minute_of (onHour w) (onMinute w); off = minute_of (offHour w) (offMinute w);
         now = minute_of hour minute
     in if (if off < on then now \<le> off else on \<le> now \<and> now \<le> off) then 1 else 0)"
proof -
  have v: "valid_time (onHour w) (onMinute w)" "valid_time (offHour w) (offMinute w)"
    using assms(1) by (simp_all add: valid_window_def)
  show ?thesis
    using valid_minute [OF v(1)] valid_minute [OF assms(2)]
    by (auto simp: onoff_getDimming_def Let_def word_less_def word_le_def uint_abs_minute
        uint_abs_minute_next_day [OF v(2)] uint_abs_minute_next_day [OF assms(2)])
qed

text \<open>
  C25: with an on time no later than the off time the lamp is lit exactly from the on minute
  to the off minute, both included.
\<close>

theorem onoff_same_day:
  assumes "valid_window w" and "valid_time hour minute"
    and "minute_of (onHour w) (onMinute w) \<le> minute_of (offHour w) (offMinute w)"
  shows "onoff_getDimming hour minute w =
    (if minute_of (onHour w) (onMinute w) \<le> minute_of hour minute
        \<and> minute_of hour minute \<le> minute_of (offHour w) (offMinute w) then 1 else 0)"
  using assms(3) onoff_getDimming_eq [OF assms(1,2)] by (simp add: Let_def not_less)

theorem onoff_same_day_witness:
  "onoff_getDimming 12 30 (OnOffByTime 8 0 18 15) = 1"
  using onoff_same_day [of "OnOffByTime 8 0 18 15" 12 30]
  by (simp add: OnOffByTime_def valid_window_def valid_time_def minute_of_def)

text \<open>
  C24: with an on time later than the off time (the default window 18:00 to 06:00 is one) the
  lamp is lit from midnight to the off minute only: adding a day to the current minute whatever
  the hour moves every evening minute past the end of the window, so between the on time and
  midnight the lamp stays dark.
\<close>

theorem onoff_overnight:
  assumes "valid_window w" and "valid_time hour minute"
    and "minute_of (offHour w) (offMinute w) < minute_of (onHour w) (onMinute w)"
  shows "onoff_getDimming hour minute w =
      (if minute_of hour minute \<le> minute_of (offHour w) (offMinute w) then 1 else 0)
    \<and> (minute_of (onHour w) (onMinute w) \<le> minute_of hour minute \<longrightarrow>
        onoff_getDimming hour minute w = 0)"
  using assms(3) onoff_getDimming_eq [OF assms(1,2)] by (simp add: Let_def)

theorem onoff_overnight_witness:
  "onoff_getDimming 20 0 (OnOffByTime 18 0 6 0) = 0"
  using onoff_overnight [of "OnOffByTime 18 0 6 0" 20 0]
  by (simp add: OnOffByTime_def valid_window_def valid_time_def minute_of_def)

section \<open>The demonstration ramp\<close>

fun demo_run :: "nat \<Rightarrow> dimming_demo \<Rightarrow> dimming_demo \<times> rat list" where
  "demo_run 0 d = (d, [])"
| "demo_run (Suc n) d = (let (d, v) = demo_getDimming d; (d, vs) = demo_run n d in (d, v # vs))"

definition percent :: "rat \<Rightarrow> int" where
  "percent v = \<lfloor>100 * v + 1 / 2\<rfloor>"

lemma demo_period: "fst (demo_run 9 DimmingDemo) = DimmingDemo"
  by code_simp

lemma demo_run_add:
  "fst (demo_run (m + n) d) = fst (demo_run n (fst (demo_run m d)))"
  by (induction m arbitrary: d) (simp_all add: split_beta Let_def)

lemma demo_run_periods: "fst (demo_run (9 * k) DimmingDemo) = DimmingDemo"
proof (induction k)
  case 0
  then show ?case by simp
next
  case (Suc k)
  have "9 * Suc k = 9 * k + 9" by simp
  then show ?case by (simp only: demo_run_add Suc demo_period)
qed

text \<open>
  C31: the demonstration repeats after nine calls, not eight: going down, the fourth sum is
  slightly above the \<open>double\<close> 0.2, so the level 20\% is held for two periods before the ramp
  turns; the levels of a cycle are 80, 60, 40, 20, 20, 40, 60, 80, 100 percent.
\<close>

theorem demo_cycle:
  "fst (demo_run (9 * k) DimmingDemo) = DimmingDemo
   \<and> map percent (snd (demo_run 9 (fst (demo_run (9 * k) DimmingDemo))))
       = [80, 60, 40, 20, 20, 40, 60, 80, 100]"
proof -
  have "map percent (snd (demo_run 9 DimmingDemo)) = [80, 60, 40, 20, 20, 40, 60, 80, 100]"
    by code_simp
  then show ?thesis by (simp only: demo_run_periods simp_thms)
qed

section \<open>Photocell hysteresis\<close>

lemma PhotoCell_thresholds: "onThreshold (PhotoCell on off) \<le> offThreshold (PhotoCell on off)"
  by (simp add: PhotoCell_def setThreshold_def Let_def)

text \<open>
  C32: the photocell has hysteresis: inside the band between the two thresholds the answer is
  the previous one, above the band it is off, below it is on; the answer is remembered, the
  average is kept as the last reading, and the thresholds never change.
\<close>

theorem photocell_hysteresis:
  assumes "onThreshold p \<le> offThreshold p" and "shouldBeOn samples p = (p', on)"
  shows "lastRead p' = photo_average samples 10
    \<and> on = (if photo_average samples 10 < onThreshold p then True
           else if offThreshold p < photo_average samples 10 then False else lastState p)
    \<and> lastState p' = on \<and> onThreshold p' = onThreshold p \<and> offThreshold p' = offThreshold p"
  using assms by (auto simp: shouldBeOn_def photo_read_def Let_def split: if_splits)

theorem photocell_hysteresis_witness:
  "snd (shouldBeOn (replicate 10 0) (PhotoCell (13 / 20) (7 / 10)))"
proof -
  let ?p = "PhotoCell (13 / 20) (7 / 10)"
  obtain p' on where s: "shouldBeOn (replicate 10 0) ?p = (p', on)" by fastforce
  have z: "foldl (\<lambda>a v. f32 (a + f32 (v / of_nat 10))) 0 (replicate 10 0) = 0"
    by (simp add: numeral_eq_Suc)
  have "onThreshold ?p = 13 / 20" by (simp add: PhotoCell_def setThreshold_def Let_def)
  with photocell_hysteresis [OF PhotoCell_thresholds s] z s
  show ?thesis by (simp add: photo_average_def)
qed

section \<open>The output stage\<close>

text \<open>
  The output stage clamps any level to the range 0 to 1, drives the PWM with the clamped
  level scaled by the dimming factor, and closes the relay exactly for a positive level.
\<close>

lemma setOutput_clamps:
  "dimmingValue (setOutput v l) = max 0 (min 1 v)
   \<and> dimmingOutput (setOutput v l) = f32 (max 0 (min 1 v) * dimmingFactor)
   \<and> relay (setOutput v l) = (0 < v)"
  by (auto simp: setOutput_def Let_def min_def max_def)

end
