(* ===== verification/Luminary.thy ===== *)
theory Luminary
  imports Light_Modes
begin

text \<open>
  The luminaire application: the mode switch (lib/LightController), the downlink command
  parser, the configuration kept in non-volatile memory, and the pacing of the main loop
  (src/luminary.cpp). The global objects of luminary.cpp are the fields of one record; the
  non-volatile memory of the xDot library is a parameter, given by its read and write
  operations.
\<close>

section \<open>LightController\<close>

text \<open>
  \<open>enum class OpMode : uint8_t\<close>. The program casts arbitrary bytes to the type, so a mode is
  a byte; the five enumerators are named.
\<close>

definition Manual :: u8 where "Manual = 0x00"
definition AutoPhotoCell :: u8 where "AutoPhotoCell = 0x01"
definition AutoCurve :: u8 where "AutoCurve = 0x02"
definition Demo :: u8 where "Demo = 0x03"
definition AutoTime :: u8 where "AutoTime = 0x04"

lemmas op_modes = Manual_def AutoPhotoCell_def AutoCurve_def Demo_def AutoTime_def

record light_controller =
  currentMode :: u8
  manualDimLevel :: rat

definition setOpMode :: "u8 \<Rightarrow> light_controller \<Rightarrow> light_controller" where
  "setOpMode m l = l\<lparr>currentMode := m\<rparr>"

definition setManualDimming :: "rat \<Rightarrow> light_controller \<Rightarrow> light_controller" where
  "setManualDimming dimLevel l =
     (let dimLevel = (if 1 < dimLevel then 1 else dimLevel);
          dimLevel = (if dimLevel < 0 then 0 else dimLevel)
      in l\<lparr>manualDimLevel := dimLevel\<rparr>)"

text \<open>The global variables of luminary.cpp, with the clock they set and a reset request.\<close>

record luminary =
  controller :: light_controller
  photoCell :: photo_cell
  dimmingCurves :: dimming_curves
  onOffByTime :: on_off_time
  dimmingDemo :: dimming_demo
  customCurve :: "u8 list"
  loopDelay :: u16
  loopsToSend :: u8
  loopsCount :: u8
  bypassLoopDelay :: bool
  pendingSyncClock :: bool
  pendingSendTimestamp :: bool
  pendingSendConfig :: bool
  pendingSaveConfig :: bool
  clock :: u32
  systemReset :: bool

abbreviation setMode :: "u8 \<Rightarrow> luminary \<Rightarrow> luminary" where
  "setMode m s \<equiv> s\<lparr>controller := setOpMode m (controller s)\<rparr>"

text \<open>\<open>LightController::getDimming\<close>; \<open>None\<close> is the undefined curve read.\<close>

definition getDimming :: "rat list \<Rightarrow> u8 \<Rightarrow> u8 \<Rightarrow> luminary \<Rightarrow> luminary \<times> rat option" where
  "getDimming samples hour minute s =
     (let m = currentMode (controller s) in
      if m = AutoPhotoCell then
        (let (p, on) = shouldBeOn samples (photoCell s)
         in (s\<lparr>photoCell := p\<rparr>, Some (if on then 1 else 0)))
      else if m = AutoCurve then (s, curve_getDimming (customCurve s) hour (dimmingCurves s))
      else if m = AutoTime then (s, Some (onoff_getDimming hour minute (onOffByTime s)))
      else if m = Demo then
        (let (d, v) = demo_getDimming (dimmingDemo s) in (s\<lparr>dimmingDemo := d\<rparr>, Some v))
      else (s, Some (manualDimLevel (controller s))))"

section \<open>The downlink command parser\<close>

definition be32 :: "u8 \<Rightarrow> u8 \<Rightarrow> u8 \<Rightarrow> u8 \<Rightarrow> u32" where
  "be32 b1 b2 b3 b4 =
     push_bit 24 (ucast b1) OR push_bit 16 (ucast b2) OR push_bit 8 (ucast b3) OR ucast b4"

text \<open>The inner switch of command \<open>M\<close>.\<close>

definition set_mode_command :: "u8 \<Rightarrow> luminary \<Rightarrow> luminary" where
  "set_mode_command b s =
     (if b = 0x00 then setMode Manual s
      else if b = 0x01 then setMode AutoPhotoCell s
      else if b = 0x02 then setMode AutoCurve s
      else if b = 0x03 then setMode Demo s
      else s)"

text \<open>The switch on the command letter, up to the final \<open>bypassLoopDelay = true\<close>.\<close>

definition payload_switch :: "u8 list \<Rightarrow> u8 \<Rightarrow> luminary \<Rightarrow> luminary" where
  "payload_switch buf rxSize s =
     (let c = buf ! 0 in
      if c = of_char (CHR ''A'') then
        (if rxSize < 5 then s else s\<lparr>clock := be32 (buf ! 1) (buf ! 2) (buf ! 3) (buf ! 4)\<rparr>)
      else if c = of_char (CHR ''C'') then
        (if rxSize < 2 then s
         else (setMode AutoCurve (s\<lparr>dimmingCurves := selectCurve (buf ! 1) (dimmingCurves s)\<rparr>))
              \<lparr>pendingSaveConfig := True\<rparr>)
      else if c = of_char (CHR ''D'') then
        (if rxSize < 2 then s
         else (setMode Manual (s\<lparr>controller :=
                  setManualDimming (f32 (of_nat (unat (buf ! 1)) / 100)) (controller s)\<rparr>))
              \<lparr>pendingSaveConfig := True\<rparr>)
      else if c = of_char (CHR ''E'') then s\<lparr>pendingSendConfig := True\<rparr>
      else if c = of_char (CHR ''H'') then s\<lparr>pendingSendTimestamp := True\<rparr>
      else if c = of_char (CHR ''J'') then
        (if rxSize < 7 then s
         else s\<lparr>customCurve := take 6 (drop 1 buf) @ drop 6 (customCurve s),
                pendingSaveConfig := True\<rparr>)
      else if c = of_char (CHR ''K'') then
        (if rxSize < 7 then s
         else s\<lparr>customCurve := take 6 (customCurve s) @ take 6 (drop 1 buf),
                pendingSaveConfig := True\<rparr>)
      else if c = of_char (CHR ''M'') then
        (if rxSize < 2 then s else (set_mode_command (buf ! 1) s)\<lparr>pendingSaveConfig := True\<rparr>)
      else if c = of_char (CHR ''O'') then
        (if rxSize < 5 then s
         else (setMode AutoTime (s\<lparr>onOffByTime :=
                  setOnOffTime (buf ! 1) (buf ! 2) (buf ! 3) (buf ! 4) (onOffByTime s)\<rparr>))
              \<lparr>pendingSaveConfig := True\<rparr>)
      else if c = of_char (CHR ''R'') then s\<lparr>systemReset := True\<rparr>
      else if c = of_char (CHR ''S'') then s\<lparr>pendingSyncClock := True\<rparr>
      else if c = of_char (CHR ''T'') then
        (if rxSize < 4 then s
         else let aux16 = push_bit 8 (ucast (buf ! 1)) + ucast (buf ! 2);
                  aux16 = (if aux16 < 30 then 30 else aux16)
              in s\<lparr>loopDelay := aux16, loopsToSend := buf ! 3, pendingSaveConfig := True\<rparr>)
      else s)"

text \<open>A software reset never returns to set the bypass flag.\<close>

definition payloadParser :: "u8 list \<Rightarrow> u8 \<Rightarrow> luminary \<Rightarrow> luminary" where
  "payloadParser buf rxSize s =
     (let s = payload_switch buf rxSize s
      in if systemReset s then s else s\<lparr>bypassLoopDelay := True\<rparr>)"

section \<open>Configuration in non-volatile memory\<close>

text \<open>
  \<open>mDot::nvmWrite(addr, data, size)\<close> and \<open>mDot::nvmRead(addr, data, size)\<close> of the xDot
  library, whose source is not in the repository: \<open>nvmRead\<close> returns \<open>None\<close> when it fails.
\<close>

type_synonym 'n nvm_write = "u16 \<Rightarrow> u8 list \<Rightarrow> 'n \<Rightarrow> 'n"
type_synonym 'n nvm_read = "u16 \<Rightarrow> nat \<Rightarrow> 'n \<Rightarrow> u8 list option"

definition DIR_PROMATIX_VERSION_MAJOR :: u16 where "DIR_PROMATIX_VERSION_MAJOR = 0x00"
definition DIR_INITIAL_NVM_PARAM :: u16 where "DIR_INITIAL_NVM_PARAM = 0x10"
definition DIR_LOOP_DELAY :: u16 where "DIR_LOOP_DELAY = DIR_INITIAL_NVM_PARAM"
definition DIR_OP_MODE :: u16 where "DIR_OP_MODE = DIR_INITIAL_NVM_PARAM + 3"
definition DIR_CURVE :: u16 where "DIR_CURVE = DIR_INITIAL_NVM_PARAM + 4"
definition DIR_MANUAL_DIMMING :: u16 where "DIR_MANUAL_DIMMING = DIR_INITIAL_NVM_PARAM + 5"
definition DIR_ON_OFF_TIME :: u16 where "DIR_ON_OFF_TIME = DIR_INITIAL_NVM_PARAM + 6"
definition DIR_CUSTOM_CURVE :: u16 where "DIR_CUSTOM_CURVE = DIR_INITIAL_NVM_PARAM + 10"

lemmas nvm_dirs = DIR_PROMATIX_VERSION_MAJOR_def DIR_INITIAL_NVM_PARAM_def DIR_LOOP_DELAY_def
  DIR_OP_MODE_def DIR_CURVE_def DIR_MANUAL_DIMMING_def DIR_ON_OFF_TIME_def DIR_CUSTOM_CURVE_def

definition PROMATIX_VERSION :: "u8 list" where
  "PROMATIX_VERSION = [2, 6, 4]"

text \<open>The ten bytes \<open>saveSmartcellConfig\<close> assembles in \<open>saveBuffer\<close>.\<close>

definition config_bytes :: "luminary \<Rightarrow> u8 list" where
  "config_bytes s =
     [ucast (drop_bit 8 (loopDelay s AND 0xFF00)), ucast (loopDelay s AND 0x00FF), loopsToSend s,
      currentMode (controller s),
      dimming_curves.currentCurve (dimmingCurves s),
      float_to_u8 (f32 (manualDimLevel (controller s) * 100)),
      onHour (onOffByTime s), onMinute (onOffByTime s),
      offHour (onOffByTime s), offMinute (onOffByTime s)]"

definition saveSmartcellConfig :: "'n nvm_write \<Rightarrow> luminary \<times> 'n \<Rightarrow> luminary \<times> 'n" where
  "saveSmartcellConfig nvmWrite = (\<lambda>(s, n).
     let n = nvmWrite DIR_INITIAL_NVM_PARAM (config_bytes s) n;
         n = nvmWrite DIR_CUSTOM_CURVE (customCurve s) n
     in (s\<lparr>pendingSaveConfig := False\<rparr>, n))"

text \<open>The start of \<open>main\<close>: defaults when the stored firmware version differs.\<close>

definition init_defaults :: "'n nvm_write \<Rightarrow> 'n nvm_read \<Rightarrow> 'n \<Rightarrow> 'n" where
  "init_defaults nvmWrite nvmRead n =
     (case nvmRead DIR_PROMATIX_VERSION_MAJOR 3 n of
        None \<Rightarrow> n
      | Some v \<Rightarrow>
        if v \<noteq> PROMATIX_VERSION then
          let n = nvmWrite DIR_PROMATIX_VERSION_MAJOR PROMATIX_VERSION n;
              n = nvmWrite DIR_LOOP_DELAY [0x00, 0x1E, 20] n;
              n = nvmWrite DIR_OP_MODE [0x01] n;
              n = nvmWrite DIR_CURVE [0x00] n;
              n = nvmWrite DIR_MANUAL_DIMMING [100] n;
              n = nvmWrite DIR_ON_OFF_TIME [18, 0, 6, 0] n
          in nvmWrite DIR_CUSTOM_CURVE (replicate 12 0) n
        else n)"

text \<open>Then every parameter is read back; a failed read keeps the value the object has.\<close>

definition read_loop_delay :: "'n nvm_read \<Rightarrow> 'n \<Rightarrow> luminary \<Rightarrow> luminary" where
  "read_loop_delay nvmRead n s = (case nvmRead DIR_LOOP_DELAY 3 n of None \<Rightarrow> s
     | Some b \<Rightarrow> s\<lparr>loopDelay := push_bit 8 (ucast (b ! 0)) + ucast (b ! 1), loopsToSend := b ! 2\<rparr>)"

definition read_manual_dimming :: "'n nvm_read \<Rightarrow> 'n \<Rightarrow> luminary \<Rightarrow> luminary" where
  "read_manual_dimming nvmRead n s = (case nvmRead DIR_MANUAL_DIMMING 1 n of None \<Rightarrow> s
     | Some b \<Rightarrow> s\<lparr>controller := setManualDimming (f32 (of_nat (unat (b ! 0)) / 100)) (controller s)\<rparr>)"

definition read_op_mode :: "'n nvm_read \<Rightarrow> 'n \<Rightarrow> luminary \<Rightarrow> luminary" where
  "read_op_mode nvmRead n s = (case nvmRead DIR_OP_MODE 1 n of None \<Rightarrow> s
     | Some b \<Rightarrow> if b ! 0 = AutoCurve \<or> b ! 0 = AutoTime then setMode AutoPhotoCell s
                else setMode (b ! 0) s)"

definition read_curves :: "'n nvm_read \<Rightarrow> 'n \<Rightarrow> luminary \<Rightarrow> luminary" where
  "read_curves nvmRead n s =
     (let s = (case nvmRead DIR_CURVE 1 n of None \<Rightarrow> s
        | Some b \<Rightarrow> s\<lparr>dimmingCurves := selectCurve (b ! 0) (dimmingCurves s)\<rparr>)
      in case nvmRead DIR_CUSTOM_CURVE 12 n of None \<Rightarrow> s | Some b \<Rightarrow> s\<lparr>customCurve := b\<rparr>)"

definition read_on_off_time :: "'n nvm_read \<Rightarrow> 'n \<Rightarrow> luminary \<Rightarrow> luminary" where
  "read_on_off_time nvmRead n s = (case nvmRead DIR_ON_OFF_TIME 4 n of None \<Rightarrow> s
     | Some b \<Rightarrow> s\<lparr>onOffByTime := setOnOffTime (b ! 0) (b ! 1) (b ! 2) (b ! 3) (onOffByTime s)\<rparr>)"

definition load_config :: "'n nvm_read \<Rightarrow> 'n \<Rightarrow> luminary \<Rightarrow> luminary" where
  "load_config nvmRead n s =
     read_on_off_time nvmRead n (read_curves nvmRead n (read_op_mode nvmRead n
       (read_manual_dimming nvmRead n (read_loop_delay nvmRead n s))))"

text \<open>In the loop, once the clock is synchronised, the stored mode is taken as it is.\<close>

definition restore_mode :: "'n nvm_read \<Rightarrow> 'n \<Rightarrow> luminary \<Rightarrow> luminary" where
  "restore_mode nvmRead n s =
     (if 1514764800 < clock s
      then case nvmRead DIR_OP_MODE 1 n of None \<Rightarrow> s | Some b \<Rightarrow> setMode (b ! 0) s
      else s)"

section \<open>Pacing of the main loop\<close>

text \<open>\<open>thisDelay = loopDelay + (rand() \% 21) - 10\<close>, stored in 16 bits.\<close>

definition this_delay :: "u16 \<Rightarrow> nat \<Rightarrow> u16" where
  "this_delay delay rand = word_of_int (uint delay + int (rand mod 21) - 10)"

text \<open>
  The waiting loop. \<open>env i\<close> is what happens during the wait of iteration \<open>i\<close> (a downlink may
  run the parser). The result is the state and the number of seconds waited.
\<close>

function delay_loop :: "(nat \<Rightarrow> luminary \<Rightarrow> luminary) \<Rightarrow> nat \<Rightarrow> nat \<Rightarrow> luminary \<Rightarrow> luminary \<times> nat"
where
  "delay_loop env i n s =
     (if i < n then
        if bypassLoopDelay s then (s\<lparr>loopsCount := loopsToSend s, bypassLoopDelay := False\<rparr>, i)
        else
          let s = (if currentMode (controller s) = Demo then s\<lparr>loopsCount := loopsToSend s\<rparr> else s)
          in if currentMode (controller s) = Demo \<and> 60 \<le> i then (s, i)
             else delay_loop env (Suc i) n (env i s)
      else (s, i))"
  by pat_completeness auto
termination
  by (relation "measure (\<lambda>(env, i, n, s). n - i)") auto

declare delay_loop.simps [simp del]

section \<open>The command parser keeps the state well formed\<close>

text \<open>
  The custom curve has its twelve bytes, the curve index is valid, the manual level is between
  0 and 1, and the loop delay is at least the 30 seconds the parser enforces.
\<close>

definition luminary_ok :: "luminary \<Rightarrow> bool" where
  "luminary_ok s \<longleftrightarrow> length (customCurve s) = 12 \<and> curves_ok (dimmingCurves s)
     \<and> 0 \<le> manualDimLevel (controller s) \<and> manualDimLevel (controller s) \<le> 1
     \<and> 30 \<le> loopDelay s"

lemma setManualDimming_range:
  "0 \<le> manualDimLevel (setManualDimming v l) \<and> manualDimLevel (setManualDimming v l) \<le> 1"
  by (simp add: setManualDimming_def Let_def)

lemma setManualDimming_mode [simp]:
  "manualDimLevel (setOpMode m l) = manualDimLevel l" "currentMode (setOpMode m l) = m"
  "currentMode (setManualDimming v l) = currentMode l"
  by (simp_all add: setOpMode_def setManualDimming_def Let_def)

lemma set_mode_command_ok: "luminary_ok s \<Longrightarrow> luminary_ok (set_mode_command b s)"
  by (simp add: set_mode_command_def luminary_ok_def)

lemma loop_delay_clamp: "(30 :: u16) \<le> (if x < 30 then 30 else x)"
  by (simp add: not_less)

lemma payload_switch_ok:
  assumes "luminary_ok s" and "unat rxSize \<le> length buf"
  shows "luminary_ok (payload_switch buf rxSize s)"
proof -
  have len: "7 \<le> length buf" if "\<not> rxSize < 7"
    using that assms(2) by (simp add: word_less_nat_alt)
  show ?thesis
    unfolding payload_switch_def Let_def
    using assms(1) set_mode_command_ok [OF assms(1), of "buf ! 1"] setManualDimming_range len loop_delay_clamp
    by (auto simp: luminary_ok_def curves_ok_select split del: if_split split: if_splits)
qed

lemma luminary_ok_bypass: "luminary_ok (s\<lparr>bypassLoopDelay := b\<rparr>) = luminary_ok s"
  by (simp add: luminary_ok_def)


text \<open>An example of an application state: what the globals of luminary.cpp start with.\<close>

definition luminary_start :: luminary where
  "luminary_start =
     \<lparr>controller = \<lparr>currentMode = Manual, manualDimLevel = 1\<rparr>,
      photoCell = PhotoCell (f32 (f64 (65 / 100))) (f32 (f64 (7 / 10))),
      dimmingCurves = DimmingCurves 0, onOffByTime = OnOffByTime 18 0 6 0,
      dimmingDemo = DimmingDemo, customCurve = replicate 12 0, loopDelay = 30, loopsToSend = 20,
      loopsCount = 0, bypassLoopDelay = False, pendingSyncClock = False,
      pendingSendTimestamp = False, pendingSendConfig = False, pendingSaveConfig = False,
      clock = 0, systemReset = False\<rparr>"

lemma luminary_start_ok: "luminary_ok luminary_start"
  by (simp add: luminary_start_def luminary_ok_def curves_ok_init)


text \<open>
  What the radio reports goes to the parser if it has any bytes (src/EventSlot.cpp): the reports
  keep the configuration valid too.
\<close>

definition MacEvent :: "(u8 list \<Rightarrow> u8 \<Rightarrow> 's \<Rightarrow> 's) \<Rightarrow> u8 list \<Rightarrow> u8 \<Rightarrow> 's \<Rightarrow> 's" where
  "MacEvent rxCallback buf rxSize s = (if 0 < rxSize then rxCallback buf rxSize s else s)"

lemma MacEvent_preserves_ok: "luminary_ok s \<Longrightarrow> unat rxSize \<le> length buf \<Longrightarrow> luminary_ok (MacEvent payloadParser buf rxSize s)"
  using payload_switch_ok by (simp add: MacEvent_def payloadParser_def Let_def luminary_ok_bypass)

text \<open>The least packet size each command's guard asks for.\<close>

definition command_length :: "u8 \<Rightarrow> nat" where
  "command_length c =
     (if c = of_char (CHR ''A'') then 5 else if c = of_char (CHR ''C'') then 2
      else if c = of_char (CHR ''D'') then 2 else if c = of_char (CHR ''J'') then 7
      else if c = of_char (CHR ''K'') then 7 else if c = of_char (CHR ''M'') then 2
      else if c = of_char (CHR ''O'') then 5 else if c = of_char (CHR ''T'') then 4 else 1)"

text \<open>
  C26: a packet shorter than its command needs is ignored: nothing changes but the flag that
  cuts the current waiting loop short.
\<close>

theorem short_packet_ignored:
  assumes "1 \<le> unat rxSize" and "unat rxSize < command_length (buf ! 0)" and "\<not> systemReset s"
  shows "payloadParser buf rxSize s = s\<lparr>bypassLoopDelay := True\<rparr>"
proof -
  let ?c = "\<lambda>ch. buf ! 0 = of_char ch"
  have "?c (CHR ''A'') \<and> unat rxSize < 5 \<or> ?c (CHR ''C'') \<and> unat rxSize < 2 \<or>
      ?c (CHR ''D'') \<and> unat rxSize < 2 \<or> ?c (CHR ''J'') \<and> unat rxSize < 7 \<or>
      ?c (CHR ''K'') \<and> unat rxSize < 7 \<or> ?c (CHR ''M'') \<and> unat rxSize < 2 \<or>
      ?c (CHR ''O'') \<and> unat rxSize < 5 \<or> ?c (CHR ''T'') \<and> unat rxSize < 4"
    using assms(1,2) by (simp add: command_length_def split: if_splits)
  then have "payload_switch buf rxSize s = s"
    by (elim disjE conjE) (simp_all add: payload_switch_def word_less_nat_alt)
  then show ?thesis using assms(3) by (simp add: payloadParser_def Let_def)
qed

theorem short_packet_ignored_witness:
  "payloadParser [0x4F, 19, 30] 3 luminary_start = luminary_start\<lparr>bypassLoopDelay := True\<rparr>"
  by (rule short_packet_ignored) (simp_all add: command_length_def luminary_start_def)

section \<open>Saving and reading back the configuration\<close>

lemma setOnOffTime_all: "setOnOffTime (onHour w) (onMinute w) (offHour w) (offMinute w) w0 = w"
  by (cases w, cases w0) (simp add: setOnOffTime_def)

text \<open>
  What the code relies on of the memory: a byte view at 16-bit addresses; a write stores its
  bytes from its address on and changes nothing else; a successful read returns the bytes in
  view. Reads are taken to succeed.
\<close>

locale byte_nvm =
  fixes nvmWrite :: "u16 \<Rightarrow> u8 list \<Rightarrow> 'n \<Rightarrow> 'n"
    and nvmRead :: "u16 \<Rightarrow> nat \<Rightarrow> 'n \<Rightarrow> u8 list option"
    and view :: "'n \<Rightarrow> u16 \<Rightarrow> u8"
  assumes view_write: "view (nvmWrite a bs n) x
      = (if unat (x - a) < length bs then bs ! unat (x - a) else view n x)"
    and read_view: "nvmRead a k n = Some (map (\<lambda>i. view n (a + of_nat i)) [0..<k])"
begin

lemma read_bytes:
  "nvmRead a 1 n = Some [view n a]"
  "nvmRead a 3 n = Some [view n a, view n (a + 1), view n (a + 2)]"
  "nvmRead a 4 n = Some [view n a, view n (a + 1), view n (a + 2), view n (a + 3)]"
  by (simp_all add: read_view upt_rec numeral_eq_Suc)

lemma saved_params:
  assumes "length (customCurve s) = 12" and "i < 10"
  shows "view (snd (saveSmartcellConfig nvmWrite (s, n))) (DIR_INITIAL_NVM_PARAM + of_nat i)
    = config_bytes s ! i"
proof -
  have l: "length (config_bytes s) = 10" by (simp add: config_bytes_def)
  have i: "unat (of_nat i :: u16) = i" using assms(2) by (simp add: unat_of_nat)
  have "DIR_INITIAL_NVM_PARAM + of_nat i - DIR_CUSTOM_CURVE = word_of_int (int i - 10)"
    by (simp add: nvm_dirs)
  moreover have "(int i - 10) mod 65536 = int i + 65526"
    using assms(2) mod_add_self2 [of "int i - 10" 65536] by simp
  ultimately have "\<not> unat (DIR_INITIAL_NVM_PARAM + of_nat i - DIR_CUSTOM_CURVE) < 12"
    by (simp only: unat_eq_nat_uint uint_word_of_int) simp
  then show ?thesis
    using assms i l by (simp add: saveSmartcellConfig_def Let_def view_write)
qed

lemma saved_curve:
  assumes "length (customCurve s) = 12"
  shows "nvmRead DIR_CUSTOM_CURVE 12 (snd (saveSmartcellConfig nvmWrite (s, n))) = Some (customCurve s)"
proof -
  have "map (\<lambda>i. view (nvmWrite DIR_CUSTOM_CURVE (customCurve s) m) (DIR_CUSTOM_CURVE + of_nat i)) [0..<12]
      = customCurve s" for m
    using assms by (intro nth_equalityI) (simp_all add: view_write unat_of_nat)
  then show ?thesis by (simp add: saveSmartcellConfig_def Let_def read_view)
qed

lemma saved_reads:
  assumes "length (customCurve s) = 12"
    and m_def: "m = snd (saveSmartcellConfig nvmWrite (s, n))"
  shows "nvmRead DIR_LOOP_DELAY 3 m = Some [config_bytes s ! 0, config_bytes s ! 1, config_bytes s ! 2]"
    and "nvmRead DIR_OP_MODE 1 m = Some [config_bytes s ! 3]"
    and "nvmRead DIR_CURVE 1 m = Some [config_bytes s ! 4]"
    and "nvmRead DIR_MANUAL_DIMMING 1 m = Some [config_bytes s ! 5]"
    and "nvmRead DIR_ON_OFF_TIME 4 m = Some [config_bytes s ! 6, config_bytes s ! 7,
           config_bytes s ! 8, config_bytes s ! 9]"
proof -
  note v = saved_params [OF assms(1), where n = n, folded m_def]
  show "nvmRead DIR_LOOP_DELAY 3 m = Some [config_bytes s ! 0, config_bytes s ! 1, config_bytes s ! 2]"
    using v [of 0] v [of 1] v [of 2] by (simp add: read_bytes DIR_LOOP_DELAY_def)
  show "nvmRead DIR_OP_MODE 1 m = Some [config_bytes s ! 3]"
    using v [of 3] by (simp only: read_bytes DIR_OP_MODE_def) simp
  show "nvmRead DIR_CURVE 1 m = Some [config_bytes s ! 4]"
    using v [of 4] by (simp only: read_bytes DIR_CURVE_def) simp
  show "nvmRead DIR_MANUAL_DIMMING 1 m = Some [config_bytes s ! 5]"
    using v [of 5] by (simp only: read_bytes DIR_MANUAL_DIMMING_def) simp
  show "nvmRead DIR_ON_OFF_TIME 4 m = Some [config_bytes s ! 6, config_bytes s ! 7,
           config_bytes s ! 8, config_bytes s ! 9]"
    using v [of 6] v [of 7] v [of 8] v [of 9]
    by (simp only: read_bytes DIR_ON_OFF_TIME_def) (simp add: add.assoc)
qed

text \<open>What reading back the saved configuration of \<open>s\<close> makes of the state \<open>s0\<close>.\<close>

lemma load_saved:
  assumes "length (customCurve s) = 12"
  shows "load_config nvmRead (snd (saveSmartcellConfig nvmWrite (s, n))) s0 =
    s0\<lparr>controller :=
         setOpMode (if currentMode (controller s) = AutoCurve \<or> currentMode (controller s) = AutoTime
                    then AutoPhotoCell else currentMode (controller s))
           (setManualDimming
             (f32 (of_nat (unat (float_to_u8 (f32 (manualDimLevel (controller s) * 100)))) / 100))
             (controller s0)),
       dimmingCurves := selectCurve (currentCurve (dimmingCurves s)) (dimmingCurves s0),
       onOffByTime := onOffByTime s, customCurve := customCurve s,
       loopDelay := loopDelay s, loopsToSend := loopsToSend s\<rparr>"
  using saved_reads [OF assms refl, of n] saved_curve [OF assms, of n]
  by (simp add: load_config_def read_loop_delay_def read_manual_dimming_def read_op_mode_def
      read_curves_def read_on_off_time_def config_bytes_def Let_def setOnOffTime_all
      u16_from_bytes [simplified])

end

text \<open>
  A byte array is such a memory; it is the instance the concrete examples run on.
\<close>

definition array_write :: "u16 \<Rightarrow> u8 list \<Rightarrow> (u16 \<Rightarrow> u8) \<Rightarrow> (u16 \<Rightarrow> u8)" where
  "array_write a bs n = (\<lambda>x. if unat (x - a) < length bs then bs ! unat (x - a) else n x)"

definition array_read :: "u16 \<Rightarrow> nat \<Rightarrow> (u16 \<Rightarrow> u8) \<Rightarrow> u8 list option" where
  "array_read a k n = Some (map (\<lambda>i. n (a + of_nat i)) [0..<k])"

interpretation byte_array: byte_nvm array_write array_read "\<lambda>n. n"
  by unfold_locales (simp_all add: array_write_def array_read_def)



section \<open>The manual level does not survive exactly\<close>

text \<open>The float arithmetic of every percentage: divided by 100, multiplied back, truncated.\<close>

definition percent_stored :: "nat \<Rightarrow> nat" where
  "percent_stored d = (if d = 53 \<or> d = 59 then d - 1 else d)"

lemma percent_table:
  "\<forall>d \<in> set [0..<101]. float_to_u8 (f32 (f32 (of_nat d / 100) * 100)) = of_nat (percent_stored d)
     \<and> 0 \<le> f32 (of_nat d / 100) \<and> f32 (of_nat d / 100) \<le> 1"
  by code_simp

text \<open>
  C28: a manual level set by command \<open>D\<close> and then saved and read back comes back as the
  percentage that was sent, except 53 and 59 percent, which the two float roundings and the
  truncation turn into 52 and 58.
\<close>

theorem manual_level_after_restart:
  assumes "byte_nvm nvmWrite nvmRead view" and "luminary_ok s" and "\<not> systemReset s" and "d \<le> 100"
    and "s' = payloadParser [0x44, of_nat d] 2 s"
    and "t = load_config nvmRead (snd (saveSmartcellConfig nvmWrite (s', n))) s0"
  shows "manualDimLevel (controller s') = f32 (of_nat d / 100)
    \<and> manualDimLevel (controller t) = f32 (of_nat (percent_stored d) / 100)"
proof -
  have ud: "unat (of_nat d :: u8) = d" using assms(4) by (simp add: unat_of_nat)
  have "d \<in> set [0..<101]" using assms(4) by simp
  then have d: "float_to_u8 (f32 (f32 (of_nat d / 100) * 100)) = of_nat (percent_stored d)"
    "0 \<le> f32 (of_nat d / 100)" "f32 (of_nat d / 100) \<le> 1" using percent_table by blast+
  have "percent_stored d \<in> set [0..<101]" using assms(4) by (auto simp: percent_stored_def)
  then have d': "0 \<le> f32 (of_nat (percent_stored d) / 100)" "f32 (of_nat (percent_stored d) / 100) \<le> 1"
    using percent_table by blast+
  have up: "unat (of_nat (percent_stored d) :: u8) = percent_stored d"
    using assms(4) by (simp add: unat_of_nat percent_stored_def)
  have s': "s' = (setMode Manual (s\<lparr>controller := setManualDimming (f32 (of_nat d / 100)) (controller s)\<rparr>))
      \<lparr>pendingSaveConfig := True, bypassLoopDelay := True\<rparr>"
    using assms(3,5) ud by (simp add: payloadParser_def payload_switch_def)
  have m: "manualDimLevel (setManualDimming x l) = x" if "0 \<le> x" "x \<le> 1" for x l
    using that by (simp add: setManualDimming_def)
  have lvl: "manualDimLevel (controller s') = f32 (of_nat d / 100)" using d by (simp add: s' m)
  have "length (customCurve s') = 12" using assms(2) by (simp add: s' luminary_ok_def)
  then have "manualDimLevel (controller t) = f32 (of_nat (percent_stored d) / 100)"
    using byte_nvm.load_saved [OF assms(1), of s' n s0] assms(6) d(1) d' up lvl
    by (simp add: m del: of_nat_unat)
  with lvl show ?thesis by blast
qed

theorem manual_level_after_restart_witness:
  "manualDimLevel (controller (load_config array_read
     (snd (saveSmartcellConfig array_write (payloadParser [0x44, of_nat 53] 2 luminary_start, \<lambda>_. 0)))
     luminary_start)) = f32 (52 / 100)"
proof -
  have "\<not> systemReset luminary_start" by (simp add: luminary_start_def)
  then show ?thesis
    using manual_level_after_restart [OF byte_array.byte_nvm_axioms luminary_start_ok _ _ refl refl, of 53]
    by (simp add: percent_stored_def)
qed

section \<open>The waiting loop\<close>

lemma delay_loop_bounds:
  "i \<le> n \<Longrightarrow> delay_loop env i n s = (t, k) \<Longrightarrow>
     i \<le> k \<and> k \<le> n \<and> (k < n \<longrightarrow> loopsCount t = loopsToSend t)"
proof (induction env i n s rule: delay_loop.induct)
  case (1 env i n s)
  let ?d = "if currentMode (controller s) = Demo then s\<lparr>loopsCount := loopsToSend s\<rparr> else s"
  show ?case
  proof (cases "i < n \<and> \<not> bypassLoopDelay s \<and> \<not> (currentMode (controller ?d) = Demo \<and> 60 \<le> i)")
    case True
    then have "delay_loop env i n s = delay_loop env (Suc i) n (env i ?d)"
      by (simp add: delay_loop.simps [of env i n s] Let_def)
    with "1.prems" True "1.IH" [of ?d] show ?thesis by (simp add: Let_def)
  next
    case False
    with "1.prems" show ?thesis
      by (auto simp: delay_loop.simps [of env i n s] Let_def split: if_splits)
  qed
qed

lemma delay_loop_bypass:
  assumes "\<forall>s. bypassLoopDelay (env k s)"
  shows "i \<le> Suc k \<Longrightarrow> (i = Suc k \<Longrightarrow> bypassLoopDelay s) \<Longrightarrow> snd (delay_loop env i n s) \<le> max i (Suc k)"
  using assms
proof (induction env i n s rule: delay_loop.induct)
  case (1 env i n s)
  let ?d = "if currentMode (controller s) = Demo then s\<lparr>loopsCount := loopsToSend s\<rparr> else s"
  show ?case
  proof (cases "i < n \<and> \<not> bypassLoopDelay s \<and> \<not> (currentMode (controller ?d) = Demo \<and> 60 \<le> i)")
    case True
    then have e: "delay_loop env i n s = delay_loop env (Suc i) n (env i ?d)"
      by (simp add: delay_loop.simps [of env i n s] Let_def)
    have "i \<noteq> Suc k" using True "1.prems"(2) by blast
    then have "Suc i \<le> Suc k" using "1.prems"(1) by simp
    then have "snd (delay_loop env (Suc i) n (env i ?d)) \<le> max (Suc i) (Suc k)"
      using True "1.IH" [of ?d] "1.prems"(3) by auto
    with e \<open>Suc i \<le> Suc k\<close> show ?thesis by simp
  next
    case False
    then show ?thesis by (auto simp: delay_loop.simps [of env i n s] Let_def)
  qed
qed



text \<open>
  The randomised delay is the configured one give or take ten seconds as long as that fits
  16 bits; a loop delay of more than 65525 seconds can wrap to a few seconds.
\<close>

lemma this_delay_range:
  "(30 \<le> delay \<and> delay \<le> 65525 \<longrightarrow>
      int (unat (this_delay delay r)) = uint delay + int (r mod 21) - 10
      \<and> unat delay - 10 \<le> unat (this_delay delay r)
      \<and> unat (this_delay delay r) \<le> unat delay + 10)
   \<and> this_delay 65535 20 = 9"
proof -
  have "int (unat (this_delay delay r)) = uint delay + int (r mod 21) - 10"
    if "30 \<le> delay" "delay \<le> 65525"
  proof -
    have "30 \<le> uint delay" "uint delay \<le> 65525" using that by (simp_all add: word_le_def)
    moreover have "r mod 21 \<le> 20" by (simp add: less_Suc_eq_le [symmetric])
    ultimately have "0 \<le> uint delay + int (r mod 21) - 10"
      "uint delay + int (r mod 21) - 10 < 2 ^ LENGTH(16)" by simp_all
    then show ?thesis
      unfolding this_delay_def by (simp only: uint_nat [symmetric] uint_word_of_int mod_pos_pos_trivial)
  qed
  moreover have "r mod 21 \<le> 20" by (simp add: less_Suc_eq_le [symmetric])
  moreover have "this_delay 65535 20 = 9" by (simp add: this_delay_def)
  ultimately show ?thesis by (simp add: uint_nat del: of_nat_unat) linarith
qed

lemma this_delay_range_witness: "unat (this_delay 30 13) \<le> 40"
proof -
  have "(30 :: u16) \<le> 30 \<and> (30 :: u16) \<le> 65525" by simp
  then show ?thesis using this_delay_range [of 30 13] by auto
qed

end
