(* ===== verification/Sensors.thy ===== *)
theory Sensors
  imports Binary_Float
begin

text \<open>
  The sensors of lib/: the current sensor of the lamp, the pulse counter of a meter, and the
  light sensor ISL29011 on its I2C bus.
\<close>

section \<open>Current sensor\<close>

definition curr_sens :: rat where "curr_sens = f32 (f64 (1352 / 1000))"
definition thr_curr :: rat where "thr_curr = f32 (f64 (15 / 100))"

text \<open>
  \<open>CurrentSensor::getCurrent\<close>: the list has what the timer shows at each test of the loop, in
  milliseconds, and what the pin reads after it, between 0 and 1. The list may end first: then
  the loop has not returned.
\<close>

definition centred :: "rat \<Rightarrow> rat" where
  "centred reading = f32 (f64 (reading - 1 / 2))"

fun sample_loop :: "(int \<times> rat) list \<Rightarrow> rat \<Rightarrow> rat \<Rightarrow> (rat \<times> rat) option" where
  "sample_loop [] maximo minimo = None"
| "sample_loop ((ms, reading) # rs) maximo minimo =
     (if ms < 40
      then let current = centred reading;
               minimo = (if current < minimo then current else minimo);
               maximo = (if current > maximo then current else maximo)
           in sample_loop rs maximo minimo
      else Some (maximo, minimo))"

definition amperes :: "rat \<Rightarrow> rat \<Rightarrow> rat" where
  "amperes maximo minimo =
     (let current = f32 (f64 (f32 (f32 (maximo - minimo) * curr_sens) * f64 (33 / 10)))
      in if current < thr_curr then 0 else current)"

definition getCurrent :: "(int \<times> rat) list \<Rightarrow> rat option" where
  "getCurrent rs = (case sample_loop rs 0 1 of None \<Rightarrow> None
     | Some (maximo, minimo) \<Rightarrow> Some (amperes maximo minimo))"

text \<open>
  \<open>getCurrent(points)\<close>: one list per measurement. Without any the code divides 0 by 0, which is
  no number.
\<close>

fun sum_currents :: "rat \<Rightarrow> (int \<times> rat) list list \<Rightarrow> rat option" where
  "sum_currents average [] = Some average"
| "sum_currents average (rs # rss) = (case getCurrent rs of None \<Rightarrow> None
     | Some c \<Rightarrow> sum_currents (f32 (average + c)) rss)"

definition getCurrent_average :: "(int \<times> rat) list list \<Rightarrow> rat option" where
  "getCurrent_average rss = (if rss = [] then None
     else map_option (\<lambda>average. f32 (average / of_nat (length rss))) (sum_currents 0 rss))"

lemma sample_loop_extremes:
  assumes "\<forall>a\<in>set samples. fst a < 40" and "40 \<le> t"
  shows "sample_loop (samples @ (t, r) # rest) hi lo =
    Some (Max (insert hi (centred ` snd ` set samples)), Min (insert lo (centred ` snd ` set samples)))"
  using assms
proof (induction samples arbitrary: hi lo)
  case (Cons a samples)
  obtain ms x where a: "a = (ms, x)" by (cases a)
  have fin: "finite (centred ` snd ` set samples)" by simp
  have "Max (insert (if hi < centred x then centred x else hi) (centred ` snd ` set samples)) =
      Max (insert hi (insert (centred x) (centred ` snd ` set samples)))"
    using fin by (cases "set samples = {}") (auto simp: max_def)
  moreover have "Min (insert (if centred x < lo then centred x else lo) (centred ` snd ` set samples)) =
      Min (insert lo (insert (centred x) (centred ` snd ` set samples)))"
    using fin by (cases "set samples = {}") (auto simp: min_def)
  ultimately show ?case using Cons by (simp add: a Let_def)
qed simp



section \<open>Pulse counter\<close>

text \<open>
  \<open>pin\<close> is the level of the input, \<open>timeout\<close> the microseconds until the time-out of the filter fires,
  if it is armed.
\<close>

record pulse_counter =
  pin :: bool
  activeHigh :: bool
  filtered :: bool
  count :: u16
  divisor :: u32
  filtering :: bool
  timeout :: "nat option"

definition DEBUNCE_TIMEOUT_US :: nat where "DEBUNCE_TIMEOUT_US = 500"

definition PulseCounter :: "bool \<Rightarrow> bool \<Rightarrow> bool \<Rightarrow> u8 \<Rightarrow> pulse_counter" where
  "PulseCounter level active fil d = \<lparr>pin = level, activeHigh = active, filtered = fil, count = 0, divisor = ucast d,
     filtering = False, timeout = None\<rparr>"

definition increment :: "pulse_counter \<Rightarrow> pulse_counter" where
  "increment s = s\<lparr>count := count s + 1\<rparr>"

definition filterInit :: "pulse_counter \<Rightarrow> pulse_counter" where
  "filterInit s = (if filtering s then s else s\<lparr>filtering := True, timeout := Some DEBUNCE_TIMEOUT_US\<rparr>)"

definition filterCall :: "pulse_counter \<Rightarrow> pulse_counter" where
  "filterCall s =
     (let s = (if pin s = activeHigh s then increment s else s)
      in s\<lparr>filtering := False, timeout := None\<rparr>)"

text \<open>The value has 16 bits, but is cut to 8. Division by 0 is an error of the program.\<close>

definition pulse_read :: "pulse_counter \<Rightarrow> u16 option" where
  "pulse_read s = (if divisor s = 0 then None else Some (ucast (ucast (ucast (count s) div divisor s) :: u8)))"

definition pulse_reset :: "pulse_counter \<Rightarrow> pulse_counter" where
  "pulse_reset s = s\<lparr>count := 0\<rparr>"

text \<open>What happens to the counter: the input changes its level, or time passes.\<close>

definition set_pin :: "bool \<Rightarrow> pulse_counter \<Rightarrow> pulse_counter" where
  "set_pin b s =
     (let edge = (b \<noteq> pin s \<and> b = activeHigh s); s = s\<lparr>pin := b\<rparr>
      in if edge then if filtered s then filterInit s else increment s else s)"

definition pass_us :: "nat \<Rightarrow> pulse_counter \<Rightarrow> pulse_counter" where
  "pass_us n s = (case timeout s of None \<Rightarrow> s
     | Some t \<Rightarrow> if t \<le> n then filterCall s else s\<lparr>timeout := Some (t - n)\<rparr>)"

text \<open>A train of pulses: the input is active for \<open>h\<close> microseconds, then inactive for \<open>l\<close>.\<close>

fun pulse_train :: "(nat \<times> nat) list \<Rightarrow> pulse_counter \<Rightarrow> pulse_counter" where
  "pulse_train [] s = s"
| "pulse_train ((h, l) # ps) s =
     pulse_train ps (pass_us l (set_pin (\<not> activeHigh s) (pass_us h (set_pin (activeHigh s) s))))"

definition idle :: "pulse_counter \<Rightarrow> bool" where
  "idle s \<longleftrightarrow> pin s \<noteq> activeHigh s \<and> \<not> filtering s \<and> timeout s = None"

definition counts :: "pulse_counter \<Rightarrow> nat \<Rightarrow> bool" where
  "counts s h \<longleftrightarrow> filtered s \<longrightarrow> 500 \<le> h"

lemma one_pulse:
  assumes "idle s" and "filtered s \<longrightarrow> 500 \<le> h + l"
  shows "pass_us l (set_pin (\<not> activeHigh s) (pass_us h (set_pin (activeHigh s) s))) =
    s\<lparr>count := count s + (if counts s h then 1 else 0)\<rparr>"
proof -
  have p: "pin s = (\<not> activeHigh s)" "\<not> filtering s" "timeout s = None" using assms(1) by (auto simp: idle_def)
  show ?thesis
  proof (cases "filtered s")
    case False
    then show ?thesis using p by (cases s) (simp add: counts_def set_pin_def pass_us_def increment_def)
  next
    case True
    let ?u = "s\<lparr>pin := activeHigh s, filtering := True, timeout := Some 500\<rparr>"
    have u: "set_pin (activeHigh s) s = ?u"
      using p True by (simp add: set_pin_def filterInit_def DEBUNCE_TIMEOUT_US_def)
    show ?thesis
    proof (cases "500 \<le> h")
      case long: True
      then show ?thesis unfolding u using p True
        by (cases s) (simp add: counts_def set_pin_def pass_us_def filterCall_def increment_def)
    next
      case False
      then show ?thesis unfolding u using p True assms(2)
        by (cases s) (simp add: counts_def set_pin_def pass_us_def filterCall_def increment_def)
    qed
  qed
qed

lemma train_count:
  assumes "idle s" and "filtered s \<longrightarrow> (\<forall>(h, l)\<in>set ps. 500 \<le> h + l)"
  shows "pulse_train ps s = s\<lparr>count := count s + of_nat (length (filter (\<lambda>(h, l). counts s h) ps))\<rparr>"
  using assms
proof (induction ps arbitrary: s)
  case (Cons a ps)
  obtain h l where a: "a = (h, l)" by (cases a)
  let ?s = "s\<lparr>count := count s + (if counts s h then 1 else 0)\<rparr>"
  have "idle ?s" "filtered ?s \<longrightarrow> (\<forall>(h, l)\<in>set ps. 500 \<le> h + l)" using Cons.prems by (auto simp: idle_def)
  note IH = Cons.IH [OF this]
  have "counts ?s = counts s" by (simp add: counts_def fun_eq_iff)
  then show ?case using one_pulse [OF Cons.prems(1), of h l] Cons.prems(2) IH by (simp add: a)
qed simp



section \<open>Light sensor\<close>

text \<open>The values of the enumerations of \<open>ISL29011\<close> are bits of the two command registers.\<close>

datatype operation_mode = PWR_DOWN | ALS_ONCE | IR_ONCE | PROX_ONCE | ALS_CONT | IR_CONT | PROX_CONT
datatype int_persist = NUMCYCLE_1 | NUMCYCLE_2 | NUMCYCLE_4 | NUMCYCYLE_8 | NUMCYCLE_16
datatype prox_scheme = PROX_FULL | PROX_NR
datatype mod_freq = FREQ_DC | FREQ_360k
datatype led_drive = LED_12_5 | LED_25 | LED_50 | LED_100
datatype adc_resolution = ADC_16BIT | ADC_12BIT | ADC_8BIT | ADC_4BIT
datatype lux_range = RNG_1000 | RNG_4000 | RNG_16000 | RNG_64000

primrec op_mode_bits :: "operation_mode \<Rightarrow> u8" where
  "op_mode_bits PWR_DOWN = 0x00" | "op_mode_bits ALS_ONCE = 0x20" | "op_mode_bits IR_ONCE = 0x04"
| "op_mode_bits PROX_ONCE = 0xA0" | "op_mode_bits ALS_CONT = 0xC0" | "op_mode_bits IR_CONT = 0xE0"
| "op_mode_bits PROX_CONT = 0xE1"

primrec persist_bits :: "int_persist \<Rightarrow> u8" where
  "persist_bits NUMCYCLE_1 = 0" | "persist_bits NUMCYCLE_2 = 1" | "persist_bits NUMCYCLE_4 = 2"
| "persist_bits NUMCYCYLE_8 = 3" | "persist_bits NUMCYCLE_16 = 4"

primrec scheme_bits :: "prox_scheme \<Rightarrow> u8" where
  "scheme_bits PROX_FULL = 0x00" | "scheme_bits PROX_NR = 0x80"

primrec freq_bits :: "mod_freq \<Rightarrow> u8" where
  "freq_bits FREQ_DC = 0x00" | "freq_bits FREQ_360k = 0x40"

primrec drive_bits :: "led_drive \<Rightarrow> u8" where
  "drive_bits LED_12_5 = 0x00" | "drive_bits LED_25 = 0x10" | "drive_bits LED_50 = 0x20" | "drive_bits LED_100 = 0x30"

primrec resolution_bits :: "adc_resolution \<Rightarrow> u8" where
  "resolution_bits ADC_16BIT = 0x00" | "resolution_bits ADC_12BIT = 0x04" | "resolution_bits ADC_8BIT = 0x08"
| "resolution_bits ADC_4BIT = 0x0B"

primrec range_bits :: "lux_range \<Rightarrow> u8" where
  "range_bits RNG_1000 = 0" | "range_bits RNG_4000 = 1" | "range_bits RNG_16000 = 2" | "range_bits RNG_64000 = 3"

text \<open>The registers by their numbers, and the address of the sensor.\<close>

definition COMMAND1 :: u8 where "COMMAND1 = 0"
definition COMMAND2 :: u8 where "COMMAND2 = 1"
definition DATA_LSB :: u8 where "DATA_LSB = 2"
definition INT_LT_LSB :: u8 where "INT_LT_LSB = 4"
definition INT_LT_MSB :: u8 where "INT_LT_MSB = 5"
definition INT_HT_LSB :: u8 where "INT_HT_LSB = 6"
definition INT_HT_MSB :: u8 where "INT_HT_MSB = 7"
definition i2c_addr :: u8 where "i2c_addr = push_bit 1 0x44"

text \<open>
  The bus with all that is on it has a state \<open>'s\<close>. Writing and reading return a status, reading the
  buffer, which a failed transfer leaves in part. The mutex of the bus has no sequential effect.
\<close>

record 's i2c_bus =
  i2c_write :: "u8 \<Rightarrow> u8 list \<Rightarrow> bool \<Rightarrow> 's \<Rightarrow> int \<times> 's"
  i2c_read :: "u8 \<Rightarrow> u8 list \<Rightarrow> bool \<Rightarrow> 's \<Rightarrow> int \<times> u8 list \<times> 's"

definition writeRegister :: "'s i2c_bus \<Rightarrow> u8 \<Rightarrow> u8 \<Rightarrow> 's \<Rightarrow> u8 \<times> 's" where
  "writeRegister B reg data s = (let (r, s) = i2c_write B i2c_addr [reg, data] False s in (word_of_int r, s))"

definition readRegister :: "'s i2c_bus \<Rightarrow> u8 \<Rightarrow> u8 list \<Rightarrow> 's \<Rightarrow> u8 \<times> u8 list \<times> 's" where
  "readRegister B reg data s =
     (let (r, s) = i2c_write B i2c_addr [reg] True s; result = word_of_int r
      in if result \<noteq> 0 then (result, data, s)
         else let (r, data, s) = i2c_read B i2c_addr data False s in (result OR word_of_int r, data, s))"

text \<open>
  All settings read a register into a buffer that is not initialised (\<open>g\<close>), replace bits and write it
  back, also when the reading has failed.
\<close>

definition change_bits :: "'s i2c_bus \<Rightarrow> u8 \<Rightarrow> u8 \<Rightarrow> u8 \<Rightarrow> u8 \<Rightarrow> 's \<Rightarrow> u8 \<times> 's" where
  "change_bits B reg keep bits g s =
     (let (r1, datain, s) = readRegister B reg [g] s;
          dataout = (hd datain AND keep) OR bits;
          (r2, s) = writeRegister B reg dataout s
      in (r1 OR r2, s))"

definition setMode :: "'s i2c_bus \<Rightarrow> operation_mode \<Rightarrow> u8 \<Rightarrow> 's \<Rightarrow> u8 \<times> 's" where
  "setMode B op = change_bits B COMMAND1 0x1F (op_mode_bits op)"

definition setPersistence :: "'s i2c_bus \<Rightarrow> int_persist \<Rightarrow> u8 \<Rightarrow> 's \<Rightarrow> u8 \<times> 's" where
  "setPersistence B p = change_bits B COMMAND1 0xFC (persist_bits p)"

definition setProximity :: "'s i2c_bus \<Rightarrow> prox_scheme \<Rightarrow> mod_freq \<Rightarrow> led_drive \<Rightarrow> u8 \<Rightarrow> 's \<Rightarrow> u8 \<times> 's" where
  "setProximity B sc fr dr = change_bits B COMMAND2 0x0F (scheme_bits sc OR freq_bits fr OR drive_bits dr)"

definition setResolution :: "'s i2c_bus \<Rightarrow> adc_resolution \<Rightarrow> u8 \<Rightarrow> 's \<Rightarrow> u8 \<times> 's" where
  "setResolution B a = change_bits B COMMAND2 0xF3 (resolution_bits a)"

definition setRange :: "'s i2c_bus \<Rightarrow> lux_range \<Rightarrow> u8 \<Rightarrow> 's \<Rightarrow> u8 \<times> 's" where
  "setRange B l = change_bits B COMMAND2 0xFC (range_bits l)"

text \<open>The object: whether it polls, and the last reading.\<close>

record isl29011 =
  polling_mode :: bool
  lux_data :: u16

fun write_registers :: "'s i2c_bus \<Rightarrow> (u8 \<times> u8) list \<Rightarrow> u8 \<Rightarrow> 's \<Rightarrow> u8 \<times> 's" where
  "write_registers B [] result s = (result, s)"
| "write_registers B ((reg, data) # ws) result s = (let (r, s) = writeRegister B reg data s in write_registers B ws r s)"

text \<open>\<open>interrupt\<close> tells whether the sensor has an interrupt line.\<close>

definition isl_init :: "'s i2c_bus \<Rightarrow> bool \<Rightarrow> isl29011 \<Rightarrow> 's \<Rightarrow> u8 \<times> isl29011 \<times> 's" where
  "isl_init B interrupt o1 s =
     (let (result, s) = writeRegister B COMMAND1 0x00 s
      in if result = 0
         then let o1 = o1\<lparr>polling_mode := \<not> interrupt\<rparr>;
                  (result, s) = write_registers B [(COMMAND2, 0x00), (INT_LT_LSB, 0x00), (INT_LT_MSB, 0x00),
                    (INT_HT_LSB, 0xFF), (INT_HT_MSB, 0xFF)] result s
              in (result, o1, s)
         else (result, o1, s))"

definition getData :: "'s i2c_bus \<Rightarrow> u8 list \<Rightarrow> isl29011 \<Rightarrow> 's \<Rightarrow> u16 \<times> isl29011 \<times> 's" where
  "getData B g o1 s =
     (if polling_mode o1
      then let (_, datain, s) = readRegister B DATA_LSB g s;
               o1 = o1\<lparr>lux_data := push_bit 8 (ucast (datain ! 1)) OR ucast (datain ! 0)\<rparr>
           in (lux_data o1, o1, s)
      else (lux_data o1, o1, s))"

text \<open>What the driver needs of a sensor that answers: registers that keep what is written.\<close>

locale answering_sensor =
  fixes B :: "'s i2c_bus" and regs :: "'s \<Rightarrow> u8 \<Rightarrow> u8" and pointer :: "'s \<Rightarrow> u8"
  assumes write_data: "\<And>s. \<exists>s'. i2c_write B i2c_addr [r, d] False s = (0, s') \<and> regs s' = (regs s)(r := d)"
    and write_pointer: "\<And>s. \<exists>s'. i2c_write B i2c_addr [r] True s = (0, s') \<and> regs s' = regs s \<and> pointer s' = r"
    and read_data: "\<And>s. \<exists>s'. i2c_read B i2c_addr data False s =
      (0, map (\<lambda>i. regs s (pointer s + of_nat i)) [0..<length data], s') \<and> regs s' = regs s"
begin

lemma change: "\<exists>s'. change_bits B r m b g s = (0, s') \<and> regs s' = (regs s)(r := (regs s r AND m) OR b)"
proof -
  obtain s1 where s1: "i2c_write B i2c_addr [r] True s = (0, s1)" "regs s1 = regs s" "pointer s1 = r"
    using write_pointer by blast
  obtain s2 where s2: "i2c_read B i2c_addr [g] False s1 = (0, [regs s r], s2)" "regs s2 = regs s"
    using read_data [of "[g]" s1] s1 by auto
  obtain s3 where s3: "i2c_write B i2c_addr [r, (regs s r AND m) OR b] False s2 = (0, s3)"
    "regs s3 = (regs s2)(r := (regs s r AND m) OR b)" using write_data by blast
  show ?thesis using s1 s2 s3 by (simp add: change_bits_def readRegister_def writeRegister_def)
qed

lemma data: "length g = 2 \<Longrightarrow> polling_mode o1 \<Longrightarrow>
    fst (getData B g o1 s) = push_bit 8 (ucast (regs s 3)) OR ucast (regs s 2)"
proof -
  assume g: "length g = 2" "polling_mode o1"
  obtain s1 where s1: "i2c_write B i2c_addr [DATA_LSB] True s = (0, s1)" "regs s1 = regs s" "pointer s1 = DATA_LSB"
    using write_pointer by blast
  obtain s2 where "i2c_read B i2c_addr g False s1 = (0, map (\<lambda>i. regs s1 (pointer s1 + of_nat i)) [0..<length g], s2)"
    using read_data by blast
  then show ?thesis using s1 g by (simp add: getData_def readRegister_def DATA_LSB_def numeral_2_eq_2 upt_rec)
qed

end

text \<open>A sensor as the data sheet has it: a pointer into its registers, moved by reading.\<close>

definition sensor_bus :: "((u8 \<Rightarrow> u8) \<times> u8) i2c_bus" where
  "sensor_bus = \<lparr>i2c_write = \<lambda>a bs rep s. (case bs of
       [r] \<Rightarrow> (0, (fst s, r)) | [r, d] \<Rightarrow> (0, ((fst s)(r := d), r)) | _ \<Rightarrow> (1, s)),
     i2c_read = \<lambda>a data rep s. (0, map (\<lambda>i. fst s (snd s + of_nat i)) [0..<length data],
       (fst s, snd s + of_nat (length data)))\<rparr>"

interpretation sensor: answering_sensor sensor_bus fst snd
  by unfold_locales (simp_all add: sensor_bus_def)

text \<open>
  Settings in the same register leave each other alone, but for the resolution of 4 bits, whose value
  \<open>0x0B\<close> has the bits of the range.
\<close>

lemma resolution_range:
  "\<exists>s'. setResolution sensor_bus a g s = (0, s') \<and>
    fst s' COMMAND2 AND 3 = (if a = ADC_4BIT then range_bits RNG_64000 else fst s COMMAND2 AND 3)"
proof -
  have "((x AND 0xF3) OR resolution_bits a) AND 3 = (if a = ADC_4BIT then 3 else x AND 3)" for x :: u8
  proof -
    have "((x AND 0xF3) OR resolution_bits a) AND 3 = (x AND (0xF3 AND 3)) OR (resolution_bits a AND 3)"
      by (simp only: bit.conj_disj_distrib2 and.assoc)
    moreover have "(x AND (0xF3 AND 3)) OR (resolution_bits a AND 3) = (x AND 3) OR (resolution_bits a AND 3)" by simp
    moreover have "(x AND 3) OR 3 = 3" by (rule bit_word_eqI) (auto simp: bit_simps)
    ultimately show ?thesis by (cases a) simp_all
  qed
  then show ?thesis using sensor.change [of COMMAND2 "0xF3" "resolution_bits a" g s]
    by (auto simp: setResolution_def)
qed

end
