(* ===== verification/Led_Handler.thy ===== *)
theory Led_Handler
  imports Prelude
begin

text \<open>
  The status leds, lib/LedHandler. The state is the record of the data members with the level
  of the output pin and the pending timeout (\<open>LowPowerTimeout::attach\<close> arms it,
  \<open>detach\<close> disarms it); \<open>cicleCallback\<close> is what the timeout runs.
\<close>

section \<open>Data and operations\<close>

datatype led_mode = LedManual | LedCicle

record led_handler =
  led :: bool
  mode :: led_mode
  activeHigh :: bool
  cicleVector :: "rat list"
  cicleIndex :: u8
  cicleTimeout :: "rat option"
  oneTime :: bool

definition setOn :: "led_handler \<Rightarrow> led_handler" where
  "setOn h = h\<lparr>led := activeHigh h\<rparr>"

definition setOff :: "led_handler \<Rightarrow> led_handler" where
  "setOff h = h\<lparr>led := \<not> activeHigh h\<rparr>"

definition isOn :: "led_handler \<Rightarrow> bool" where
  "isOn h = (led h = activeHigh h)"

definition LedHandler :: "bool \<Rightarrow> led_handler" where
  "LedHandler act = setOff \<lparr>led = False, mode = LedManual, activeHigh = act, cicleVector = [],
     cicleIndex = 0, cicleTimeout = None, oneTime = False\<rparr>"

definition setManual :: "bool \<Rightarrow> led_handler \<Rightarrow> led_handler" where
  "setManual on h =
     (let h = h\<lparr>mode := LedManual, cicleTimeout := None\<rparr> in if on then setOn h else setOff h)"

definition toggle :: "led_handler \<Rightarrow> led_handler" where
  "toggle h = h\<lparr>mode := LedManual, cicleTimeout := None, led := \<not> led h\<rparr>"

definition setCicle :: "rat list \<Rightarrow> bool \<Rightarrow> led_handler \<Rightarrow> led_handler" where
  "setCicle v once h =
     (if length v < 2 then h
      else let h = setOn (h\<lparr>cicleVector := v, cicleIndex := 0, oneTime := once, mode := LedCicle\<rparr>)
           in h\<lparr>cicleTimeout := Some (cicleVector h ! 0)\<rparr>)"

text \<open>The second half of the callback: drive the led and arm the timeout for the new index.\<close>

definition cicle_phase :: "led_handler \<Rightarrow> led_handler" where
  "cicle_phase h =
     (let h = (if cicleIndex h mod 2 = 0 then setOn h else setOff h)
      in h\<lparr>cicleTimeout := Some (cicleVector h ! unat (cicleIndex h))\<rparr>)"

definition cicleCallback :: "led_handler \<Rightarrow> led_handler" where
  "cicleCallback h =
     (let h = h\<lparr>cicleTimeout := None, cicleIndex := cicleIndex h + 1\<rparr> in
      if length (cicleVector h) \<le> unat (cicleIndex h)
      then if oneTime h then setManual False h else cicle_phase (h\<lparr>cicleIndex := 0\<rparr>)
      else cicle_phase h)"

lemmas led_defs = setOn_def setOff_def isOn_def setManual_def toggle_def setCicle_def
  cicle_phase_def cicleCallback_def Let_def

section \<open>The cycle\<close>

text \<open>
  The timeout is armed exactly in cycle mode; then the vector has at least two times, the
  index is inside it, the armed time is the one at the index, and the led is on exactly at the
  even indices.
\<close>

definition led_ok :: "led_handler \<Rightarrow> bool" where
  "led_ok h \<longleftrightarrow> (mode h = LedCicle \<longleftrightarrow> cicleTimeout h \<noteq> None) \<and>
     (mode h = LedCicle \<longrightarrow>
        2 \<le> length (cicleVector h) \<and> unat (cicleIndex h) < length (cicleVector h)
        \<and> cicleTimeout h = Some (cicleVector h ! unat (cicleIndex h))
        \<and> isOn h = even (unat (cicleIndex h)))"

lemma even_u8: "(w :: u8) mod 2 = 0 \<longleftrightarrow> even (unat w)"
  by (metis odd_unat_u8)

lemma cicle_phase_ok:
  "2 \<le> length (cicleVector h) \<Longrightarrow> unat (cicleIndex h) < length (cicleVector h) \<Longrightarrow> mode h = LedCicle
     \<Longrightarrow> led_ok (cicle_phase h)"
  by (simp add: led_ok_def led_defs even_u8)

lemma setManual_ok: "led_ok (setManual on h)"
  by (simp add: led_ok_def led_defs)

lemma toggle_ok: "led_ok (toggle h)"
  by (simp add: led_ok_def toggle_def)

lemma LedHandler_ok: "led_ok (LedHandler act)"
  by (simp add: led_ok_def LedHandler_def setOff_def)

lemma setCicle_ok: "led_ok h \<Longrightarrow> led_ok (setCicle v once h)"
  by (cases "length v < 2") (auto simp: setCicle_def setOn_def isOn_def led_ok_def)

text \<open>
  C33: every operation and the timeout callback keep the led's cycle consistent: an armed
  timeout, an index inside the vector, and a led that is on in the even phases.
\<close>

theorem led_operations_keep_ok:
  "led_ok (LedHandler act) \<and> (led_ok h \<longrightarrow>
     led_ok (setManual on h) \<and> led_ok (toggle h) \<and> led_ok (setCicle v once h)
     \<and> (cicleTimeout h \<noteq> None \<longrightarrow> led_ok (cicleCallback h)))"
proof -
  have "led_ok (cicleCallback h)" if "led_ok h" "cicleTimeout h \<noteq> None"
  proof -
    have h: "mode h = LedCicle" "2 \<le> length (cicleVector h)" using that by (auto simp: led_ok_def)
    show ?thesis
    proof (cases "length (cicleVector h) \<le> unat (cicleIndex h + 1) \<and> oneTime h")
      case True
      then show ?thesis by (simp add: cicleCallback_def Let_def setManual_ok)
    next
      case False
      then have "cicleCallback h = cicle_phase (h\<lparr>cicleTimeout := None, cicleIndex :=
          (if length (cicleVector h) \<le> unat (cicleIndex h + 1) then 0 else cicleIndex h + 1)\<rparr>)"
        by (auto simp: cicleCallback_def Let_def)
      then show ?thesis using h by (auto intro!: cicle_phase_ok)
    qed
  qed
  then show ?thesis by (simp add: LedHandler_ok setManual_ok toggle_ok setCicle_ok)
qed

theorem led_operations_keep_ok_witness:
  "led_ok (cicleCallback (setCicle [1 / 5, 27 / 10] False (LedHandler False)))"
proof -
  have 1: "led_ok (setCicle [1 / 5, 27 / 10] False (LedHandler False))"
    using led_operations_keep_ok [of False "LedHandler False"] by blast
  have "cicleTimeout (setCicle [1 / 5, 27 / 10] False (LedHandler False)) \<noteq> None"
    by (simp add: led_defs)
  with 1 led_operations_keep_ok [of False "setCicle [1 / 5, 27 / 10] False (LedHandler False)"]
  show ?thesis by blast
qed

lemma callback_steps:
  assumes "2 \<le> length (cicleVector h)" and "length (cicleVector h) \<le> 255" and "mode h = LedCicle"
    and "cicleIndex h = 0" and "Suc k \<le> length (cicleVector h)"
  shows "cicleIndex ((cicleCallback ^^ k) h) = of_nat k \<and> mode ((cicleCallback ^^ k) h) = LedCicle
    \<and> cicleVector ((cicleCallback ^^ k) h) = cicleVector h
    \<and> oneTime ((cicleCallback ^^ k) h) = oneTime h"
  using assms(5)
proof (induction k)
  case 0
  then show ?case using assms by simp
next
  case (Suc k)
  have "unat (1 + of_nat k :: u8) = Suc k"
    using Suc.prems assms(2) by (intro unat_Suc_u8) simp
  with Suc show ?case by (simp add: led_defs add.commute)
qed



end
