(* ===== verification/SmartCell_Util.thy ===== *)
theory SmartCell_Util
  imports Luminary Rtc_Time
begin

text \<open>
  src/SmartCell_util.cpp: the clock helpers and the uplink frames, and src/dot_util.cpp's
  \<open>join_network\<close> loop. The xDot library (\<open>getGPSTime\<close>, \<open>getNetworkJoinStatus\<close>, \<open>send\<close>,
  \<open>joinNetwork\<close>) is a parameter: the successive results of its calls are arguments.
  \<open>time(NULL)\<close> is the 32-bit clock.
\<close>

section \<open>Clock\<close>

definition timeIsSynced :: "u32 \<Rightarrow> bool" where
  "timeIsSynced now = (1514764800 < now)"

definition getHour :: "u32 \<Rightarrow> u8" where
  "getHour now = ucast ((now div 3600) mod 24)"

definition getMinute :: "u32 \<Rightarrow> u8" where
  "getMinute now = ucast ((now div 60) mod 60)"

text \<open>
  \<open>static_cast<uint64_t>(315964782 + (timeZone * 3600))\<close>: \<open>timeZone\<close> is a \<open>float\<close>, so the
  integer constant is converted to \<open>float\<close> and the sum is a \<open>float\<close>.
\<close>

definition sync_offset :: "rat \<Rightarrow> u64" where
  "sync_offset timeZone = word_of_int \<lfloor>f32 (f32 315964782 + f32 (timeZone * 3600))\<rfloor>"

definition synced_time :: "rat \<Rightarrow> u64 \<Rightarrow> u32" where
  "synced_time timeZone received = ucast (received div 1000 + sync_offset timeZone)"

text \<open>\<open>gps\<close> is the list of the results of the successive \<open>getGPSTime()\<close> calls.\<close>

fun sync_attempts :: "rat \<Rightarrow> u64 list \<Rightarrow> u32 option" where
  "sync_attempts timeZone [] = None"
| "sync_attempts timeZone (received # gps) =
     (if 1198800018000 < received then Some (synced_time timeZone received)
      else sync_attempts timeZone gps)"

definition syncTime :: "u8 \<Rightarrow> rat \<Rightarrow> u64 list \<Rightarrow> u32 \<Rightarrow> u32 \<times> bool" where
  "syncTime attempts timeZone gps now =
     (case sync_attempts timeZone (take (unat attempts) gps) of
        Some t \<Rightarrow> (t, True) | None \<Rightarrow> (now, False))"

definition TIME_ZONE :: rat where "TIME_ZONE = -3"

section \<open>Uplink frames\<close>

definition light_status_frame :: "rat \<Rightarrow> rat \<Rightarrow> rat \<Rightarrow> u8 \<Rightarrow> u8 list" where
  "light_status_frame dimming watts watthours m =
     (let p16 = (word_of_int \<lfloor>watts\<rfloor> :: u16); e16 = (word_of_int \<lfloor>watthours\<rfloor> :: u16)
      in [of_char (CHR ''S''), ucast (drop_bit 8 p16), ucast p16, float_to_u8 (f32 (dimming * 100)),
          ucast (drop_bit 8 e16), ucast e16, m])"

definition config_frame :: "u8 \<Rightarrow> u8 \<Rightarrow> u16 \<Rightarrow> u8 \<Rightarrow> u8 list" where
  "config_frame lightMode manualDimming delay toSend =
     [of_char (CHR ''E''), lightMode, manualDimming, ucast (drop_bit 8 (delay AND 0xFF00)),
      ucast (delay AND 0x00FF), toSend]"

definition time_frame :: "u32 \<Rightarrow> u8 list" where
  "time_frame now =
     [of_char (CHR ''H''), ucast (drop_bit 24 (now AND 0xFF000000)),
      ucast (drop_bit 16 (now AND 0x00FF0000)), ucast (drop_bit 8 (now AND 0x0000FF00)),
      ucast (now AND 0x000000FF)]"

text \<open>
  The three \<open>send_...\<close> functions: nothing is sent unless the node has joined; otherwise the
  frame goes to \<open>send_data\<close>, whose status \<open>MDOT_OK\<close> is the parameter \<open>ok\<close>. The result is
  the frames sent and the returned flag.
\<close>

definition send_frame :: "bool \<Rightarrow> (u8 list \<Rightarrow> bool) \<Rightarrow> u8 list \<Rightarrow> u8 list list \<times> bool" where
  "send_frame joined ok frame = (if joined then ([frame], ok frame) else ([], False))"

definition send_lightStatus ::
    "bool \<Rightarrow> (u8 list \<Rightarrow> bool) \<Rightarrow> rat \<Rightarrow> rat \<Rightarrow> rat \<Rightarrow> u8 \<Rightarrow> u8 list list \<times> bool" where
  "send_lightStatus joined ok dimming watts watthours m =
     send_frame joined ok (light_status_frame dimming watts watthours m)"

definition send_smartCellConfig ::
    "bool \<Rightarrow> (u8 list \<Rightarrow> bool) \<Rightarrow> u8 \<Rightarrow> u8 \<Rightarrow> u16 \<Rightarrow> u8 \<Rightarrow> u8 list list \<times> bool" where
  "send_smartCellConfig joined ok lightMode manualDimming delay toSend =
     send_frame joined ok (config_frame lightMode manualDimming delay toSend)"

definition send_currentTime :: "bool \<Rightarrow> (u8 list \<Rightarrow> bool) \<Rightarrow> u32 \<Rightarrow> u8 list list \<times> bool" where
  "send_currentTime joined ok now = send_frame joined ok (time_frame now)"

section \<open>Joining the network\<close>

text \<open>
  \<open>join_network\<close>: up to \<open>maxAttempts\<close> calls of \<open>joinNetwork\<close>, stopping at the first success.
  Each failed attempt waits \<open>getNextTxMs() / 1000 + 1\<close> seconds. The list gives, for each
  attempt, whether it succeeds and the value of \<open>getNextTxMs()\<close> after it; the result is
  whether it joined, the number of attempts and the waits.
\<close>

fun join_attempts :: "nat \<Rightarrow> (bool \<times> u32) list \<Rightarrow> bool \<times> u32 list" where
  "join_attempts 0 rs = (False, [])"
| "join_attempts (Suc n) [] = (False, [])"
| "join_attempts (Suc n) ((ok, nextTx) # rs) =
     (if ok then (True, [])
      else let (j, ws) = join_attempts n rs in (j, (nextTx div 1000 + 1) # ws))"

definition join_network :: "u8 \<Rightarrow> (bool \<times> u32) list \<Rightarrow> bool \<times> u32 list" where
  "join_network maxAttempts rs = join_attempts (unat maxAttempts) rs"

section \<open>Properties\<close>

lemma ucast_and_ff: "(ucast ((x :: u32) AND 0xFF) :: u8) = ucast x"
proof -
  have m: "(0xFF :: u32) = mask 8" by (simp add: mask_eq_exp_minus_1)
  show ?thesis unfolding m by (rule bit_word_eqI) (simp add: bit_simps)
qed

lemma time_frame_bytes:
  "time_frame now = [of_char (CHR ''H''), ucast (drop_bit 24 now), ucast (drop_bit 16 now),
     ucast (drop_bit 8 now), ucast now]"
  by (simp add: time_frame_def drop_bit_and ucast_and_ff)

lemma be32_bytes:
  fixes t :: u32
  shows "be32 (ucast (drop_bit 24 t)) (ucast (drop_bit 16 t)) (ucast (drop_bit 8 t)) (ucast t) = t"
proof (rule bit_word_eqI)
  fix n
  assume n: "n < LENGTH(32)"
  then consider "n < 8" | "8 \<le> n" "n < 16" | "16 \<le> n" "n < 24" | "24 \<le> n" "n < 32" by fastforce
  then show "bit (be32 (ucast (drop_bit 24 t)) (ucast (drop_bit 16 t)) (ucast (drop_bit 8 t)) (ucast t)) n
      = bit t n"
    by cases (auto simp: be32_def bit_simps)
qed

text \<open>
  C35: the timestamp frame of an uplink carries the clock big-endian: a downlink \<open>A\<close> built from
  its four bytes sets the receiving node's clock to exactly that time.
\<close>

theorem timestamp_roundtrip:
  assumes "frame = time_frame now" and "\<not> systemReset s"
  shows "clock (payloadParser (0x41 # tl frame) 5 s) = now"
  using assms be32_bytes [of now]
  by (simp add: payloadParser_def payload_switch_def Let_def time_frame_bytes)

theorem timestamp_roundtrip_witness:
  "clock (payloadParser (0x41 # tl (time_frame 1600000000)) 5 luminary_start) = 1600000000"
  by (rule timestamp_roundtrip [OF refl]) (simp add: luminary_start_def)

text \<open>
  C36: the hour and minute the light modes are driven by are the ones of the calendar:
  \<open>getHour\<close> and \<open>getMinute\<close> agree with \<open>_rtc_localtime\<close> of the same clock, so they are a
  valid time of day.
\<close>

theorem clock_agrees_with_localtime:
  "map_option (\<lambda>t. (tm_hour t, tm_min t)) (rtc_localtime now True lys)
     = Some (uint (getHour now), uint (getMinute now))
   \<and> valid_time (getHour now) (getMinute now)"
proof -
  have c: "uint (ucast (x :: u32) :: u8) = uint x" if "uint x < 256" for x
    using that by (simp add: unsigned_ucast_eq take_bit_eq_mod)
  have h: "uint (getHour now) = uint now div 3600 mod 24"
    unfolding getHour_def by (subst c) (simp_all add: uint_mod_distrib uint_div_distrib order.strict_trans [OF pos_mod_bound])
  have m: "uint (getMinute now) = uint now div 60 mod 60"
    unfolding getMinute_def by (subst c) (simp_all add: uint_mod_distrib uint_div_distrib order.strict_trans [OF pos_mod_bound])
  obtain y r where "year_loop lys 70 (now div 60 div 60 div 24) = (y, r)"
    by (cases "year_loop lys 70 (now div 60 div 60 div 24)")
  then have "tm_hour (localtime_fields now lys) = uint now div 3600 mod 24"
    "tm_min (localtime_fields now lys) = uint now div 60 mod 60"
    by (simp_all add: localtime_fields_def Let_def uint_mod_distrib uint_div_distrib
        zdiv_zmult2_eq [symmetric])
  moreover have "valid_time (getHour now) (getMinute now)"
    by (simp add: valid_time_def word_less_def h m)
  ultimately show ?thesis using h m by (simp add: rtc_localtime_def)
qed

lemma sync_offset_value: "sync_offset TIME_ZONE = 315953984"
  by code_simp

text \<open>
  C37: \<open>syncTime\<close> takes the first plausible answer among its attempts. Because the constant
  315964782 is added in \<open>float\<close>, the offset for the configured time zone is 315953984 seconds,
  two more than the 315964782 - 3 * 3600 that is meant, so the clock is set two seconds late.
\<close>

theorem syncTime_sets_clock:
  "syncTime attempts TIME_ZONE gps now =
    (case filter (\<lambda>g. 1198800018000 < g) (take (unat attempts) gps) of
       [] \<Rightarrow> (now, False)
     | g # _ \<Rightarrow> (ucast (g div 1000 + (315964782 - 3 * 3600) + 2), True))"
proof -
  have "sync_attempts TIME_ZONE gs = (case filter (\<lambda>g. 1198800018000 < g) gs of [] \<Rightarrow> None
      | g # _ \<Rightarrow> Some (ucast (g div 1000 + (315964782 - 3 * 3600) + 2)))" for gs
    by (induction gs) (simp_all add: synced_time_def sync_offset_value add.assoc)
  then show ?thesis by (simp add: syncTime_def split: list.splits)
qed

text \<open>
  C38: \<open>join_network\<close> reports success exactly when one of its first \<open>maxAttempts\<close> attempts
  succeeds, waits at least one second after every failed attempt, and makes no attempt after
  the first success.
\<close>

theorem join_network_attempts:
  "fst (join_network maxAttempts rs) = (\<exists>r \<in> set (take (unat maxAttempts) rs). fst r)
   \<and> length (snd (join_network maxAttempts rs))
       = length (takeWhile (\<lambda>r. \<not> fst r) (take (unat maxAttempts) rs))
   \<and> list_all (\<lambda>w. 1 \<le> w) (snd (join_network maxAttempts rs))"
proof -
  have pos: "(1 :: u32) \<le> x div 1000 + 1" for x
  proof -
    have "unat (x div 1000) < 4294967295" using unat_u32_lt [of x] by (simp add: unat_div_distrib)
    then have "unat (x div 1000 + 1) = unat (x div 1000) + 1"
      by (simp add: unat_word_ariths)
    then show ?thesis by (simp add: word_le_nat_alt)
  qed
  have "fst (join_attempts n rs) = (\<exists>r \<in> set (take n rs). fst r)
     \<and> length (snd (join_attempts n rs)) = length (takeWhile (\<lambda>r. \<not> fst r) (take n rs))
     \<and> list_all (\<lambda>w. 1 \<le> w) (snd (join_attempts n rs))" for n
    by (induction n rs rule: join_attempts.induct) (auto simp: split_beta Let_def pos)
  then show ?thesis by (simp add: join_network_def)
qed

end
