(* ===== verification/Linked_List.thy ===== *)
theory Linked_List
  imports Prelude
begin

text \<open>
  Linked lists in an explicit store. A store maps the pointer of an object to the contents of
  one link field (\<open>None\<close> is the null pointer). \<open>path nx p xs q\<close> says that following
  \<open>nx\<close> from \<open>p\<close> visits exactly the objects \<open>xs\<close> and then stands at \<open>q\<close>;
  \<open>chain\<close> is a path to null. \<open>dchain\<close> adds the back links of a doubly linked list.
  The loops of the C code that walk such lists are partial functions on the store; the lemmas
  here give their results on chains.
\<close>

type_synonym 'p link = "'p \<Rightarrow> 'p option"

fun path :: "'p link \<Rightarrow> 'p option \<Rightarrow> 'p list \<Rightarrow> 'p option \<Rightarrow> bool" where
  "path nx p [] q = (p = q)"
| "path nx p (x # xs) q = (p = Some x \<and> path nx (nx x) xs q)"

abbreviation chain :: "'p link \<Rightarrow> 'p option \<Rightarrow> 'p list \<Rightarrow> bool" where
  "chain nx p xs \<equiv> path nx p xs None"

section \<open>Paths\<close>

lemma path_append: "path nx p (xs @ ys) q \<longleftrightarrow> (\<exists>r. path nx p xs r \<and> path nx r ys q)"
  by (induction xs arbitrary: p) auto

lemma path_upd [simp]: "x \<notin> set xs \<Longrightarrow> path (nx(x := v)) p xs q = path nx p xs q"
  by (induction xs arbitrary: p) auto

lemma path_cong: "(\<And>x. x \<in> set xs \<Longrightarrow> nx x = nx' x) \<Longrightarrow> path nx p xs q = path nx' p xs q"
  by (induction xs arbitrary: p) auto

lemma path_snoc: "path nx p (xs @ [x]) q \<longleftrightarrow> path nx p xs (Some x) \<and> nx x = q"
  by (auto simp: path_append)

lemma path_relink: "x \<notin> set xs \<Longrightarrow> path nx p xs (Some x) \<Longrightarrow> path (nx(x := q)) p (xs @ [x]) q"
  by (simp add: path_snoc)

lemma chain_None [simp]: "chain nx None xs \<longleftrightarrow> xs = []"
  by (cases xs) auto

lemma chain_Some [simp]: "chain nx (Some x) xs \<longleftrightarrow> (\<exists>ys. xs = x # ys \<and> chain nx (nx x) ys)"
  by (cases xs) auto

lemma path_end_unique: "path nx p xs r \<Longrightarrow> path nx p xs r' \<Longrightarrow> r = r'"
  by (induction xs arbitrary: p) auto

lemma chain_unique: "chain nx p xs \<Longrightarrow> chain nx p ys \<Longrightarrow> xs = ys"
proof (induction xs arbitrary: p ys)
  case Nil
  then show ?case by simp
next
  case (Cons x xs)
  then show ?case by fastforce
qed

lemma chain_start: "chain nx p xs \<Longrightarrow> p = (case xs of [] \<Rightarrow> None | x # _ \<Rightarrow> Some x)"
  by (cases xs) auto

lemma chain_suffix:
  "chain nx p (as @ x # bs) \<Longrightarrow> path nx p as (Some x) \<and> chain nx (nx x) bs"
  by (auto simp: path_append)

lemma chain_head_notin:
  assumes "chain nx (nx x) xs"
  shows "x \<notin> set xs"
proof
  assume "x \<in> set xs"
  then obtain as bs where xs: "xs = as @ x # bs" by (meson split_list)
  then have "chain nx (nx x) bs" using assms by (auto simp: path_append)
  then have "xs = bs" by (rule chain_unique [OF assms])
  then show False using xs by simp
qed

lemma chain_distinct: "chain nx p xs \<Longrightarrow> distinct xs"
  by (induction xs arbitrary: p) (auto dest: chain_head_notin)

lemma chain_next_in: "chain nx p xs \<Longrightarrow> a \<in> set xs \<Longrightarrow> nx a = Some b \<Longrightarrow> b \<in> set xs"
proof -
  assume c: "chain nx p xs" and "a \<in> set xs" and n: "nx a = Some b"
  then obtain us vs where xs: "xs = us @ a # vs" by (meson split_list)
  then have "chain nx (Some b) vs" using c n by (auto simp: path_append)
  then show ?thesis using xs by auto
qed

lemma chain_pred_later:
  assumes "chain nx p (us @ q # x # ws)" and "a \<in> set us" shows "nx a \<noteq> Some x"
proof
  assume n: "nx a = Some x"
  obtain as bs where us: "us = as @ a # bs" using assms(2) by (meson split_list)
  then have c: "chain nx (Some x) (bs @ q # x # ws)" using assms(1) n by (auto simp: path_append)
  then have "distinct (bs @ q # x # ws)" by (rule chain_distinct)
  then show False using c by (cases bs) auto
qed

lemma chain_length_finite: "chain nx p xs \<Longrightarrow> length xs = card (set xs)"
  using chain_distinct distinct_card by force

lemma chain_insert:
  assumes "chain nx p (as @ bs)" and "o' \<notin> set (as @ bs)" and "path nx p as r"
  shows "as = [] \<Longrightarrow> chain (nx(o' := p)) (Some o') (o' # bs)"
    and "as = cs @ [c] \<Longrightarrow> chain (nx(o' := r, c := Some o')) p (as @ o' # bs)"
proof -
  have r: "chain nx r bs"
    using assms(1,3) by (metis path_append path_end_unique)
  show "as = [] \<Longrightarrow> chain (nx(o' := p)) (Some o') (o' # bs)"
    using assms by simp
  assume as: "as = cs @ [c]"
  have d: "distinct (as @ bs)" using assms(1) by (rule chain_distinct)
  have "path nx p cs (Some c)" using assms(1) as by (auto simp: path_append)
  then show "chain (nx(o' := r, c := Some o')) p (as @ o' # bs)"
    using r d assms(2) as by (auto simp: path_append)
qed

section \<open>Doubly linked lists\<close>

text \<open>
  \<open>dpath nx pv a p xs q\<close>: the path from \<open>p\<close> to \<open>q\<close> whose first object points back to
  \<open>a\<close> and every other one to its predecessor. \<open>before a xs\<close> is the back link expected
  behind \<open>xs\<close>.
\<close>

fun dpath :: "'p link \<Rightarrow> 'p link \<Rightarrow> 'p option \<Rightarrow> 'p option \<Rightarrow> 'p list \<Rightarrow> 'p option \<Rightarrow> bool" where
  "dpath nx pv a p [] q = (p = q)"
| "dpath nx pv a p (x # xs) q = (p = Some x \<and> pv x = a \<and> dpath nx pv (Some x) (nx x) xs q)"

abbreviation dlist :: "'p link \<Rightarrow> 'p link \<Rightarrow> 'p option \<Rightarrow> 'p option \<Rightarrow> 'p list \<Rightarrow> bool" where
  "dlist nx pv a p xs \<equiv> dpath nx pv a p xs None"

definition before :: "'p option \<Rightarrow> 'p list \<Rightarrow> 'p option" where
  "before a xs = (if xs = [] then a else Some (last xs))"

lemma before_simps [simp]: "before a [] = a" "before a (x # xs) = before (Some x) xs"
  "before a (xs @ [x]) = Some x"
  by (simp_all add: before_def)

lemma before_append: "before a (xs @ ys) = before (before a xs) ys"
  by (simp add: before_def)

lemma dpath_append:
  "dpath nx pv a p (xs @ ys) q \<longleftrightarrow> (\<exists>r. dpath nx pv a p xs r \<and> dpath nx pv (before a xs) r ys q)"
  by (induction xs arbitrary: a p) auto

lemma dpath_path: "dpath nx pv a p xs q \<Longrightarrow> path nx p xs q"
  by (induction xs arbitrary: a p) auto

lemma dlist_distinct: "dlist nx pv a p xs \<Longrightarrow> distinct xs"
  by (blast intro: chain_distinct dpath_path)

lemma dpath_cong:
  "(\<And>x. x \<in> set xs \<Longrightarrow> nx x = nx' x \<and> pv x = pv' x) \<Longrightarrow> dpath nx pv a p xs q = dpath nx' pv' a p xs q"
  by (induction xs arbitrary: a p) auto

lemma dpath_upd [simp]:
  "y \<notin> set xs \<Longrightarrow> dpath (nx(y := v)) pv a p xs q = dpath nx pv a p xs q"
  "y \<notin> set xs \<Longrightarrow> dpath nx (pv(y := v)) a p xs q = dpath nx pv a p xs q"
  by (induction xs arbitrary: a p) auto

lemma dlist_None [simp]: "dlist nx pv a None xs \<longleftrightarrow> xs = []"
  by (cases xs) auto

lemma dlist_Some [simp]:
  "dlist nx pv a (Some x) xs \<longleftrightarrow> (\<exists>ys. xs = x # ys \<and> pv x = a \<and> dlist nx pv (Some x) (nx x) ys)"
  by (cases xs) auto

lemma dlist_start: "dlist nx pv a p xs \<Longrightarrow> p = (case xs of [] \<Rightarrow> None | x # _ \<Rightarrow> Some x)"
  by (cases xs) auto

lemma dlist_unique: "dlist nx pv a p xs \<Longrightarrow> dlist nx pv a p ys \<Longrightarrow> xs = ys"
  by (blast intro: chain_unique dpath_path)

text \<open>Linking an object in between, and taking one out; \<open>nx1\<close> and \<open>pv1\<close> are the new links.\<close>

lemma dlist_link:
  assumes "dpath nx pv a p as q" and "dlist nx pv (before a as) q bs"
    and d: "distinct (as @ bs)"
    and nx: "\<And>x. x \<in> set as \<Longrightarrow> x \<noteq> last as \<Longrightarrow> nx1 x = nx x" "\<And>x. x \<in> set bs \<Longrightarrow> nx1 x = nx x"
      "as \<noteq> [] \<Longrightarrow> nx1 (last as) = Some y" "nx1 y = q"
    and pv: "\<And>x. x \<in> set as \<Longrightarrow> pv1 x = pv x" "\<And>x. x \<in> set bs \<Longrightarrow> Some x \<noteq> q \<Longrightarrow> pv1 x = pv x"
      "pv1 y = before a as" "\<And>x. q = Some x \<Longrightarrow> pv1 x = Some y"
  shows "dlist nx1 pv1 a (if as = [] then Some y else p) (as @ y # bs)"
proof -
  have bs: "dlist nx1 pv1 (Some y) q bs"
  proof (cases bs)
    case Nil
    then show ?thesis using assms(2) by simp
  next
    case (Cons z zs)
    have q: "q = Some z" "dlist nx pv (Some z) (nx z) zs" using assms(2) Cons by simp_all
    have "dlist nx1 pv1 (Some z) (nx z) zs"
      using q d nx(2) pv(2) Cons by (subst dpath_cong [where nx' = nx and pv' = pv]) auto
    then show ?thesis using q Cons nx(2) pv(4) by simp
  qed
  show ?thesis
  proof (cases as rule: rev_cases)
    case Nil
    then show ?thesis using bs nx(4) pv(3) by simp
  next
    case (snoc cs c)
    have cs: "dpath nx pv a p cs (Some c)" "pv c = before a cs"
      using assms(1) snoc by (auto simp: dpath_append)
    have "dpath nx1 pv1 a p cs (Some c)"
      using cs(1) d nx(1) pv(1) snoc by (subst dpath_cong [where nx' = nx and pv' = pv]) auto
    moreover have "pv1 c = before a cs" using cs(2) pv(1) snoc by simp
    ultimately show ?thesis using snoc bs nx(3,4) pv(3) by (auto simp: dpath_append before_append)
  qed
qed

lemma dlist_unlink:
  assumes l: "dlist nx pv a p (as @ y # bs)"
    and nx: "\<And>x. x \<in> set as \<Longrightarrow> x \<noteq> last as \<Longrightarrow> nx1 x = nx x" "\<And>x. x \<in> set bs \<Longrightarrow> nx1 x = nx x"
      "as \<noteq> [] \<Longrightarrow> nx1 (last as) = nx y"
    and pv: "\<And>x. x \<in> set as \<Longrightarrow> pv1 x = pv x" "\<And>x. x \<in> set bs \<Longrightarrow> Some x \<noteq> nx y \<Longrightarrow> pv1 x = pv x"
      "\<And>x. nx y = Some x \<Longrightarrow> pv1 x = before a as"
  shows "dlist nx1 pv1 a (if as = [] then nx y else p) (as @ bs)"
proof -
  have d: "distinct (as @ y # bs)" using l by (rule dlist_distinct)
  have parts: "dpath nx pv a p as (Some y)" "dlist nx pv (Some y) (nx y) bs"
    using l by (auto simp: dpath_append)
  have bs: "dlist nx1 pv1 (before a as) (nx y) bs"
  proof (cases bs)
    case Nil
    then show ?thesis using parts(2) by simp
  next
    case (Cons z zs)
    have q: "nx y = Some z" "dlist nx pv (Some z) (nx z) zs" using parts(2) Cons by auto
    then have "dlist nx1 pv1 (Some z) (nx z) zs"
      using nx(2) pv(2) d Cons by (subst dpath_cong [where nx' = nx and pv' = pv]) auto
    then show ?thesis using q Cons nx(2) pv(3) by simp
  qed
  show ?thesis
  proof (cases as rule: rev_cases)
    case Nil
    then show ?thesis using bs by simp
  next
    case (snoc cs c)
    have cs: "dpath nx pv a p cs (Some c)" "pv c = before a cs"
      using parts(1) snoc by (auto simp: dpath_append)
    have "dpath nx1 pv1 a p cs (Some c)"
      using cs(1) nx(1) pv(1) d snoc by (subst dpath_cong [where nx' = nx and pv' = pv]) auto
    moreover have "pv1 c = before a cs" using cs(2) pv(1) snoc by simp
    ultimately show ?thesis using snoc bs nx(3) by (auto simp: dpath_append before_append)
  qed
qed

end
