(* ===== verification/Hal_Ticker.thy ===== *)
theory Hal_Ticker
  imports Linked_List
begin

text \<open>
  The ticker layer every timer of the node goes through, hal/mbed_ticker_api.c: a hardware
  counter of up to 32 bits is extended to a 64-bit microsecond clock, and the events of the
  program wait in a list ordered by time. The hardware is the record of functions
  \<open>ticker_interface_t\<close> of the code, over an arbitrary hardware state; \<open>ticker_event_t\<close>
  objects are pointers with their fields in the store. The critical sections guard against
  interrupts and have no sequential effect.

  Operations that can stop in \<open>MBED_ASSERT\<close> or \<open>MBED_ERROR\<close> (the project defines
  \<open>MBED_TRAP_ERRORS_ENABLED\<close>) return an option: \<open>None\<close> is the halted processor, and
  for the interrupt handler also a dispatch that never ends.
\<close>

section \<open>Data\<close>

record 'h ticker_interface =
  init :: "'h \<Rightarrow> 'h"
  read :: "'h \<Rightarrow> u32 \<times> 'h"
  clear_interrupt :: "'h \<Rightarrow> 'h"
  set_interrupt :: "u32 \<Rightarrow> 'h \<Rightarrow> 'h"
  fire_interrupt :: "'h \<Rightarrow> 'h"
  get_info :: "u32 \<times> u32"

text \<open>\<open>ticker_event_queue_t\<close>, the fields of the event objects, and the hardware.\<close>

record ('p, 'f, 'h) ticker =
  event_handler :: "'f option"
  head :: "'p option"
  frequency :: u32
  bitmask :: u32
  max_delta :: u32
  max_delta_us :: u64
  tick_last_read :: u32
  tick_remainder :: u64
  present_time :: u64
  initialized :: bool
  dispatching :: bool
  suspended :: bool
  frequency_shifts :: u8
  ev_timestamp :: "'p \<Rightarrow> u64"
  ev_id :: "'p \<Rightarrow> u32"
  ev_next :: "'p link"
  hw :: 'h

section \<open>Operations\<close>

definition convert_timestamp :: "u64 \<Rightarrow> u32 \<Rightarrow> u64" where
  "convert_timestamp ref timestamp =
     (let overflow = timestamp < ucast ref;
          result = (ref AND NOT 0xFFFFFFFF) OR ucast timestamp
      in if overflow then result + push_bit 32 1 else result)"

text \<open>The part of \<open>update_present_time\<close> that accounts for elapsed ticks.\<close>

definition advance_time :: "u32 \<Rightarrow> ('p, 'f, 'h) ticker \<Rightarrow> ('p, 'f, 'h) ticker" where
  "advance_time elapsed t =
     (let elapsed_ticks = (ucast elapsed :: u64) in
      if frequency t = 1000000 then t\<lparr>present_time := present_time t + elapsed_ticks\<rparr>
      else
        let us_x_ticks = elapsed_ticks * 1000000;
            elapsed_us = (if frequency_shifts t \<noteq> 0
              then drop_bit (unat (frequency_shifts t)) us_x_ticks
              else us_x_ticks div ucast (frequency t));
            whole = (if frequency_shifts t \<noteq> 0
              then push_bit (unat (frequency_shifts t)) elapsed_us
              else elapsed_us * ucast (frequency t));
            remainder = tick_remainder t + (us_x_ticks - whole)
        in if ucast (frequency t) \<le> remainder
           then t\<lparr>tick_remainder := remainder - ucast (frequency t),
                  present_time := present_time t + (elapsed_us + 1)\<rparr>
           else t\<lparr>tick_remainder := remainder, present_time := present_time t + elapsed_us\<rparr>)"

definition update_present_time ::
    "'h ticker_interface \<Rightarrow> ('p, 'f, 'h) ticker \<Rightarrow> ('p, 'f, 'h) ticker" where
  "update_present_time i t =
     (if suspended t then t
      else let (ticker_time, h) = read i (hw t); t = t\<lparr>hw := h\<rparr> in
        if ticker_time = tick_last_read t then t
        else advance_time ((ticker_time - tick_last_read t) AND bitmask t)
               (t\<lparr>tick_last_read := ticker_time\<rparr>))"

definition compute_tick_round_up :: "('p, 'f, 'h) ticker \<Rightarrow> u64 \<Rightarrow> u32" where
  "compute_tick_round_up t timestamp =
     (let delta_us = timestamp - present_time t;
          delta = (if delta_us \<le> max_delta_us t then
             let delta = (if frequency t = 1000000 then ucast delta_us
                   else if frequency_shifts t \<noteq> 0 then
                     ucast ((push_bit (unat (frequency_shifts t)) delta_us + 1000000 - 1) div 1000000)
                   else ucast ((delta_us * ucast (frequency t) + 1000000 - 1) div 1000000))
             in if max_delta t < delta then max_delta t else delta
           else max_delta t)
      in (tick_last_read t + delta) AND bitmask t)"

definition ticker_match_interval_passed :: "u32 \<Rightarrow> u32 \<Rightarrow> u32 \<Rightarrow> bool" where
  "ticker_match_interval_passed prev_tick cur_tick match_tick =
     (if prev_tick < match_tick then match_tick \<le> cur_tick \<or> cur_tick < prev_tick
      else cur_tick < prev_tick \<and> match_tick \<le> cur_tick)"

definition schedule_interrupt ::
    "'h ticker_interface \<Rightarrow> ('p, 'f, 'h) ticker \<Rightarrow> ('p, 'f, 'h) ticker option" where
  "schedule_interrupt i t =
     (if suspended t \<or> dispatching t then Some t
      else let t = update_present_time i t in
        case head t of
          Some p \<Rightarrow>
            if ev_timestamp t p \<le> present_time t
            then Some (t\<lparr>hw := fire_interrupt i (hw t)\<rparr>)
            else
              let match_tick = compute_tick_round_up t (ev_timestamp t p) in
              if match_tick = tick_last_read t then None
              else
                let (cur_tick, h) = read i (set_interrupt i match_tick (hw t))
                in if ticker_match_interval_passed (tick_last_read t) cur_tick match_tick
                   then Some (t\<lparr>hw := fire_interrupt i h\<rparr>)
                   else Some (t\<lparr>hw := h\<rparr>)
        | None \<Rightarrow>
            let match_tick = (tick_last_read t + max_delta t) AND bitmask t
            in Some (t\<lparr>hw := set_interrupt i match_tick (hw t)\<rparr>))"

text \<open>The search \<open>for (i = 31; i > 0; --i)\<close> for a power of two.\<close>

fun find_shifts :: "nat \<Rightarrow> u32 \<Rightarrow> u8" where
  "find_shifts 0 f = 0"
| "find_shifts (Suc k) f = (if push_bit (Suc k) 1 = f then of_nat (Suc k) else find_shifts k f)"

definition initialize ::
    "'h ticker_interface \<Rightarrow> ('p, 'f, 'h) ticker \<Rightarrow> ('p, 'f, 'h) ticker option" where
  "initialize i t =
     (if initialized t \<or> suspended t then Some t
      else let t = t\<lparr>hw := init i (hw t)\<rparr>; (freq, bits) = get_info i in
        if freq = 0 then None
        else if 32 < bits \<or> bits < 4 then None
        else
          let delta = push_bit (unat (bits - 4)) 7;
              delta_us = (ucast delta * 1000000 + ucast freq - 1) div (ucast freq :: u64);
              (now, h) = read i (hw t);
              t = t\<lparr>event_handler := None, head := None, tick_last_read := now,
                    tick_remainder := 0, frequency := freq, frequency_shifts := find_shifts 31 freq,
                    bitmask := ucast (push_bit (unat bits) (1 :: u64) - 1), max_delta := delta,
                    max_delta_us := delta_us, present_time := 0, dispatching := False,
                    suspended := False, initialized := True, hw := h\<rparr>
          in schedule_interrupt i (update_present_time i t))"

definition ticker_set_handler ::
    "'h ticker_interface \<Rightarrow> 'f option \<Rightarrow> ('p, 'f, 'h) ticker \<Rightarrow> ('p, 'f, 'h) ticker option" where
  "ticker_set_handler i handler t = map_option (event_handler_update (\<lambda>_. handler)) (initialize i t)"

text \<open>
  The loop of \<open>ticker_irq_handler\<close>. \<open>call f id t\<close> is what the handler \<open>f\<close> does to the
  ticker when it is called with \<open>id\<close>.
\<close>

partial_function (option) dispatch_loop ::
    "'h ticker_interface \<Rightarrow> ('f \<Rightarrow> u32 \<Rightarrow> ('p, 'f, 'h) ticker \<Rightarrow> ('p, 'f, 'h) ticker option)
     \<Rightarrow> ('p, 'f, 'h) ticker \<Rightarrow> ('p, 'f, 'h) ticker option" where
  "dispatch_loop i call t =
     (case head t of None \<Rightarrow> Some t
      | Some p \<Rightarrow>
        let t = update_present_time i t in
        if ev_timestamp t p \<le> present_time t then
          let t = t\<lparr>head := ev_next t p\<rparr> in
          case event_handler t of
            None \<Rightarrow> dispatch_loop i call t
          | Some f \<Rightarrow> Option.bind (call f (ev_id t p) t) (dispatch_loop i call)
        else Some t)"

definition ticker_irq_handler ::
    "'h ticker_interface \<Rightarrow> ('f \<Rightarrow> u32 \<Rightarrow> ('p, 'f, 'h) ticker \<Rightarrow> ('p, 'f, 'h) ticker option)
     \<Rightarrow> ('p, 'f, 'h) ticker \<Rightarrow> ('p, 'f, 'h) ticker option" where
  "ticker_irq_handler i call t =
     (let t = t\<lparr>hw := clear_interrupt i (hw t)\<rparr> in
      if suspended t then Some t
      else Option.bind (dispatch_loop i call (t\<lparr>dispatching := True\<rparr>))
             (\<lambda>t. schedule_interrupt i (t\<lparr>dispatching := False\<rparr>)))"

text \<open>The walk to the insertion point: the previous element and the one to come before.\<close>

partial_function (option) find_place ::
    "('p \<Rightarrow> u64) \<Rightarrow> 'p link \<Rightarrow> u64 \<Rightarrow> 'p option \<Rightarrow> 'p option \<Rightarrow> ('p option \<times> 'p option) option" where
  "find_place ts nx timestamp prev p =
     (case p of None \<Rightarrow> Some (prev, None)
      | Some q \<Rightarrow> if timestamp < ts q then Some (prev, p)
                  else find_place ts nx timestamp (Some q) (nx q))"

definition ticker_insert_event_us ::
    "'h ticker_interface \<Rightarrow> 'p \<Rightarrow> u64 \<Rightarrow> u32 \<Rightarrow> ('p, 'f, 'h) ticker \<Rightarrow> ('p, 'f, 'h) ticker option" where
  "ticker_insert_event_us i obj timestamp ident t =
     (let t = update_present_time i t;
          t = t\<lparr>ev_timestamp := (ev_timestamp t)(obj := timestamp), ev_id := (ev_id t)(obj := ident)\<rparr>
      in case find_place (ev_timestamp t) (ev_next t) timestamp None (head t) of
           None \<Rightarrow> None
         | Some (prev, p) \<Rightarrow>
           let t = t\<lparr>ev_next := (ev_next t)(obj := p)\<rparr>;
               t = (case prev of None \<Rightarrow> t\<lparr>head := Some obj\<rparr>
                    | Some q \<Rightarrow> t\<lparr>ev_next := (ev_next t)(q := Some obj)\<rparr>)
           in if prev = None \<or> timestamp \<le> present_time t then schedule_interrupt i t else Some t)"

definition ticker_insert_event ::
    "'h ticker_interface \<Rightarrow> 'p \<Rightarrow> u32 \<Rightarrow> u32 \<Rightarrow> ('p, 'f, 'h) ticker \<Rightarrow> ('p, 'f, 'h) ticker option" where
  "ticker_insert_event i obj timestamp ident t =
     (let t = update_present_time i t
      in ticker_insert_event_us i obj (convert_timestamp (present_time t) timestamp) ident t)"

text \<open>The loop of \<open>ticker_remove_event\<close>: the links with \<open>obj\<close> taken out behind its predecessor.\<close>

partial_function (option) unlink_event :: "'p \<Rightarrow> 'p option \<Rightarrow> 'p link \<Rightarrow> 'p link option" where
  "unlink_event obj p nx =
     (case p of None \<Rightarrow> Some nx
      | Some q \<Rightarrow> if nx q = Some obj then Some (nx(q := nx obj)) else unlink_event obj (nx q) nx)"

definition ticker_remove_event ::
    "'h ticker_interface \<Rightarrow> 'p \<Rightarrow> ('p, 'f, 'h) ticker \<Rightarrow> ('p, 'f, 'h) ticker option" where
  "ticker_remove_event i obj t =
     (if head t = Some obj then schedule_interrupt i (t\<lparr>head := ev_next t obj\<rparr>)
      else map_option (\<lambda>nx. t\<lparr>ev_next := nx\<rparr>) (unlink_event obj (head t) (ev_next t)))"

definition ticker_read_us ::
    "'h ticker_interface \<Rightarrow> ('p, 'f, 'h) ticker \<Rightarrow> (('p, 'f, 'h) ticker \<times> u64) option" where
  "ticker_read_us i t =
     map_option (\<lambda>t. let t = update_present_time i t in (t, present_time t)) (initialize i t)"

definition ticker_read ::
    "'h ticker_interface \<Rightarrow> ('p, 'f, 'h) ticker \<Rightarrow> (('p, 'f, 'h) ticker \<times> u32) option" where
  "ticker_read i t = map_option (\<lambda>(t, us). (t, ucast us)) (ticker_read_us i t)"

text \<open>The result 1 with the timestamp written is \<open>Some\<close>, the result 0 is \<open>None\<close>.\<close>

definition ticker_get_next_timestamp :: "('p, 'f, 'h) ticker \<Rightarrow> u32 option" where
  "ticker_get_next_timestamp t = map_option (\<lambda>p. ucast (ev_timestamp t p)) (head t)"

definition ticker_suspend :: "('p, 'f, 'h) ticker \<Rightarrow> ('p, 'f, 'h) ticker" where
  "ticker_suspend t = t\<lparr>suspended := True\<rparr>"

definition ticker_resume ::
    "'h ticker_interface \<Rightarrow> ('p, 'f, 'h) ticker \<Rightarrow> ('p, 'f, 'h) ticker option" where
  "ticker_resume i t =
     (let t = t\<lparr>suspended := False\<rparr> in
      if initialized t then
        let (now, h) = read i (hw t)
        in schedule_interrupt i (update_present_time i (t\<lparr>tick_last_read := now, hw := h\<rparr>))
      else initialize i t)"

section \<open>The clock\<close>

definition timing_ok :: "nat \<Rightarrow> ('p, 'f, 'h) ticker \<Rightarrow> bool" where
  "timing_ok bits t \<longleftrightarrow> 4 \<le> bits \<and> bits \<le> 32 \<and> frequency t \<noteq> 0 \<and> bitmask t = mask bits
     \<and> unat (max_delta t) = 7 * 2 ^ (bits - 4)
     \<and> unat (max_delta_us t) = (7 * 2 ^ (bits - 4) * 1000000 + unat (frequency t) - 1) div unat (frequency t)
     \<and> unat (tick_remainder t) < unat (frequency t)
     \<and> (frequency_shifts t \<noteq> 0 \<longrightarrow> unat (frequency t) = 2 ^ unat (frequency_shifts t))
     \<and> tick_last_read t AND mask bits = tick_last_read t"

lemma find_shifts_power:
  "k \<le> 31 \<Longrightarrow> find_shifts k f \<noteq> 0 \<Longrightarrow> unat f = 2 ^ unat (find_shifts k f)"
proof (induction k)
  case 0
  then show ?case by simp
next
  case (Suc k)
  show ?case
  proof (cases "push_bit (Suc k) 1 = f")
    case True
    have "unat (push_bit (Suc k) (1 :: u32)) = 2 ^ Suc k"
      using Suc.prems(1) by (simp add: push_bit_eq_mult unat_2p del: push_bit_of_1 power_Suc)
    moreover have "unat (of_nat (Suc k) :: u8) = Suc k"
      using Suc.prems(1) by (intro unat_of_nat_eq) simp
    ultimately show ?thesis using True by (simp del: of_nat_Suc push_bit_of_1)
  next
    case False
    then show ?thesis using Suc by simp
  qed
qed

lemma shifts_lt_32:
  assumes "unat (f :: u32) = 2 ^ n" shows "n < 32"
proof (rule ccontr)
  assume "\<not> n < 32"
  then have "(2::nat) ^ 32 \<le> 2 ^ n" by (intro power_increasing) simp_all
  then show False using unat_u32_lt [of f] assms by simp
qed

text \<open>One update: the microseconds added account for the ticks to within the remainder.\<close>

lemma advance_time_account:
  fixes t :: "('p, 'f, 'h) ticker"
  assumes "frequency t \<noteq> 0" and r: "unat (tick_remainder t) < unat (frequency t)"
    and sh: "frequency_shifts t \<noteq> 0 \<Longrightarrow> unat (frequency t) = 2 ^ unat (frequency_shifts t)"
  obtains us where "present_time (advance_time e t) = present_time t + of_nat us"
    and "us * unat (frequency t) + unat (tick_remainder (advance_time e t))
           = unat e * 1000000 + unat (tick_remainder t)"
    and "unat (tick_remainder (advance_time e t)) < unat (frequency t)"
proof (cases "frequency t = 1000000")
  case True
  show ?thesis
  proof (rule that [of "unat e"])
    show "present_time (advance_time e t) = present_time t + of_nat (unat e)"
      using True by (simp add: advance_time_def)
    show "unat e * unat (frequency t) + unat (tick_remainder (advance_time e t))
        = unat e * 1000000 + unat (tick_remainder t)"
      using True by (simp add: advance_time_def)
    show "unat (tick_remainder (advance_time e t)) < unat (frequency t)"
      using True r by (simp add: advance_time_def)
  qed
next
  case False
  define f where "f = unat (frequency t)"
  define x where "x = (ucast e * 1000000 :: u64)"
  define us where "us = (if frequency_shifts t \<noteq> 0 then drop_bit (unat (frequency_shifts t)) x
    else x div ucast (frequency t))"
  define whole where "whole = (if frequency_shifts t \<noteq> 0
    then push_bit (unat (frequency_shifts t)) us else us * ucast (frequency t))"
  define rm where "rm = tick_remainder t + (x - whole)"
  have f: "0 < f" "f < 4294967296"
    using assms(1) unat_u32_lt [of "frequency t"] by (auto simp: f_def unat_eq_zero word_neq_0_conv unat_gt_0)
  have uf: "unat (ucast (frequency t) :: u64) = f" by (simp add: f_def unat_ucast_widen)
  have ux: "unat x = unat e * 1000000"
    using unat_u32_lt [of e] by (simp add: x_def unat_word_ariths unat_ucast_widen)
  have uus: "unat us = unat x div f"
  proof (cases "frequency_shifts t \<noteq> 0")
    case True
    then show ?thesis using sh by (simp add: us_def unat_drop_bit_eq f_def drop_bit_nat_def)
  next
    case False
    then show ?thesis by (simp add: us_def unat_div_distrib uf)
  qed
  have le: "unat us * f \<le> unat x" unfolding uus by simp
  have "unat x < 2 ^ 64" using unat_u64_lt [of x] by simp
  then have lt: "unat us * f < 2 ^ 64" using le by simp
  have uw: "unat whole = unat us * f"
  proof (cases "frequency_shifts t \<noteq> 0")
    case True
    then have "whole = us * 2 ^ unat (frequency_shifts t)" by (simp add: whole_def push_bit_eq_mult)
    moreover have "unat (2 ^ unat (frequency_shifts t) :: u64) = f"
      using sh True shifts_lt_32 [of "frequency t"] by (simp add: f_def unat_2p)
    ultimately show ?thesis using lt by (simp add: unat_word_ariths)
  next
    case False
    then show ?thesis using lt by (simp add: whole_def unat_word_ariths uf)
  qed
  have "unat (x - whole) = unat x - unat us * f"
    using le uw by (subst unat_sub_le) (simp_all add: word_le_nat_alt)
  moreover have "unat x - unat us * f = unat x mod f" by (simp add: uus minus_div_mult_eq_mod)
  moreover have xf: "unat x mod f < f" using f by simp
  then have "unat (tick_remainder t) + unat x mod f < 18446744073709551616"
    using r f by (simp add: f_def [symmetric] del: mod_less_divisor)
  ultimately have urm: "unat rm = unat (tick_remainder t) + unat x mod f"
    by (simp only: rm_def unat_word_ariths) simp
  have adv: "advance_time e t = (if ucast (frequency t) \<le> rm
      then t\<lparr>tick_remainder := rm - ucast (frequency t), present_time := present_time t + (us + 1)\<rparr>
      else t\<lparr>tick_remainder := rm, present_time := present_time t + us\<rparr>)"
    using False by (simp add: advance_time_def Let_def x_def us_def whole_def rm_def)
  have sum: "unat us * f + unat x mod f = unat e * 1000000"
    unfolding uus by (simp add: ux [symmetric])
  show ?thesis
  proof (cases "ucast (frequency t) \<le> rm")
    case True
    have u: "unat (rm - ucast (frequency t)) = unat rm - f"
      using True by (simp add: unat_sub_le uf)
    have ge: "f \<le> unat rm" using True by (simp add: word_le_nat_alt uf)
    show ?thesis
    proof (rule that [of "Suc (unat us)"])
      show "present_time (advance_time e t) = present_time t + of_nat (Suc (unat us))"
        using True by (simp add: adv)
      show "Suc (unat us) * unat (frequency t) + unat (tick_remainder (advance_time e t))
          = unat e * 1000000 + unat (tick_remainder t)"
        using True sum ge by (simp add: adv u f_def [symmetric] urm)
      show "unat (tick_remainder (advance_time e t)) < unat (frequency t)"
        using True r xf ge urm by (simp add: adv u f_def [symmetric] del: mod_less_divisor)
    qed
  next
    case False
    show ?thesis
    proof (rule that [of "unat us"])
      show "present_time (advance_time e t) = present_time t + of_nat (unat us)"
        using False by (simp add: adv)
      show "unat us * unat (frequency t) + unat (tick_remainder (advance_time e t))
          = unat e * 1000000 + unat (tick_remainder t)"
        using False sum by (simp add: adv f_def [symmetric] urm)
      show "unat (tick_remainder (advance_time e t)) < unat (frequency t)"
        using False by (simp add: adv f_def [symmetric] word_le_nat_alt uf not_le)
    qed
  qed
qed

lemma advance_time_frame [simp]:
  "frequency (advance_time e t) = frequency t" "frequency_shifts (advance_time e t) = frequency_shifts t"
  "bitmask (advance_time e t) = bitmask t" "max_delta (advance_time e t) = max_delta t"
  "max_delta_us (advance_time e t) = max_delta_us t"
  "tick_last_read (advance_time e t) = tick_last_read t" "hw (advance_time e t) = hw t"
  "head (advance_time e t) = head t" "ev_next (advance_time e t) = ev_next t"
  "ev_timestamp (advance_time e t) = ev_timestamp t" "ev_id (advance_time e t) = ev_id t"
  "event_handler (advance_time e t) = event_handler t" "initialized (advance_time e t) = initialized t"
  "dispatching (advance_time e t) = dispatching t" "suspended (advance_time e t) = suspended t"
  by (simp_all add: advance_time_def Let_def)

lemma advance_time_ex:
  assumes "timing_ok bits t"
  shows "\<exists>us. present_time (advance_time e t) = present_time t + of_nat us
    \<and> us * unat (frequency t) + unat (tick_remainder (advance_time e t))
        = unat e * 1000000 + unat (tick_remainder t)
    \<and> unat (tick_remainder (advance_time e t)) < unat (frequency t)"
  by (rule advance_time_account [of t e]) (use assms in \<open>auto simp: timing_ok_def\<close>)

lemma advance_time_ok: "timing_ok bits t \<Longrightarrow> timing_ok bits (advance_time e t)"
  using advance_time_ex [of bits t e] by (auto simp: timing_ok_def)

text \<open>
  C14: the extended clock does not drift: after any sequence of counter readings, with any
  counter frequency, it shows the elapsed ticks converted to microseconds and rounded down.
\<close>

theorem clock_does_not_drift:
  assumes "timing_ok bits t" and "present_time t = 0" and "tick_remainder t = 0"
    and "sum_list (map unat es) * 1000000 < 2 ^ 64"
  shows "unat (present_time (fold advance_time es t))
    = sum_list (map unat es) * 1000000 div unat (frequency t)"
proof -
  let ?f = "unat (frequency t)"
  have f: "0 < ?f" using assms(1) by (simp add: timing_ok_def unat_gt_0)
  have "\<exists>us. present_time (fold advance_time es s) = present_time s + of_nat us
      \<and> us * ?f + unat (tick_remainder (fold advance_time es s))
          = sum_list (map unat es) * 1000000 + unat (tick_remainder s)
      \<and> unat (tick_remainder (fold advance_time es s)) < ?f"
    if "timing_ok bits s" and "frequency s = frequency t" for s
    using that
  proof (induction es arbitrary: s)
    case Nil
    then show ?case by (auto simp: timing_ok_def intro: exI [of _ 0])
  next
    case (Cons e es)
    obtain a where a: "present_time (advance_time e s) = present_time s + of_nat a"
      "a * unat (frequency s) + unat (tick_remainder (advance_time e s))
         = unat e * 1000000 + unat (tick_remainder s)"
      using advance_time_ex [OF Cons.prems(1), of e] by blast
    have "frequency (advance_time e s) = frequency t" using Cons.prems(2) by simp
    from Cons.IH [OF advance_time_ok [OF Cons.prems(1)] this]
    obtain us where us: "present_time (fold advance_time es (advance_time e s))
        = present_time (advance_time e s) + of_nat us"
      "us * ?f + unat (tick_remainder (fold advance_time es (advance_time e s)))
         = sum_list (map unat es) * 1000000 + unat (tick_remainder (advance_time e s))"
      "unat (tick_remainder (fold advance_time es (advance_time e s))) < ?f"
      by blast
    have "(a + us) * ?f + unat (tick_remainder (fold advance_time (e # es) s))
        = sum_list (map unat (e # es)) * 1000000 + unat (tick_remainder s)"
      using a(2) us(2) Cons.prems(2) by (simp add: distrib_right)
    moreover have "present_time (fold advance_time (e # es) s) = present_time s + of_nat (a + us)"
      using a(1) us(1) by (simp add: add.assoc)
    moreover have "unat (tick_remainder (fold advance_time (e # es) s)) < ?f" using us(3) by simp
    ultimately show ?case by blast
  qed
  from this [OF assms(1) refl] obtain us where us: "present_time (fold advance_time es t) = of_nat us"
      "us * ?f + unat (tick_remainder (fold advance_time es t)) = sum_list (map unat es) * 1000000"
      "unat (tick_remainder (fold advance_time es t)) < ?f"
    using assms(2,3) by auto
  have q: "us = sum_list (map unat es) * 1000000 div ?f"
    using us(2,3) by (simp add: us(2) [symmetric])
  then have "us < 2 ^ 64" using assms(4) f by (meson div_le_dividend le_less_trans)
  then show ?thesis using us(1) q by (simp add: unat_of_nat_eq)
qed

lemma unat_and_mask: "n \<le> 32 \<Longrightarrow> unat ((x :: u32) AND mask n) = unat x mod 2 ^ n"
  by (simp only: take_bit_eq_mask [symmetric] unsigned_take_bit_eq take_bit_nat_def)

lemma masked_distance:
  fixes a x :: u32
  assumes "n \<le> 32" and "unat x < 2 ^ n"
  shows "unat (((a + x) AND mask n) - a AND mask n) = unat x"
proof -
  have d: "(2::int) ^ n dvd 2 ^ 32" using assms(1) by (rule le_imp_power_dvd)
  have m: "uint (y AND mask n) = uint y mod 2 ^ n" for y :: u32
    by (simp only: take_bit_eq_mask [symmetric] unsigned_take_bit_eq take_bit_int_def)
  have p: "uint ((a + x) AND mask n) = (uint a + uint x) mod 2 ^ n"
    unfolding m uint_word_ariths using mod_mod_cancel [OF d] by simp
  have "uint (y - a AND mask n) = (uint y - uint a) mod 2 ^ n" for y
    unfolding m uint_word_ariths using mod_mod_cancel [OF d] by simp
  then have "uint (((a + x) AND mask n) - a AND mask n) = uint x mod 2 ^ n"
    by (simp only: p mod_diff_left_eq add_diff_cancel_left')
  also have "\<dots> = uint x"
  proof (rule mod_pos_pos_trivial)
    have "int (unat x) < int (2 ^ n)" using assms(2) by (simp only: of_nat_less_iff)
    then show "uint x < 2 ^ n" by (simp only: uint_nat of_nat_power of_nat_numeral)
  qed simp
  finally show ?thesis by (simp only: unat_eq_nat_uint)
qed

lemma ceil_million:
  fixes n :: nat
  assumes "0 < n"
  defines "c \<equiv> (n + 999999) div 1000000"
  shows "0 < c" "(c - 1) * 1000000 < n" "n \<le> c * 1000000"
proof -
  have "c * 1000000 + (n + 999999) mod 1000000 = n + 999999" unfolding c_def by (rule div_mult_mod_eq)
  moreover have "(n + 999999) mod 1000000 < 1000000" by simp
  ultimately show "n \<le> c * 1000000" "0 < c" "(c - 1) * 1000000 < n"
    using assms(1) by linarith+
qed

lemma min_ceil_million:
  fixes n :: nat
  assumes "0 < n" and "0 < m" and "d = min m ((n + 999999) div 1000000)"
  shows "0 < d \<and> d \<le> m \<and> (d - 1) * 1000000 < n \<and> (n \<le> d * 1000000 \<or> d = m)"
proof (cases "m \<le> (n + 999999) div 1000000")
  case True
  then have "(m - 1) * 1000000 \<le> ((n + 999999) div 1000000 - 1) * 1000000" by simp
  then show ?thesis using True assms ceil_million(2) [OF assms(1)] by simp
next
  case False
  then show ?thesis using assms(3) ceil_million [OF assms(1)] by simp
qed

lemma round_up_aux:
  assumes ok: "timing_ok bits t" and "present_time t < timestamp"
  defines "d \<equiv> unat ((compute_tick_round_up t timestamp - tick_last_read t) AND bitmask t)"
    and "us \<equiv> unat timestamp - unat (present_time t)"
  shows "0 < d \<and> d \<le> unat (max_delta t) \<and> (d - 1) * 1000000 < us * unat (frequency t)
    \<and> (us * unat (frequency t) \<le> d * 1000000 \<or> d = unat (max_delta t))"
proof -
  define f where "f = unat (frequency t)"
  define m where "m = unat (max_delta t)"
  define w where "w = timestamp - present_time t"
  have f: "0 < f" "f < 4294967296"
    using ok unat_u32_lt [of "frequency t"] by (auto simp: f_def timing_ok_def unat_gt_0)
  have bits: "4 \<le> bits" "bits \<le> 32" using ok by (auto simp: timing_ok_def)
  have m: "m = 7 * 2 ^ (bits - 4)" using ok by (simp add: m_def timing_ok_def)
  have "(2::nat) ^ (bits - 4) \<le> 2 ^ 28" using bits by (intro power_increasing) simp_all
  then have m_lt: "m < 2147483648" "0 < m" using m by simp_all
  obtain k where "bits = k + 4" using bits(1) by (metis add.commute le_iff_add)
  then have m_bits: "m < 2 ^ bits" using m by (simp add: power_add)
  have us: "unat w = us"
    using less_imp_le [OF assms(2)] unfolding w_def us_def by (rule unat_sub_le)
  have us_pos: "0 < us" using assms(2) by (simp add: us_def word_less_nat_alt)
  have mdu: "unat (max_delta_us t) = (m * 1000000 + f - 1) div f"
    using ok m by (simp add: timing_ok_def f_def)
  obtain delta :: u32 where tick: "compute_tick_round_up t timestamp = (tick_last_read t + delta) AND bitmask t"
    and delta: "unat delta = min m ((us * f + 999999) div 1000000)"
  proof -
    let ?n = "(us * f + 999999) div 1000000"
    show ?thesis
    proof (cases "w \<le> max_delta_us t")
      case True
      then have "us \<le> (m * 1000000 + f - 1) div f" using us mdu by (simp add: word_le_nat_alt)
      then have usf: "us * f \<le> m * 1000000 + f - 1" using f by (simp add: less_eq_div_iff_mult_less_eq)
      then have n: "?n < 4294967296" using m_lt f by simp
      define D where "D = (if frequency t = 1000000 then ucast w
          else if frequency_shifts t \<noteq> 0 then
            ucast ((push_bit (unat (frequency_shifts t)) w + 1000000 - 1) div 1000000)
          else ucast ((w * ucast (frequency t) + 1000000 - 1) div 1000000) :: u32)"
      have scaled: "unat (ucast ((x + 1000000 - 1) div 1000000 :: u64) :: u32) = ?n"
        if "unat x = us * f" for x
      proof -
        have "unat (x + 999999) = us * f + 999999"
          using that usf m_lt f by (simp add: unat_word_ariths)
        then have n999: "unat ((x + 999999) div 1000000) = ?n"
          unfolding unat_div_distrib by (rule arg_cong2 [where f = "(div)"]) simp
        have "x + 1000000 - 1 = x + 999999" by simp
        then have "unat ((x + 1000000 - 1) div 1000000) = ?n" using n999 by (simp only:)
        then show ?thesis using n by (simp add: unsigned_ucast_eq take_bit_nat_eq_self)
      qed
      have "unat D = ?n"
      proof (cases "frequency t = 1000000")
        case True
        then have "f = 1000000" by (simp add: f_def)
        then have "?n = us" "us < 4294967296" using usf m_lt by simp_all
        then show ?thesis using True us by (simp add: D_def unsigned_ucast_eq take_bit_nat_eq_self)
      next
        case False
        have lt: "us * f < 18446744073709551616" using usf m_lt f by simp
        show ?thesis
        proof (cases "frequency_shifts t \<noteq> 0")
          case True
          then have p: "f = 2 ^ unat (frequency_shifts t)" using ok by (simp add: timing_ok_def f_def)
          then have "unat (2 ^ unat (frequency_shifts t) :: u64) = f"
            using shifts_lt_32 [of "frequency t"] by (simp add: f_def unat_2p)
          then have "unat (push_bit (unat (frequency_shifts t)) w) = us * f"
            using lt us by (simp add: push_bit_eq_mult unat_word_ariths)
          then show ?thesis using False True scaled by (simp add: D_def)
        next
          case False': False
          have "unat (w * ucast (frequency t)) = us * f"
            using lt us by (simp add: unat_word_ariths unat_ucast_widen f_def)
          then show ?thesis using False False' scaled by (simp add: D_def)
        qed
      qed
      then have "unat (if max_delta t < D then max_delta t else D) = min m ?n"
        by (simp add: m_def word_less_nat_alt)
      moreover have "compute_tick_round_up t timestamp
          = (tick_last_read t + (if max_delta t < D then max_delta t else D)) AND bitmask t"
        using True by (simp add: compute_tick_round_up_def Let_def D_def w_def)
      ultimately show ?thesis using that by blast
    next
      case False
      then have "(m * 1000000 + f - 1) div f < us" using us mdu by (simp add: word_le_nat_alt)
      then have "m * 1000000 + f - 1 < us * f" using f by (simp add: div_less_iff_less_mult)
      then have "m \<le> ?n" using f by simp
      then show ?thesis using False that [of "max_delta t"]
        by (simp add: compute_tick_round_up_def Let_def w_def m_def)
    qed
  qed
  have "unat delta < 2 ^ bits" using delta m_bits by simp
  then have "d = unat delta"
    using tick ok by (simp add: d_def timing_ok_def masked_distance bits)
  moreover have "0 < us * f" using us_pos f by simp
  ultimately show ?thesis
    using delta m_lt min_ceil_million [of "us * f" m d] by (simp add: f_def m_def)
qed

text \<open>The result of \<open>compute_tick_round_up\<close> is never the current tick.\<close>

lemma round_up_moves:
  assumes "timing_ok bits t" and "present_time t < timestamp"
  shows "compute_tick_round_up t timestamp \<noteq> tick_last_read t"
proof
  assume "compute_tick_round_up t timestamp = tick_last_read t"
  then show False using round_up_aux [OF assms] by simp
qed

text \<open>
  C16: an event is never fired early. The tick computed for a future timestamp lies between 1
  and \<open>max_delta\<close> ticks ahead; those ticks are the least number that covers the distance in
  time, or \<open>max_delta\<close> when the event is further away (the interrupt is then set again).
\<close>

theorem round_up_never_early:
  assumes "timing_ok bits t" and "present_time t < timestamp"
  defines "d \<equiv> unat ((compute_tick_round_up t timestamp - tick_last_read t) AND bitmask t)"
    and "us \<equiv> unat timestamp - unat (present_time t)"
  shows "0 < d \<and> d \<le> unat (max_delta t) \<and> (d - 1) * 1000000 < us * unat (frequency t)
    \<and> (us * unat (frequency t) \<le> d * 1000000 \<or> d = unat (max_delta t))"
  unfolding d_def us_def by (rule round_up_aux [OF assms(1,2)])

definition slow_ticker :: "(nat, nat, unit) ticker" where
  "slow_ticker = \<lparr>event_handler = None, head = None, frequency = 32768, bitmask = 0xFFFF,
     max_delta = 0x7000, max_delta_us = 875000, tick_last_read = 0, tick_remainder = 0,
     present_time = 0, initialized = True, dispatching = False, suspended = False,
     frequency_shifts = 15, ev_timestamp = (\<lambda>p. 0), ev_id = (\<lambda>p. 0), ev_next = (\<lambda>p. None),
     hw = ()\<rparr>"

lemma slow_ticker_ok: "timing_ok 16 slow_ticker"
  by (simp add: timing_ok_def slow_ticker_def mask_eq_exp_minus_1)

theorem clock_does_not_drift_witness:
  "unat (present_time (fold advance_time [3, 16384] slow_ticker)) = 500091"
  by (subst clock_does_not_drift [OF slow_ticker_ok]) (simp_all add: slow_ticker_def)

theorem round_up_never_early_witness:
  "(unat ((compute_tick_round_up slow_ticker 100 - tick_last_read slow_ticker) AND bitmask slow_ticker) - 1)
     * 1000000 < 100 * 32768"
  using round_up_never_early [OF slow_ticker_ok, of 100] by (simp add: slow_ticker_def)

section \<open>The hardware interface\<close>

lemma update_present_time_frame [simp]:
  "frequency (update_present_time i t) = frequency t"
  "frequency_shifts (update_present_time i t) = frequency_shifts t"
  "bitmask (update_present_time i t) = bitmask t" "max_delta (update_present_time i t) = max_delta t"
  "max_delta_us (update_present_time i t) = max_delta_us t"
  "head (update_present_time i t) = head t" "ev_next (update_present_time i t) = ev_next t"
  "ev_timestamp (update_present_time i t) = ev_timestamp t" "ev_id (update_present_time i t) = ev_id t"
  "event_handler (update_present_time i t) = event_handler t"
  "initialized (update_present_time i t) = initialized t"
  "dispatching (update_present_time i t) = dispatching t"
  "suspended (update_present_time i t) = suspended t"
  by (simp_all add: update_present_time_def Let_def split: prod.split)

text \<open>The part of the state the program sees: everything but the clock and the hardware.\<close>

definition same_events :: "('p, 'f, 'h) ticker \<Rightarrow> ('p, 'f, 'h) ticker \<Rightarrow> bool" where
  "same_events t t' \<longleftrightarrow> head t' = head t \<and> ev_next t' = ev_next t \<and> ev_timestamp t' = ev_timestamp t
     \<and> ev_id t' = ev_id t \<and> event_handler t' = event_handler t \<and> initialized t' = initialized t
     \<and> dispatching t' = dispatching t \<and> suspended t' = suspended t"

lemma schedule_same_events: "schedule_interrupt i t = Some t' \<Longrightarrow> same_events t t'"
  by (auto simp: schedule_interrupt_def same_events_def Let_def split: if_splits option.splits prod.splits)

lemma timing_ok_cong:
  "timing_ok bits t \<Longrightarrow> frequency t' = frequency t \<Longrightarrow> frequency_shifts t' = frequency_shifts t
   \<Longrightarrow> bitmask t' = bitmask t \<Longrightarrow> max_delta t' = max_delta t \<Longrightarrow> max_delta_us t' = max_delta_us t
   \<Longrightarrow> tick_remainder t' = tick_remainder t \<Longrightarrow> tick_last_read t' AND mask bits = tick_last_read t'
   \<Longrightarrow> timing_ok bits t'"
  by (simp add: timing_ok_def)

text \<open>What the layer asks of the hardware: a fixed frequency and width, readings in range.\<close>

locale tick_counter =
  fixes i :: "'h ticker_interface" and bits :: nat and freq :: u32
  assumes info: "get_info i = (freq, of_nat bits)"
    and bits: "4 \<le> bits" "bits \<le> 32"
    and freq: "freq \<noteq> 0"
    and read_range: "fst (read i h) AND mask bits = fst (read i h)"
begin

lemma update_ok: 
  assumes "timing_ok bits t" shows "timing_ok bits (update_present_time i t)"
proof -
  obtain now h where r: "read i (hw t) = (now, h)" by (cases "read i (hw t)")
  then have "now AND mask bits = now" using read_range [of "hw t"] by simp
  then have "timing_ok bits (t\<lparr>hw := h, tick_last_read := now\<rparr>)" "timing_ok bits (t\<lparr>hw := h\<rparr>)"
    using assms by (auto elim: timing_ok_cong simp: timing_ok_def)
  then show ?thesis using assms
    by (simp add: update_present_time_def Let_def r advance_time_ok)
qed

lemma schedule_total:
  assumes "timing_ok bits t"
  shows "\<exists>t'. schedule_interrupt i t = Some t' \<and> timing_ok bits t'"
proof -
  let ?u = "update_present_time i t"
  have u: "timing_ok bits ?u" using assms by (rule update_ok)
  have hw: "timing_ok bits (?u\<lparr>hw := h\<rparr>)" for h by (rule timing_ok_cong [OF u]) (use u in \<open>simp_all add: timing_ok_def\<close>)
  show ?thesis using assms hw round_up_moves [OF u]
    by (auto simp: schedule_interrupt_def Let_def not_le split: option.split prod.split)
qed

end

section \<open>The event list\<close>

lemma find_place_simps [simp]:
  "find_place ts nx timestamp prev None = Some (prev, None)"
  "find_place ts nx timestamp prev (Some q) = (if timestamp < ts q then Some (prev, Some q)
     else find_place ts nx timestamp (Some q) (nx q))"
  by (subst find_place.simps; simp)+

lemma unlink_event_simps [simp]:
  "unlink_event obj None nx = Some nx"
  "unlink_event obj (Some q) nx =
     (if nx q = Some obj then Some (nx(q := nx obj)) else unlink_event obj (nx q) nx)"
  by (subst unlink_event.simps; simp)+

lemma find_place_chain:
  "chain nx p xs \<Longrightarrow> find_place ts nx timestamp prev p =
     Some (let as = takeWhile (\<lambda>q. ts q \<le> timestamp) xs in
            (if as = [] then prev else Some (last as),
             case dropWhile (\<lambda>q. ts q \<le> timestamp) xs of [] \<Rightarrow> None | b # _ \<Rightarrow> Some b))"
proof (induction xs arbitrary: p prev)
  case Nil
  then show ?case by simp
next
  case (Cons x xs)
  then show ?case by (cases "timestamp < ts x") (auto simp: Let_def)
qed

lemma unlink_event_chain:
  "path nx p as (Some q) \<Longrightarrow> nx q = Some obj \<Longrightarrow> \<forall>a \<in> set as. nx a \<noteq> Some obj
   \<Longrightarrow> unlink_event obj p nx = Some (nx(q := nx obj))"
  by (induction as arbitrary: p) auto

lemma unlink_event_absent:
  "chain nx p xs \<Longrightarrow> \<forall>a \<in> set xs. nx a \<noteq> Some obj \<Longrightarrow> unlink_event obj p nx = Some nx"
  by (induction xs arbitrary: p) auto

text \<open>The events waiting in the ticker, in list order, sorted by time.\<close>

definition queue_ok :: "('p, 'f, 'h) ticker \<Rightarrow> 'p list \<Rightarrow> bool" where
  "queue_ok t xs \<longleftrightarrow> chain (ev_next t) (head t) xs \<and> sorted (map (ev_timestamp t) xs)"

lemma queue_ok_same_events: "same_events t t' \<Longrightarrow> queue_ok t xs \<Longrightarrow> queue_ok t' xs"
  by (simp add: queue_ok_def same_events_def)

lemma sorted_insert_place:
  assumes "sorted (map f xs)"
  shows "sorted (map f (takeWhile (\<lambda>q. f q \<le> (v :: u64)) xs)) \<and> sorted (map f (dropWhile (\<lambda>q. f q \<le> v) xs))
    \<and> (\<forall>q \<in> set (takeWhile (\<lambda>q. f q \<le> v) xs). f q \<le> v)
    \<and> (\<forall>q \<in> set (dropWhile (\<lambda>q. f q \<le> v) xs). v < f q)"
  using assms by (induction xs) (auto dest: set_takeWhileD)

definition insert_event :: "('p \<Rightarrow> u64) \<Rightarrow> 'p \<Rightarrow> u64 \<Rightarrow> 'p list \<Rightarrow> 'p list" where
  "insert_event ts obj timestamp xs = takeWhile (\<lambda>q. ts q \<le> timestamp) xs @ obj
     # dropWhile (\<lambda>q. ts q \<le> timestamp) xs"

lemma insert_event_sorted:
  assumes "sorted (map ts xs)" and "obj \<notin> set xs"
  shows "sorted (map (ts(obj := timestamp)) (insert_event ts obj timestamp xs))"
proof -
  have notin: "obj \<notin> set (takeWhile P xs)" "obj \<notin> set (dropWhile P xs)" for P
    using assms(2) by (auto dest: set_takeWhileD set_dropWhileD)
  then show ?thesis
    using sorted_insert_place [OF assms(1), of timestamp]
    by (auto simp: insert_event_def sorted_append map_fun_upd less_imp_le intro: order_trans)
qed

text \<open>The store part of the insertion.\<close>

lemma insert_links:
  fixes timestamp :: u64 and ident :: u32
  assumes "queue_ok t xs" and "obj \<notin> set xs"
  defines "t1 \<equiv> t\<lparr>ev_timestamp := (ev_timestamp t)(obj := timestamp), ev_id := (ev_id t)(obj := ident)\<rparr>"
  obtains prev p where
    "find_place (ev_timestamp t1) (ev_next t1) timestamp None (head t1) = Some (prev, p)"
    "queue_ok (case prev of None \<Rightarrow> t1\<lparr>ev_next := (ev_next t1)(obj := p), head := Some obj\<rparr>
       | Some q \<Rightarrow> t1\<lparr>ev_next := (ev_next t1)(obj := p, q := Some obj)\<rparr>)
       (insert_event (ev_timestamp t) obj timestamp xs)"
proof -
  let ?P = "\<lambda>q. ev_timestamp t q \<le> timestamp"
  let ?as = "takeWhile ?P xs" and ?bs = "dropWhile ?P xs"
  let ?prev = "if ?as = [] then None else Some (last ?as)"
  let ?p = "case ?bs of [] \<Rightarrow> None | b # _ \<Rightarrow> Some b"
  have c: "chain (ev_next t) (head t) (?as @ ?bs)" using assms(1) by (simp add: queue_ok_def)
  have cong: "takeWhile (\<lambda>q. ev_timestamp t1 q \<le> timestamp) xs = ?as"
    "dropWhile (\<lambda>q. ev_timestamp t1 q \<le> timestamp) xs = ?bs"
    using assms(2) by (auto simp: t1_def intro!: takeWhile_cong dropWhile_cong)
  have f: "find_place (ev_timestamp t1) (ev_next t1) timestamp None (head t1) = Some (?prev, ?p)"
    using assms(1) find_place_chain [of "ev_next t1" "head t1" xs "ev_timestamp t1" timestamp None]
    by (simp add: cong Let_def queue_ok_def) (simp add: t1_def)
  obtain r where r: "path (ev_next t) (head t) ?as r" "chain (ev_next t) r ?bs"
    using c unfolding path_append by blast
  have rp: "r = ?p" using r(2) by (rule chain_start)
  have notin: "obj \<notin> set (?as @ ?bs)" using assms(2) by simp
  have s: "sorted (map ((ev_timestamp t)(obj := timestamp)) (insert_event (ev_timestamp t) obj timestamp xs))"
    using assms(1,2) by (intro insert_event_sorted) (auto simp: queue_ok_def)
  have "queue_ok (case ?prev of None \<Rightarrow> t1\<lparr>ev_next := (ev_next t1)(obj := ?p), head := Some obj\<rparr>
       | Some q \<Rightarrow> t1\<lparr>ev_next := (ev_next t1)(obj := ?p, q := Some obj)\<rparr>)
       (insert_event (ev_timestamp t) obj timestamp xs)"
  proof (cases ?as rule: rev_cases)
    case Nil
    then show ?thesis using s chain_insert(1) [OF c notin r(1) Nil] rp r
      by (simp add: queue_ok_def t1_def insert_event_def)
  next
    case (snoc cs l)
    then show ?thesis using s chain_insert(2) [OF c notin r(1) snoc] rp
      by (simp add: queue_ok_def t1_def insert_event_def)
  qed
  then show ?thesis using f that by blast
qed

lemma same_events_trans: "same_events s t \<Longrightarrow> same_events t u \<Longrightarrow> same_events s u"
  by (simp add: same_events_def)

lemma update_same_events: "same_events t (update_present_time i t)"
  by (simp add: same_events_def)

text \<open>What an insertion does to the event list when it returns.\<close>

lemma insert_event_us_result:
  assumes "queue_ok t xs" and "obj \<notin> set xs" and "ticker_insert_event_us i obj timestamp ident t = Some t'"
  shows "queue_ok t' (insert_event (ev_timestamp t) obj timestamp xs)
    \<and> ev_timestamp t' = (ev_timestamp t)(obj := timestamp) \<and> ev_id t' = (ev_id t)(obj := ident)
    \<and> event_handler t' = event_handler t \<and> initialized t' = initialized t"
proof -
  let ?u = "update_present_time i t"
  let ?v = "?u\<lparr>ev_timestamp := (ev_timestamp ?u)(obj := timestamp), ev_id := (ev_id ?u)(obj := ident)\<rparr>"
  have "queue_ok ?u xs" using assms(1) update_same_events queue_ok_same_events by metis
  then obtain prev p where
    p: "find_place (ev_timestamp ?v) (ev_next ?v) timestamp None (head ?v) = Some (prev, p)"
    and q: "queue_ok (case prev of None \<Rightarrow> ?v\<lparr>ev_next := (ev_next ?v)(obj := p), head := Some obj\<rparr>
       | Some q \<Rightarrow> ?v\<lparr>ev_next := (ev_next ?v)(obj := p, q := Some obj)\<rparr>)
       (insert_event (ev_timestamp ?u) obj timestamp xs)" (is "queue_ok ?w _")
    by (rule insert_links [OF _ assms(2), where timestamp = timestamp and ident = ident])
  have "t' = ?w \<or> schedule_interrupt i ?w = Some t'"
    using assms(3) p by (auto simp: ticker_insert_event_us_def Let_def split: option.splits if_splits)
  then have "same_events ?w t'"
    using schedule_same_events by (auto simp: same_events_def)
  then show ?thesis using q queue_ok_same_events [of ?w t']
    by (auto simp: same_events_def split: option.splits)
qed

lemma schedule_same_events_ok:
  "schedule_interrupt i t = Some t' \<Longrightarrow> queue_ok t xs \<Longrightarrow> queue_ok t' xs"
  using schedule_same_events queue_ok_same_events by metis

lemma remove1_chain:
  assumes "chain nx (Some p) (p # xs)" and "o' \<in> set xs"
  shows "\<exists>nx'. unlink_event o' (Some p) nx = Some nx' \<and> chain nx' (Some p) (p # remove1 o' xs)"
proof -
  obtain as bs where xs: "xs = as @ o' # bs" and na: "o' \<notin> set as"
    using split_list_first [OF assms(2)] by blast
  define pre where "pre = butlast (p # as)"
  define q where "q = last (p # as)"
  have pa: "p # as = pre @ [q]" by (simp add: pre_def q_def)
  have c: "chain nx (Some p) (pre @ q # o' # bs)"
    using assms(1) xs pa by (metis append.assoc append_Cons append_Nil)
  then have d: "distinct (pre @ q # o' # bs)" by (rule chain_distinct)
  have path: "path nx (Some p) pre (Some q)" "nx q = Some o'" "chain nx (nx o') bs"
    using c by (auto simp: path_append)
  have "\<forall>a \<in> set pre. nx a \<noteq> Some o'" using chain_pred_later [OF c] by blast
  then have u: "unlink_event o' (Some p) nx = Some (nx(q := nx o'))"
    using path by (intro unlink_event_chain) auto
  have "chain (nx(q := nx o')) (Some p) (pre @ q # bs)"
    using path d by (auto simp: path_append)
  moreover have "p # remove1 o' xs = pre @ q # bs"
    using na xs pa by (simp add: remove1_append)
  ultimately show ?thesis using u by auto
qed

lemma chain_no_link_to:
  assumes "chain nx p xs" and "o' \<notin> set xs"
  shows "\<forall>a \<in> set xs. nx a \<noteq> Some o'"
  using chain_next_in [OF assms(1)] assms(2) by blast

lemma sorted_remove1: "sorted (map f xs) \<Longrightarrow> sorted (map f (remove1 x xs))"
  by (induction xs) (auto dest: notin_set_remove1)

lemma remove_event_result:
  assumes "queue_ok t xs" and "ticker_remove_event i obj t = Some t'"
  shows "queue_ok t' (remove1 obj xs)
    \<and> ev_timestamp t' = ev_timestamp t \<and> ev_id t' = ev_id t
    \<and> event_handler t' = event_handler t \<and> initialized t' = initialized t"
proof (cases "head t = Some obj")
  case True
  then obtain ys where xs: "xs = obj # ys" "chain (ev_next t) (ev_next t obj) ys"
    using assms(1) by (auto simp: queue_ok_def)
  then have q: "queue_ok (t\<lparr>head := ev_next t obj\<rparr>) (remove1 obj xs)"
    using assms(1) by (simp add: queue_ok_def)
  have s: "schedule_interrupt i (t\<lparr>head := ev_next t obj\<rparr>) = Some t'"
    using assms(2) True by (simp add: ticker_remove_event_def)
  show ?thesis using schedule_same_events_ok [OF s q] schedule_same_events [OF s]
    by (simp add: same_events_def)
next
  case False
  then obtain nx where nx: "unlink_event obj (head t) (ev_next t) = Some nx" "t' = t\<lparr>ev_next := nx\<rparr>"
    using assms(2) by (auto simp: ticker_remove_event_def)
  have c: "chain (ev_next t) (head t) xs" using assms(1) by (simp add: queue_ok_def)
  have "chain nx (head t) (remove1 obj xs)"
  proof (cases "obj \<in> set xs")
    case True
    then obtain p ys where "head t = Some p" "xs = p # ys" "p \<noteq> obj" "obj \<in> set ys"
      using c False by (cases xs) auto
    then show ?thesis using remove1_chain [of "ev_next t" p ys obj] c nx by auto
  next
    case F: False
    then have "nx = ev_next t"
      using nx unlink_event_absent [OF c] chain_no_link_to [OF c F] by simp
    then show ?thesis using c F by (simp add: remove1_idem)
  qed
  then show ?thesis using nx assms(1) by (simp add: queue_ok_def sorted_remove1)
qed

section \<open>Every operation returns and keeps the invariant\<close>

definition ticker_inv :: "nat \<Rightarrow> ('p, 'f, 'h) ticker \<Rightarrow> bool" where
  "ticker_inv bits t \<longleftrightarrow> (initialized t \<longrightarrow> timing_ok bits t \<and> (\<exists>xs. queue_ok t xs))"

lemma max_delta_value: "4 \<le> bits \<Longrightarrow> bits \<le> 32
  \<Longrightarrow> unat (push_bit (unat (of_nat bits - 4 :: u32)) (7 :: u32)) = 7 * 2 ^ (bits - 4)"
proof -
  assume b: "4 \<le> bits" "bits \<le> 32"
  have u: "unat (of_nat bits - 4 :: u32) = bits - 4"
    using b by (subst unat_sub_le) (simp_all add: word_le_nat_alt unat_of_nat_eq)
  have "bits - 4 \<le> 28" using b by simp
  then have "(2::nat) ^ (bits - 4) \<le> 2 ^ 28" by (intro power_increasing) simp_all
  then show ?thesis using b
    by (simp add: u push_bit_eq_mult unat_word_ariths unat_2p)
qed

lemma bitmask_value: "bits \<le> 32 \<Longrightarrow> (ucast (push_bit bits (1 :: u64) - 1) :: u32) = mask bits"
proof -
  assume "bits \<le> 32"
  have "push_bit bits (1 :: u64) - 1 = mask bits" by (simp add: mask_eq_exp_minus_1)
  then show ?thesis by (auto simp: bit_eq_iff bit_simps)
qed

lemma max_delta_us_value:
  assumes "4 \<le> bits" "bits \<le> 32" "freq \<noteq> 0" "unat d = 7 * 2 ^ (bits - 4)"
  shows "unat ((ucast (d :: u32) * 1000000 + ucast (freq :: u32) - 1) div (ucast freq :: u64))
    = (7 * 2 ^ (bits - 4) * 1000000 + unat freq - 1) div unat freq"
proof -
  have f: "0 < unat freq" "unat freq < 4294967296" using assms(3) unat_u32_lt [of freq] by (simp_all add: unat_gt_0)
  have "unat (ucast d * 1000000 + ucast freq :: u64) = unat d * 1000000 + unat freq"
    using f unat_u32_lt [of d] by (simp add: unat_word_ariths unat_ucast_widen)
  moreover have "(1 :: u64) \<le> ucast d * 1000000 + ucast freq"
    using f calculation by (simp add: word_le_nat_alt)
  ultimately have "unat (ucast d * 1000000 + ucast freq - 1 :: u64) = unat d * 1000000 + unat freq - 1"
    by (subst unat_sub_le) simp_all
  then show ?thesis using assms(4) by (simp add: unat_div_distrib unat_ucast_widen)
qed

context tick_counter
begin

lemma initialize_fresh:
  assumes "\<not> initialized t" and "\<not> suspended t"
  shows "\<exists>t'. initialize i t = Some t' \<and> timing_ok bits t' \<and> queue_ok t' [] \<and> initialized t'"
proof -
  obtain now h where r: "read i (init i (hw t)) = (now, h)" by (cases "read i (init i (hw t))")
  define d where "d = push_bit (unat (of_nat bits - 4 :: u32)) (7 :: u32)"
  define t1 where "t1 = t\<lparr>event_handler := None, head := None, tick_last_read := now,
      tick_remainder := 0, frequency := freq, frequency_shifts := find_shifts 31 freq,
      bitmask := mask bits, max_delta := d,
      max_delta_us := (ucast d * 1000000 + ucast freq - 1) div ucast freq, present_time := 0,
      dispatching := False, suspended := False, initialized := True, hw := h\<rparr>"
  have ub: "unat (of_nat bits :: u32) = bits" using bits by (simp add: unat_of_nat_eq)
  have d: "unat d = 7 * 2 ^ (bits - 4)" unfolding d_def by (rule max_delta_value [OF bits])
  have "now AND mask bits = now" using read_range [of "init i (hw t)"] r by simp
  then have ok: "timing_ok bits t1"
    using bits freq d max_delta_us_value [OF bits freq d] find_shifts_power [of 31 freq]
    by (simp add: timing_ok_def t1_def unat_gt_0)
  then obtain t' where t': "schedule_interrupt i (update_present_time i t1) = Some t'" "timing_ok bits t'"
    using schedule_total update_ok by blast
  have "queue_ok (update_present_time i t1) []" by (simp add: queue_ok_def t1_def)
  then have q: "queue_ok t' []" using t'(1) schedule_same_events_ok by blast
  have "initialized t'" using schedule_same_events [OF t'(1)] by (simp add: same_events_def t1_def)
  moreover have "initialize i t = Some t'"
  proof -
    have "\<not> (32 < (of_nat bits :: u32) \<or> (of_nat bits :: u32) < 4)"
      using bits by (simp add: word_less_nat_alt ub)
    then show ?thesis using assms freq t'(1)
      by (simp add: initialize_def info r ub bitmask_value [OF bits(2), simplified] Let_def t1_def d_def)
  qed
  ultimately show ?thesis using t' q by blast
qed

lemma initialize_inv: "ticker_inv bits t \<Longrightarrow> \<exists>t'. initialize i t = Some t' \<and> ticker_inv bits t'"
proof (cases "initialized t \<or> suspended t")
  case True
  then show "ticker_inv bits t \<Longrightarrow> ?thesis" by (simp add: initialize_def)
next
  case False
  then show ?thesis using initialize_fresh [of t] by (auto simp: ticker_inv_def)
qed

lemma schedule_inv:
  assumes "timing_ok bits t" and "queue_ok t xs"
  shows "\<exists>t'. schedule_interrupt i t = Some t' \<and> ticker_inv bits t'"
  using schedule_total [OF assms(1)] schedule_same_events_ok [OF _ assms(2)] by (auto simp: ticker_inv_def)

lemma set_handler_inv:
  "ticker_inv bits t \<Longrightarrow> \<exists>t'. ticker_set_handler i handler t = Some t' \<and> ticker_inv bits t'"
  using initialize_inv [of t]
  by (auto simp: ticker_set_handler_def ticker_inv_def queue_ok_def timing_ok_def)

lemma insert_us_inv:
  assumes "initialized t" and "timing_ok bits t" and "queue_ok t xs" and "obj \<notin> set xs"
  shows "\<exists>t'. ticker_insert_event_us i obj timestamp ident t = Some t' \<and> timing_ok bits t'
    \<and> queue_ok t' (insert_event (ev_timestamp t) obj timestamp xs)"
proof -
  let ?u = "update_present_time i t"
  let ?v = "?u\<lparr>ev_timestamp := (ev_timestamp ?u)(obj := timestamp), ev_id := (ev_id ?u)(obj := ident)\<rparr>"
  have u: "queue_ok ?u xs" using assms(3) update_same_events queue_ok_same_events by metis
  obtain prev p where p: "find_place (ev_timestamp ?v) (ev_next ?v) timestamp None (head ?v) = Some (prev, p)"
    using insert_links [OF u assms(4), where timestamp = timestamp and ident = ident] by metis
  have tu: "timing_ok bits ?u" using assms(2) by (rule update_ok)
  let ?w = "case prev of None \<Rightarrow> ?v\<lparr>ev_next := (ev_next ?v)(obj := p), head := Some obj\<rparr>
     | Some q \<Rightarrow> ?v\<lparr>ev_next := (ev_next ?v)(obj := p, q := Some obj)\<rparr>"
  have tw: "timing_ok bits ?w"
    by (rule timing_ok_cong [OF tu]) (use tu in \<open>simp_all add: timing_ok_def split: option.split\<close>)
  have "ticker_insert_event_us i obj timestamp ident t
      = (if prev = None \<or> timestamp \<le> present_time ?w then schedule_interrupt i ?w else Some ?w)"
    using p by (cases prev) (simp_all add: ticker_insert_event_us_def Let_def)
  then obtain t' where "ticker_insert_event_us i obj timestamp ident t = Some t'" "timing_ok bits t'"
    using schedule_total [OF tw] tw by (cases "prev = None \<or> timestamp \<le> present_time ?w") auto
  then show ?thesis using insert_event_us_result [OF assms(3,4)] by blast
qed

lemma insert_inv:
  assumes "initialized t" and "timing_ok bits t" and "queue_ok t xs" and "obj \<notin> set xs"
  shows "\<exists>t'. ticker_insert_event i obj stamp ident t = Some t' \<and> timing_ok bits t'
    \<and> queue_ok t' (insert_event (ev_timestamp t) obj
        (convert_timestamp (present_time (update_present_time i t)) stamp) xs)"
proof -
  let ?u = "update_present_time i t"
  have u: "queue_ok ?u xs" using assms(3) update_same_events queue_ok_same_events by metis
  show ?thesis
    using insert_us_inv [OF _ update_ok [OF assms(2)] u assms(4),
        of "convert_timestamp (present_time ?u) stamp" ident] assms(1)
    by (simp add: ticker_insert_event_def Let_def)
qed

lemma remove_inv:
  assumes "initialized t" and "timing_ok bits t" and "queue_ok t xs"
  shows "\<exists>t'. ticker_remove_event i obj t = Some t' \<and> timing_ok bits t' \<and> queue_ok t' (remove1 obj xs)"
proof -
  have "timing_ok bits (t\<lparr>head := ev_next t obj\<rparr>)"
    by (rule timing_ok_cong [OF assms(2)]) (use assms(2) in \<open>simp_all add: timing_ok_def\<close>)
  then obtain t1 where t1: "schedule_interrupt i (t\<lparr>head := ev_next t obj\<rparr>) = Some t1" "timing_ok bits t1"
    using schedule_total by blast
  have c: "chain (ev_next t) (head t) xs" using assms(3) by (simp add: queue_ok_def)
  have "\<exists>nx. unlink_event obj (head t) (ev_next t) = Some nx" if ne: "head t \<noteq> Some obj"
  proof (cases "obj \<in> set xs")
    case True
    then obtain p ys where "head t = Some p" "xs = p # ys" "obj \<in> set ys"
      using c ne True by (cases xs) auto
    then show ?thesis using remove1_chain [of "ev_next t" p ys obj] c by auto
  next
    case False
    then show ?thesis using unlink_event_absent [OF c] chain_no_link_to [OF c False] by blast
  qed
  moreover have "timing_ok bits (t\<lparr>ev_next := nx\<rparr>)" for nx
    by (rule timing_ok_cong [OF assms(2)]) (use assms(2) in \<open>simp_all add: timing_ok_def\<close>)
  ultimately obtain t' where "ticker_remove_event i obj t = Some t'" "timing_ok bits t'"
    using t1 by (cases "head t = Some obj") (auto simp: ticker_remove_event_def)
  then show ?thesis using remove_event_result [OF assms(3)] by blast
qed

lemma read_us_inv:
  assumes "ticker_inv bits t"
  shows "\<exists>t' us. ticker_read_us i t = Some (t', us) \<and> ticker_inv bits t'"
proof -
  obtain u where "initialize i t = Some u" "ticker_inv bits u" using initialize_inv [OF assms] by blast
  moreover from this have "ticker_inv bits (update_present_time i u)"
    by (auto simp: ticker_inv_def update_ok queue_ok_def)
  ultimately show ?thesis by (simp add: ticker_read_us_def Let_def)
qed

lemma suspend_inv: "ticker_inv bits t \<Longrightarrow> ticker_inv bits (ticker_suspend t)"
  by (auto simp: ticker_inv_def ticker_suspend_def timing_ok_def queue_ok_def)

lemma resume_inv:
  assumes "ticker_inv bits t"
  shows "\<exists>t'. ticker_resume i t = Some t' \<and> ticker_inv bits t'"
proof (cases "initialized t")
  case True
  then obtain xs where ok: "timing_ok bits t" "queue_ok t xs" using assms by (auto simp: ticker_inv_def)
  obtain now h where r: "read i (hw t) = (now, h)" by (cases "read i (hw t)")
  let ?v = "t\<lparr>suspended := False, tick_last_read := now, hw := h\<rparr>"
  have "now AND mask bits = now" using read_range [of "hw t"] r by simp
  then have v: "timing_ok bits ?v" using ok(1) by (simp add: timing_ok_def)
  have "queue_ok (update_present_time i ?v) xs" using ok(2) by (simp add: queue_ok_def)
  from schedule_inv [OF update_ok [OF v] this] show ?thesis
    using True r by (simp add: ticker_resume_def)
next
  case False
  then show ?thesis using initialize_inv [of "t\<lparr>suspended := False\<rparr>"]
    by (simp add: ticker_resume_def ticker_inv_def)
qed

end

section \<open>The interrupt handler\<close>

lemma dispatch_loop_None: "head t = None \<Longrightarrow> dispatch_loop i call t = Some t"
  by (subst dispatch_loop.simps) simp

lemma dispatch_loop_Some:
  "head t = Some p \<Longrightarrow> dispatch_loop i call t =
     (let u = update_present_time i t in
      if ev_timestamp u p \<le> present_time u then
        let u = u\<lparr>head := ev_next u p\<rparr> in
        case event_handler u of
          None \<Rightarrow> dispatch_loop i call u
        | Some f \<Rightarrow> Option.bind (call f (ev_id u p) u) (dispatch_loop i call)
      else Some u)"
  by (subst dispatch_loop.simps) (simp add: Let_def)

text \<open>
  Whatever the handlers do and however time passes meanwhile, when the dispatch loop of
  the interrupt handler ends no event at the head of the queue is due.
\<close>

lemma dispatch_leaves_nothing_due:
  "dispatch_loop i call t = Some t' \<Longrightarrow> head t' = Some p \<Longrightarrow> present_time t' < ev_timestamp t' p"
proof -
  assume "dispatch_loop i call t = Some t'"
  then have "head t' = Some p \<longrightarrow> present_time t' < ev_timestamp t' p"
  proof (rule dispatch_loop.raw_induct
      [of "\<lambda>i call t t'. head t' = Some p \<longrightarrow> present_time t' < ev_timestamp t' p", rotated])
    fix loop i call t t'
    assume IH: "\<And>i call t t'. loop i call t = Some t'
        \<Longrightarrow> head t' = Some p \<longrightarrow> present_time t' < ev_timestamp t' p"
      and step: "(case head t of None \<Rightarrow> Some t
        | Some p \<Rightarrow> let t = update_present_time i t in
          if ev_timestamp t p \<le> present_time t then
            let t = t\<lparr>head := ev_next t p\<rparr> in
            case event_handler t of None \<Rightarrow> loop i call t
            | Some f \<Rightarrow> Option.bind (call f (ev_id t p) t) (loop i call)
          else Some t) = Some t'"
    show "head t' = Some p \<longrightarrow> present_time t' < ev_timestamp t' p"
    proof (cases "head t")
      case None
      then show ?thesis using step by auto
    next
      case (Some q)
      then show ?thesis using step IH
        by (auto simp: Let_def bind_eq_Some_conv not_le split: if_splits option.splits)
    qed
  qed
  then show "head t' = Some p \<Longrightarrow> present_time t' < ev_timestamp t' p" by blast
qed

text \<open>
  An observer of the handler: the hardware state is the list of the identifiers handled so far,
  and the counter stands at \<open>c\<close>.
\<close>

definition still_counter :: "u32 \<Rightarrow> u32 \<times> u32 \<Rightarrow> u32 list ticker_interface" where
  "still_counter c info = \<lparr>init = (\<lambda>h. h), read = (\<lambda>h. (c, h)), clear_interrupt = (\<lambda>h. h),
     set_interrupt = (\<lambda>m h. h), fire_interrupt = (\<lambda>h. h), get_info = info\<rparr>"

definition log_call :: "'f \<Rightarrow> u32 \<Rightarrow> ('p, 'f, u32 list) ticker \<Rightarrow> ('p, 'f, u32 list) ticker option" where
  "log_call f ident t = Some (t\<lparr>hw := hw t @ [ident]\<rparr>)"

lemma update_still: "tick_last_read t = c \<Longrightarrow> update_present_time (still_counter c info) t = t"
  by (simp add: update_present_time_def still_counter_def Let_def)

lemma update_still_read:
  "\<not> suspended t \<Longrightarrow> tick_last_read (update_present_time (still_counter c info) t) = c
   \<and> hw (update_present_time (still_counter c info) t) = hw t"
  by (simp add: update_present_time_def still_counter_def Let_def)

lemma schedule_still_hw: "schedule_interrupt (still_counter c info) t = Some t' \<Longrightarrow> hw t' = hw t"
  by (auto simp: schedule_interrupt_def update_present_time_def still_counter_def Let_def
      split: if_splits option.splits)

lemma dispatch_due:
  assumes "chain (ev_next t) (head t) xs" and "tick_last_read t = c" and "event_handler t = Some f"
  defines "due \<equiv> \<lambda>q. ev_timestamp t q \<le> present_time t"
  shows "dispatch_loop (still_counter c info) log_call t = Some
    (t\<lparr>head := (case dropWhile due xs of [] \<Rightarrow> None | q # _ \<Rightarrow> Some q),
       hw := hw t @ map (ev_id t) (takeWhile due xs)\<rparr>)"
  using assms(1-3) unfolding due_def
proof (induction xs arbitrary: t)
  case Nil
  then have "t\<lparr>head := None, hw := hw t\<rparr> = t" by simp
  then show ?case using Nil by (simp add: dispatch_loop_None)
next
  case (Cons x xs)
  have u: "update_present_time (still_counter c info) t = t" using Cons.prems(2) by (rule update_still)
  show ?case
  proof (cases "ev_timestamp t x \<le> present_time t")
    case True
    then show ?thesis using Cons.prems u
        Cons.IH [of "t\<lparr>head := ev_next t x, hw := hw t @ [ev_id t x]\<rparr>"]
      by (simp add: dispatch_loop_Some Let_def log_call_def)
  next
    case False
    then have "t\<lparr>head := Some x, hw := hw t\<rparr> = t" using Cons.prems by simp
    then show ?thesis using False Cons.prems u by (simp add: dispatch_loop_Some Let_def)
  qed
qed

lemma update_dispatching:
  "update_present_time i (t\<lparr>dispatching := b\<rparr>) = (update_present_time i t)\<lparr>dispatching := b\<rparr>"
  by (cases "read i (hw t)") (simp add: update_present_time_def advance_time_def Let_def)


definition two_events :: "(nat, unit, u32 list) ticker" where
  "two_events = \<lparr>event_handler = Some (), head = Some 1, frequency = 32768, bitmask = 0xFFFF,
     max_delta = 0x7000, max_delta_us = 875000, tick_last_read = 0, tick_remainder = 0,
     present_time = 0, initialized = True, dispatching = False, suspended = False,
     frequency_shifts = 15, ev_timestamp = (\<lambda>p. if p = 1 then 5 else 3000000),
     ev_id = (\<lambda>p. if p = 1 then 7 else 8), ev_next = (\<lambda>p. if p = 1 then Some 2 else None),
     hw = []\<rparr>"

lemma two_events_ok: "timing_ok 16 two_events" "queue_ok two_events [1, 2]"
  by (simp_all add: timing_ok_def queue_ok_def two_events_def mask_eq_exp_minus_1)

lemma two_events_now:
  "present_time (update_present_time (still_counter 65535 (32768, 16)) two_events) = 1999969"
  by (simp add: two_events_def update_present_time_def advance_time_def still_counter_def Let_def)


end
