(* ===== verification/Us_Ticker.thy ===== *)
theory Us_Ticker
  imports Hal_Ticker
begin

text \<open>
  The microsecond ticker of the xDot, targets/TARGET_STM/us_ticker.c: a 32-bit timer (TIM5)
  counting microseconds, with compare channel 1 raising the interrupt. The registers are a
  record; \<open>lapses\<close> is the number of microseconds that pass before each of the next accesses
  to the counter, so that time moves while the code runs (no more time passes when the list
  is used up). The HAL macros of the vendor are register accesses and written as such.
\<close>

section \<open>The timer\<close>

record us_timer =
  CNT :: u32
  CCR1 :: u32
  CC1IF :: bool
  CC1IE :: bool
  CC1E :: bool
  timer_cnt_reg :: u32
  timer_ccr1_reg :: u32
  timer_dier_reg :: bool
  lapses :: "u32 list"

text \<open>The counter runs for \<open>n\<close> microseconds; passing the compare value raises the flag.\<close>

definition run_timer :: "u32 \<Rightarrow> us_timer \<Rightarrow> us_timer" where
  "run_timer n h = h\<lparr>CNT := CNT h + n, CC1IF := CC1IF h \<or> CCR1 h - CNT h - 1 < n\<rparr>"

definition elapse :: "us_timer \<Rightarrow> us_timer" where
  "elapse h = (case lapses h of [] \<Rightarrow> h | n # ns \<Rightarrow> run_timer n (h\<lparr>lapses := ns\<rparr>))"

definition us_ticker_get_info :: "u32 \<times> u32" where
  "us_ticker_get_info = (1000000, 32)"

definition us_ticker_init :: "us_timer \<Rightarrow> us_timer" where
  "us_ticker_init h = h\<lparr>CC1IE := False, CC1E := True\<rparr>"

definition us_ticker_read :: "us_timer \<Rightarrow> u32 \<times> us_timer" where
  "us_ticker_read h = (let h = elapse h in (CNT h, h))"

definition us_ticker_set_interrupt :: "u32 \<Rightarrow> us_timer \<Rightarrow> us_timer" where
  "us_ticker_set_interrupt timestamp h =
     (elapse h)\<lparr>CCR1 := timestamp, CC1IF := False, CC1IE := True\<rparr>"

definition us_ticker_fire_interrupt :: "us_timer \<Rightarrow> us_timer" where
  "us_ticker_fire_interrupt h = h\<lparr>CC1IF := True, CC1IE := True\<rparr>"

definition us_ticker_disable_interrupt :: "us_timer \<Rightarrow> us_timer" where
  "us_ticker_disable_interrupt h = h\<lparr>CC1IE := False\<rparr>"

definition us_ticker_clear_interrupt :: "us_timer \<Rightarrow> us_timer" where
  "us_ticker_clear_interrupt h = h\<lparr>CC1IF := False\<rparr>"

definition save_timer_ctx :: "us_timer \<Rightarrow> us_timer" where
  "save_timer_ctx h = h\<lparr>timer_cnt_reg := CNT h, timer_ccr1_reg := CCR1 h, timer_dier_reg := CC1IE h\<rparr>"

definition restore_timer_ctx :: "us_timer \<Rightarrow> us_timer" where
  "restore_timer_ctx h = h\<lparr>CNT := timer_cnt_reg h, CCR1 := timer_ccr1_reg h, CC1IE := timer_dier_reg h\<rparr>"

definition us_ticker_free :: "us_timer \<Rightarrow> us_timer" where
  "us_ticker_free h = us_ticker_disable_interrupt (h\<lparr>CC1E := False\<rparr>)"

text \<open>The interface of hal/mbed_us_ticker_api.c, and the interrupt routine of the timer.\<close>

definition us_interface :: "us_timer ticker_interface" where
  "us_interface = \<lparr>init = us_ticker_init, read = us_ticker_read,
     clear_interrupt = us_ticker_clear_interrupt, set_interrupt = us_ticker_set_interrupt,
     fire_interrupt = us_ticker_fire_interrupt, get_info = us_ticker_get_info\<rparr>"

definition timer_irq_handler ::
    "('f \<Rightarrow> u32 \<Rightarrow> ('p, 'f, us_timer) ticker \<Rightarrow> ('p, 'f, us_timer) ticker option)
     \<Rightarrow> ('p, 'f, us_timer) ticker \<Rightarrow> ('p, 'f, us_timer) ticker option" where
  "timer_irq_handler call t =
     (if CC1IF (hw t) \<and> CC1IE (hw t)
      then ticker_irq_handler us_interface call (t\<lparr>hw := (hw t)\<lparr>CC1IF := False\<rparr>\<rparr>)
      else Some t)"

lemmas us_timer_defs = us_ticker_get_info_def us_ticker_init_def us_ticker_read_def
  us_ticker_set_interrupt_def us_ticker_fire_interrupt_def us_ticker_clear_interrupt_def
  run_timer_def us_interface_def

text \<open>The timer is a counter as the ticker layer needs it.\<close>

lemma and_mask_32: "(w :: u32) AND mask 32 = w"
  by (simp add: take_bit_eq_mask [symmetric] take_bit_word_eq_self)

interpretation us_counter: tick_counter us_interface 32 1000000
  by unfold_locales (simp_all only: and_mask_32, simp_all add: us_interface_def us_ticker_get_info_def)

section \<open>Sequences of API calls\<close>

text \<open>
  The calls a program makes, in any order. An event object is inserted only while it is not
  queued, and events are used once the ticker is initialised, as the API asks. The interrupt
  routine runs between calls; \<open>call\<close> is what the registered handlers do.
\<close>

inductive ticker_step ::
    "('f \<Rightarrow> u32 \<Rightarrow> ('p, 'f, us_timer) ticker \<Rightarrow> ('p, 'f, us_timer) ticker option)
     \<Rightarrow> ('p, 'f, us_timer) ticker \<Rightarrow> ('p, 'f, us_timer) ticker \<Rightarrow> bool"
  for call where
  set_handler: "ticker_set_handler us_interface handler t = Some t' \<Longrightarrow> ticker_step call t t'"
| insert: "initialized t \<Longrightarrow> chain (ev_next t) (head t) xs \<Longrightarrow> obj \<notin> set xs
    \<Longrightarrow> ticker_insert_event us_interface obj stamp ident t = Some t' \<Longrightarrow> ticker_step call t t'"
| insert_us: "initialized t \<Longrightarrow> chain (ev_next t) (head t) xs \<Longrightarrow> obj \<notin> set xs
    \<Longrightarrow> ticker_insert_event_us us_interface obj timestamp ident t = Some t' \<Longrightarrow> ticker_step call t t'"
| remove: "initialized t \<Longrightarrow> ticker_remove_event us_interface obj t = Some t' \<Longrightarrow> ticker_step call t t'"
| read: "ticker_read_us us_interface t = Some (t', us) \<Longrightarrow> ticker_step call t t'"
| suspend: "ticker_step call t (ticker_suspend t)"
| resume: "ticker_resume us_interface t = Some t' \<Longrightarrow> ticker_step call t t'"
| irq: "initialized t \<Longrightarrow> timer_irq_handler call t = Some t' \<Longrightarrow> ticker_step call t t'"

text \<open>Handlers that keep the queue well formed, as every step does.\<close>

definition handlers_ok ::
    "('f \<Rightarrow> u32 \<Rightarrow> ('p, 'f, us_timer) ticker \<Rightarrow> ('p, 'f, us_timer) ticker option) \<Rightarrow> bool" where
  "handlers_ok call \<longleftrightarrow> (\<forall>f ident t t'. initialized t \<longrightarrow> ticker_inv 32 t \<longrightarrow> call f ident t = Some t'
     \<longrightarrow> initialized t' \<and> ticker_inv 32 t')"

lemma dispatch_inv:
  assumes call: "handlers_ok call"
  shows "dispatch_loop us_interface call t = Some t' \<Longrightarrow> initialized t \<Longrightarrow> ticker_inv 32 t
    \<Longrightarrow> initialized t' \<and> ticker_inv 32 t'"
proof -
  assume "dispatch_loop us_interface call t = Some t'"
  then have "us_interface = us_interface \<longrightarrow> call = call \<longrightarrow> initialized t \<longrightarrow> ticker_inv 32 t
      \<longrightarrow> initialized t' \<and> ticker_inv 32 t'"
  proof (rule dispatch_loop.raw_induct [of "\<lambda>i c t t'. i = us_interface \<longrightarrow> c = call \<longrightarrow> initialized t
      \<longrightarrow> ticker_inv 32 t \<longrightarrow> initialized t' \<and> ticker_inv 32 t'", rotated])
    fix loop i c t t'
    assume IH: "\<And>i c t t'. loop i c t = Some t' \<Longrightarrow> i = us_interface \<longrightarrow> c = call \<longrightarrow> initialized t
        \<longrightarrow> ticker_inv 32 t \<longrightarrow> initialized t' \<and> ticker_inv 32 t'"
      and step: "(case head t of None \<Rightarrow> Some t
        | Some p \<Rightarrow> let t = update_present_time i t in
          if ev_timestamp t p \<le> present_time t then
            let t = t\<lparr>head := ev_next t p\<rparr> in
            case event_handler t of None \<Rightarrow> loop i c t
            | Some f \<Rightarrow> Option.bind (c f (ev_id t p) t) (loop i c)
          else Some t) = Some t'"
    show "i = us_interface \<longrightarrow> c = call \<longrightarrow> initialized t \<longrightarrow> ticker_inv 32 t
        \<longrightarrow> initialized t' \<and> ticker_inv 32 t'"
    proof (intro impI)
      assume ic: "i = us_interface" "c = call" and ini: "initialized t" and inv: "ticker_inv 32 t"
      let ?u = "update_present_time us_interface t"
      obtain xs where xs: "timing_ok 32 t" "queue_ok t xs" using ini inv by (auto simp: ticker_inv_def)
      have u: "timing_ok 32 ?u" by (rule us_counter.update_ok [OF xs(1)])
      show "initialized t' \<and> ticker_inv 32 t'"
      proof (cases "head t")
        case None
        then show ?thesis using step ini inv by auto
      next
        case (Some p)
        then obtain ys where "chain (ev_next t) (ev_next t p) ys" "xs = p # ys"
          using xs(2) by (auto simp: queue_ok_def)
        then have q: "queue_ok (?u\<lparr>head := ev_next t p\<rparr>) ys" using xs(2) by (simp add: queue_ok_def)
        have "timing_ok 32 (?u\<lparr>head := ev_next t p\<rparr>)"
          by (rule timing_ok_cong [OF u]) (use u in \<open>simp_all add: timing_ok_def\<close>)
        then have v: "initialized (?u\<lparr>head := ev_next t p\<rparr>)" "ticker_inv 32 (?u\<lparr>head := ev_next t p\<rparr>)"
          using q ini by (auto simp: ticker_inv_def)
        have u': "initialized ?u" "ticker_inv 32 ?u"
          using u xs(2) ini by (auto simp: ticker_inv_def queue_ok_def)
        let ?v = "?u\<lparr>head := ev_next t p\<rparr>"
        show ?thesis
        proof (cases "ev_timestamp t p \<le> present_time ?u")
          case False
          then have "t' = ?u" using step Some ic by (simp add: Let_def)
          then show ?thesis using u' by simp
        next
          case due: True
          show ?thesis
          proof (cases "event_handler t")
            case None
            then have "loop us_interface call ?v = Some t'"
              using step Some due ic by (simp add: Let_def)
            from IH [OF this] v show ?thesis by blast
          next
            case handler: (Some f)
            then obtain w where w: "call f (ev_id t p) ?v = Some w" "loop us_interface call w = Some t'"
              using step Some due ic by (auto simp: Let_def bind_eq_Some_conv)
            have "initialized w \<and> ticker_inv 32 w" using call v w(1) unfolding handlers_ok_def by blast
            then show ?thesis using IH [OF w(2)] by blast
          qed
        qed
      qed
    qed
  qed
  then show "initialized t \<Longrightarrow> ticker_inv 32 t \<Longrightarrow> initialized t' \<and> ticker_inv 32 t'" by simp
qed

lemma irq_inv:
  assumes call: "handlers_ok call"
    and ini: "initialized t" and inv: "ticker_inv 32 t" and r: "timer_irq_handler call t = Some t'"
  shows "ticker_inv 32 t'"
proof -
  have with_hw: "ticker_inv 32 (s\<lparr>hw := h, dispatching := b\<rparr>)" "ticker_inv 32 (s\<lparr>hw := h\<rparr>)"
    if "ticker_inv 32 s" for s :: "('b, 'a, us_timer) ticker" and h b
    using that by (auto simp: ticker_inv_def timing_ok_def queue_ok_def)
  show ?thesis
  proof (cases "CC1IF (hw t) \<and> CC1IE (hw t) \<and> \<not> suspended t")
    case False
    then show ?thesis using r inv with_hw(2) [OF inv]
      by (auto simp: timer_irq_handler_def ticker_irq_handler_def Let_def split: if_splits)
  next
    case True
    then obtain v where v: "dispatch_loop us_interface call (t\<lparr>hw := clear_interrupt us_interface
          ((hw t)\<lparr>CC1IF := False\<rparr>), dispatching := True\<rparr>) = Some v"
      and t': "schedule_interrupt us_interface (v\<lparr>dispatching := False\<rparr>) = Some t'"
      using r by (auto simp: timer_irq_handler_def ticker_irq_handler_def Let_def bind_eq_Some_conv)
    have "initialized v \<and> ticker_inv 32 v"
      using dispatch_inv [OF call v] with_hw(1) [OF inv] ini by simp
    then obtain xs where "timing_ok 32 v" "queue_ok v xs" by (auto simp: ticker_inv_def)
    then have "timing_ok 32 (v\<lparr>dispatching := False\<rparr>)" "queue_ok (v\<lparr>dispatching := False\<rparr>) xs"
      by (auto simp: timing_ok_def queue_ok_def)
    from us_counter.schedule_inv [OF this] t' show ?thesis by simp
  qed
qed

lemma ticker_step_inv:
  assumes call: "handlers_ok call"
    and "ticker_step call t t'" and "ticker_inv 32 t"
  shows "ticker_inv 32 t'"
  using assms(2,3)
proof (cases rule: ticker_step.cases)
  case (set_handler handler)
  then show ?thesis using us_counter.set_handler_inv [OF assms(3), of handler] by auto
next
  case (insert xs obj stamp ident)
  then have "queue_ok t xs" "timing_ok 32 t" using assms(3) chain_unique by (auto simp: ticker_inv_def queue_ok_def)
  then show ?thesis using us_counter.insert_inv [of t xs obj stamp ident] insert by (auto simp: ticker_inv_def)
next
  case (insert_us xs obj timestamp ident)
  then have "queue_ok t xs" "timing_ok 32 t" using assms(3) chain_unique by (auto simp: ticker_inv_def queue_ok_def)
  then show ?thesis using us_counter.insert_us_inv [of t xs obj timestamp ident] insert_us
    by (auto simp: ticker_inv_def)
next
  case (remove obj)
  then obtain xs where "queue_ok t xs" "timing_ok 32 t" using assms(3) by (auto simp: ticker_inv_def)
  then show ?thesis using us_counter.remove_inv [of t xs obj] remove by (auto simp: ticker_inv_def)
next
  case (read us)
  then show ?thesis using us_counter.read_us_inv [OF assms(3)] by auto
next
  case suspend
  then show ?thesis using us_counter.suspend_inv [OF assms(3)] by simp
next
  case resume
  then show ?thesis using us_counter.resume_inv [OF assms(3)] by auto
next
  case irq
  then show ?thesis using irq_inv [OF call irq(1) assms(3) irq(2)] by blast
qed

text \<open>
  C13: in any sequence of API calls and interrupts, starting from the zeroed queue of the
  microsecond ticker, the clock data stay consistent and the event list stays well formed and
  sorted by time; and no call from such a state can stop in the assertion of
  \<open>schedule_interrupt\<close> or in the error traps of \<open>initialize\<close>, or run forever. The event
  handlers are arbitrary code that keeps the queue well formed, as these calls do.
\<close>

theorem us_ticker_reachable:
  assumes "handlers_ok call"
    and "(ticker_step call)\<^sup>*\<^sup>* t0 t" and "\<not> initialized t0"
  shows "ticker_inv 32 t \<and> ticker_set_handler us_interface handler t \<noteq> None
    \<and> ticker_read_us us_interface t \<noteq> None \<and> ticker_resume us_interface t \<noteq> None
    \<and> (initialized t \<longrightarrow> ticker_remove_event us_interface obj t \<noteq> None
        \<and> (\<forall>xs. chain (ev_next t) (head t) xs \<and> obj \<notin> set xs \<longrightarrow>
              ticker_insert_event us_interface obj stamp ident t \<noteq> None
            \<and> ticker_insert_event_us us_interface obj timestamp ident t \<noteq> None))"
proof -
  have inv: "ticker_inv 32 t" using assms(2)
  proof (induction rule: rtranclp_induct)
    case base
    then show ?case using assms(3) by (simp add: ticker_inv_def)
  next
    case (step y z)
    then show ?case using ticker_step_inv [OF assms(1)] by blast
  qed
  have "ticker_remove_event us_interface obj t \<noteq> None" if "initialized t"
    using that inv us_counter.remove_inv [of t _ obj] by (auto simp: ticker_inv_def)
  moreover have "ticker_insert_event us_interface obj stamp ident t \<noteq> None
      \<and> ticker_insert_event_us us_interface obj timestamp ident t \<noteq> None"
    if "initialized t" "chain (ev_next t) (head t) xs" "obj \<notin> set xs" for xs
  proof -
    have "queue_ok t xs" "timing_ok 32 t"
      using that inv chain_unique by (auto simp: ticker_inv_def queue_ok_def)
    then show ?thesis
      using us_counter.insert_inv [of t xs obj stamp ident] that
        us_counter.insert_us_inv [of t xs obj timestamp ident] by auto
  qed
  ultimately show ?thesis
    using inv us_counter.set_handler_inv [OF inv, of handler] us_counter.read_us_inv [OF inv]
      us_counter.resume_inv [OF inv] by auto
qed

definition zero_ticker :: "(nat, unit, us_timer) ticker" where
  "zero_ticker = \<lparr>event_handler = None, head = None, frequency = 0, bitmask = 0, max_delta = 0,
     max_delta_us = 0, tick_last_read = 0, tick_remainder = 0, present_time = 0,
     initialized = False, dispatching = False, suspended = False, frequency_shifts = 0,
     ev_timestamp = (\<lambda>p. 0), ev_id = (\<lambda>p. 0), ev_next = (\<lambda>p. None),
     hw = \<lparr>CNT = 0, CCR1 = 0, CC1IF = False, CC1IE = False, CC1E = False, timer_cnt_reg = 0,
       timer_ccr1_reg = 0, timer_dier_reg = False, lapses = []\<rparr>\<rparr>"

theorem us_ticker_reachable_witness:
  "\<exists>t. ticker_set_handler us_interface None zero_ticker = Some t \<and> ticker_inv 32 t
     \<and> ticker_remove_event us_interface 0 t \<noteq> None"
proof -
  have z: "\<not> initialized zero_ticker" "\<not> suspended zero_ticker" by (simp_all add: zero_ticker_def)
  obtain t where t: "initialize us_interface zero_ticker = Some t" "initialized t"
    using us_counter.initialize_fresh [OF z] by blast
  let ?t = "t\<lparr>event_handler := None\<rparr>"
  have s: "ticker_set_handler us_interface None zero_ticker = Some ?t"
    using t by (simp add: ticker_set_handler_def)
  have h: "handlers_ok (\<lambda>f ident t. Some t)" by (simp add: handlers_ok_def)
  have "(ticker_step (\<lambda>f ident t. Some t))\<^sup>*\<^sup>* zero_ticker ?t"
    using ticker_step.set_handler [OF s] by blast
  from us_ticker_reachable [OF h this z(1), of None 0] t s show ?thesis by auto
qed

text \<open>The cyclic comparison of the code: the match lies in the interval just passed.\<close>

lemma match_interval_word:
  "ticker_match_interval_passed prev cur m \<longleftrightarrow> m - prev - 1 < cur - prev"
proof -
  define p q r where "p = uint prev" and "q = uint cur" and "r = uint m"
  have b: "0 \<le> p" "p < 4294967296" "0 \<le> q" "q < 4294967296" "0 \<le> r" "r < 4294967296"
    using uint_lt2p [of prev] uint_lt2p [of cur] uint_lt2p [of m] by (simp_all add: p_def q_def r_def)
  show ?thesis
    unfolding ticker_match_interval_passed_def word_less_def word_le_def
    by (simp only: uint_sub_if' p_def [symmetric] q_def [symmetric] r_def [symmetric])
      (use b in \<open>auto split: if_splits\<close>)
qed

lemma us_interface_simps [simp]:
  "fire_interrupt us_interface = us_ticker_fire_interrupt" "read us_interface = us_ticker_read"
  "set_interrupt us_interface = us_ticker_set_interrupt"
  by (simp_all add: us_interface_def)

text \<open>
  C17: no interrupt is lost. Time passes while \<open>schedule_interrupt\<close> works: the counter moves
  before its read, before the compare register is written and before the check. With an event
  queued, afterwards the timer interrupt is enabled, and either it is already raised or the
  compare value lies ahead of the counter, at most \<open>max_delta\<close> ticks.
\<close>

theorem schedule_never_misses:
  assumes "timing_ok 32 t" and "\<not> suspended t" and "\<not> dispatching t" and "head t = Some p"
    and "lapses (hw t) = a # b # c # rest" and "unat b + unat c < 2 ^ 32"
    and "schedule_interrupt us_interface t = Some t'"
  shows "CC1IE (hw t') \<and> (CC1IF (hw t') \<or>
    0 < unat (CCR1 (hw t') - CNT (hw t')) \<and> unat (CCR1 (hw t') - CNT (hw t')) \<le> unat (max_delta t))"
proof -
  define u where "u = update_present_time us_interface t"
  have hw: "hw u = run_timer a ((hw t)\<lparr>lapses := b # c # rest\<rparr>)" "tick_last_read u = CNT (hw u)"
    using assms(2,5) by (simp_all add: u_def update_present_time_def us_ticker_read_def
        elapse_def Let_def)
  have u: "timing_ok 32 u" unfolding u_def by (rule us_counter.update_ok [OF assms(1)])
  show ?thesis
  proof (cases "ev_timestamp u p \<le> present_time u")
    case True
    then have "t' = u\<lparr>hw := us_ticker_fire_interrupt (hw u)\<rparr>"
      using assms(2,3,4,7) by (simp add: schedule_interrupt_def Let_def u_def)
    then show ?thesis by (simp add: us_ticker_fire_interrupt_def)
  next
    case False
    define m where "m = compute_tick_round_up u (ev_timestamp u p)"
    have hu: "head u = Some p" using assms(4) by (simp add: u_def)
    let ?last = "tick_last_read u"
    let ?cur = "?last + b + c"
    have fut: "present_time u < ev_timestamp u p" using False by simp
    have d: "0 < unat (m - ?last)" "unat (m - ?last) \<le> unat (max_delta t)"
      using round_up_aux [OF u fut] u
      by (simp_all add: m_def timing_ok_def and_mask_32 u_def del: unat_gt_0)
    have acc: "read us_interface (set_interrupt us_interface m (hw u))
        = (?cur, run_timer c ((run_timer b ((hw u)\<lparr>lapses := c # rest\<rparr>))\<lparr>CCR1 := m, CC1IF := False,
             CC1IE := True, lapses := rest\<rparr>))"
      using hw by (simp add: us_ticker_read_def us_ticker_set_interrupt_def run_timer_def elapse_def Let_def add.assoc)
    have "t' = (if ticker_match_interval_passed ?last ?cur m
        then u\<lparr>hw := us_ticker_fire_interrupt (snd (read us_interface (set_interrupt us_interface m (hw u))))\<rparr>
        else u\<lparr>hw := snd (read us_interface (set_interrupt us_interface m (hw u)))\<rparr>)"
      using assms(2,3,7) hu False acc round_up_moves [OF u fut]
      by (auto simp: schedule_interrupt_def Let_def u_def [symmetric] m_def [symmetric]
          split: if_splits)
    moreover have ?thesis if "\<not> ticker_match_interval_passed ?last ?cur m"
        "t' = u\<lparr>hw := snd (read us_interface (set_interrupt us_interface m (hw u)))\<rparr>"
    proof -
      have bc: "unat (b + c) = unat b + unat c" using assms(6) by (simp add: unat_word_ariths)
      have one: "unat (m - ?last - 1) = unat (m - ?last) - 1"
        using d(1) by (subst unat_sub_le) (simp_all add: word_le_nat_alt)
      have lt: "unat (b + c) < unat (m - ?last)"
        using that(1) one d(1) by (simp add: match_interval_word word_less_nat_alt add.assoc)
      have mc: "m - ?cur = (m - ?last) - (b + c)" by simp
      have "unat (m - ?cur) = unat (m - ?last) - unat (b + c)"
        unfolding mc by (rule unat_sub_le) (use lt in \<open>simp add: word_le_nat_alt\<close>)
      then have "0 < unat (m - ?cur)" "unat (m - ?cur) \<le> unat (max_delta t)" using lt d by linarith+
      then show ?thesis using that(2) acc hw(2) by (simp add: run_timer_def)
    qed
    ultimately show ?thesis by (auto simp: us_ticker_fire_interrupt_def)
  qed
qed

definition armed_ticker :: "(nat, unit, us_timer) ticker" where
  "armed_ticker = zero_ticker\<lparr>head := Some 1, frequency := 1000000, bitmask := mask 32,
     max_delta := 0x70000000, max_delta_us := 0x70000000, initialized := True,
     ev_timestamp := (\<lambda>p. 5), hw := (hw zero_ticker)\<lparr>lapses := [1, 2, 9]\<rparr>\<rparr>"

theorem schedule_never_misses_witness:
  "\<exists>t'. schedule_interrupt us_interface armed_ticker = Some t' \<and> CC1IE (hw t') \<and> CC1IF (hw t')"
proof -
  have ok: "timing_ok 32 armed_ticker" by (simp add: timing_ok_def armed_ticker_def zero_ticker_def)
  then obtain t' where t': "schedule_interrupt us_interface armed_ticker = Some t'"
    using us_counter.schedule_total by blast
  have "CC1IE (hw t')"
    using schedule_never_misses [OF ok _ _ _ _ _ t', of 1 1 2 9 "[]"]
    by (simp add: armed_ticker_def zero_ticker_def)
  moreover have "CC1IF (hw t')"
    using t' by (auto simp: armed_ticker_def zero_ticker_def schedule_interrupt_def
      update_present_time_def advance_time_def compute_tick_round_up_def us_timer_defs elapse_def
      Let_def ticker_match_interval_passed_def mask_eq_exp_minus_1 split: if_splits)
  ultimately show ?thesis using t' by blast
qed

end
