(* ===== verification/Rtx_State.thy ===== *)
theory Rtx_State
  imports Linked_List "HOL-Library.Monad_Syntax"
begin

text \<open>
  The state of the RTX5 kernel (rtos/source/TARGET_CORTEX/rtx5/RTX): \<open>osRtxInfo\<close>,
  \<open>osRtxConfig\<close> and the control blocks. Control blocks live in an explicit store: a
  pointer is a \<open>ref\<close>, and each structure field is a function from pointers, so that the
  aliasing of the code is kept. In particular the code casts an object to a thread to treat its
  \<open>thread_list\<close> as a \<open>thread_next\<close>; here \<open>thread_next\<close> of an object is its list
  head. \<open>ReadyList\<close> is \<open>&osRtxInfo.thread.ready\<close>. The pool information inside a
  memory pool or message queue has the pointer of that object.

  Memory outside control blocks is \<open>memory\<close>, words at 4-byte aligned addresses (stack ends,
  headers of the variable-size pools, links of free blocks), and \<open>payload\<close>, bytes (message
  contents, the function and argument of a timer): two views that the code never mixes. The registers R0 to R3 that a blocked thread
  has saved on its stack, through which its service call returns, are \<open>regs\<close>.

  An operation returns an option: \<open>None\<close> is a null pointer access or a list walk that never
  ends. Atomic sections are single steps; event recorder calls (\<open>EvrRtx...\<close>) are left out.
\<close>

section \<open>Constants\<close>

datatype ref = ReadyList | Obj u32

text \<open>The address of a control block (the ready list is never used as memory), and back.\<close>

fun address :: "ref \<Rightarrow> u32" where
  "address (Obj a) = a"
| "address ReadyList = 0"

definition ptr :: "u32 \<Rightarrow> ref option" where
  "ptr a = (if a = 0 then None else Some (Obj a))"

definition osRtxIdInvalid :: u8 where "osRtxIdInvalid = 0x00"
definition osRtxIdThread :: u8 where "osRtxIdThread = 0xF1"
definition osRtxIdTimer :: u8 where "osRtxIdTimer = 0xF2"
definition osRtxIdEventFlags :: u8 where "osRtxIdEventFlags = 0xF3"
definition osRtxIdMutex :: u8 where "osRtxIdMutex = 0xF5"
definition osRtxIdSemaphore :: u8 where "osRtxIdSemaphore = 0xF6"
definition osRtxIdMemoryPool :: u8 where "osRtxIdMemoryPool = 0xF7"
definition osRtxIdMessage :: u8 where "osRtxIdMessage = 0xF9"
definition osRtxIdMessageQueue :: u8 where "osRtxIdMessageQueue = 0xFA"

lemmas rtx_ids = osRtxIdInvalid_def osRtxIdThread_def osRtxIdTimer_def osRtxIdEventFlags_def
  osRtxIdMutex_def osRtxIdSemaphore_def osRtxIdMemoryPool_def osRtxIdMessage_def
  osRtxIdMessageQueue_def

definition osRtxFlagSystemObject :: u8 where "osRtxFlagSystemObject = 1"
definition osRtxFlagSystemMemory :: u8 where "osRtxFlagSystemMemory = 2"
definition osRtxThreadFlagDefStack :: u8 where "osRtxThreadFlagDefStack = 0x10"

definition osRtxKernelInactive :: u8 where "osRtxKernelInactive = 0"
definition osRtxKernelReady :: u8 where "osRtxKernelReady = 1"
definition osRtxKernelRunning :: u8 where "osRtxKernelRunning = 2"
definition osRtxKernelLocked :: u8 where "osRtxKernelLocked = 3"
definition osRtxKernelSuspended :: u8 where "osRtxKernelSuspended = 4"

lemmas rtx_kernel_states = osRtxKernelInactive_def osRtxKernelReady_def osRtxKernelRunning_def
  osRtxKernelLocked_def osRtxKernelSuspended_def

definition osRtxThreadStateMask :: u8 where "osRtxThreadStateMask = 0x0F"
definition osRtxThreadInactive :: u8 where "osRtxThreadInactive = 0"
definition osRtxThreadReady :: u8 where "osRtxThreadReady = 1"
definition osRtxThreadRunning :: u8 where "osRtxThreadRunning = 2"
definition osRtxThreadBlocked :: u8 where "osRtxThreadBlocked = 3"
definition osRtxThreadTerminated :: u8 where "osRtxThreadTerminated = 4"
definition osRtxThreadWaitingDelay :: u8 where "osRtxThreadWaitingDelay = osRtxThreadBlocked OR 0x10"
definition osRtxThreadWaitingJoin :: u8 where "osRtxThreadWaitingJoin = osRtxThreadBlocked OR 0x20"
definition osRtxThreadWaitingThreadFlags :: u8 where
  "osRtxThreadWaitingThreadFlags = osRtxThreadBlocked OR 0x30"
definition osRtxThreadWaitingEventFlags :: u8 where
  "osRtxThreadWaitingEventFlags = osRtxThreadBlocked OR 0x40"
definition osRtxThreadWaitingMutex :: u8 where "osRtxThreadWaitingMutex = osRtxThreadBlocked OR 0x50"
definition osRtxThreadWaitingSemaphore :: u8 where
  "osRtxThreadWaitingSemaphore = osRtxThreadBlocked OR 0x60"
definition osRtxThreadWaitingMemoryPool :: u8 where
  "osRtxThreadWaitingMemoryPool = osRtxThreadBlocked OR 0x70"
definition osRtxThreadWaitingMessageGet :: u8 where
  "osRtxThreadWaitingMessageGet = osRtxThreadBlocked OR 0x80"
definition osRtxThreadWaitingMessagePut :: u8 where
  "osRtxThreadWaitingMessagePut = osRtxThreadBlocked OR 0x90"

lemmas rtx_states = osRtxThreadStateMask_def osRtxThreadInactive_def osRtxThreadReady_def
  osRtxThreadRunning_def osRtxThreadBlocked_def osRtxThreadTerminated_def
  osRtxThreadWaitingDelay_def osRtxThreadWaitingJoin_def osRtxThreadWaitingThreadFlags_def
  osRtxThreadWaitingEventFlags_def osRtxThreadWaitingMutex_def osRtxThreadWaitingSemaphore_def
  osRtxThreadWaitingMemoryPool_def osRtxThreadWaitingMessageGet_def
  osRtxThreadWaitingMessagePut_def

text \<open>\<open>osStatus_t\<close> as the 32-bit values the calls return (cmsis_os2.h).\<close>

definition osOK :: u32 where "osOK = 0"
definition osError :: u32 where "osError = 0xFFFFFFFF"
definition osErrorTimeout :: u32 where "osErrorTimeout = 0xFFFFFFFE"
definition osErrorResource :: u32 where "osErrorResource = 0xFFFFFFFD"
definition osErrorParameter :: u32 where "osErrorParameter = 0xFFFFFFFC"
definition osErrorNoMemory :: u32 where "osErrorNoMemory = 0xFFFFFFFB"
definition osErrorISR :: u32 where "osErrorISR = 0xFFFFFFFA"

lemmas os_status = osOK_def osError_def osErrorTimeout_def osErrorResource_def
  osErrorParameter_def osErrorNoMemory_def osErrorISR_def

definition osWaitForever :: u32 where "osWaitForever = 0xFFFFFFFF"
definition osFlagsWaitAll :: u32 where "osFlagsWaitAll = 1"
definition osFlagsNoClear :: u32 where "osFlagsNoClear = 2"
definition osThreadJoinable :: u8 where "osThreadJoinable = 1"
definition osMutexRecursive :: u8 where "osMutexRecursive = 1"
definition osMutexPrioInherit :: u8 where "osMutexPrioInherit = 2"
definition osMutexRobust :: u8 where "osMutexRobust = 8"
definition osPriorityNone :: int where "osPriorityNone = 0"
definition osPriorityNormal :: int where "osPriorityNormal = 24"
definition osPriorityError :: int where "osPriorityError = -1"
definition osPriorityIdle :: int where "osPriorityIdle = 1"
definition osPriorityISR :: int where "osPriorityISR = 56"
definition osRtxMutexLockLimit :: u8 where "osRtxMutexLockLimit = 255"
definition osRtxSemaphoreTokenLimit :: u32 where "osRtxSemaphoreTokenLimit = 65535"
definition osRtxErrorStackUnderflow :: u32 where "osRtxErrorStackUnderflow = 1"
definition osRtxErrorISRQueueOverflow :: u32 where "osRtxErrorISRQueueOverflow = 2"
definition osRtxErrorTimerQueueOverflow :: u32 where "osRtxErrorTimerQueueOverflow = 3"
definition osRtxStackMagicWord :: u32 where "osRtxStackMagicWord = 0xE25A2EA5"
definition osRtxStackFillPattern :: u32 where "osRtxStackFillPattern = 0xCCCCCCCC"
definition osRtxConfigPrivilegedMode :: u32 where "osRtxConfigPrivilegedMode = 1"
definition osRtxConfigStackWatermark :: u32 where "osRtxConfigStackWatermark = 4"
definition osRtxTimerInactive :: u8 where "osRtxTimerInactive = 0"
definition osRtxTimerStopped :: u8 where "osRtxTimerStopped = 1"
definition osRtxTimerRunning :: u8 where "osRtxTimerRunning = 2"
definition osRtxTimerPeriodic :: u8 where "osRtxTimerPeriodic = 1"

lemmas rtx_timer_states = osRtxTimerInactive_def osRtxTimerStopped_def osRtxTimerRunning_def
  osRtxTimerPeriodic_def

text \<open>The flags a caller may use: \<open>(1U << 31) - 1U\<close>.\<close>

definition valid_flags :: u32 where "valid_flags = 0x7FFFFFFF"

section \<open>Configuration and attributes\<close>

record thread_attr =
  ta_name :: u32
  ta_attr_bits :: u32
  ta_cb_mem :: u32
  ta_cb_size :: u32
  ta_stack_mem :: u32
  ta_stack_size :: u32
  ta_priority :: int

text \<open>
  The attributes of the other objects; \<open>oa_data_mem\<close> and \<open>oa_data_size\<close> are \<open>mp_mem\<close>,
  \<open>mp_size\<close> of a memory pool and \<open>mq_mem\<close>, \<open>mq_size\<close> of a message queue.
\<close>

record obj_attr =
  oa_name :: u32
  oa_attr_bits :: u32
  oa_cb_mem :: u32
  oa_cb_size :: u32
  oa_data_mem :: u32
  oa_data_size :: u32

record mpi_config =
  mpi_stack :: "ref option"
  mpi_thread :: "ref option"
  mpi_timer :: "ref option"
  mpi_event_flags :: "ref option"
  mpi_mutex :: "ref option"
  mpi_semaphore :: "ref option"
  mpi_memory_pool :: "ref option"
  mpi_message_queue :: "ref option"

record mem_config =
  mem_stack :: u32
  mem_mp_data :: u32
  mem_mq_data :: u32
  mem_common :: u32

record rtx_config =
  cfg_flags :: u32
  cfg_tick_freq :: u32
  cfg_robin_timeout :: u32
  cfg_isr_max :: u16
  cfg_mem :: mem_config
  cfg_mem_size :: mem_config
  cfg_mpi :: mpi_config
  cfg_thread_stack_size :: u32
  cfg_idle_attr :: "thread_attr option"
  cfg_timer_attr :: "thread_attr option"
  cfg_timer_mq_attr :: "obj_attr option"
  cfg_timer_mq_mcnt :: u32

section \<open>Bytes\<close>

text \<open>\<open>memcpy\<close>, and little-endian words, on the byte view.\<close>

definition copy_bytes :: "u32 \<Rightarrow> u32 \<Rightarrow> u32 \<Rightarrow> (u32 \<Rightarrow> u8) \<Rightarrow> u32 \<Rightarrow> u8" where
  "copy_bytes dst src n bytes = (\<lambda>a. if a - dst < n then bytes (src + (a - dst)) else bytes a)"

definition put_word :: "u32 \<Rightarrow> u32 \<Rightarrow> (u32 \<Rightarrow> u8) \<Rightarrow> u32 \<Rightarrow> u8" where
  "put_word a w bytes = bytes(a := ucast w, a + 1 := ucast (drop_bit 8 w),
     a + 2 := ucast (drop_bit 16 w), a + 3 := ucast (drop_bit 24 w))"

definition get_word :: "u32 \<Rightarrow> (u32 \<Rightarrow> u8) \<Rightarrow> u32" where
  "get_word a bytes = ucast (bytes a) OR push_bit 8 (ucast (bytes (a + 1)))
     OR push_bit 16 (ucast (bytes (a + 2))) OR push_bit 24 (ucast (bytes (a + 3)))"

section \<open>Control blocks and kernel information\<close>

record rtx =
  obj_id :: "ref \<Rightarrow> u8"
  obj_flags :: "ref \<Rightarrow> u8"
  obj_attr :: "ref \<Rightarrow> u8"
  obj_name :: "ref \<Rightarrow> u32"
  thread_next :: "ref link"
  thread_prev :: "ref link"
  delay_next :: "ref link"
  delay_prev :: "ref link"
  thread_join :: "ref link"
  thread_state :: "ref \<Rightarrow> u8"
  delay :: "ref \<Rightarrow> u32"
  priority :: "ref \<Rightarrow> int"
  priority_base :: "ref \<Rightarrow> int"
  stack_frame :: "ref \<Rightarrow> u8"
  flags_options :: "ref \<Rightarrow> u8"
  wait_flags :: "ref \<Rightarrow> u32"
  thread_flags :: "ref \<Rightarrow> u32"
  mutex_list :: "ref link"
  stack_mem :: "ref \<Rightarrow> u32"
  stack_size :: "ref \<Rightarrow> u32"
  sp :: "ref \<Rightarrow> u32"
  thread_addr :: "ref \<Rightarrow> u32"
  regs :: "ref \<Rightarrow> nat \<Rightarrow> u32"
  timer_state :: "ref \<Rightarrow> u8"
  timer_type :: "ref \<Rightarrow> u8"
  timer_prev :: "ref link"
  timer_next :: "ref link"
  timer_tick :: "ref \<Rightarrow> u32"
  timer_load :: "ref \<Rightarrow> u32"
  event_flags :: "ref \<Rightarrow> u32"
  owner_thread :: "ref link"
  owner_prev :: "ref link"
  owner_next :: "ref link"
  lock_count :: "ref \<Rightarrow> u8"
  tokens :: "ref \<Rightarrow> u16"
  max_tokens :: "ref \<Rightarrow> u16"
  max_blocks :: "ref \<Rightarrow> u32"
  used_blocks :: "ref \<Rightarrow> u32"
  block_size :: "ref \<Rightarrow> u32"
  block_base :: "ref \<Rightarrow> u32"
  block_lim :: "ref \<Rightarrow> u32"
  block_free :: "ref \<Rightarrow> u32"
  msg_priority :: "ref \<Rightarrow> u8"
  msg_prev :: "ref link"
  msg_next :: "ref link"
  msg_size :: "ref \<Rightarrow> u32"
  msg_count :: "ref \<Rightarrow> u32"
  msg_first :: "ref link"
  msg_last :: "ref link"
  memory :: "u32 \<Rightarrow> u32"
  payload :: "u32 \<Rightarrow> u8"
  config :: rtx_config
  kernel_state :: u8
  kernel_blocked :: bool
  kernel_pendSV :: bool
  kernel_tick :: u32
  run_curr :: "ref option"
  run_next :: "ref option"
  idle_thread :: "ref option"
  delay_list :: "ref option"
  wait_list :: "ref option"
  terminate_list :: "ref option"
  robin_thread :: "ref option"
  robin_tick :: u32
  robin_timeout :: u32
  timer_list :: "ref option"
  timer_thread :: "ref option"
  timer_mq :: "ref option"
  timer_tick_set :: bool
  isr_max :: u16
  isr_cnt :: u16
  isr_in :: u16
  isr_out :: u16
  isr_data :: "u16 \<Rightarrow> ref"
  mem_pools :: mem_config
  mpi_pools :: mpi_config
  post_process :: "u8 \<Rightarrow> bool"
  pendSV_set :: bool
  os_tick_enabled :: bool
  control_reg :: u32
  irq_mode :: bool
  error_log :: "(u32 \<times> ref) list"

type_synonym 'a rtx_op = "rtx \<Rightarrow> ('a \<times> rtx) option"

text \<open>
  \<open>osRtxErrorNotify\<close> is a callback of the application; the model records its calls.
  \<open>irq_mode\<close> is \<open>IsIrqMode() || IsIrqMasked()\<close>, by which the public functions choose
  between a service call and an interrupt call.
\<close>

definition osRtxErrorNotify :: "u32 \<Rightarrow> ref \<Rightarrow> rtx \<Rightarrow> rtx" where
  "osRtxErrorNotify code object s = s\<lparr>error_log := error_log s @ [(code, object)]\<rparr>"

abbreviation is_object :: "u8 \<Rightarrow> rtx \<Rightarrow> ref option \<Rightarrow> bool" where
  "is_object i s p \<equiv> p \<noteq> None \<and> obj_id s (the p) = i"

section \<open>The state at reset\<close>

text \<open>All kernel variables are in zeroed memory before the first call.\<close>

definition zero_mem :: mem_config where
  "zero_mem = \<lparr>mem_stack = 0, mem_mp_data = 0, mem_mq_data = 0, mem_common = 0\<rparr>"

definition zero_mpi :: mpi_config where
  "zero_mpi = \<lparr>mpi_stack = None, mpi_thread = None, mpi_timer = None, mpi_event_flags = None,
     mpi_mutex = None, mpi_semaphore = None, mpi_memory_pool = None, mpi_message_queue = None\<rparr>"

definition zero_config :: rtx_config where
  "zero_config = \<lparr>cfg_flags = 0, cfg_tick_freq = 0, cfg_robin_timeout = 0, cfg_isr_max = 0, cfg_mem = zero_mem,
     cfg_mem_size = zero_mem, cfg_mpi = zero_mpi, cfg_thread_stack_size = 0, cfg_idle_attr = None,
     cfg_timer_attr = None, cfg_timer_mq_attr = None, cfg_timer_mq_mcnt = 0\<rparr>"

definition zero_rtx :: rtx where
  "zero_rtx = \<lparr>obj_id = (\<lambda>_. 0), obj_flags = (\<lambda>_. 0), obj_attr = (\<lambda>_. 0),
     obj_name = (\<lambda>_. 0), thread_next = (\<lambda>_. None),
     thread_prev = (\<lambda>_. None), delay_next = (\<lambda>_. None),
     delay_prev = (\<lambda>_. None), thread_join = (\<lambda>_. None),
     thread_state = (\<lambda>_. 0), delay = (\<lambda>_. 0), priority = (\<lambda>_. 0),
     priority_base = (\<lambda>_. 0), stack_frame = (\<lambda>_. 0),
     flags_options = (\<lambda>_. 0), wait_flags = (\<lambda>_. 0),
     thread_flags = (\<lambda>_. 0), mutex_list = (\<lambda>_. None),
     stack_mem = (\<lambda>_. 0), stack_size = (\<lambda>_. 0), sp = (\<lambda>_. 0),
     thread_addr = (\<lambda>_. 0), regs = (\<lambda>_ _. 0), timer_state = (\<lambda>_. 0),
     timer_type = (\<lambda>_. 0), timer_prev = (\<lambda>_. None),
     timer_next = (\<lambda>_. None), timer_tick = (\<lambda>_. 0),
     timer_load = (\<lambda>_. 0), event_flags = (\<lambda>_. 0),
     owner_thread = (\<lambda>_. None), owner_prev = (\<lambda>_. None),
     owner_next = (\<lambda>_. None), lock_count = (\<lambda>_. 0), tokens = (\<lambda>_. 0),
     max_tokens = (\<lambda>_. 0), max_blocks = (\<lambda>_. 0), used_blocks = (\<lambda>_. 0),
     block_size = (\<lambda>_. 0), block_base = (\<lambda>_. 0), block_lim = (\<lambda>_. 0),
     block_free = (\<lambda>_. 0), msg_priority = (\<lambda>_. 0),
     msg_prev = (\<lambda>_. None), msg_next = (\<lambda>_. None), msg_size = (\<lambda>_. 0),
     msg_count = (\<lambda>_. 0), msg_first = (\<lambda>_. None), msg_last = (\<lambda>_. None),
     memory = (\<lambda>_. 0), payload = (\<lambda>_. 0), config = zero_config,
     kernel_state = 0, kernel_blocked = False, kernel_pendSV = False, kernel_tick = 0,
     run_curr = None, run_next = None, idle_thread = None, delay_list = None, wait_list = None,
     terminate_list = None, robin_thread = None, robin_tick = 0, robin_timeout = 0,
     timer_list = None, timer_thread = None, timer_mq = None, timer_tick_set = False,
     isr_max = 0, isr_cnt = 0, isr_in = 0, isr_out = 0, isr_data = (\<lambda>_. Obj 0),
     mem_pools = zero_mem, mpi_pools = zero_mpi, post_process = (\<lambda>_. False),
     pendSV_set = False, os_tick_enabled = False, control_reg = 0, irq_mode = False,
     error_log = []\<rparr>"

end
