(* ===== verification/Rtx_Memory.thy ===== *)
theory Rtx_Memory
  imports Prelude "HOL-Library.Monad_Syntax"
begin

text \<open>
  The memory pool with variable block size, Source/rtx_memory.c. The pool is words of memory:
  \<open>mem_head_t\<close> has \<open>size\<close> at offset 0 and \<open>used\<close> at 4, \<open>mem_block_t\<close> has \<open>next\<close>
  at 0 and \<open>info\<close> at 4; all of them are 8-byte aligned.
\<close>

section \<open>Operations\<close>

type_synonym words = "u32 \<Rightarrow> u32"

definition MB_INFO_LEN_MASK :: u32 where "MB_INFO_LEN_MASK = 0xFFFFFFFC"
definition MB_INFO_TYPE_MASK :: u32 where "MB_INFO_TYPE_MASK = 3"

definition head_size :: "words \<Rightarrow> u32 \<Rightarrow> u32" where "head_size w mem = w mem"
definition head_used :: "words \<Rightarrow> u32 \<Rightarrow> u32" where "head_used w mem = w (mem + 4)"
definition block_next :: "words \<Rightarrow> u32 \<Rightarrow> u32" where "block_next w p = w p"
definition block_info :: "words \<Rightarrow> u32 \<Rightarrow> u32" where "block_info w p = w (p + 4)"

lemmas block_fields = head_size_def head_used_def block_next_def block_info_def

definition osRtxMemoryInit :: "u32 \<Rightarrow> u32 \<Rightarrow> words \<Rightarrow> u32 \<times> words" where
  "osRtxMemoryInit mem sz w =
     (if mem = 0 \<or> mem AND 7 \<noteq> 0 \<or> sz AND 7 \<noteq> 0 \<or> sz < 8 + 2 * 8 then (0, w)
      else let w = w(mem := sz, mem + 4 := 8 + 8);
               p = mem + 8;
               w = w(p := mem + (sz - 8));
               l = block_next w p;
               w = w(l := 0, l + 4 := 8 + 8)
           in (1, w(p + 4 := 0)))"

text \<open>The block size: the header added, rounded up to 8 bytes.\<close>

definition alloc_size :: "u32 \<Rightarrow> u32" where
  "alloc_size sz = (sz + 8 + 7) AND NOT 7"

definition hole_after :: "words \<Rightarrow> u32 \<Rightarrow> u32" where
  "hole_after w p = (block_next w p - p) - (block_info w p AND MB_INFO_LEN_MASK)"

partial_function (option) find_hole :: "words \<Rightarrow> u32 \<Rightarrow> u32 \<Rightarrow> u32 option option" where
  "find_hole w n p =
     (if n \<le> hole_after w p then Some (Some p)
      else let p = block_next w p in
        if block_next w p = 0 then Some None else find_hole w n p)"

definition osRtxMemoryAlloc :: "u32 \<Rightarrow> u32 \<Rightarrow> u32 \<Rightarrow> words \<Rightarrow> (u32 \<times> words) option" where
  "osRtxMemoryAlloc mem sz type w =
     (if mem = 0 \<or> sz = 0 \<or> type AND NOT MB_INFO_TYPE_MASK \<noteq> 0 then Some (0, w)
      else let n = alloc_size sz in
        do {
          hole \<leftarrow> find_hole w n (mem + 8);
          case hole of
            None \<Rightarrow> Some (0, w)
          | Some p \<Rightarrow>
            let w = w(mem + 4 := head_used w mem + n);
                l = mem + (head_size w mem - 8);
                w = (if block_info w l < head_used w mem then w(l + 4 := head_used w mem) else w)
            in if block_info w p = 0 then Some (p + 8, w(p + 4 := n OR type))
               else let q = p + (block_info w p AND MB_INFO_LEN_MASK);
                        w = w(q := block_next w p);
                        w = w(q + 4 := n OR type)
                    in Some (q + 8, w(p := q))
        })"

text \<open>The header of a block and the block before it.\<close>

partial_function (option) find_block ::
    "words \<Rightarrow> u32 \<Rightarrow> u32 option \<Rightarrow> u32 \<Rightarrow> (u32 option \<times> u32) option option" where
  "find_block w b prev p =
     (if p = b then Some (Some (prev, p))
      else let prev = p; p = block_next w p in
        if p = 0 then Some None else find_block w b (Some prev) p)"

definition osRtxMemoryFree :: "u32 \<Rightarrow> u32 \<Rightarrow> words \<Rightarrow> (u32 \<times> words) option" where
  "osRtxMemoryFree mem block w =
     (if mem = 0 \<or> block = 0 then Some (0, w)
      else do {
        found \<leftarrow> find_block w (block - 8) None (mem + 8);
        case found of
          None \<Rightarrow> Some (0, w)
        | Some (prev, p) \<Rightarrow>
          let w = w(mem + 4 := head_used w mem - (block_info w p AND MB_INFO_LEN_MASK))
          in (case prev of
                None \<Rightarrow> Some (1, w(p + 4 := 0))
              | Some prev \<Rightarrow> Some (1, w(prev := block_next w p)))
      })"

end
