(* ===== verification/Rtx_Pool.thy ===== *)
theory Rtx_Pool
  imports Rtx_State Rtx_Memory
begin

text \<open>
  Memory pools with fixed block size (the library functions of Source/rtx_mempool.c), and the
  allocation of control blocks that every \<open>svcRtx...New\<close> and \<open>svcRtx...Delete\<close> of
  the kernel performs in the same way.
\<close>

section \<open>Fixed-size pools\<close>

text \<open>\<open>link_blocks n size m\<close> writes the links of \<open>n + 1\<close> free blocks from \<open>m\<close> on.\<close>

fun link_blocks :: "nat \<Rightarrow> u32 \<Rightarrow> u32 \<Rightarrow> words \<Rightarrow> words" where
  "link_blocks 0 bsize m w = w(m := 0)"
| "link_blocks (Suc n) bsize m w = link_blocks n bsize (m + bsize) (w(m := m + bsize))"

definition osRtxMemoryPoolInit :: "ref option \<Rightarrow> u32 \<Rightarrow> u32 \<Rightarrow> u32 \<Rightarrow> rtx \<Rightarrow> u32 \<times> rtx" where
  "osRtxMemoryPoolInit mp_info block_count bsize block_mem s =
     (case mp_info of
        None \<Rightarrow> (0, s)
      | Some mp \<Rightarrow>
        if block_count = 0 \<or> bsize = 0 \<or> block_mem = 0 then (0, s)
        else (1, s\<lparr>max_blocks := (max_blocks s)(mp := block_count),
                   used_blocks := (used_blocks s)(mp := 0),
                   block_size := (block_size s)(mp := bsize),
                   block_base := (block_base s)(mp := block_mem),
                   block_free := (block_free s)(mp := block_mem),
                   block_lim := (block_lim s)(mp := block_mem + block_count * bsize),
                   memory := link_blocks (unat block_count - 1) bsize block_mem (memory s)\<rparr>))"

definition osRtxMemoryPoolAlloc :: "ref option \<Rightarrow> rtx \<Rightarrow> u32 \<times> rtx" where
  "osRtxMemoryPoolAlloc mp_info s =
     (case mp_info of
        None \<Rightarrow> (0, s)
      | Some mp \<Rightarrow>
        let block = block_free s mp in
        if block \<noteq> 0
        then (block, s\<lparr>block_free := (block_free s)(mp := memory s block),
                       used_blocks := (used_blocks s)(mp := used_blocks s mp + 1)\<rparr>)
        else (block, s))"

definition osRtxMemoryPoolFree :: "ref option \<Rightarrow> u32 \<Rightarrow> rtx \<Rightarrow> u32 \<times> rtx" where
  "osRtxMemoryPoolFree mp_info block s =
     (case mp_info of
        None \<Rightarrow> (osErrorParameter, s)
      | Some mp \<Rightarrow>
        if block < block_base s mp \<or> block_lim s mp \<le> block then (osErrorParameter, s)
        else (osOK, s\<lparr>memory := (memory s)(block := block_free s mp),
                      block_free := (block_free s)(mp := block),
                      used_blocks := (used_blocks s)(mp := used_blocks s mp - 1)\<rparr>))"

section \<open>Control blocks\<close>

definition no_attr :: obj_attr where
  "no_attr = \<lparr>oa_name = 0, oa_attr_bits = 0, oa_cb_mem = 0, oa_cb_size = 0,
              oa_data_mem = 0, oa_data_size = 0\<rparr>"

definition attr_or_default :: "obj_attr option \<Rightarrow> obj_attr" where
  "attr_or_default attr = (case attr of None \<Rightarrow> no_attr | Some a \<Rightarrow> a)"

text \<open>A control block of the caller must be aligned and large enough.\<close>

definition cb_ok :: "u32 \<Rightarrow> u32 \<Rightarrow> u32 \<Rightarrow> bool" where
  "cb_ok need cb cb_size = (if cb \<noteq> 0 then cb AND 3 = 0 \<and> need \<le> cb_size else cb_size = 0)"

definition memory_alloc :: "u32 \<Rightarrow> u32 \<Rightarrow> u32 \<Rightarrow> u32 rtx_op" where
  "memory_alloc m n type s =
     (do { (a, w) \<leftarrow> osRtxMemoryAlloc m n type (memory s); Some (a, s\<lparr>memory := w\<rparr>) })"

definition memory_free :: "u32 \<Rightarrow> u32 \<Rightarrow> rtx \<Rightarrow> rtx option" where
  "memory_free m a s =
     (do { (ok, w) \<leftarrow> osRtxMemoryFree m a (memory s); Some (s\<lparr>memory := w\<rparr>) })"

text \<open>
  Allocate object memory if the caller provides none (\<open>cb = 0\<close>): from the pool of the object
  class if it is configured, else from the common pool. The result is the address and the
  object flags.
\<close>

definition alloc_cb :: "ref option \<Rightarrow> u32 \<Rightarrow> u32 \<Rightarrow> (u32 \<times> u8) rtx_op" where
  "alloc_cb pool cb_size cb s =
     (if cb \<noteq> 0 then Some ((cb, 0), s)
      else case pool of
        Some _ \<Rightarrow> (let (a, s) = osRtxMemoryPoolAlloc pool s in Some ((a, osRtxFlagSystemObject), s))
      | None \<Rightarrow> do {
          (a, s) \<leftarrow> memory_alloc (mem_common (mem_pools s)) cb_size 1 s;
          Some ((a, osRtxFlagSystemObject), s)
        })"

definition free_cb :: "ref option \<Rightarrow> u32 \<Rightarrow> rtx \<Rightarrow> rtx option" where
  "free_cb pool cb s =
     (case pool of
        Some _ \<Rightarrow> Some (snd (osRtxMemoryPoolFree pool cb s))
      | None \<Rightarrow> memory_free (mem_common (mem_pools s)) cb s)"

text \<open>The end of a delete call: free the object if the kernel allocated it.\<close>

definition free_object :: "ref option \<Rightarrow> ref \<Rightarrow> rtx \<Rightarrow> rtx option" where
  "free_object pool object s =
     (if obj_flags s object AND osRtxFlagSystemObject \<noteq> 0 then free_cb pool (address object) s
      else Some s)"

text \<open>
  Allocate data memory if the caller provides none: the address of the control block (0 when
  the data cannot be had, the control block given back) and of the data, and the flags.
\<close>

definition clear_memory :: "u32 \<Rightarrow> u32 \<Rightarrow> rtx \<Rightarrow> rtx" where
  "clear_memory a n s =
     s\<lparr>memory := (\<lambda>b. if b - a < n then 0 else memory s b),
       payload := (\<lambda>b. if b - a < n then 0 else payload s b)\<rparr>"

definition alloc_data ::
    "ref option \<Rightarrow> u32 \<Rightarrow> u32 \<Rightarrow> u32 \<Rightarrow> u32 \<Rightarrow> u8 \<Rightarrow> (u32 \<times> u32 \<times> u8) rtx_op" where
  "alloc_data pool m n data cb flags s =
     (if cb \<noteq> 0 \<and> data = 0 then
        do {
          (data, s) \<leftarrow> memory_alloc m n 0 s;
          if data = 0 then
            do {
              s \<leftarrow> (if flags AND osRtxFlagSystemObject \<noteq> 0 then free_cb pool cb s else Some s);
              Some ((0, data, flags OR osRtxFlagSystemMemory), s)
            }
          else Some ((cb, data, flags OR osRtxFlagSystemMemory), clear_memory data n s)
        }
      else Some ((cb, data, flags), s))"

text \<open>\<open>__CLZ\<close>: the number of leading zero bits of a word.\<close>

definition clz :: "u32 \<Rightarrow> nat" where
  "clz w = length (takeWhile (\<lambda>i. \<not> bit w (31 - i)) [0..<32])"

text \<open>\<open>__CLZ(a) + __CLZ(b) < 32\<close> refuses products that may not fit.\<close>

definition product_too_large :: "u32 \<Rightarrow> u32 \<Rightarrow> bool" where
  "product_too_large a b \<longleftrightarrow> clz a + clz b < 32"

definition data_ok :: "u32 \<Rightarrow> obj_attr \<Rightarrow> bool" where
  "data_ok n a =
     (if oa_data_mem a \<noteq> 0 then oa_data_mem a AND 3 = 0 \<and> n \<le> oa_data_size a
      else oa_data_size a = 0)"

end
