(* ===== verification/Rtx_Isr_Queue.thy ===== *)
theory Rtx_Isr_Queue
  imports Rtx_Pool
begin

text \<open>
  The queue through which interrupt routines hand objects to the kernel, Source/rtx_system.c:
  a ring buffer, and \<open>osRtxPostProcess\<close>, which fills it and requests the PendSV exception.
\<close>

section \<open>Operations\<close>

definition next_index :: "u16 \<Rightarrow> u16 \<Rightarrow> u16" where
  "next_index wrap i = (if i + 1 = wrap then 0 else i + 1)"

definition isr_queue_put :: "ref \<Rightarrow> rtx \<Rightarrow> bool \<times> rtx" where
  "isr_queue_put object s =
     (if isr_cnt s < isr_max s
      then (True, s\<lparr>isr_cnt := isr_cnt s + 1, isr_data := (isr_data s)(isr_in s := object),
                    isr_in := next_index (isr_max s) (isr_in s)\<rparr>)
      else (False, s))"

definition isr_queue_get :: "rtx \<Rightarrow> ref option \<times> rtx" where
  "isr_queue_get s =
     (if isr_cnt s \<noteq> 0
      then (Some (isr_data s (isr_out s)),
            s\<lparr>isr_cnt := isr_cnt s - 1, isr_out := next_index (isr_max s) (isr_out s)\<rparr>)
      else (None, s))"

definition osRtxPostProcess :: "ref \<Rightarrow> rtx \<Rightarrow> rtx" where
  "osRtxPostProcess object s =
     (let (ok, s) = isr_queue_put object s in
      if ok then if \<not> kernel_blocked s then s\<lparr>pendSV_set := True\<rparr> else s\<lparr>kernel_pendSV := True\<rparr>
      else osRtxErrorNotify osRtxErrorISRQueueOverflow object s)"

section \<open>The ring buffer is a bounded queue\<close>

text \<open>
  The abstract contents: \<open>cnt\<close> objects from \<open>out\<close> on, cyclically. The indices stay below
  \<open>isr_max\<close> and the write index is \<open>cnt\<close> places after the read index.
\<close>

definition ring :: "rtx \<Rightarrow> ref list" where
  "ring s = map (\<lambda>i. isr_data s (of_nat ((unat (isr_out s) + i) mod unat (isr_max s)))) [0..<unat (isr_cnt s)]"

definition ring_ok :: "rtx \<Rightarrow> bool" where
  "ring_ok s \<longleftrightarrow> unat (isr_out s) < unat (isr_max s) \<and> unat (isr_cnt s) \<le> unat (isr_max s)
     \<and> unat (isr_in s) = (unat (isr_out s) + unat (isr_cnt s)) mod unat (isr_max s)"

lemma next_index_value:
  assumes "unat i < unat wrap"
  shows "unat (next_index wrap i) = Suc (unat i) mod unat wrap"
proof -
  have inc: "unat (i + 1) = Suc (unat i)"
    using assms unat_u16_lt [of wrap] by (simp add: unat_word_ariths)
  show ?thesis
  proof (cases "Suc (unat i) = unat wrap")
    case True
    then have "i + 1 = wrap" using inc by (simp add: word_unat_eq_iff)
    then show ?thesis using True by (simp add: next_index_def)
  next
    case False
    then have "i + 1 \<noteq> wrap" using inc by (auto simp: word_unat_eq_iff)
    then show ?thesis using False assms inc by (simp add: next_index_def)
  qed
qed

text \<open>
  What an interrupt queue promises its users. A run of puts and gets gives the results that it
  gives on a bounded list.
\<close>

datatype 'a queue_op = Put 'a | Get

datatype 'a queue_result = Accepted bool | Got "'a option"

fun run_ops ::
    "('a \<Rightarrow> 's \<Rightarrow> bool \<times> 's) \<Rightarrow> ('s \<Rightarrow> 'a option \<times> 's) \<Rightarrow> 'a queue_op list \<Rightarrow> 's \<Rightarrow> 'a queue_result list \<times> 's" where
  "run_ops put get [] s = ([], s)"
| "run_ops put get (Put x # ops) s =
     (let (ok, s) = put x s; (rs, s) = run_ops put get ops s in (Accepted ok # rs, s))"
| "run_ops put get (Get # ops) s =
     (let (x, s) = get s; (rs, s) = run_ops put get ops s in (Got x # rs, s))"

definition fifo_put :: "nat \<Rightarrow> 'a \<Rightarrow> 'a list \<Rightarrow> bool \<times> 'a list" where
  "fifo_put room x q = (if length q < room then (True, q @ [x]) else (False, q))"

definition fifo_get :: "'a list \<Rightarrow> 'a option \<times> 'a list" where
  "fifo_get q = (case q of [] \<Rightarrow> (None, []) | x # xs \<Rightarrow> (Some x, xs))"

locale isr_fifo =
  fixes put :: "'a \<Rightarrow> 's \<Rightarrow> bool \<times> 's" and get :: "'s \<Rightarrow> 'a option \<times> 's"
    and contents :: "'s \<Rightarrow> 'a list" and ok :: "'s \<Rightarrow> bool" and room :: "'s \<Rightarrow> nat"
  assumes put_ok: "ok s \<Longrightarrow> ok (snd (put x s))" and get_ok: "ok s \<Longrightarrow> ok (snd (get s))"
    and put_contents: "ok s \<Longrightarrow> contents (snd (put x s)) = (if fst (put x s) then contents s @ [x] else contents s)"
    and put_accepts: "ok s \<Longrightarrow> fst (put x s) = (length (contents s) < room s)"
    and put_room: "ok s \<Longrightarrow> room (snd (put x s)) = room s"
    and get_room: "ok s \<Longrightarrow> room (snd (get s)) = room s"
    and get_contents: "ok s \<Longrightarrow> get s = (None, s) \<and> contents s = []
        \<or> (\<exists>x xs. contents s = x # xs \<and> fst (get s) = Some x \<and> contents (snd (get s)) = xs)"
begin

lemma put_fifo: "ok s \<Longrightarrow> fifo_put (room s) x (contents s) = (fst (put x s), contents (snd (put x s)))"
  using put_contents put_accepts by (simp add: fifo_put_def)

lemma get_fifo: "ok s \<Longrightarrow> fifo_get (contents s) = (fst (get s), contents (snd (get s)))"
  using get_contents [of s] by (auto simp: fifo_get_def)

lemma run_fifo:
  "ok s \<Longrightarrow> run_ops put get ops s = (rs, s') \<Longrightarrow>
   ok s' \<and> room s' = room s \<and> run_ops (fifo_put (room s)) fifo_get ops (contents s) = (rs, contents s')"
proof (induction ops arbitrary: s rs)
  case Nil
  then show ?case by simp
next
  case (Cons op ops)
  show ?case
  proof (cases op)
    case (Put x)
    obtain rs' where r: "run_ops put get ops (snd (put x s)) = (rs', s')" "rs = Accepted (fst (put x s)) # rs'"
      using Cons.prems(2) Put by (auto simp: Let_def split: prod.splits)
    show ?thesis
      using Cons.IH [OF put_ok [OF Cons.prems(1)] r(1)] put_room [OF Cons.prems(1)] put_fifo [OF Cons.prems(1)] r(2) Put
      by (simp add: Let_def)
  next
    case Get
    obtain rs' where r: "run_ops put get ops (snd (get s)) = (rs', s')" "rs = Got (fst (get s)) # rs'"
      using Cons.prems(2) Get by (auto simp: Let_def split: prod.splits)
    show ?thesis
      using Cons.IH [OF get_ok [OF Cons.prems(1)] r(1)] get_room [OF Cons.prems(1)] get_fifo [OF Cons.prems(1)] r(2) Get
      by (simp add: Let_def)
  qed
qed

end

lemma mod_distinct:
  fixes a :: nat
  assumes "i < n" and "j < n" and "(a + i) mod n = (a + j) mod n"
  shows "i = j"
proof -
  obtain p q where "a + i + n * p = a + j + n * q" using assms(3) by (auto simp: nat_mod_eq_iff)
  then have "i mod n = j mod n" unfolding nat_mod_eq_iff by auto
  then show ?thesis using assms(1,2) by simp
qed

lemma ring_index_unat: "0 < unat (m :: u16) \<Longrightarrow> unat (of_nat (k mod unat m) :: u16) = k mod unat m"
proof -
  assume "0 < unat m"
  then have "k mod unat m < 65536" using unat_u16_lt [of m] by (meson less_trans mod_less_divisor)
  then show ?thesis by (simp add: unat_of_nat)
qed

lemma put_refused: "\<not> isr_cnt s < isr_max s \<Longrightarrow> isr_queue_put x s = (False, s)"
  by (simp add: isr_queue_put_def)

lemma isr_queue_put_ring:
  fixes s :: rtx and x :: ref
  assumes ok: "ring_ok s" and room: "isr_cnt s < isr_max s"
  defines "u \<equiv> snd (isr_queue_put x s)"
  shows "ring_ok u" and "ring u = ring s @ [x]" and "isr_max u = isr_max s"
proof -
  let ?m = "unat (isr_max s)" and ?c = "unat (isr_cnt s)" and ?r = "unat (isr_out s)"
  have b: "?r < ?m" "?c < ?m" "unat (isr_in s) = (?r + ?c) mod ?m"
    using ok room by (simp_all add: ring_ok_def word_less_nat_alt)
  have u: "u = s\<lparr>isr_cnt := isr_cnt s + 1, isr_data := (isr_data s)(isr_in s := x),
      isr_in := next_index (isr_max s) (isr_in s)\<rparr>"
    using room by (simp add: u_def isr_queue_put_def)
  have c: "unat (isr_cnt s + 1) = Suc ?c" using b(2) unat_u16_lt [of "isr_max s"] by (simp add: unat_word_ariths)
  have "unat (isr_in s) < ?m" using b by simp
  then have "unat (next_index (isr_max s) (isr_in s)) = (?r + Suc ?c) mod ?m"
    by (simp add: next_index_value b(3) mod_Suc_eq)
  then show "ring_ok u" using b c by (simp add: ring_ok_def u)
  have in_eq: "isr_in s = of_nat ((?r + ?c) mod ?m)" unfolding b(3) [symmetric] by simp
  have "of_nat ((?r + i) mod ?m) \<noteq> isr_in s" if "i < ?c" for i
  proof
    assume "of_nat ((?r + i) mod ?m) = isr_in s"
    then have "(?r + i) mod ?m = (?r + ?c) mod ?m"
      using b(1,3) ring_index_unat [of "isr_max s"] by (metis gr_implies_not0 neq0_conv)
    then show False using mod_distinct [of i ?m ?c ?r] that b(2) by simp
  qed
  then show "ring u = ring s @ [x]" using c in_eq by (simp add: ring_def u)
  show "isr_max u = isr_max s" by (simp add: u)
qed

lemma isr_queue_get_ring:
  assumes ok: "ring_ok s" and some: "isr_cnt s \<noteq> 0"
  shows "ring_ok (snd (isr_queue_get s))" and "ring s = isr_data s (isr_out s) # ring (snd (isr_queue_get s))"
    and "fst (isr_queue_get s) = Some (isr_data s (isr_out s))"
proof -
  let ?m = "unat (isr_max s)" and ?c = "unat (isr_cnt s)" and ?r = "unat (isr_out s)"
  have b: "?r < ?m" "?c \<le> ?m" "unat (isr_in s) = (?r + ?c) mod ?m" using ok by (simp_all add: ring_ok_def)
  have g: "snd (isr_queue_get s) = s\<lparr>isr_cnt := isr_cnt s - 1, isr_out := next_index (isr_max s) (isr_out s)\<rparr>"
    using some by (simp add: isr_queue_get_def)
  have c: "?c = Suc (unat (isr_cnt s - 1))" using some by (simp add: unat_minus_one unat_gt_0)
  have o: "unat (next_index (isr_max s) (isr_out s)) = Suc ?r mod ?m" by (rule next_index_value [OF b(1)])
  have sh: "(Suc ?r mod ?m + i) mod ?m = (?r + Suc i) mod ?m" for i by (simp add: mod_add_left_eq)
  show "ring_ok (snd (isr_queue_get s))"
    using b c o sh [of "unat (isr_cnt s - 1)"] unfolding ring_ok_def g by simp
  have "[0..<?c] = 0 # map Suc [0..<unat (isr_cnt s - 1)]" unfolding c by (simp add: upt_conv_Cons map_Suc_upt del: upt_Suc)
  then show "ring s = isr_data s (isr_out s) # ring (snd (isr_queue_get s))"
    using b(1) o sh unfolding ring_def g by simp
  show "fst (isr_queue_get s) = Some (isr_data s (isr_out s))" using some by (simp add: isr_queue_get_def)
qed

interpretation isrq: isr_fifo isr_queue_put isr_queue_get ring ring_ok "\<lambda>s. unat (isr_max s)"
proof (unfold_locales, goal_cases)
  case (1 s x)
  then show ?case using isr_queue_put_ring(1) put_refused by (cases "isr_cnt s < isr_max s") auto
next
  case (2 s)
  then show ?case using isr_queue_get_ring(1) by (cases "isr_cnt s = 0") (auto simp: isr_queue_get_def)
next
  case (3 s x)
  show ?case
  proof (cases "isr_cnt s < isr_max s")
    case True
    then have "fst (isr_queue_put x s)" by (simp add: isr_queue_put_def)
    then show ?thesis using isr_queue_put_ring(2) [OF 3 True] by simp
  qed (simp add: put_refused)
next
  case (4 s x)
  then show ?case by (simp add: isr_queue_put_def ring_def word_less_nat_alt)
next
  case (5 s x)
  then show ?case using isr_queue_put_ring(3) put_refused by (cases "isr_cnt s < isr_max s") auto
next
  case (6 s)
  show ?case by (simp add: isr_queue_get_def)
next
  case (7 s)
  show ?case
  proof (cases "isr_cnt s = 0")
    case True
    then show ?thesis by (simp add: isr_queue_get_def ring_def)
  next
    case False
    then show ?thesis using isr_queue_get_ring [OF 7] by blast
  qed
qed

section \<open>Properties\<close>

text \<open>
  C5: The interrupt queue is a bounded first-in first-out queue. From a well-formed ring, any
  sequence of puts and gets keeps it well-formed and returns what the same sequence returns on the
  list of its contents, of which at most \<open>isr_max\<close> fit: a put is refused exactly when the
  queue is full, nothing is lost or reordered, also when the indices wrap around.
\<close>

theorem isr_queue_refines_fifo:
  assumes "ring_ok s" and "run_ops isr_queue_put isr_queue_get ops s = (rs, s')"
  shows "ring_ok s' \<and> run_ops (fifo_put (unat (isr_max s))) fifo_get ops (ring s) = (rs, ring s')"
  using isrq.run_fifo [OF assms] by blast

definition ring_example :: rtx where
  "ring_example = zero_rtx\<lparr>isr_cnt := 1, isr_max := 2, isr_out := 1, isr_in := 0, isr_data := (\<lambda>_. Obj 7)\<rparr>"

theorem isr_queue_refines_fifo_witness:
  "\<exists>rs s'. run_ops isr_queue_put isr_queue_get [Put (Obj 8), Put (Obj 9), Get, Get, Get] ring_example = (rs, s')
     \<and> ring_ok s' \<and> ring s' = [] \<and> rs = [Accepted True, Accepted False, Got (Some (Obj 7)), Got (Some (Obj 8)), Got None]"
proof -
  let ?ops = "[Put (Obj 8), Put (Obj 9), Get, Get, Get]"
  have ok: "ring_ok ring_example" by (simp add: ring_ok_def ring_example_def)
  have r: "ring ring_example = [Obj 7]" by (simp add: ring_def ring_example_def)
  obtain rs s' where run: "run_ops isr_queue_put isr_queue_get ?ops ring_example = (rs, s')" by fastforce
  have "unat (isr_max ring_example) = 2" by (simp add: ring_example_def)
  then have "ring_ok s' \<and> run_ops (fifo_put 2) fifo_get ?ops [Obj 7] = (rs, ring s')"
    using isr_queue_refines_fifo [OF ok run] r by simp
  then show ?thesis using run by (auto simp: fifo_put_def fifo_get_def)
qed

end
