(* ===== verification/Rtx_Thread.thy ===== *)
theory Rtx_Thread
  imports Rtx_Isr_Queue
begin

text \<open>
  Thread management, Source/rtx_thread.c: the priority-ordered object lists, the delay list
  with relative delays, dispatching, and the thread service calls.
\<close>

section \<open>Object lists\<close>

text \<open>Walk while \<open>stay\<close> holds: the last object passed and the one to come after it.\<close>

partial_function (option) find_slot ::
    "('p \<Rightarrow> bool) \<Rightarrow> 'p link \<Rightarrow> 'p \<Rightarrow> 'p option \<Rightarrow> ('p \<times> 'p option) option" where
  "find_slot stay nx prev next =
     (case next of None \<Rightarrow> Some (prev, None)
      | Some n \<Rightarrow> if stay n then find_slot stay nx n (nx n) else Some (prev, Some n))"

text \<open>The four assignments that link \<open>t\<close> between \<open>prev\<close> and \<open>next\<close>.\<close>

definition link_thread :: "ref \<Rightarrow> ref \<Rightarrow> ref option \<Rightarrow> rtx \<Rightarrow> rtx" where
  "link_thread t prev next s =
     (let s = s\<lparr>thread_prev := (thread_prev s)(t := Some prev),
                thread_next := (thread_next s)(t := next, prev := Some t)\<rparr>
      in case next of None \<Rightarrow> s | Some n \<Rightarrow> s\<lparr>thread_prev := (thread_prev s)(n := Some t)\<rparr>)"

definition osRtxThreadListPut :: "ref \<Rightarrow> ref \<Rightarrow> rtx \<Rightarrow> rtx option" where
  "osRtxThreadListPut object thread s =
     (do {
        (prev, next) \<leftarrow> find_slot (\<lambda>n. priority s thread \<le> priority s n) (thread_next s) object
          (thread_next s object);
        Some (link_thread thread prev next s)
      })"

definition osRtxThreadListGet :: "ref \<Rightarrow> ref rtx_op" where
  "osRtxThreadListGet object s =
     (case thread_next s object of
        None \<Rightarrow> None
      | Some thread \<Rightarrow>
        let s = s\<lparr>thread_next := (thread_next s)(object := thread_next s thread)\<rparr>;
            s = (case thread_next s thread of None \<Rightarrow> s
                 | Some n \<Rightarrow> s\<lparr>thread_prev := (thread_prev s)(n := Some object)\<rparr>)
        in Some (thread, s\<lparr>thread_prev := (thread_prev s)(thread := None)\<rparr>))"

definition osRtxThreadListRemove :: "ref \<Rightarrow> rtx \<Rightarrow> rtx" where
  "osRtxThreadListRemove thread s =
     (case thread_prev s thread of
        None \<Rightarrow> s
      | Some prev \<Rightarrow>
        let s = s\<lparr>thread_next := (thread_next s)(prev := thread_next s thread)\<rparr>;
            s = (case thread_next s thread of None \<Rightarrow> s
                 | Some n \<Rightarrow> s\<lparr>thread_prev := (thread_prev s)(n := thread_prev s thread)\<rparr>)
        in s\<lparr>thread_prev := (thread_prev s)(thread := None)\<rparr>)"

text \<open>The object at the root of the list of a thread, found along the back links.\<close>

partial_function (option) list_root :: "rtx \<Rightarrow> ref option \<Rightarrow> ref option option" where
  "list_root s p =
     (case p of None \<Rightarrow> Some None
      | Some t \<Rightarrow> if obj_id s t = osRtxIdThread then list_root s (thread_prev s t) else Some (Some t))"

definition osRtxThreadListSort :: "ref \<Rightarrow> rtx \<Rightarrow> rtx option" where
  "osRtxThreadListSort thread s =
     (do {
        object \<leftarrow> list_root s (Some thread);
        case object of
          None \<Rightarrow> Some s
        | Some ob \<Rightarrow> osRtxThreadListPut ob thread (osRtxThreadListRemove thread s)
      })"

text \<open>\<open>osRtxThreadListUnlink\<close> on the terminate list, its only use.\<close>

definition osRtxThreadListUnlink :: "ref \<Rightarrow> rtx \<Rightarrow> rtx" where
  "osRtxThreadListUnlink thread s =
     (let s = (case thread_next s thread of None \<Rightarrow> s
               | Some n \<Rightarrow> s\<lparr>thread_prev := (thread_prev s)(n := thread_prev s thread)\<rparr>)
      in case thread_prev s thread of
           Some prev \<Rightarrow> s\<lparr>thread_next := (thread_next s)(prev := thread_next s thread),
                         thread_prev := (thread_prev s)(thread := None)\<rparr>
         | None \<Rightarrow> s\<lparr>terminate_list := thread_next s thread\<rparr>)"

definition osRtxThreadReadyPut :: "ref \<Rightarrow> rtx \<Rightarrow> rtx option" where
  "osRtxThreadReadyPut thread s =
     osRtxThreadListPut ReadyList thread
       (s\<lparr>thread_state := (thread_state s)(thread := osRtxThreadReady)\<rparr>)"

section \<open>The delay list\<close>

partial_function (option) wait_last :: "'p link \<Rightarrow> 'p option \<Rightarrow> 'p option \<Rightarrow> 'p option option" where
  "wait_last nx prev next =
     (case next of None \<Rightarrow> Some prev | Some n \<Rightarrow> wait_last nx (Some n) (nx n))"

partial_function (option) delay_slot ::
    "('p \<Rightarrow> u32) \<Rightarrow> 'p link \<Rightarrow> 'p option \<Rightarrow> 'p option \<Rightarrow> u32 \<Rightarrow> ('p option \<times> 'p option \<times> u32) option" where
  "delay_slot dl nx prev next d =
     (case next of None \<Rightarrow> Some (prev, None, d)
      | Some n \<Rightarrow> if dl n \<le> d then delay_slot dl nx (Some n) (nx n) (d - dl n)
                  else Some (prev, Some n, d))"

definition osRtxThreadDelayInsert :: "ref \<Rightarrow> u32 \<Rightarrow> rtx \<Rightarrow> rtx option" where
  "osRtxThreadDelayInsert thread d s =
     (if d = osWaitForever then
        do {
          prev \<leftarrow> wait_last (delay_next s) None (wait_list s);
          let s = s\<lparr>delay := (delay s)(thread := d), delay_prev := (delay_prev s)(thread := prev),
                    delay_next := (delay_next s)(thread := None)\<rparr>;
          Some (case prev of
                  Some p \<Rightarrow> s\<lparr>delay_next := (delay_next s)(p := Some thread)\<rparr>
                | None \<Rightarrow> s\<lparr>wait_list := Some thread\<rparr>)
        }
      else
        do {
          (prev, next, d) \<leftarrow> delay_slot (delay s) (delay_next s) None (delay_list s) d;
          let s = s\<lparr>delay := (delay s)(thread := d), delay_prev := (delay_prev s)(thread := prev),
                    delay_next := (delay_next s)(thread := next)\<rparr>;
          let s = (case prev of
                     Some p \<Rightarrow> s\<lparr>delay_next := (delay_next s)(p := Some thread)\<rparr>
                   | None \<Rightarrow> s\<lparr>delay_list := Some thread\<rparr>);
          Some (case next of
                  Some n \<Rightarrow> s\<lparr>delay := (delay s)(n := delay s n - d),
                              delay_prev := (delay_prev s)(n := Some thread)\<rparr>
                | None \<Rightarrow> s)
        })"

definition osRtxThreadDelayRemove :: "ref \<Rightarrow> rtx \<Rightarrow> rtx" where
  "osRtxThreadDelayRemove thread s =
     (if delay s thread = osWaitForever then
        let s = (case delay_next s thread of None \<Rightarrow> s
                 | Some n \<Rightarrow> s\<lparr>delay_prev := (delay_prev s)(n := delay_prev s thread)\<rparr>)
        in case delay_prev s thread of
             Some p \<Rightarrow> s\<lparr>delay_next := (delay_next s)(p := delay_next s thread),
                         delay_prev := (delay_prev s)(thread := None)\<rparr>
           | None \<Rightarrow> s\<lparr>wait_list := delay_next s thread\<rparr>
      else
        let s = (case delay_next s thread of None \<Rightarrow> s
                 | Some n \<Rightarrow> s\<lparr>delay := (delay s)(n := delay s n + delay s thread),
                              delay_prev := (delay_prev s)(n := delay_prev s thread)\<rparr>)
        in case delay_prev s thread of
             Some p \<Rightarrow> s\<lparr>delay_next := (delay_next s)(p := delay_next s thread),
                         delay_prev := (delay_prev s)(thread := None)\<rparr>
           | None \<Rightarrow> s\<lparr>delay_list := delay_next s thread\<rparr>)"

text \<open>The \<open>do ... while\<close> of the tick: threads whose delay is 0 become ready.\<close>

partial_function (option) wake_expired :: "ref \<Rightarrow> rtx \<Rightarrow> (ref option \<times> rtx) option" where
  "wake_expired thread s =
     (do {
        s \<leftarrow> osRtxThreadReadyPut thread (osRtxThreadListRemove thread s);
        case delay_next s thread of
          Some n \<Rightarrow> if delay s n = 0 then wake_expired n s else Some (Some n, s)
        | None \<Rightarrow> Some (None, s)
      })"

definition osRtxThreadDelayTick :: "rtx \<Rightarrow> rtx option" where
  "osRtxThreadDelayTick s =
     (case delay_list s of
        None \<Rightarrow> Some s
      | Some thread \<Rightarrow>
        let s = s\<lparr>delay := (delay s)(thread := delay s thread - 1)\<rparr> in
        if delay s thread = 0 then
          do {
            (next, s) \<leftarrow> wake_expired thread s;
            let s = (case next of None \<Rightarrow> s
                     | Some n \<Rightarrow> s\<lparr>delay_prev := (delay_prev s)(n := None)\<rparr>);
            Some (s\<lparr>delay_list := next\<rparr>)
          }
        else Some s)"

section \<open>Dispatching\<close>

definition osRtxThreadBlock :: "ref \<Rightarrow> rtx \<Rightarrow> rtx option" where
  "osRtxThreadBlock thread s =
     (let s = s\<lparr>thread_state := (thread_state s)(thread := osRtxThreadReady)\<rparr> in
      do {
        (prev, next) \<leftarrow> find_slot (\<lambda>n. priority s thread < priority s n) (thread_next s) ReadyList
          (thread_next s ReadyList);
        Some (link_thread thread prev next s)
      })"

text \<open>The stack of the thread that runs at the time of a switch is checked.\<close>

definition osRtxThreadStackCheck :: "rtx \<Rightarrow> rtx" where
  "osRtxThreadStackCheck s =
     (case run_curr s of
        None \<Rightarrow> s
      | Some thread \<Rightarrow>
        if sp s thread \<le> stack_mem s thread \<or> memory s (stack_mem s thread) \<noteq> osRtxStackMagicWord
        then osRtxErrorNotify osRtxErrorStackUnderflow thread s else s)"

definition osRtxThreadSwitch :: "ref \<Rightarrow> rtx \<Rightarrow> rtx" where
  "osRtxThreadSwitch thread s =
     osRtxThreadStackCheck
       (s\<lparr>thread_state := (thread_state s)(thread := osRtxThreadRunning), run_next := Some thread\<rparr>)"

definition osRtxThreadDispatch :: "ref option \<Rightarrow> rtx \<Rightarrow> rtx option" where
  "osRtxThreadDispatch thread s =
     (case thread of
        None \<Rightarrow>
          (case thread_next s ReadyList of
             Some ready \<Rightarrow>
               if kernel_state s = osRtxKernelRunning then
                 do {
                   running \<leftarrow> run_curr s;
                   if priority s running < priority s ready then
                     do {
                       s \<leftarrow> osRtxThreadBlock running (osRtxThreadListRemove ready s);
                       Some (osRtxThreadSwitch ready s)
                     }
                   else Some s
                 }
               else Some s
           | None \<Rightarrow> Some s)
      | Some t \<Rightarrow>
          if kernel_state s = osRtxKernelRunning then
            do {
              running \<leftarrow> run_curr s;
              if priority s running < priority s t then
                do { s \<leftarrow> osRtxThreadBlock running s; Some (osRtxThreadSwitch t s) }
              else osRtxThreadReadyPut t s
            }
          else osRtxThreadReadyPut t s)"

text \<open>\<open>reg[0] = ret_val\<close> writes the saved R0, the return value of the blocked call.\<close>

definition osRtxThreadWaitExit :: "ref \<Rightarrow> u32 \<Rightarrow> bool \<Rightarrow> rtx \<Rightarrow> rtx option" where
  "osRtxThreadWaitExit thread ret_val dispatch s =
     (let s = s\<lparr>regs := (regs s)(thread := (regs s thread)(0 := ret_val))\<rparr>;
          s = osRtxThreadDelayRemove thread s
      in if dispatch then osRtxThreadDispatch (Some thread) s else osRtxThreadReadyPut thread s)"

definition osRtxThreadWaitEnter :: "u8 \<Rightarrow> u32 \<Rightarrow> bool rtx_op" where
  "osRtxThreadWaitEnter st timeout s =
     (if kernel_state s \<noteq> osRtxKernelRunning then Some (False, s)
      else if thread_next s ReadyList = None then Some (False, s)
      else do {
        thread \<leftarrow> run_curr s;
        s \<leftarrow> osRtxThreadDelayInsert thread timeout
               (s\<lparr>thread_state := (thread_state s)(thread := st)\<rparr>);
        (next, s) \<leftarrow> osRtxThreadListGet ReadyList s;
        Some (True, osRtxThreadSwitch next s)
      })"

section \<open>Thread flags\<close>

definition ThreadFlagsSet :: "ref \<Rightarrow> u32 \<Rightarrow> rtx \<Rightarrow> u32 \<times> rtx" where
  "ThreadFlagsSet thread flags s =
     (let f = thread_flags s thread OR flags
      in (f, s\<lparr>thread_flags := (thread_flags s)(thread := f)\<rparr>))"

definition ThreadFlagsClear :: "ref \<Rightarrow> u32 \<Rightarrow> rtx \<Rightarrow> u32 \<times> rtx" where
  "ThreadFlagsClear thread flags s =
     (thread_flags s thread,
      s\<lparr>thread_flags := (thread_flags s)(thread := thread_flags s thread AND NOT flags)\<rparr>)"

definition ThreadFlagsCheck :: "ref \<Rightarrow> u32 \<Rightarrow> u32 \<Rightarrow> rtx \<Rightarrow> u32 \<times> rtx" where
  "ThreadFlagsCheck thread flags options s =
     (let f = thread_flags s thread;
          missing = (options AND osFlagsWaitAll \<noteq> 0 \<and> f AND flags \<noteq> flags
                   \<or> options AND osFlagsWaitAll = 0 \<and> f AND flags = 0)
      in if options AND osFlagsNoClear = 0 then
           if missing then (0, s)
           else (f, s\<lparr>thread_flags := (thread_flags s)(thread := f AND NOT flags)\<rparr>)
         else (if missing then 0 else f, s))"

text \<open>Post ISR processing of a thread whose flags were set by an interrupt.\<close>

definition osRtxThreadPostProcess :: "ref \<Rightarrow> rtx \<Rightarrow> rtx option" where
  "osRtxThreadPostProcess thread s =
     (if thread_state s thread = osRtxThreadWaitingThreadFlags then
        let (f, s) = ThreadFlagsCheck thread (wait_flags s thread) (ucast (flags_options s thread)) s
        in if f \<noteq> 0 then osRtxThreadWaitExit thread f False s else Some s
      else Some s)"

section \<open>Service calls\<close>

abbreviation is_thread :: "rtx \<Rightarrow> ref option \<Rightarrow> bool" where
  "is_thread \<equiv> is_object osRtxIdThread"

definition svcRtxThreadGetName :: "ref option \<Rightarrow> rtx \<Rightarrow> u32" where
  "svcRtxThreadGetName thread_id s =
     (if \<not> is_thread s thread_id then 0 else obj_name s (the thread_id))"

definition svcRtxThreadGetId :: "rtx \<Rightarrow> ref option" where
  "svcRtxThreadGetId s = run_curr s"

definition svcRtxThreadGetStackSize :: "ref option \<Rightarrow> rtx \<Rightarrow> u32" where
  "svcRtxThreadGetStackSize thread_id s =
     (if \<not> is_thread s thread_id then 0 else stack_size s (the thread_id))"

text \<open>
  The count of untouched bytes at the end of the stack, from the fill pattern. The loop ends: its
  counter grows by 4 towards the stack size.
\<close>

function untouched :: "(u32 \<Rightarrow> u32) \<Rightarrow> u32 \<Rightarrow> u32 \<Rightarrow> nat \<Rightarrow> nat" where
  "untouched words stack limit space =
     (if space < unat limit \<and> words (stack + of_nat space) = osRtxStackFillPattern
      then untouched words stack limit (space + 4) else space)"
  by pat_completeness auto
termination by (relation "measure (\<lambda>(_, _, limit, space). unat limit - space)") auto

declare untouched.simps [simp del]

definition svcRtxThreadGetStackSpace :: "ref option \<Rightarrow> rtx \<Rightarrow> u32" where
  "svcRtxThreadGetStackSpace thread_id s =
     (if \<not> is_thread s thread_id then 0
      else if cfg_flags (config s) AND osRtxConfigStackWatermark = 0 then 0
      else let stack = stack_mem s (the thread_id) in
        if memory s stack = osRtxStackMagicWord
        then of_nat (untouched (memory s) stack (stack_size s (the thread_id)) 4) else 0)"

text \<open>\<open>osThreadError\<close> is -1.\<close>

definition svcRtxThreadGetState :: "ref option \<Rightarrow> rtx \<Rightarrow> int" where
  "svcRtxThreadGetState thread_id s =
     (if \<not> is_thread s thread_id then -1
      else uint (thread_state s (the thread_id) AND osRtxThreadStateMask))"

definition svcRtxThreadSetPriority :: "ref option \<Rightarrow> int \<Rightarrow> u32 rtx_op" where
  "svcRtxThreadSetPriority thread_id prio s =
     (if \<not> is_thread s thread_id \<or> prio < osPriorityIdle \<or> osPriorityISR < prio
      then Some (osErrorParameter, s)
      else let thread = the thread_id in
        if thread_state s thread = osRtxThreadTerminated then Some (osErrorResource, s)
        else if priority s thread \<noteq> prio then
          do {
            s \<leftarrow> osRtxThreadListSort thread
                   (s\<lparr>priority := (priority s)(thread := prio),
                      priority_base := (priority_base s)(thread := prio)\<rparr>);
            s \<leftarrow> osRtxThreadDispatch None s;
            Some (osOK, s)
          }
        else Some (osOK, s))"

definition svcRtxThreadGetPriority :: "ref option \<Rightarrow> rtx \<Rightarrow> int" where
  "svcRtxThreadGetPriority thread_id s =
     (if \<not> is_thread s thread_id then osPriorityError
      else if thread_state s (the thread_id) = osRtxThreadTerminated then osPriorityError
      else priority s (the thread_id))"

definition svcRtxThreadYield :: "u32 rtx_op" where
  "svcRtxThreadYield s =
     (if kernel_state s = osRtxKernelRunning then
        case thread_next s ReadyList of
          Some ready \<Rightarrow>
            do {
              running \<leftarrow> run_curr s;
              if priority s ready = priority s running then
                do {
                  s \<leftarrow> osRtxThreadReadyPut running (osRtxThreadListRemove ready s);
                  Some (osOK, osRtxThreadSwitch ready s)
                }
              else Some (osOK, s)
            }
        | None \<Rightarrow> Some (osOK, s)
      else Some (osOK, s))"

text \<open>
  The common switch of suspend and terminate: the status, and the thread taken out of the
  lists it waits in.
\<close>

definition leave_lists :: "ref \<Rightarrow> rtx \<Rightarrow> u32 \<times> rtx" where
  "leave_lists thread s =
     (let st = thread_state s thread AND osRtxThreadStateMask in
      if st = osRtxThreadRunning then
        (if kernel_state s \<noteq> osRtxKernelRunning \<or> thread_next s ReadyList = None
         then osErrorResource else osOK, s)
      else if st = osRtxThreadReady then (osOK, osRtxThreadListRemove thread s)
      else if st = osRtxThreadBlocked
      then (osOK, osRtxThreadDelayRemove thread (osRtxThreadListRemove thread s))
      else (osErrorResource, s))"

definition svcRtxThreadSuspend :: "ref option \<Rightarrow> u32 rtx_op" where
  "svcRtxThreadSuspend thread_id s =
     (if \<not> is_thread s thread_id then Some (osErrorParameter, s)
      else let thread = the thread_id; (status, s) = leave_lists thread s in
        if status = osOK then
          do {
            s \<leftarrow> (if thread_state s thread = osRtxThreadRunning
                  then do { (next, s) \<leftarrow> osRtxThreadListGet ReadyList s; Some (osRtxThreadSwitch next s) }
                  else Some s);
            s \<leftarrow> osRtxThreadDelayInsert thread osWaitForever
                   (s\<lparr>thread_state := (thread_state s)(thread := osRtxThreadBlocked),
                      thread_prev := (thread_prev s)(thread := None),
                      thread_next := (thread_next s)(thread := None)\<rparr>);
            Some (status, s)
          }
        else Some (status, s))"

definition svcRtxThreadResume :: "ref option \<Rightarrow> u32 rtx_op" where
  "svcRtxThreadResume thread_id s =
     (if \<not> is_thread s thread_id then Some (osErrorParameter, s)
      else let thread = the thread_id in
        if thread_state s thread AND osRtxThreadStateMask \<noteq> osRtxThreadBlocked
        then Some (osErrorResource, s)
        else do {
          s \<leftarrow> osRtxThreadDispatch (Some thread)
                 (osRtxThreadDelayRemove thread (osRtxThreadListRemove thread s));
          Some (osOK, s)
        })"

definition svcRtxThreadFlagsSet :: "ref option \<Rightarrow> u32 \<Rightarrow> u32 rtx_op" where
  "svcRtxThreadFlagsSet thread_id flags s =
     (if \<not> is_thread s thread_id \<or> flags AND NOT valid_flags \<noteq> 0 then Some (osErrorParameter, s)
      else let thread = the thread_id in
        if thread_state s thread = osRtxThreadTerminated then Some (osErrorResource, s)
        else let (f, s) = ThreadFlagsSet thread flags s in
          if thread_state s thread = osRtxThreadWaitingThreadFlags then
            let (f0, s) = ThreadFlagsCheck thread (wait_flags s thread) (ucast (flags_options s thread)) s in
            if f0 \<noteq> 0 then
              do {
                let f = (if (ucast (flags_options s thread) :: u32) AND osFlagsNoClear = 0
                         then f0 AND NOT (wait_flags s thread) else f0);
                s \<leftarrow> osRtxThreadWaitExit thread f0 True s;
                Some (f, s)
              }
            else Some (f, s)
          else Some (f, s))"

definition svcRtxThreadFlagsClear :: "u32 \<Rightarrow> rtx \<Rightarrow> u32 \<times> rtx" where
  "svcRtxThreadFlagsClear flags s =
     (case run_curr s of
        None \<Rightarrow> (osError, s)
      | Some thread \<Rightarrow>
        if flags AND NOT valid_flags \<noteq> 0 then (osErrorParameter, s) else ThreadFlagsClear thread flags s)"

definition svcRtxThreadFlagsGet :: "rtx \<Rightarrow> u32" where
  "svcRtxThreadFlagsGet s = (case run_curr s of None \<Rightarrow> 0 | Some thread \<Rightarrow> thread_flags s thread)"

definition svcRtxThreadFlagsWait :: "u32 \<Rightarrow> u32 \<Rightarrow> u32 \<Rightarrow> u32 rtx_op" where
  "svcRtxThreadFlagsWait flags options timeout s =
     (case run_curr s of
        None \<Rightarrow> Some (osError, s)
      | Some thread \<Rightarrow>
        if flags AND NOT valid_flags \<noteq> 0 then Some (osErrorParameter, s)
        else let (f, s) = ThreadFlagsCheck thread flags options s in
          if f \<noteq> 0 then Some (f, s)
          else if timeout \<noteq> 0 then
            do {
              (entered, s) \<leftarrow> osRtxThreadWaitEnter osRtxThreadWaitingThreadFlags timeout
                (s\<lparr>wait_flags := (wait_flags s)(thread := flags),
                   flags_options := (flags_options s)(thread := ucast options)\<rparr>);
              Some (osErrorTimeout, s)
            }
          else Some (osErrorResource, s))"

definition isrRtxThreadFlagsSet :: "ref option \<Rightarrow> u32 \<Rightarrow> rtx \<Rightarrow> u32 \<times> rtx" where
  "isrRtxThreadFlagsSet thread_id flags s =
     (if \<not> is_thread s thread_id \<or> flags AND NOT valid_flags \<noteq> 0 then (osErrorParameter, s)
      else if thread_state s (the thread_id) = osRtxThreadTerminated then (osErrorResource, s)
      else let (f, s) = ThreadFlagsSet (the thread_id) flags s
        in (f, osRtxPostProcess (the thread_id) s))"

text \<open>The walks that count and list the active threads.\<close>

partial_function (option) count_from :: "ref link \<Rightarrow> ref option \<Rightarrow> u32 \<Rightarrow> u32 option" where
  "count_from nx p n = (case p of None \<Rightarrow> Some n | Some t \<Rightarrow> count_from nx (nx t) (n + 1))"

definition svcRtxThreadGetCount :: "rtx \<Rightarrow> u32 option" where
  "svcRtxThreadGetCount s =
     (do {
        n \<leftarrow> count_from (thread_next s) (thread_next s ReadyList) 1;
        n \<leftarrow> count_from (delay_next s) (delay_list s) n;
        count_from (delay_next s) (wait_list s) n
      })"

partial_function (option) list_from ::
    "ref link \<Rightarrow> nat \<Rightarrow> ref option \<Rightarrow> ref option list \<Rightarrow> ref option list option" where
  "list_from nx limit p acc =
     (case p of None \<Rightarrow> Some acc
      | Some t \<Rightarrow> if length acc < limit then list_from nx limit (nx t) (acc @ [Some t]) else Some acc)"

text \<open>The entries written to \<open>thread_array\<close>; their number is the return value.\<close>

definition svcRtxThreadEnumerate :: "u32 \<Rightarrow> u32 \<Rightarrow> rtx \<Rightarrow> ref option list option" where
  "svcRtxThreadEnumerate thread_array array_items s =
     (if thread_array = 0 \<or> array_items = 0 then Some []
      else do {
        let limit = unat array_items;
        ts \<leftarrow> list_from (thread_next s) limit (thread_next s ReadyList) [run_curr s];
        ts \<leftarrow> list_from (delay_next s) limit (delay_list s) ts;
        list_from (delay_next s) limit (wait_list s) ts
      })"

text \<open>Wake every thread that waits for an object, as the delete calls do.\<close>

partial_function (option) unblock_waiting :: "ref \<Rightarrow> u32 \<Rightarrow> rtx \<Rightarrow> rtx option" where
  "unblock_waiting object ret s =
     (do {
        (thread, s) \<leftarrow> osRtxThreadListGet object s;
        s \<leftarrow> osRtxThreadWaitExit thread ret False s;
        if thread_next s object \<noteq> None then unblock_waiting object ret s else Some s
      })"

definition unblock_all :: "ref \<Rightarrow> u32 \<Rightarrow> rtx \<Rightarrow> rtx option" where
  "unblock_all object ret s =
     (if thread_next s object \<noteq> None
      then do { s \<leftarrow> unblock_waiting object ret s; osRtxThreadDispatch None s }
      else Some s)"

text \<open>
  The end of an exception handler (SVC, PendSV, SysTick): the thread chosen becomes the one that
  runs.
\<close>

definition context_switch :: "rtx \<Rightarrow> rtx" where
  "context_switch s = s\<lparr>run_curr := run_next s\<rparr>"

end
