(* ===== verification/Rtx_Lists.thy ===== *)
theory Rtx_Lists
  imports Rtx_Thread Linked_List
begin

text \<open>
  The priority-ordered thread lists of rtx_thread.c as a family of lists, one per owner, and what
  \<open>osRtxThreadListPut\<close>, \<open>osRtxThreadListGet\<close> and \<open>osRtxThreadListRemove\<close> do to them.
\<close>

section \<open>Results of the walks\<close>

abbreviation first :: "'p list \<Rightarrow> 'p option" where
  "first xs \<equiv> (case xs of [] \<Rightarrow> None | x # _ \<Rightarrow> Some x)"

lemma find_slot_simps [simp]:
  "find_slot stay nx a None = Some (a, None)"
  "find_slot stay nx a (Some n) = (if stay n then find_slot stay nx n (nx n) else Some (a, Some n))"
  by (subst find_slot.simps; simp)+

lemma find_slot_chain:
  "chain nx p xs \<Longrightarrow>
   find_slot stay nx a p = Some (last (a # takeWhile stay xs), first (dropWhile stay xs))"
proof (induction xs arbitrary: a p)
  case Nil
  then show ?case by simp
next
  case (Cons x xs)
  then show ?case by auto
qed

text \<open>Where a thread goes: behind the threads on which the walk stays.\<close>

definition place :: "('p \<Rightarrow> bool) \<Rightarrow> 'p \<Rightarrow> 'p list \<Rightarrow> 'p list" where
  "place stay t xs = takeWhile stay xs @ t # dropWhile stay xs"

lemma set_place [simp]: "set (place stay t xs) = insert t (set xs)"
proof -
  have "set (takeWhile stay xs) \<union> set (dropWhile stay xs) = set xs"
    by (metis set_append takeWhile_dropWhile_id)
  then show ?thesis by (auto simp: place_def)
qed

definition by_priority :: "('p \<Rightarrow> int) \<Rightarrow> 'p list \<Rightarrow> bool" where
  "by_priority pr xs \<longleftrightarrow> sorted_wrt (\<lambda>a b. pr b \<le> pr a) xs"

lemma by_priority_simps [simp]:
  "by_priority pr []" "by_priority pr (x # xs) \<longleftrightarrow> (\<forall>y\<in>set xs. pr y \<le> pr x) \<and> by_priority pr xs"
  by (simp_all add: by_priority_def)

lemma by_priority_place_behind: "by_priority pr xs \<Longrightarrow> by_priority pr (place (\<lambda>n. pr t \<le> pr n) t xs)"
proof (induction xs)
  case Nil
  then show ?case by (simp add: place_def)
next
  case (Cons x xs)
  then show ?case
    using set_place [of "\<lambda>n. pr t \<le> pr n" t xs] by (auto simp: place_def)
qed

lemma by_priority_place_front: "by_priority pr xs \<Longrightarrow> by_priority pr (place (\<lambda>n. pr t < pr n) t xs)"
proof (induction xs)
  case Nil
  then show ?case by (simp add: place_def)
next
  case (Cons x xs)
  then show ?case
    using set_place [of "\<lambda>n. pr t < pr n" t xs] by (auto simp: place_def)
qed

lemma by_priority_remove1: "by_priority pr xs \<Longrightarrow> by_priority pr (remove1 t xs)"
  by (induction xs) (auto dest: subsetD [OF set_remove1_subset])

lemma by_priority_cong: "(\<And>x. x \<in> set xs \<Longrightarrow> pr x = pr' x) \<Longrightarrow> by_priority pr xs = by_priority pr' xs"
  by (induction xs) auto

section \<open>A family of lists\<close>

text \<open>
  Every owner has a doubly linked list of threads, whose first element points back to the owner;
  the lists are disjoint and no owner is in a list.
\<close>

definition lists :: "'p link \<Rightarrow> 'p link \<Rightarrow> 'p set \<Rightarrow> ('p \<Rightarrow> 'p list) \<Rightarrow> bool" where
  "lists nx pv I L \<longleftrightarrow>
     (\<forall>p\<in>I. dlist nx pv (Some p) (nx p) (L p)) \<and> (\<forall>p. p \<notin> I \<longrightarrow> L p = [])
     \<and> (\<forall>p q t. t \<in> set (L p) \<longrightarrow> t \<in> set (L q) \<longrightarrow> p = q) \<and> (\<forall>p. set (L p) \<inter> I = {})"

definition listed :: "('p \<Rightarrow> 'p list) \<Rightarrow> 'p \<Rightarrow> bool" where
  "listed L t \<longleftrightarrow> (\<exists>p. t \<in> set (L p))"

lemma lists_dlist: "lists nx pv I L \<Longrightarrow> p \<in> I \<Longrightarrow> dlist nx pv (Some p) (nx p) (L p)"
  by (simp add: lists_def)

lemma lists_chain: "lists nx pv I L \<Longrightarrow> p \<in> I \<Longrightarrow> chain nx (nx p) (L p)"
  by (blast intro: dpath_path lists_dlist)

lemma lists_distinct: "lists nx pv I L \<Longrightarrow> distinct (L p)"
  unfolding lists_def by (metis dlist_distinct distinct.simps(1))

lemma lists_owner: "lists nx pv I L \<Longrightarrow> t \<in> set (L p) \<Longrightarrow> p \<in> I \<and> t \<notin> I"
  unfolding lists_def by fastforce

lemma lists_unique: "lists nx pv I L \<Longrightarrow> t \<in> set (L p) \<Longrightarrow> t \<in> set (L q) \<Longrightarrow> p = q"
  unfolding lists_def by blast

lemma lists_head: "lists nx pv I L \<Longrightarrow> p \<in> I \<Longrightarrow> nx p = first (L p)"
  by (blast intro: chain_start lists_chain)

lemma lists_prev:
  assumes "lists nx pv I L" and "L p = as @ t # bs"
  shows "pv t = Some (last (p # as))" and "nx t = first bs"
proof -
  have "p \<in> I" using assms lists_owner [of nx pv I L t p] by simp
  then have d: "dlist nx pv (Some p) (nx p) (as @ t # bs)" using assms lists_dlist by metis
  then show "pv t = Some (last (p # as))"
    by (cases as rule: rev_cases) (auto simp: dpath_append before_def)
  have "dlist nx pv (Some t) (nx t) bs" using d by (auto simp: dpath_append)
  then show "nx t = first bs" by (rule dlist_start)
qed

lemma last_owner_notin:
  "distinct (as @ bs) \<Longrightarrow> p \<notin> set bs \<Longrightarrow> last (p # as) \<notin> set bs"
  by (cases as rule: rev_cases) auto

lemma last_owner_neq: "x \<notin> set as \<Longrightarrow> x \<noteq> p \<Longrightarrow> last (p # as) \<noteq> x"
  by (cases as rule: rev_cases) auto

text \<open>Linking and unlinking one thread.\<close>

definition link_nx :: "'p \<Rightarrow> 'p \<Rightarrow> 'p option \<Rightarrow> 'p link \<Rightarrow> 'p link" where
  "link_nx t prev next nx = nx(t := next, prev := Some t)"

definition link_pv :: "'p \<Rightarrow> 'p \<Rightarrow> 'p option \<Rightarrow> 'p link \<Rightarrow> 'p link" where
  "link_pv t prev next pv =
     (case next of None \<Rightarrow> pv(t := Some prev) | Some n \<Rightarrow> pv(t := Some prev, n := Some t))"

lemma lists_link:
  assumes l: "lists nx pv I L" and p: "p \<in> I" and t: "\<not> listed L t" "t \<notin> I" and xs: "L p = as @ bs"
  shows "lists (link_nx t (last (p # as)) (first bs) nx) (link_pv t (last (p # as)) (first bs) pv) I
           (L(p := as @ t # bs))"
    (is "lists ?nx ?pv I ?L")
proof -
  have d: "dlist nx pv (Some p) (nx p) (as @ bs)" using lists_dlist [OF l p] xs by simp
  then obtain q where q: "dpath nx pv (Some p) (nx p) as q" "dlist nx pv (before (Some p) as) q bs"
    by (auto simp: dpath_append)
  have qb: "q = first bs" using q(2) by (rule dlist_start)
  have dist: "distinct (as @ bs)" using lists_distinct [OF l, of p] xs by simp
  have fresh: "t \<notin> set as" "t \<notin> set bs" "p \<notin> set as" "p \<notin> set bs" "t \<noteq> p"
    using t xs p lists_owner [OF l, of _ p] unfolding listed_def
    by (metis UnCI set_append, metis UnCI set_append, metis UnCI set_append, metis UnCI set_append, metis)
  have last_in: "as \<noteq> [] \<Longrightarrow> last (p # as) \<in> set as" by simp
  have lb: "last (p # as) \<notin> set bs"
    by (rule last_owner_notin [OF dist fresh(4)])
  have own: "dlist ?nx ?pv (Some p) (if as = [] then Some t else nx p) (as @ t # bs)"
  proof (rule dlist_link [OF q dist])
    show "\<And>x. x \<in> set as \<Longrightarrow> x \<noteq> last as \<Longrightarrow> ?nx x = nx x"
      using fresh by (auto simp: link_nx_def)
    show "\<And>x. x \<in> set bs \<Longrightarrow> ?nx x = nx x" using fresh lb by (auto simp: link_nx_def)
    show "as \<noteq> [] \<Longrightarrow> ?nx (last as) = Some t" by (simp add: link_nx_def)
    have "t \<noteq> last (p # as)" using fresh last_in by (cases "as = []") auto
    then show "?nx t = q" using qb by (simp add: link_nx_def)
    show "\<And>x. x \<in> set as \<Longrightarrow> ?pv x = pv x"
      using fresh dist by (auto simp: link_pv_def split: list.splits)
    show "\<And>x. x \<in> set bs \<Longrightarrow> Some x \<noteq> q \<Longrightarrow> ?pv x = pv x"
      using fresh qb by (auto simp: link_pv_def split: list.splits)
    show "?pv t = before (Some p) as"
      using fresh by (auto simp: link_pv_def before_def split: list.splits)
    show "\<And>x. q = Some x \<Longrightarrow> ?pv x = Some t" using qb by (auto simp: link_pv_def split: list.splits)
  qed
  have np: "?nx p = (if as = [] then Some t else nx p)"
  proof (cases "as = []")
    case True
    then show ?thesis by (simp add: link_nx_def)
  next
    case False
    then have "p \<noteq> last as" using fresh(3) last_in by auto
    then show ?thesis using False fresh by (simp add: link_nx_def)
  qed
  have other: "dlist ?nx ?pv (Some r) (?nx r) (L r)" if "r \<in> I" "r \<noteq> p" for r
  proof -
    have r: "r \<noteq> last (p # as)" "r \<noteq> t"
      using that t xs lists_owner [OF l, of "last as" p] by (auto split: if_splits)
    have apart: "x \<notin> set as \<and> x \<notin> set bs \<and> x \<noteq> p \<and> x \<noteq> t" if "x \<in> set (L r)" for x
    proof -
      have "x \<notin> set (L p)" using lists_unique [OF l that] \<open>r \<noteq> p\<close> by blast
      moreover have "x \<noteq> p" using lists_owner [OF l that] p by blast
      moreover have "x \<noteq> t" using that t(1) unfolding listed_def by blast
      ultimately show ?thesis using xs by simp
    qed
    have same: "?nx x = nx x \<and> ?pv x = pv x" if "x \<in> set (L r)" for x
      using apart [OF that] last_owner_neq [of x as p] unfolding link_nx_def link_pv_def
      by (cases bs) (simp_all del: last.simps)
    have "?nx r = nx r" using r by (simp add: link_nx_def del: last.simps)
    then show ?thesis using lists_dlist [OF l that(1)] by (simp only: dpath_cong [OF same])
  qed
  show ?thesis
    unfolding lists_def
  proof (intro conjI ballI allI impI)
    fix r assume "r \<in> I"
    then show "dlist ?nx ?pv (Some r) (?nx r) (?L r)"
      using own np other by (cases "r = p") simp_all
  next
    fix r assume "r \<notin> I"
    then show "?L r = []" using l p by (auto simp: lists_def)
  next
    fix r q u assume u: "u \<in> set (?L r)" "u \<in> set (?L q)"
    show "r = q"
    proof (cases "u = t")
      case True
      then show ?thesis using u t(1) unfolding listed_def by (auto split: if_splits)
    next
      case False
      then have "u \<in> set (L r)" "u \<in> set (L q)" using u xs by (auto split: if_splits)
      then show ?thesis by (rule lists_unique [OF l])
    qed
  next
    fix r
    have "set (?L r) \<subseteq> insert t (set (L r))" using xs by auto
    moreover have "set (L r) \<inter> I = {}" using l by (simp add: lists_def)
    ultimately show "set (?L r) \<inter> I = {}" using t(2) by blast
  qed
qed


definition unlink_nx :: "'p \<Rightarrow> 'p link \<Rightarrow> 'p link \<Rightarrow> 'p link" where
  "unlink_nx t pv nx = (case pv t of None \<Rightarrow> nx | Some p \<Rightarrow> nx(p := nx t))"

definition unlink_pv :: "'p \<Rightarrow> 'p link \<Rightarrow> 'p link \<Rightarrow> 'p link" where
  "unlink_pv t nx pv =
     (case pv t of None \<Rightarrow> pv
      | Some p \<Rightarrow> (case nx t of None \<Rightarrow> pv | Some n \<Rightarrow> pv(n := Some p))(t := None))"

lemma lists_unlink:
  assumes l: "lists nx pv I L" and t: "t \<in> set (L p)"
  shows "lists (unlink_nx t pv nx) (unlink_pv t nx pv) I (L(p := remove1 t (L p)))"
    (is "lists ?nx ?pv I ?L")
proof -
  obtain as bs where xs: "L p = as @ t # bs" using t by (meson split_list)
  have p: "p \<in> I" "t \<notin> I" using lists_owner [OF l t] by simp_all
  have d: "dlist nx pv (Some p) (nx p) (as @ t # bs)" using lists_dlist [OF l p(1)] xs by simp
  have dist: "distinct (as @ t # bs)" using lists_distinct [OF l, of p] xs by simp
  have pt: "pv t = Some (last (p # as))" and nt: "nx t = first bs"
    using lists_prev [OF l xs] by simp_all
  have rem: "remove1 t (L p) = as @ bs" using xs dist by (simp add: remove1_append)
  have fresh: "p \<notin> set as" "p \<notin> set bs" "p \<noteq> t"
    using lists_owner [OF l, of _ p] p xs by (metis UnCI set_append, metis UnCI list.set_intros(2) set_append, metis)
  have lb: "last (p # as) \<notin> set bs" "last (p # as) \<noteq> t"
    using last_owner_notin [of as bs p] last_owner_neq [of t as p] dist fresh by auto
  have nx: "?nx = nx(last (p # as) := first bs)" using pt nt by (simp add: unlink_nx_def del: last.simps)
  have pv: "?pv = (case first bs of None \<Rightarrow> pv | Some n \<Rightarrow> pv(n := Some (last (p # as))))(t := None)"
    using pt nt by (simp add: unlink_pv_def del: last.simps)
  have own: "dlist ?nx ?pv (Some p) (if as = [] then nx t else nx p) (as @ bs)"
  proof (rule dlist_unlink [OF d])
    show "\<And>x. x \<in> set as \<Longrightarrow> x \<noteq> last as \<Longrightarrow> ?nx x = nx x" using fresh by (auto simp: nx)
    show "\<And>x. x \<in> set bs \<Longrightarrow> ?nx x = nx x" using lb by (auto simp: nx)
    show "as \<noteq> [] \<Longrightarrow> ?nx (last as) = nx t" using nt by (simp add: nx)
    show "\<And>x. x \<in> set as \<Longrightarrow> ?pv x = pv x" using dist by (auto simp: pv split: list.splits)
    show "\<And>x. x \<in> set bs \<Longrightarrow> Some x \<noteq> nx t \<Longrightarrow> ?pv x = pv x"
      using dist nt by (auto simp: pv split: list.splits)
    show "\<And>x. nx t = Some x \<Longrightarrow> ?pv x = before (Some p) as"
      using dist nt by (auto simp: pv before_def split: list.splits)
  qed
  have np: "?nx p = (if as = [] then nx t else nx p)"
    using fresh(1) nt last_owner_neq [of p as "last as"] by (cases as rule: rev_cases) (auto simp: nx)
  have other: "dlist ?nx ?pv (Some r) (?nx r) (L r)" if r: "r \<in> I" "r \<noteq> p" for r
  proof -
    have "r \<noteq> last (p # as)"
      using r xs lists_owner [OF l, of "last as" p] by (cases "as = []") auto
    then have nr: "?nx r = nx r" by (simp add: nx)
    have apart: "x \<notin> set as \<and> x \<notin> set bs \<and> x \<noteq> t \<and> x \<noteq> p" if "x \<in> set (L r)" for x
    proof -
      have "x \<notin> set (L p)" using lists_unique [OF l that] r(2) by blast
      moreover have "x \<noteq> p" using lists_owner [OF l that] p by blast
      ultimately show ?thesis using xs by simp
    qed
    have same: "?nx x = nx x \<and> ?pv x = pv x" if "x \<in> set (L r)" for x
      using apart [OF that] last_owner_neq [of x as p] unfolding nx pv
      by (cases bs) (simp_all del: last.simps)
    then show ?thesis using lists_dlist [OF l r(1)] nr by (simp only: dpath_cong [OF same])
  qed
  show ?thesis
    unfolding lists_def
  proof (intro conjI ballI allI impI)
    fix r assume "r \<in> I"
    then show "dlist ?nx ?pv (Some r) (?nx r) (?L r)"
      using own np other rem by (cases "r = p") simp_all
  next
    fix r assume "r \<notin> I"
    then show "?L r = []" using l p by (auto simp: lists_def)
  next
    fix r q u assume u: "u \<in> set (?L r)" "u \<in> set (?L q)"
    then have "u \<in> set (L r)" "u \<in> set (L q)"
      by (auto split: if_splits dest: subsetD [OF set_remove1_subset])
    then show "r = q" by (rule lists_unique [OF l])
  next
    fix r
    have "set (?L r) \<subseteq> set (L r)" by (auto dest: subsetD [OF set_remove1_subset])
    moreover have "set (L r) \<inter> I = {}" using l by (simp add: lists_def)
    ultimately show "set (?L r) \<inter> I = {}" by blast
  qed
qed


lemma lists_remove1_absent: "lists nx pv I L \<Longrightarrow> t \<in> set (L p) \<Longrightarrow> \<not> listed (L(p := remove1 t (L p))) t"
proof -
  assume l: "lists nx pv I L" and t: "t \<in> set (L p)"
  have "t \<notin> set (remove1 t (L p))" using lists_distinct [OF l] by simp
  moreover have "t \<notin> set (L q)" if "q \<noteq> p" for q using lists_unique [OF l t] that by blast
  ultimately show "\<not> listed (L(p := remove1 t (L p))) t" unfolding listed_def by simp
qed

lemma listed_upd: "listed (L(p := xs)) t \<longleftrightarrow> t \<in> set xs \<or> (\<exists>q. q \<noteq> p \<and> t \<in> set (L q))"
  unfolding listed_def by auto

section \<open>The list operations of the kernel\<close>

lemma link_thread_eq:
  "link_thread t p n s =
     s\<lparr>thread_next := link_nx t p n (thread_next s), thread_prev := link_pv t p n (thread_prev s)\<rparr>"
  by (cases n) (simp_all add: link_thread_def link_nx_def link_pv_def)

lemma osRtxThreadListRemove_eq:
  "osRtxThreadListRemove t s =
     s\<lparr>thread_next := unlink_nx t (thread_prev s) (thread_next s),
       thread_prev := unlink_pv t (thread_next s) (thread_prev s)\<rparr>"
  by (simp add: osRtxThreadListRemove_def unlink_nx_def unlink_pv_def split: option.split)

lemma place_split: "place stay t xs = takeWhile stay xs @ t # dropWhile stay xs"
  by (simp add: place_def)

lemma walk_and_link:
  assumes l: "lists (thread_next s) (thread_prev s) I L" and p: "p \<in> I" and t: "\<not> listed L t" "t \<notin> I"
  shows "\<exists>nx pv. (do { (prev, next) \<leftarrow> find_slot stay (thread_next s) p (thread_next s p);
                      Some (link_thread t prev next s) })
                 = Some (s\<lparr>thread_next := nx, thread_prev := pv\<rparr>)
           \<and> lists nx pv I (L(p := place stay t (L p)))
           \<and> (\<forall>u. u \<noteq> t \<longrightarrow> \<not> listed L u \<longrightarrow> pv u = thread_prev s u)"
proof -
  let ?as = "takeWhile stay (L p)" and ?bs = "dropWhile stay (L p)"
  let ?nx = "link_nx t (last (p # ?as)) (first ?bs) (thread_next s)"
  let ?pv = "link_pv t (last (p # ?as)) (first ?bs) (thread_prev s)"
  have "find_slot stay (thread_next s) p (thread_next s p) = Some (last (p # ?as), first ?bs)"
    by (rule find_slot_chain [OF lists_chain [OF l p]])
  then have "(do { (prev, next) \<leftarrow> find_slot stay (thread_next s) p (thread_next s p);
                  Some (link_thread t prev next s) })
             = Some (s\<lparr>thread_next := ?nx, thread_prev := ?pv\<rparr>)"
    by (simp add: link_thread_eq)
  moreover have "lists ?nx ?pv I (L(p := place stay t (L p)))"
    unfolding place_def by (rule lists_link [OF l p t]) simp
  moreover have "?pv u = thread_prev s u" if "u \<noteq> t" "\<not> listed L u" for u
  proof -
    have "u \<notin> set ?bs" using that(2) unfolding listed_def by (meson set_dropWhileD)
    then show ?thesis using that(1) by (auto simp: link_pv_def split: list.split)
  qed
  ultimately show ?thesis by blast
qed

lemma osRtxThreadListPut_lists:
  assumes "lists (thread_next s) (thread_prev s) I L" and "p \<in> I" and "\<not> listed L t" "t \<notin> I"
  shows "\<exists>nx pv. osRtxThreadListPut p t s = Some (s\<lparr>thread_next := nx, thread_prev := pv\<rparr>)
           \<and> lists nx pv I (L(p := place (\<lambda>n. priority s t \<le> priority s n) t (L p)))
           \<and> (\<forall>u. u \<noteq> t \<longrightarrow> \<not> listed L u \<longrightarrow> pv u = thread_prev s u)"
  unfolding osRtxThreadListPut_def by (rule walk_and_link [OF assms])

lemma osRtxThreadListRemove_lists:
  assumes l: "lists (thread_next s) (thread_prev s) I L" and t: "t \<in> set (L p)"
  shows "\<exists>nx pv. osRtxThreadListRemove t s = s\<lparr>thread_next := nx, thread_prev := pv\<rparr>
           \<and> lists nx pv I (L(p := remove1 t (L p))) \<and> pv t = None
           \<and> (\<forall>u. \<not> listed L u \<longrightarrow> pv u = thread_prev s u)"
proof -
  let ?nx = "unlink_nx t (thread_prev s) (thread_next s)"
  let ?pv = "unlink_pv t (thread_next s) (thread_prev s)"
  obtain as bs where xs: "L p = as @ t # bs" using t by (meson split_list)
  have pn: "thread_prev s t = Some (last (p # as))" "thread_next s t = first bs"
    using lists_prev [OF l xs] by simp_all
  have "?pv t = None" using pn by (simp add: unlink_pv_def)
  moreover have "?pv u = thread_prev s u" if "\<not> listed L u" for u
  proof -
    have "u \<noteq> t" "u \<notin> set bs" using that t xs unfolding listed_def by (metis, metis UnCI list.set_intros(2) set_append)
    then show ?thesis using pn by (auto simp: unlink_pv_def split: list.split)
  qed
  ultimately show ?thesis
    using lists_unlink [OF l t] osRtxThreadListRemove_eq [of t s] by blast
qed

lemma osRtxThreadListRemove_absent: "thread_prev s t = None \<Longrightarrow> osRtxThreadListRemove t s = s"
  by (simp add: osRtxThreadListRemove_def)

lemma osRtxThreadListGet_remove:
  assumes l: "lists (thread_next s) (thread_prev s) I L" and p: "p \<in> I" and xs: "L p = t # bs"
  shows "osRtxThreadListGet p s = Some (t, osRtxThreadListRemove t s)"
proof -
  have t: "t \<in> set (L p)" using xs by simp
  have pn: "thread_prev s t = Some p" "thread_next s t = first bs"
    using lists_prev [OF l, of p "[]" t bs] xs by simp_all
  have tp: "t \<noteq> p" using lists_owner [OF l t] p by blast
  have h: "thread_next s p = Some t" using lists_head [OF l p] xs by simp
  show ?thesis
    using h pn tp unfolding osRtxThreadListGet_def osRtxThreadListRemove_def
    by (cases bs) (simp_all add: Let_def)
qed

end
