(* ===== verification/Rtx_Delays.thy ===== *)
theory Rtx_Delays
  imports Rtx_Lists
begin

text \<open>
  The delay list of rtx_thread.c, with relative times, as a list of absolute expiry times, and what
  \<open>osRtxThreadDelayInsert\<close> and \<open>osRtxThreadDelayRemove\<close> do to it and to the wait list.
\<close>

section \<open>Lists of relative times\<close>

text \<open>
  A list in which every element holds its time relative to the one before stands for the list of
  absolute times.
\<close>

fun expiries :: "nat \<Rightarrow> ('p \<Rightarrow> u32) \<Rightarrow> 'p list \<Rightarrow> ('p \<times> nat) list" where
  "expiries b dl [] = []"
| "expiries b dl (x # xs) = (x, b + unat (dl x)) # expiries (b + unat (dl x)) dl xs"

abbreviation total :: "('p \<Rightarrow> u32) \<Rightarrow> 'p list \<Rightarrow> nat" where
  "total dl xs \<equiv> sum_list (map (\<lambda>x. unat (dl x)) xs)"

definition insert_timeout :: "'p \<Rightarrow> nat \<Rightarrow> ('p \<times> nat) list \<Rightarrow> ('p \<times> nat) list" where
  "insert_timeout t e ts = takeWhile (\<lambda>x. snd x \<le> e) ts @ (t, e) # dropWhile (\<lambda>x. snd x \<le> e) ts"

lemma expiries_append:
  "expiries b dl (xs @ ys) = expiries b dl xs @ expiries (b + total dl xs) dl ys"
  by (induction xs arbitrary: b) (simp_all add: add.assoc)

lemma expiries_fst [simp]: "map fst (expiries b dl xs) = xs"
  by (induction xs arbitrary: b) simp_all

lemma expiries_cong: "(\<And>x. x \<in> set xs \<Longrightarrow> dl x = dl' x) \<Longrightarrow> expiries b dl xs = expiries b dl' xs"
  by (induction xs arbitrary: b) simp_all

lemma total_cong: "(\<And>x. x \<in> set xs \<Longrightarrow> dl x = dl' x) \<Longrightarrow> total dl xs = total dl' xs"
  by (induction xs) simp_all

lemma expiries_bounds: "(t, e) \<in> set (expiries b dl xs) \<Longrightarrow> b \<le> e \<and> e \<le> b + total dl xs"
proof (induction xs arbitrary: b)
  case Nil
  then show ?case by simp
next
  case (Cons x xs)
  then consider "e = b + unat (dl x)" | "(t, e) \<in> set (expiries (b + unat (dl x)) dl xs)" by auto
  then show ?case
  proof cases
    case 1
    then show ?thesis by simp
  next
    case 2
    then show ?thesis using Cons.IH [OF 2] by simp
  qed
qed

lemma total_member: "x \<in> set xs \<Longrightarrow> unat (dl x) \<le> total dl xs"
  by (induction xs) auto

text \<open>The walk finds the place by absolute time and leaves the time relative to it.\<close>

lemma delay_slot_simps [simp]:
  fixes dl :: "'p \<Rightarrow> u32" and d :: u32
  shows
  "delay_slot dl nx a None d = Some (a, None, d)"
  "delay_slot dl nx a (Some n) d =
     (if dl n \<le> d then delay_slot dl nx (Some n) (nx n) (d - dl n) else Some (a, Some n, d))"
  by (subst delay_slot.simps; simp)+

lemma delay_slot_chain:
  fixes dl :: "'p \<Rightarrow> u32" and d :: u32
  shows "chain nx p xs \<Longrightarrow>
   \<exists>as bs r. xs = as @ bs \<and> delay_slot dl nx a p d = Some (before a as, first bs, r)
     \<and> unat d = total dl as + unat r \<and> (bs \<noteq> [] \<longrightarrow> r < dl (hd bs))"
proof (induction xs arbitrary: a p d)
  case Nil
  then show ?case by simp
next
  case (Cons x xs)
  show ?case
  proof (cases "dl x \<le> d")
    case True
    from Cons.prems have c: "p = Some x" "chain nx (nx x) xs" by simp_all
    from Cons.IH [OF c(2), of "Some x" "d - dl x"] obtain as bs r where
      ih: "xs = as @ bs" "delay_slot dl nx (Some x) (nx x) (d - dl x) = Some (before (Some x) as, first bs, r)"
        "unat (d - dl x) = total dl as + unat r" "bs \<noteq> [] \<longrightarrow> r < dl (hd bs)" by blast
    have "unat (d - dl x) = unat d - unat (dl x)" using True by (simp add: unat_sub)
    then have "unat d = total dl (x # as) + unat r" using ih(3) True by (simp add: word_le_nat_alt)
    then show ?thesis using ih c True by (intro exI [of _ "x # as"] exI [of _ bs] exI [of _ r]) simp
  next
    case False
    then show ?thesis using Cons.prems by (intro exI [of _ "[]"] exI [of _ "x # xs"] exI [of _ d]) auto
  qed
qed

definition delta_insert :: "'p \<Rightarrow> u32 \<Rightarrow> 'p list \<Rightarrow> ('p \<Rightarrow> u32) \<Rightarrow> 'p \<Rightarrow> u32" where
  "delta_insert t r bs dl = (case bs of [] \<Rightarrow> dl(t := r) | n # _ \<Rightarrow> dl(t := r, n := dl n - r))"

lemma insert_timeout_split:
  assumes "\<And>u f. (u, f) \<in> set as \<Longrightarrow> f \<le> e" and "bs \<noteq> [] \<Longrightarrow> e < snd (hd bs)"
  shows "insert_timeout t e (as @ bs) = as @ (t, e) # bs"
proof -
  have "takeWhile (\<lambda>x. snd x \<le> e) (as @ bs) = as \<and> dropWhile (\<lambda>x. snd x \<le> e) (as @ bs) = bs"
    using assms(1)
  proof (induction as)
    case Nil
    then show ?case using assms(2) by (cases bs) auto
  next
    case (Cons x xs)
    have "takeWhile (\<lambda>x. snd x \<le> e) (xs @ bs) = xs \<and> dropWhile (\<lambda>x. snd x \<le> e) (xs @ bs) = bs"
      by (rule Cons.IH) (use Cons.prems in auto)
    then show ?case using Cons.prems [of "fst x" "snd x"] by simp
  qed
  then show ?thesis by (simp add: insert_timeout_def)
qed

lemma delta_insert_expiries:
  assumes d: "distinct (as @ bs)" "t \<notin> set (as @ bs)" and e: "e = b + total dl as + unat r"
    and r: "bs \<noteq> [] \<longrightarrow> r < dl (hd bs)"
  shows "expiries b (delta_insert t r bs dl) (as @ t # bs) = insert_timeout t e (expiries b dl (as @ bs))"
    and "total (delta_insert t r bs dl) (as @ t # bs) =
           (if bs = [] then total dl as + unat r else total dl (as @ bs))"
proof -
  let ?dl = "delta_insert t r bs dl"
  have as: "?dl x = dl x" if "x \<in> set as" for x
    using that d by (cases bs) (auto simp: delta_insert_def)
  have t: "?dl t = r" using d by (cases bs) (auto simp: delta_insert_def)
  have ea: "expiries b ?dl as = expiries b dl as" "total ?dl as = total dl as"
    using as by (auto intro: expiries_cong total_cong)
  have tl: "?dl x = dl x" if "x \<in> set (tl bs)" for x
    using that d by (cases bs) (auto simp: delta_insert_def)
  have hd: "unat r + unat (?dl (hd bs)) = unat (dl (hd bs))" if "bs \<noteq> []"
    using that r d by (cases bs) (auto simp: delta_insert_def word_less_nat_alt unat_sub word_le_nat_alt)
  have eb: "expiries e ?dl bs = expiries (b + total dl as) dl bs"
  proof (cases bs)
    case Nil
    then show ?thesis by simp
  next
    case (Cons n ns)
    have "e + unat (?dl n) = b + total dl as + unat (dl n)" using hd Cons e by simp
    then show ?thesis using tl Cons by (auto intro: expiries_cong)
  qed
  have le: "f \<le> e" if "(u, f) \<in> set (expiries b dl as)" for u f
    using expiries_bounds [OF that] e by simp
  have lt: "e < snd (hd (expiries (b + total dl as) dl bs))" if "expiries (b + total dl as) dl bs \<noteq> []"
    using that r e by (cases bs) (auto simp: word_less_nat_alt)
  have "insert_timeout t e (expiries b dl (as @ bs)) =
      expiries b dl as @ (t, e) # expiries (b + total dl as) dl bs"
    unfolding expiries_append by (rule insert_timeout_split [OF le lt])
  moreover have "expiries b ?dl (as @ t # bs) =
      expiries b dl as @ (t, e) # expiries (b + total dl as) dl bs"
    unfolding expiries_append using ea t e eb by simp
  ultimately show "expiries b ?dl (as @ t # bs) = insert_timeout t e (expiries b dl (as @ bs))" by simp
  show "total ?dl (as @ t # bs) = (if bs = [] then total dl as + unat r else total dl (as @ bs))"
  proof (cases bs)
    case Nil
    then show ?thesis using ea t by simp
  next
    case (Cons n ns)
    then have "total ?dl ns = total dl ns" using tl by (auto intro: total_cong)
    then show ?thesis using ea t hd Cons by simp
  qed
qed

definition delta_remove :: "'p \<Rightarrow> 'p list \<Rightarrow> ('p \<Rightarrow> u32) \<Rightarrow> 'p \<Rightarrow> u32" where
  "delta_remove t bs dl = (case bs of [] \<Rightarrow> dl | n # _ \<Rightarrow> dl(n := dl n + dl t))"

lemma delta_remove_expiries:
  assumes d: "distinct (as @ t # bs)" and f: "total dl (as @ t # bs) < 2 ^ 32"
  shows "expiries b (delta_remove t bs dl) (as @ bs) = filter (\<lambda>(u, _). u \<noteq> t) (expiries b dl (as @ t # bs))"
    and "total (delta_remove t bs dl) (as @ bs) =
           (if bs = [] then total dl as else total dl (as @ t # bs))"
proof -
  let ?dl = "delta_remove t bs dl"
  have as: "?dl x = dl x" if "x \<in> set as" for x
    using that d by (cases bs) (auto simp: delta_remove_def)
  have ea: "expiries b ?dl as = expiries b dl as" "total ?dl as = total dl as"
    using as by (auto intro: expiries_cong total_cong)
  have tl: "?dl x = dl x" if "x \<in> set (tl bs)" for x
    using that d by (cases bs) (auto simp: delta_remove_def)
  have hd: "unat (?dl (hd bs)) = unat (dl t) + unat (dl (hd bs))" if "bs \<noteq> []"
    using that f by (cases bs) (auto simp: delta_remove_def unat_word_ariths)
  have eb: "expiries c ?dl bs = expiries (c + unat (dl t)) dl bs" for c
  proof (cases bs)
    case Nil
    then show ?thesis by simp
  next
    case (Cons n ns)
    then show ?thesis using tl hd by (auto simp: add.assoc intro: expiries_cong)
  qed
  have keep: "filter (\<lambda>(u, _). u \<noteq> t) (expiries c dl xs) = expiries c dl xs" if "t \<notin> set xs" for c xs
    using that by (induction xs arbitrary: c) auto
  show "expiries b ?dl (as @ bs) = filter (\<lambda>(u, _). u \<noteq> t) (expiries b dl (as @ t # bs))"
    using d by (simp add: expiries_append ea eb keep)
  show "total ?dl (as @ bs) = (if bs = [] then total dl as else total dl (as @ t # bs))"
  proof (cases bs)
    case Nil
    then show ?thesis using ea by simp
  next
    case (Cons n ns)
    then have "total ?dl ns = total dl ns" using tl by (auto intro: total_cong)
    then show ?thesis using ea hd Cons by simp
  qed
qed

lemma delta_tick:
  assumes "distinct (x # xs)" and "dl x \<noteq> 0"
  shows "expiries 0 (dl(x := dl x - 1)) (x # xs) = map (\<lambda>(u, e). (u, e - 1)) (expiries 0 dl (x # xs))"
proof -
  have pos: "unat (dl x - 1) = unat (dl x) - 1" "0 < unat (dl x)"
    using assms(2) by (simp_all add: unat_minus_one unat_gt_0)
  have shift: "map (\<lambda>(u, e). (u, e - 1)) (expiries c dl ys) = expiries (c - 1) dl ys" if "0 < c" for c ys
    using that by (induction ys arbitrary: c) auto
  have "expiries c (dl(x := dl x - 1)) xs = expiries c dl xs" for c
    using assms(1) by (intro expiries_cong) auto
  then show ?thesis using pos shift by simp
qed


section \<open>The delay list and the wait list\<close>

text \<open>
  \<open>D\<close> are the threads with a time-out, in the order of the delay list, and \<open>W\<close> those that
  wait forever. No time-out reaches \<open>osWaitForever\<close>.
\<close>

definition delays ::
    "'p link \<Rightarrow> 'p link \<Rightarrow> ('p \<Rightarrow> u32) \<Rightarrow> 'p option \<Rightarrow> 'p option \<Rightarrow> 'p list \<Rightarrow> 'p list \<Rightarrow> bool" where
  "delays nx pv dl h w D W \<longleftrightarrow>
     dlist nx pv None h D \<and> dlist nx pv None w W \<and> set D \<inter> set W = {}
     \<and> total dl D < 2 ^ 32 - 1 \<and> (\<forall>t\<in>set W. dl t = osWaitForever)"

lemma delays_distinct: "delays nx pv dl h w D W \<Longrightarrow> distinct (D @ W)"
  unfolding delays_def by (auto dest: dlist_distinct)

lemma delays_finite: "delays nx pv dl h w D W \<Longrightarrow> t \<in> set D \<Longrightarrow> dl t \<noteq> osWaitForever"
  unfolding delays_def using total_member [of t D dl]
  by (auto simp: osWaitForever_def)

lemma wait_last_simps [simp]:
  "wait_last nx a None = Some a" "wait_last nx a (Some n) = wait_last nx (Some n) (nx n)"
  by (subst wait_last.simps; simp)+

lemma wait_last_chain: "chain nx p xs \<Longrightarrow> wait_last nx a p = Some (before a xs)"
  by (induction xs arbitrary: a p) auto

lemma before_None: "before None xs = (if xs = [] then None else Some (last xs))"
  by (simp add: before_def)

lemma last_append_notin: "distinct (as @ bs) \<Longrightarrow> as \<noteq> [] \<Longrightarrow> last as \<notin> set bs"
  by (cases as rule: rev_cases) auto

text \<open>A thread linked into a list that starts at a null-terminated head.\<close>

lemma dlist_insert:
  assumes l: "dlist nx pv None h (as @ bs)" and t: "t \<notin> set (as @ bs)"
    and nx: "nx1 = (if as = [] then nx else nx(last as := Some t))(t := first bs)"
    and pv: "pv1 = (case bs of [] \<Rightarrow> pv | n # _ \<Rightarrow> pv(n := Some t))(t := before None as)"
  shows "dlist nx1 pv1 None (if as = [] then Some t else h) (as @ t # bs)"
proof -
  have dist: "distinct (as @ bs)" using l by (rule dlist_distinct)
  obtain q where q: "dpath nx pv None h as q" "dlist nx pv (before None as) q bs"
    using l by (auto simp: dpath_append)
  have qb: "q = first bs" using q(2) by (rule dlist_start)
  have lb: "as \<noteq> [] \<Longrightarrow> last as \<notin> set bs" by (rule last_append_notin [OF dist])
  have lt: "as \<noteq> [] \<Longrightarrow> last as \<noteq> t" using t by auto
  show ?thesis
  proof (rule dlist_link [OF q dist])
    show "\<And>x. x \<in> set as \<Longrightarrow> x \<noteq> last as \<Longrightarrow> nx1 x = nx x" using t by (auto simp: nx)
    show "\<And>x. x \<in> set bs \<Longrightarrow> nx1 x = nx x" using t lb by (auto simp: nx)
    show "as \<noteq> [] \<Longrightarrow> nx1 (last as) = Some t" using lt by (simp add: nx)
    show "nx1 t = q" by (simp add: nx qb)
    show "\<And>x. x \<in> set as \<Longrightarrow> pv1 x = pv x" using t dist by (auto simp: pv split: list.splits)
    show "\<And>x. x \<in> set bs \<Longrightarrow> Some x \<noteq> q \<Longrightarrow> pv1 x = pv x"
      using t qb by (auto simp: pv split: list.splits)
    show "pv1 t = before None as" by (simp add: pv)
    show "\<And>x. q = Some x \<Longrightarrow> pv1 x = Some t" using t qb by (auto simp: pv split: list.splits)
  qed
qed

lemma dlist_delete:
  assumes l: "dlist nx pv None h (as @ t # bs)"
    and nx: "nx1 = (if as = [] then nx else nx(last as := nx t))"
    and pv: "\<And>x. x \<noteq> t \<Longrightarrow> pv1 x = (case bs of [] \<Rightarrow> pv | n # _ \<Rightarrow> pv(n := pv t)) x"
  shows "dlist nx1 pv1 None (if as = [] then nx t else h) (as @ bs)"
proof -
  have dist: "distinct (as @ t # bs)" using l by (rule dlist_distinct)
  have nt: "nx t = first bs" "pv t = before None as"
    using l by (auto simp: dpath_append dest: dlist_start)
  have lb: "as \<noteq> [] \<Longrightarrow> last as \<notin> set (t # bs)" by (rule last_append_notin [OF dist])
  show ?thesis
  proof (rule dlist_unlink [OF l])
    show "\<And>x. x \<in> set as \<Longrightarrow> x \<noteq> last as \<Longrightarrow> nx1 x = nx x" by (auto simp: nx)
    show "\<And>x. x \<in> set bs \<Longrightarrow> nx1 x = nx x" using lb by (auto simp: nx)
    show "as \<noteq> [] \<Longrightarrow> nx1 (last as) = nx t" by (simp add: nx)
    fix x
    show "pv1 x = pv x" if "x \<in> set as"
    proof -
      have "x \<noteq> t" "x \<notin> set bs" using that dist by auto
      then show ?thesis using pv [of x] by (cases bs) simp_all
    qed
    show "pv1 x = pv x" if "x \<in> set bs" "Some x \<noteq> nx t"
    proof -
      have "x \<noteq> t" using that dist by auto
      then show ?thesis using that pv [of x] nt by (cases bs) simp_all
    qed
    show "pv1 x = before None as" if "nx t = Some x"
    proof -
      have "x \<noteq> t" using that dist nt by (cases bs) auto
      then show ?thesis using that pv [of x] nt by (cases bs) simp_all
    qed
  qed
qed

lemma dlist_other:
  assumes "dlist nx pv a p xs" and "\<And>x. x \<in> set xs \<Longrightarrow> nx1 x = nx x \<and> pv1 x = pv x"
  shows "dlist nx1 pv1 a p xs"
proof -
  have "dpath nx pv a p xs None = dpath nx1 pv1 a p xs None"
    by (rule dpath_cong) (use assms(2) in auto)
  then show ?thesis using assms(1) by simp
qed

lemma osRtxThreadDelayInsert_forever:
  assumes d: "delays (delay_next s) (delay_prev s) (delay s) (delay_list s) (wait_list s) D W"
    and t: "t \<notin> set D" "t \<notin> set W"
  shows "\<exists>dl nx pv w. osRtxThreadDelayInsert t osWaitForever s =
             Some (s\<lparr>delay := dl, delay_next := nx, delay_prev := pv, wait_list := w\<rparr>)
           \<and> delays nx pv dl (delay_list s) w D (W @ [t]) \<and> (\<forall>u\<in>set D. dl u = delay s u)"
proof -
  let ?nx0 = "(delay_next s)(t := None)" and ?pv = "(delay_prev s)(t := before None W)"
  let ?nx = "if W = [] then ?nx0 else ?nx0(last W := Some t)"
  let ?dl = "(delay s)(t := osWaitForever)"
  let ?w = "if W = [] then Some t else wait_list s"
  have w: "dlist (delay_next s) (delay_prev s) None (wait_list s) W"
    and D: "dlist (delay_next s) (delay_prev s) None (delay_list s) D"
    and disj: "set D \<inter> set W = {}" using d by (simp_all add: delays_def)
  have "wait_last (delay_next s) None (wait_list s) = Some (before None W)"
    by (rule wait_last_chain [OF dpath_path [OF w]])
  then have eq: "osRtxThreadDelayInsert t osWaitForever s =
      Some (s\<lparr>delay := ?dl, delay_next := ?nx, delay_prev := ?pv, wait_list := ?w\<rparr>)"
    by (simp add: osRtxThreadDelayInsert_def before_None)
  have lt: "W \<noteq> [] \<Longrightarrow> last W \<noteq> t" using t by auto
  have "dlist ?nx ?pv None ?w (W @ t # [])"
  proof (rule dlist_insert [where nx = "delay_next s" and pv = "delay_prev s"])
    show "?nx = (if W = [] then delay_next s else (delay_next s)(last W := Some t))(t := first [])"
      using lt by (simp add: fun_upd_twist)
  qed (use w t in auto)
  moreover have "dlist ?nx ?pv None (delay_list s) D"
    by (rule dlist_other [OF D]) (use t disj last_in_set [of W] in \<open>auto split: if_splits\<close>)
  moreover have "total ?dl D = total (delay s) D" using t by (intro total_cong) auto
  moreover have same: "?dl u = delay s u" if "u \<in> set D" for u using t that by auto
  ultimately have "delays ?nx ?pv ?dl (delay_list s) ?w D (W @ [t])"
    using d t unfolding delays_def by auto
  then show ?thesis using eq same by blast
qed

lemma osRtxThreadDelayInsert_finite:
  assumes d: "delays (delay_next s) (delay_prev s) (delay s) (delay_list s) (wait_list s) D W"
    and t: "t \<notin> set D" "t \<notin> set W" and e: "e \<noteq> osWaitForever"
  shows "\<exists>dl nx pv h D'. osRtxThreadDelayInsert t e s =
             Some (s\<lparr>delay := dl, delay_next := nx, delay_prev := pv, delay_list := h\<rparr>)
           \<and> delays nx pv dl h (wait_list s) D' W
           \<and> expiries 0 dl D' = insert_timeout t (unat e) (expiries 0 (delay s) D)
           \<and> set D' = insert t (set D) \<and> (e \<noteq> 0 \<longrightarrow> (D \<noteq> [] \<longrightarrow> delay s (hd D) \<noteq> 0) \<longrightarrow> dl (hd D') \<noteq> 0)"
proof -
  have w: "dlist (delay_next s) (delay_prev s) None (wait_list s) W"
    and D: "dlist (delay_next s) (delay_prev s) None (delay_list s) D"
    and disj: "set D \<inter> set W = {}" and tot: "total (delay s) D < 2 ^ 32 - 1"
    and wf: "\<forall>t\<in>set W. delay s t = osWaitForever" using d by (simp_all add: delays_def)
  obtain as bs r where sp: "D = as @ bs" "delay_slot (delay s) (delay_next s) None (delay_list s) e =
      Some (before None as, first bs, r)" "unat e = total (delay s) as + unat r" "bs \<noteq> [] \<longrightarrow> r < delay s (hd bs)"
    using delay_slot_chain [OF dpath_path [OF D]] by blast
  let ?dl = "delta_insert t r bs (delay s)"
  let ?nx0 = "(delay_next s)(t := first bs)"
  let ?nx = "if as = [] then ?nx0 else ?nx0(last as := Some t)"
  let ?pv0 = "(delay_prev s)(t := before None as)"
  let ?pv = "case bs of [] \<Rightarrow> ?pv0 | n # _ \<Rightarrow> ?pv0(n := Some t)"
  let ?h = "if as = [] then Some t else delay_list s"
  have dist: "distinct (as @ bs)" "t \<notin> set (as @ bs)" using dlist_distinct [OF D] t sp(1) by auto
  have tn: "bs \<noteq> [] \<Longrightarrow> hd bs \<noteq> t" using dist by (cases bs) auto
  have eq: "osRtxThreadDelayInsert t e s =
      Some (s\<lparr>delay := ?dl, delay_next := ?nx, delay_prev := ?pv, delay_list := ?h\<rparr>)"
    using e sp(2) tn unfolding osRtxThreadDelayInsert_def
    by (cases bs) (simp_all add: before_None delta_insert_def)
  have lt: "as \<noteq> [] \<Longrightarrow> last as \<noteq> t" using dist by auto
  have own: "dlist ?nx ?pv None ?h (as @ t # bs)"
  proof (rule dlist_insert [where nx = "delay_next s" and pv = "delay_prev s"])
    show "?nx = (if as = [] then delay_next s else (delay_next s)(last as := Some t))(t := first bs)"
      using lt fun_upd_twist [of "last as" t "delay_next s"] by (cases "as = []") simp_all
    show "?pv = (case bs of [] \<Rightarrow> delay_prev s | n # _ \<Rightarrow> (delay_prev s)(n := Some t))(t := before None as)"
      using tn by (cases bs) (auto simp: fun_upd_twist)
  qed (use D sp(1) dist in auto)
  have W: "dlist ?nx ?pv None (wait_list s) W"
  proof (rule dlist_other [OF w])
    fix x assume x: "x \<in> set W"
    then have "x \<noteq> t" "x \<notin> set as" "x \<notin> set bs" using t disj sp(1) by auto
    then show "?nx x = delay_next s x \<and> ?pv x = delay_prev s x"
      using last_in_set [of as] by (cases bs) (auto split: if_splits)
  qed
  have ex: "expiries 0 ?dl (as @ t # bs) = insert_timeout t (unat e) (expiries 0 (delay s) D)"
    unfolding sp(1) using delta_insert_expiries(1) [OF dist, of "unat e" 0] sp(3,4) by simp
  have "total ?dl (as @ t # bs) = (if bs = [] then total (delay s) as + unat r else total (delay s) (as @ bs))"
    using delta_insert_expiries(2) [OF dist, of "unat e" 0] sp(3,4) by simp
  moreover have "unat e < 2 ^ 32 - 1"
    using e unat_u32_lt [of e] by (simp add: osWaitForever_def word_unat_eq_iff)
  ultimately have "total ?dl (as @ t # bs) < 2 ^ 32 - 1" using tot sp by (simp split: if_splits)
  moreover have "?dl u = osWaitForever" if "u \<in> set W" for u
    using wf that t disj sp(1) by (cases bs) (auto simp: delta_insert_def)
  ultimately have del: "delays ?nx ?pv ?dl ?h (wait_list s) (as @ t # bs) W"
    using own W t disj sp(1) unfolding delays_def by auto
  have hd: "?dl (hd (as @ t # bs)) \<noteq> 0" if "e \<noteq> 0" "D \<noteq> [] \<longrightarrow> delay s (hd D) \<noteq> 0"
  proof (cases as)
    case Nil
    then have "r = e" using sp(3) by (simp add: word_unat_eq_iff)
    then show ?thesis using Nil that(1) tn by (cases bs) (auto simp: delta_insert_def)
  next
    case (Cons a as')
    then have "a \<notin> set bs" "a \<noteq> t" using dist by auto
    then show ?thesis using that(2) sp(1) Cons by (cases bs) (auto simp: delta_insert_def)
  qed
  have "set (as @ t # bs) = insert t (set D)" using sp(1) by auto
  then show ?thesis using eq del ex hd by blast
qed


lemma osRtxThreadDelayRemove_finite:
  assumes d: "delays (delay_next s) (delay_prev s) (delay s) (delay_list s) (wait_list s) D W"
    and t: "t \<in> set D"
  shows "\<exists>dl nx pv h. osRtxThreadDelayRemove t s =
             s\<lparr>delay := dl, delay_next := nx, delay_prev := pv, delay_list := h\<rparr>
           \<and> delays nx pv dl h (wait_list s) (remove1 t D) W
           \<and> expiries 0 dl (remove1 t D) = filter (\<lambda>(u, _). u \<noteq> t) (expiries 0 (delay s) D)
           \<and> (delay s (hd D) \<noteq> 0 \<longrightarrow> remove1 t D \<noteq> [] \<longrightarrow> dl (hd (remove1 t D)) \<noteq> 0)"
proof -
  have w: "dlist (delay_next s) (delay_prev s) None (wait_list s) W"
    and D: "dlist (delay_next s) (delay_prev s) None (delay_list s) D"
    and disj: "set D \<inter> set W = {}" and tot: "total (delay s) D < 2 ^ 32 - 1"
    and wf: "\<forall>t\<in>set W. delay s t = osWaitForever" using d by (simp_all add: delays_def)
  obtain as bs where sp: "D = as @ t # bs" using t by (meson split_list)
  have dist: "distinct (as @ t # bs)" using dlist_distinct [OF D] sp by simp
  have rem: "remove1 t D = as @ bs" using sp dist by (simp add: remove1_append)
  have nt: "delay_next s t = first bs" "delay_prev s t = before None as"
    using D sp by (auto simp: dpath_append dest: dlist_start)
  let ?dl = "delta_remove t bs (delay s)"
  let ?nx = "if as = [] then delay_next s else (delay_next s)(last as := first bs)"
  let ?pv0 = "case bs of [] \<Rightarrow> delay_prev s | n # _ \<Rightarrow> (delay_prev s)(n := before None as)"
  let ?pv = "if as = [] then ?pv0 else ?pv0(t := None)"
  let ?h = "if as = [] then first bs else delay_list s"
  have tb: "t \<notin> set bs" "t \<notin> set as" using dist by auto
  have eq: "osRtxThreadDelayRemove t s =
      s\<lparr>delay := ?dl, delay_next := ?nx, delay_prev := ?pv, delay_list := ?h\<rparr>"
    using nt delays_finite [OF d t] tb unfolding osRtxThreadDelayRemove_def
    by (cases bs; cases "as = []") (simp_all add: before_None delta_remove_def)
  have own: "dlist ?nx ?pv None ?h (as @ bs)"
  proof -
    have "dlist ?nx ?pv None (if as = [] then delay_next s t else delay_list s) (as @ bs)"
      by (rule dlist_delete [OF D [unfolded sp]]) (use nt in \<open>auto split: list.splits\<close>)
    then show ?thesis unfolding nt(1) .
  qed
  have W: "dlist ?nx ?pv None (wait_list s) W"
  proof (rule dlist_other [OF w])
    fix x assume x: "x \<in> set W"
    then have "x \<noteq> t" "x \<notin> set as" "x \<notin> set bs" using disj sp by auto
    then show "?nx x = delay_next s x \<and> ?pv x = delay_prev s x"
      using last_in_set [of as] by (cases bs) (auto split: if_splits)
  qed
  have f: "total (delay s) (as @ t # bs) < 2 ^ 32" using tot sp by simp
  have ex: "expiries 0 ?dl (as @ bs) = filter (\<lambda>(u, _). u \<noteq> t) (expiries 0 (delay s) D)"
    unfolding sp by (rule delta_remove_expiries(1) [OF dist f])
  have "total ?dl (as @ bs) = (if bs = [] then total (delay s) as else total (delay s) (as @ t # bs))"
    by (rule delta_remove_expiries(2) [OF dist f])
  then have "total ?dl (as @ bs) < 2 ^ 32 - 1" using tot sp by (simp split: if_splits)
  moreover have "?dl u = osWaitForever" if "u \<in> set W" for u
    using wf that disj sp by (cases bs) (auto simp: delta_remove_def)
  ultimately have del: "delays ?nx ?pv ?dl ?h (wait_list s) (as @ bs) W"
    using own W disj sp unfolding delays_def by auto
  have hd: "?dl (hd (as @ bs)) \<noteq> 0" if pos: "delay s (hd D) \<noteq> 0" and ne: "as @ bs \<noteq> []"
  proof (cases as)
    case Nil
    then obtain n ns where bs: "bs = n # ns" using ne by (cases bs) auto
    have "unat (delay s n + delay s t) = unat (delay s n) + unat (delay s t)"
      using f Nil bs by (simp add: unat_word_ariths)
    moreover have "0 < unat (delay s t)" using pos sp Nil by (simp add: unat_gt_0)
    ultimately show ?thesis using Nil bs by (auto simp: delta_remove_def simp flip: unat_gt_0)
  next
    case (Cons a as')
    then have "a \<notin> set bs" using dist by auto
    then show ?thesis using pos sp Cons by (cases bs) (auto simp: delta_remove_def)
  qed
  show ?thesis using eq del ex hd unfolding rem by blast
qed

lemma osRtxThreadDelayRemove_forever:
  assumes d: "delays (delay_next s) (delay_prev s) (delay s) (delay_list s) (wait_list s) D W"
    and t: "t \<in> set W"
  shows "\<exists>nx pv w. osRtxThreadDelayRemove t s = s\<lparr>delay_next := nx, delay_prev := pv, wait_list := w\<rparr>
           \<and> delays nx pv (delay s) (delay_list s) w D (remove1 t W)"
proof -
  have w: "dlist (delay_next s) (delay_prev s) None (wait_list s) W"
    and D: "dlist (delay_next s) (delay_prev s) None (delay_list s) D"
    and disj: "set D \<inter> set W = {}"
    and wf: "\<forall>t\<in>set W. delay s t = osWaitForever" using d by (simp_all add: delays_def)
  obtain as bs where sp: "W = as @ t # bs" using t by (meson split_list)
  have dist: "distinct (as @ t # bs)" using dlist_distinct [OF w] sp by simp
  have rem: "remove1 t W = as @ bs" using sp dist by (simp add: remove1_append)
  have nt: "delay_next s t = first bs" "delay_prev s t = before None as"
    using w sp by (auto simp: dpath_append dest: dlist_start)
  let ?nx = "if as = [] then delay_next s else (delay_next s)(last as := first bs)"
  let ?pv0 = "case bs of [] \<Rightarrow> delay_prev s | n # _ \<Rightarrow> (delay_prev s)(n := before None as)"
  let ?pv = "if as = [] then ?pv0 else ?pv0(t := None)"
  let ?h = "if as = [] then first bs else wait_list s"
  have tb: "t \<notin> set bs" "t \<notin> set as" using dist by auto
  have eq: "osRtxThreadDelayRemove t s = s\<lparr>delay_next := ?nx, delay_prev := ?pv, wait_list := ?h\<rparr>"
    using nt wf t tb unfolding osRtxThreadDelayRemove_def
    by (cases bs; cases "as = []") (simp_all add: before_None)
  have own: "dlist ?nx ?pv None ?h (as @ bs)"
  proof -
    have "dlist ?nx ?pv None (if as = [] then delay_next s t else wait_list s) (as @ bs)"
      by (rule dlist_delete [OF w [unfolded sp]]) (use nt in \<open>auto split: list.splits\<close>)
    then show ?thesis unfolding nt(1) .
  qed
  have "dlist ?nx ?pv None (delay_list s) D"
  proof (rule dlist_other [OF D])
    fix x assume x: "x \<in> set D"
    then have "x \<noteq> t" "x \<notin> set as" "x \<notin> set bs" using disj sp by auto
    then show "?nx x = delay_next s x \<and> ?pv x = delay_prev s x"
      using last_in_set [of as] by (cases bs) (auto split: if_splits)
  qed
  then have "delays ?nx ?pv (delay s) (delay_list s) ?h D (as @ bs)"
    using own d disj sp unfolding delays_def by auto
  then show ?thesis using eq unfolding rem by blast
qed

end
