(* ===== verification/Rtx_Sched.thy ===== *)
theory Rtx_Sched
  imports Rtx_Delays
begin

text \<open>
  The invariant that ties thread states to thread lists, and the effect of every list operation
  of rtx_thread.c on it.
\<close>

section \<open>The scheduler's data structures\<close>

text \<open>The objects that own a thread list.\<close>

definition owners :: "rtx \<Rightarrow> ref set" where
  "owners s = insert ReadyList {p. obj_id s p \<in> {osRtxIdEventFlags, osRtxIdMutex, osRtxIdSemaphore,
     osRtxIdMemoryPool, osRtxIdMessageQueue}}"

abbreviation threads :: "rtx \<Rightarrow> ref set" where
  "threads s \<equiv> {t. obj_id s t = osRtxIdThread}"

text \<open>
  Where a thread is: a ready thread in the ready list, a blocked one in the delay or wait list
  (and possibly in the list of an object), the running one nowhere. The threads of \<open>X\<close> are
  between two places, and their states free. The arguments of \<open>stands\<close> say for one object
  whether it is in \<open>X\<close>, running, a thread, its state and back link, and whether it is in the
  ready list, in any list, and blocked.
\<close>

definition masked :: "u8 \<Rightarrow> u8" where
  "masked st = st AND osRtxThreadStateMask"

definition stands :: "bool \<Rightarrow> bool \<Rightarrow> bool \<Rightarrow> u8 \<Rightarrow> 'p option \<Rightarrow> bool \<Rightarrow> bool \<Rightarrow> bool \<Rightarrow> bool" where
  "stands x r th st pv rd lst b \<longleftrightarrow>
     \<not> th \<and> \<not> x \<and> \<not> r \<and> \<not> rd \<and> \<not> lst \<and> \<not> b
   \<or> th \<and> x \<and> \<not> r \<and> \<not> rd \<and> \<not> b \<and> (lst \<or> pv = None)
   \<or> th \<and> \<not> x \<and> r \<and> \<not> rd \<and> \<not> lst \<and> \<not> b \<and> pv = None \<and> st = osRtxThreadRunning
   \<or> th \<and> \<not> x \<and> \<not> r \<and> rd \<and> lst \<and> \<not> b \<and> st = osRtxThreadReady
   \<or> th \<and> \<not> x \<and> \<not> r \<and> \<not> rd \<and> b \<and> (lst \<or> pv = None) \<and> masked st = osRtxThreadBlocked
       \<and> (st = osRtxThreadWaitingThreadFlags \<longrightarrow> \<not> lst)
   \<or> th \<and> \<not> x \<and> \<not> r \<and> \<not> rd \<and> \<not> lst \<and> \<not> b \<and> (st = osRtxThreadTerminated \<or> pv = None)
       \<and> masked st \<noteq> osRtxThreadReady \<and> masked st \<noteq> osRtxThreadRunning \<and> masked st \<noteq> osRtxThreadBlocked"

definition standing ::
    "'p set \<Rightarrow> 'p option \<Rightarrow> 'p set \<Rightarrow> ('p \<Rightarrow> u8) \<Rightarrow> 'p link \<Rightarrow> 'p \<Rightarrow> ('p \<Rightarrow> 'p list) \<Rightarrow> 'p set \<Rightarrow> bool" where
  "standing X R T st pv rl L B \<longleftrightarrow>
     (\<forall>t. stands (t \<in> X) (R = Some t) (t \<in> T) (st t) (pv t) (t \<in> set (L rl)) (listed L t) (t \<in> B))"

definition sched ::
    "ref set \<Rightarrow> ref option \<Rightarrow> rtx \<Rightarrow> (ref \<Rightarrow> ref list) \<Rightarrow> ref list \<Rightarrow> ref list \<Rightarrow> bool" where
  "sched X R s L D W \<longleftrightarrow>
     lists (thread_next s) (thread_prev s) (owners s) L
     \<and> (\<forall>p. by_priority (priority s) (L p))
     \<and> delays (delay_next s) (delay_prev s) (delay s) (delay_list s) (wait_list s) D W
     \<and> (D \<noteq> [] \<longrightarrow> delay s (hd D) \<noteq> 0)
     \<and> obj_id s ReadyList = osRtxIdInvalid
     \<and> standing X R (threads s) (thread_state s) (thread_prev s) ReadyList L (set D \<union> set W)"

lemma state_values:
  "masked osRtxThreadReady \<noteq> osRtxThreadBlocked"
  "masked osRtxThreadRunning \<noteq> osRtxThreadBlocked"
  "osRtxThreadReady \<noteq> osRtxThreadRunning" "osRtxThreadReady \<noteq> osRtxThreadTerminated"
  "osRtxThreadRunning \<noteq> osRtxThreadTerminated" "osRtxThreadRunning \<noteq> osRtxThreadReady"
  "masked osRtxThreadTerminated \<noteq> osRtxThreadBlocked"
  "masked osRtxThreadReady = osRtxThreadReady"
  "masked osRtxThreadRunning = osRtxThreadRunning"
  "osRtxThreadReady \<noteq> osRtxThreadWaitingThreadFlags" "osRtxThreadRunning \<noteq> osRtxThreadWaitingThreadFlags"
  "osRtxThreadBlocked \<noteq> osRtxThreadRunning" "osRtxThreadBlocked \<noteq> osRtxThreadReady"
  "masked osRtxThreadWaitingThreadFlags = osRtxThreadBlocked"
  by (simp_all add: masked_def rtx_states)

lemma owners_ids: "p \<in> owners s \<Longrightarrow> p \<noteq> ReadyList \<Longrightarrow> obj_id s p \<noteq> osRtxIdThread"
  by (auto simp: owners_def rtx_ids)

lemma sched_thread_owner:
  assumes "sched X R s L D W" and "obj_id s t = osRtxIdThread"
  shows "t \<notin> owners s"
proof -
  have "obj_id s ReadyList = osRtxIdInvalid" using assms(1) by (simp add: sched_def)
  then have "t \<noteq> ReadyList" using assms(2) by (auto simp: rtx_ids)
  then show ?thesis using owners_ids assms(2) by blast
qed

lemma ready_owner [simp]: "ReadyList \<in> owners s" by (simp add: owners_def)

lemma listed_member: "t \<in> set (L p) \<Longrightarrow> listed L t"
  unfolding listed_def by blast

lemma standingD:
  "standing X R T st pv rl L B \<Longrightarrow>
   stands (t \<in> X) (R = Some t) (t \<in> T) (st t) (pv t) (t \<in> set (L rl)) (listed L t) (t \<in> B)"
  by (simp add: standing_def)

lemma listed_remove:
  assumes "\<forall>q. t \<in> set (L q) \<longrightarrow> q = p" and "distinct (L p)"
  shows "listed (L(p := remove1 t (L p))) u \<longleftrightarrow> listed L u \<and> u \<noteq> t"
    and "u \<in> set (remove1 t (L p)) \<longleftrightarrow> u \<in> set (L p) \<and> u \<noteq> t"
proof -
  show in_L: "u \<in> set (remove1 t (L p)) \<longleftrightarrow> u \<in> set (L p) \<and> u \<noteq> t" for u
    using assms(2) by auto
  show "listed (L(p := remove1 t (L p))) u \<longleftrightarrow> listed L u \<and> u \<noteq> t"
  proof
    assume "listed (L(p := remove1 t (L p))) u"
    then obtain q where q: "u \<in> set ((L(p := remove1 t (L p))) q)" unfolding listed_def by blast
    then show "listed L u \<and> u \<noteq> t"
      using in_L assms(1) listed_member by (cases "q = p") fastforce+
  next
    assume l: "listed L u \<and> u \<noteq> t"
    then obtain q where "u \<in> set (L q)" unfolding listed_def by blast
    then have "u \<in> set ((L(p := remove1 t (L p))) q)" using l in_L by (cases "q = p") auto
    then show "listed (L(p := remove1 t (L p))) u" by (rule listed_member)
  qed
qed

lemma stands_prev:
  assumes "stands x r th st pv rd lst b" and "\<not> lst \<Longrightarrow> pv' = pv"
  shows "stands x r th st pv' rd lst b"
proof (cases lst)
  case True
  then show ?thesis using assms(1) unfolding stands_def by simp
next
  case False
  then show ?thesis using assms by simp
qed

text \<open>Steps of a thread from one place to another.\<close>

lemma standing_stop:
  assumes s: "standing X (Some c) T st pv rl L B"
  shows "standing (insert c X) None T st pv rl L B"
  unfolding standing_def
proof
  fix u
  show "stands (u \<in> insert c X) (None = Some u) (u \<in> T) (st u) (pv u) (u \<in> set (L rl)) (listed L u) (u \<in> B)"
    using standingD [OF s, of u]
    by (cases "u = c") (auto simp: stands_def state_values)
qed

lemma standing_leave_ready:
  assumes s: "standing X R T st pv rl L B" and t: "t \<in> set (L rl)" and pv: "pv' t = None"
    "\<And>u. \<not> listed L u \<Longrightarrow> pv' u = pv u" and l: "\<forall>q. t \<in> set (L q) \<longrightarrow> q = rl" and d: "distinct (L rl)"
  shows "standing (insert t X) R T st pv' rl (L(rl := remove1 t (L rl))) B"
  unfolding standing_def fun_upd_same listed_remove [where L = L, OF l d]
proof
  fix u
  show "stands (u \<in> insert t X) (R = Some u) (u \<in> T) (st u) (pv' u)
     (u \<in> set (L rl) \<and> u \<noteq> t) (listed L u \<and> u \<noteq> t) (u \<in> B)"
  proof (cases "u = t")
    case True
    then show ?thesis using standingD [OF s, of t] t pv(1) by (auto simp: stands_def)
  next
    case False
    then show ?thesis using stands_prev [OF standingD [OF s, of u] pv(2)] by simp
  qed
qed

lemma standing_leave_object:
  assumes s: "standing X R T st pv rl L B" and t: "t \<in> set (L p)" "p \<noteq> rl" and pv: "pv' t = None"
    "\<And>u. \<not> listed L u \<Longrightarrow> pv' u = pv u" and l: "\<forall>q. t \<in> set (L q) \<longrightarrow> q = p" and d: "distinct (L p)"
  shows "standing X R T st pv' rl (L(p := remove1 t (L p))) B"
  unfolding standing_def listed_remove [where L = L, OF l d]
proof
  fix u
  have "t \<notin> set (L rl)" using l t(2) by blast
  moreover have "(L(p := remove1 t (L p))) rl = L rl" using t(2) by simp
  moreover have "listed L t" using t(1) by (rule listed_member)
  ultimately show "stands (u \<in> X) (R = Some u) (u \<in> T) (st u) (pv' u)
     (u \<in> set ((L(p := remove1 t (L p))) rl)) (listed L u \<and> u \<noteq> t) (u \<in> B)"
    using standingD [OF s, of t] stands_prev [OF standingD [OF s, of u] pv(2)] pv(1)
    by (cases "u = t") (auto simp: stands_def)
qed

lemma listed_place: "set xs = insert t (set (L p)) \<Longrightarrow> listed (L(p := xs)) u \<longleftrightarrow> listed L u \<or> u = t"
  unfolding listed_upd unfolding listed_def by auto

lemma standing_ready:
  assumes s: "standing X R T st pv rl L B" and t: "t \<in> X" and xs: "set xs = insert t (set (L rl))"
    and pv: "\<And>u. u \<noteq> t \<Longrightarrow> \<not> listed L u \<Longrightarrow> pv' u = pv u"
  shows "standing (X - {t}) R T (st(t := osRtxThreadReady)) pv' rl (L(rl := xs)) B"
  unfolding standing_def fun_upd_same listed_place [where L = L, OF xs] xs
proof
  fix u
  show "stands (u \<in> X - {t}) (R = Some u) (u \<in> T) ((st(t := osRtxThreadReady)) u) (pv' u)
     (u \<in> insert t (set (L rl))) (listed L u \<or> u = t) (u \<in> B)"
  proof (cases "u = t")
    case True
    then show ?thesis using standingD [OF s, of t] t by (auto simp: stands_def)
  next
    case False
    then show ?thesis using stands_prev [OF standingD [OF s, of u] pv] by simp
  qed
qed

lemma standing_run:
  assumes s: "standing X None T st pv rl L B" and t: "t \<in> X" "\<not> listed L t"
  shows "standing (X - {t}) (Some t) T (st(t := osRtxThreadRunning)) pv rl L B"
  unfolding standing_def
proof
  fix u
  show "stands (u \<in> X - {t}) (Some t = Some u) (u \<in> T) ((st(t := osRtxThreadRunning)) u) (pv u)
     (u \<in> set (L rl)) (listed L u) (u \<in> B)"
    using standingD [OF s, of u] t
    by (cases "u = t") (auto simp: stands_def state_values)
qed

lemma standing_state:
  assumes s: "standing X R T st pv rl L B" and t: "t \<in> X"
  shows "standing X R T (st(t := v)) pv rl L B"
  unfolding standing_def
proof
  fix u
  show "stands (u \<in> X) (R = Some u) (u \<in> T) ((st(t := v)) u) (pv u) (u \<in> set (L rl)) (listed L u) (u \<in> B)"
    using standingD [OF s, of u] t
    by (cases "u = t") (auto simp: stands_def state_values)
qed

lemma standing_block:
  assumes s: "standing X R T st pv rl L B" and t: "t \<in> X" "masked (st t) = osRtxThreadBlocked"
    "st t = osRtxThreadWaitingThreadFlags \<longrightarrow> \<not> listed L t"
  shows "standing (X - {t}) R T st pv rl L (insert t B)"
  unfolding standing_def
proof
  fix u
  have "st t \<noteq> osRtxThreadReady" "st t \<noteq> osRtxThreadRunning" using t(2) state_values by auto
  then show "stands (u \<in> X - {t}) (R = Some u) (u \<in> T) (st u) (pv u) (u \<in> set (L rl)) (listed L u) (u \<in> insert t B)"
    using standingD [OF s, of u] t
    by (cases "u = t") (auto simp: stands_def state_values)
qed

lemma standing_unblock:
  assumes s: "standing X R T st pv rl L B" and t: "t \<in> B"
  shows "standing (insert t X) R T st pv rl L (B - {t})"
  unfolding standing_def
proof
  fix u
  show "stands (u \<in> insert t X) (R = Some u) (u \<in> T) (st u) (pv u) (u \<in> set (L rl)) (listed L u) (u \<in> B - {t})"
    using standingD [OF s, of u] t
    by (cases "u = t") (auto simp: stands_def state_values)
qed

lemma standing_wait:
  assumes s: "standing X R T st pv rl L B" and t: "t \<in> B" "p \<noteq> rl" "st t \<noteq> osRtxThreadWaitingThreadFlags" and xs: "set xs = insert t (set (L p))"
    and pv: "\<And>u. u \<noteq> t \<Longrightarrow> \<not> listed L u \<Longrightarrow> pv' u = pv u"
  shows "standing X R T st pv' rl (L(p := xs)) B"
  unfolding standing_def listed_place [where L = L, OF xs]
proof
  fix u
  have "(L(p := xs)) rl = L rl" using t(2) by simp
  then show "stands (u \<in> X) (R = Some u) (u \<in> T) (st u) (pv' u) (u \<in> set ((L(p := xs)) rl))
     (listed L u \<or> u = t) (u \<in> B)"
  proof (cases "u = t")
    case True
    then show ?thesis using standingD [OF s, of t] t by (auto simp: stands_def)
  next
    case False
    then show ?thesis using stands_prev [OF standingD [OF s, of u] pv] \<open>(L(p := xs)) rl = L rl\<close> by simp
  qed
qed

lemma owners_frame [simp]:
  "owners (s\<lparr>thread_next := v1\<rparr>) = owners s" "owners (s\<lparr>thread_prev := v1\<rparr>) = owners s"
  "owners (s\<lparr>thread_state := v2\<rparr>) = owners s" "owners (s\<lparr>delay_next := v1\<rparr>) = owners s"
  "owners (s\<lparr>delay_prev := v1\<rparr>) = owners s" "owners (s\<lparr>delay := v3\<rparr>) = owners s"
  "owners (s\<lparr>delay_list := v4\<rparr>) = owners s" "owners (s\<lparr>wait_list := v4\<rparr>) = owners s"
  "owners (s\<lparr>run_next := v4\<rparr>) = owners s" "owners (s\<lparr>error_log := v5\<rparr>) = owners s"
  "owners (s\<lparr>priority := v6\<rparr>) = owners s" "owners (s\<lparr>regs := v7\<rparr>) = owners s"
  by (simp_all add: owners_def)

lemma sched_frame [simp]:
  "sched X R (s\<lparr>regs := v1\<rparr>) L D W = sched X R s L D W"
  "sched X R (s\<lparr>run_next := v2\<rparr>) L D W = sched X R s L D W"
  "sched X R (s\<lparr>run_curr := v2\<rparr>) L D W = sched X R s L D W"
  "sched X R (s\<lparr>error_log := v3\<rparr>) L D W = sched X R s L D W"
  "sched X R (s\<lparr>thread_flags := v4\<rparr>) L D W = sched X R s L D W"
  "sched X R (s\<lparr>wait_flags := v4\<rparr>) L D W = sched X R s L D W"
  "sched X R (s\<lparr>flags_options := v5\<rparr>) L D W = sched X R s L D W"
  "sched X R (s\<lparr>event_flags := v4\<rparr>) L D W = sched X R s L D W"
  "sched X R (s\<lparr>tokens := v6\<rparr>) L D W = sched X R s L D W"
  "sched X R (s\<lparr>kernel_tick := v7\<rparr>) L D W = sched X R s L D W"
  "sched X R (s\<lparr>robin_thread := v2\<rparr>) L D W = sched X R s L D W"
  "sched X R (s\<lparr>robin_tick := v7\<rparr>) L D W = sched X R s L D W"
  "sched X R (s\<lparr>priority_base := v8\<rparr>) L D W = sched X R s L D W"
  "sched X R (s\<lparr>pendSV_set := v9\<rparr>) L D W = sched X R s L D W"
  "sched X R (s\<lparr>kernel_pendSV := v9\<rparr>) L D W = sched X R s L D W"
  "sched X R (s\<lparr>kernel_state := v10\<rparr>) L D W = sched X R s L D W"
  "sched X R (s\<lparr>isr_cnt := v11\<rparr>) L D W = sched X R s L D W"
  "sched X R (s\<lparr>isr_in := v11\<rparr>) L D W = sched X R s L D W"
  "sched X R (s\<lparr>isr_out := v11\<rparr>) L D W = sched X R s L D W"
  "sched X R (s\<lparr>isr_data := v12\<rparr>) L D W = sched X R s L D W"
  by (simp_all add: sched_def owners_def)

lemma sched_lists: "sched X R s L D W \<Longrightarrow> lists (thread_next s) (thread_prev s) (owners s) L"
  by (simp add: sched_def)

lemma sched_standing:
  "sched X R s L D W \<Longrightarrow>
   standing X R (threads s) (thread_state s) (thread_prev s) ReadyList L (set D \<union> set W)"
  by (simp add: sched_def)

lemma sched_delays:
  "sched X R s L D W \<Longrightarrow> delays (delay_next s) (delay_prev s) (delay s) (delay_list s) (wait_list s) D W"
  by (simp add: sched_def)

lemma sched_stands:
  "sched X R s L D W \<Longrightarrow>
   stands (t \<in> X) (R = Some t) (obj_id s t = osRtxIdThread) (thread_state s t) (thread_prev s t)
     (t \<in> set (L ReadyList)) (listed L t) (t \<in> set D \<union> set W)"
  using standingD [OF sched_standing] by fastforce

lemma sched_head: "sched X R s L D W \<Longrightarrow> p \<in> owners s \<Longrightarrow> thread_next s p = first (L p)"
  by (rule lists_head [OF sched_lists])

lemma sched_flux:
  assumes "sched X R s L D W" and "t \<in> X"
  shows "obj_id s t = osRtxIdThread" "t \<notin> owners s" "t \<notin> set D" "t \<notin> set W" "R \<noteq> Some t"
    "t \<notin> set (L ReadyList)" "\<not> listed L t \<Longrightarrow> thread_prev s t = None"
  using sched_stands [OF assms(1), of t] assms sched_thread_owner [OF assms(1), of t]
  unfolding stands_def by auto

lemma sched_listed:
  assumes "sched X R s L D W" and "t \<in> set (L p)"
  shows "obj_id s t = osRtxIdThread" "p \<in> owners s" "\<forall>q. t \<in> set (L q) \<longrightarrow> q = p" "distinct (L p)"
proof -
  show "obj_id s t = osRtxIdThread"
    using sched_stands [OF assms(1), of t] listed_member [of t L p] assms(2) unfolding stands_def by auto
  show "p \<in> owners s" using lists_owner [OF sched_lists [OF assms(1)] assms(2)] by simp
  show "\<forall>q. t \<in> set (L q) \<longrightarrow> q = p"
    using lists_unique [OF sched_lists [OF assms(1)] assms(2)] by blast
  show "distinct (L p)" by (rule lists_distinct [OF sched_lists [OF assms(1)]])
qed

lemma sched_sorted: "sched X R s L D W \<Longrightarrow> by_priority (priority s) (L p)"
  by (simp add: sched_def)

section \<open>The operations on threads in flux\<close>

lemma sched_stop: "sched X (Some c) s L D W \<Longrightarrow> sched (insert c X) None s L D W"
  unfolding sched_def using standing_stop by fastforce

lemma remove_ready:
  assumes s: "sched X R s L D W" and t: "t \<in> set (L ReadyList)"
  shows "\<exists>nx pv. osRtxThreadListRemove t s = s\<lparr>thread_next := nx, thread_prev := pv\<rparr>
    \<and> sched (insert t X) R (s\<lparr>thread_next := nx, thread_prev := pv\<rparr>)
        (L(ReadyList := remove1 t (L ReadyList))) D W
    \<and> \<not> listed (L(ReadyList := remove1 t (L ReadyList))) t"
proof -
  note l = sched_lists [OF s]
  obtain nx pv where e: "osRtxThreadListRemove t s = s\<lparr>thread_next := nx, thread_prev := pv\<rparr>"
    "lists nx pv (owners s) (L(ReadyList := remove1 t (L ReadyList)))" "pv t = None"
    "\<forall>u. \<not> listed L u \<longrightarrow> pv u = thread_prev s u"
    using osRtxThreadListRemove_lists [OF l t] by blast
  have "standing (insert t X) R (threads s) (thread_state s) pv ReadyList
      (L(ReadyList := remove1 t (L ReadyList))) (set D \<union> set W)"
    by (rule standing_leave_ready [where L = L and pv' = pv, OF sched_standing [OF s] t e(3)])
      (use e(4) sched_listed [OF s t] in auto)
  then have "sched (insert t X) R (s\<lparr>thread_next := nx, thread_prev := pv\<rparr>)
        (L(ReadyList := remove1 t (L ReadyList))) D W"
    using s e(2) by_priority_remove1 [OF sched_sorted [OF s]] by (simp add: sched_def)
  then show ?thesis using e(1) lists_remove1_absent [OF l t] by blast
qed

lemma remove_waiting:
  assumes s: "sched X R s L D W" and t: "t \<in> set (L p)" "p \<noteq> ReadyList"
  shows "\<exists>nx pv. osRtxThreadListRemove t s = s\<lparr>thread_next := nx, thread_prev := pv\<rparr>
    \<and> sched X R (s\<lparr>thread_next := nx, thread_prev := pv\<rparr>) (L(p := remove1 t (L p))) D W
    \<and> \<not> listed (L(p := remove1 t (L p))) t"
proof -
  note l = sched_lists [OF s]
  obtain nx pv where e: "osRtxThreadListRemove t s = s\<lparr>thread_next := nx, thread_prev := pv\<rparr>"
    "lists nx pv (owners s) (L(p := remove1 t (L p)))" "pv t = None"
    "\<forall>u. \<not> listed L u \<longrightarrow> pv u = thread_prev s u"
    using osRtxThreadListRemove_lists [OF l t(1)] by blast
  have "standing X R (threads s) (thread_state s) pv ReadyList (L(p := remove1 t (L p))) (set D \<union> set W)"
    by (rule standing_leave_object [where L = L and pv' = pv, OF sched_standing [OF s] t e(3)])
      (use e(4) sched_listed [OF s t(1)] in auto)
  then have "sched X R (s\<lparr>thread_next := nx, thread_prev := pv\<rparr>) (L(p := remove1 t (L p))) D W"
    using s e(2) by_priority_remove1 [OF sched_sorted [OF s]] by (simp add: sched_def)
  then show ?thesis using e(1) lists_remove1_absent [OF l t(1)] by blast
qed

text \<open>A thread that is not ready leaves the list it is in, if any.\<close>

lemma remove_any:
  assumes s: "sched X R s L D W" and t: "t \<in> X \<union> set D \<union> set W"
  shows "\<exists>nx pv L'. osRtxThreadListRemove t s = s\<lparr>thread_next := nx, thread_prev := pv\<rparr>
    \<and> sched X R (s\<lparr>thread_next := nx, thread_prev := pv\<rparr>) L' D W \<and> \<not> listed L' t
    \<and> L' ReadyList = L ReadyList \<and> (\<forall>p. set (L' p) \<subseteq> set (L p))"
proof (cases "listed L t")
  case True
  then obtain p where p: "t \<in> set (L p)" unfolding listed_def by blast
  have "t \<notin> set (L ReadyList)"
    using sched_stands [OF s, of t] t state_values unfolding stands_def by auto
  then have r: "p \<noteq> ReadyList" using p by auto
  have "set ((L(p := remove1 t (L p))) q) \<subseteq> set (L q)" for q
    using set_remove1_subset [of t "L p"] by simp
  moreover have "(L(p := remove1 t (L p))) ReadyList = L ReadyList" using r by simp
  ultimately show ?thesis using remove_waiting [OF s p r] by blast
next
  case False
  have "thread_prev s t = None"
    using sched_stands [OF s, of t] t False state_values unfolding stands_def by auto
  then have "osRtxThreadListRemove t s = s" by (rule osRtxThreadListRemove_absent)
  then show ?thesis using s False
    by (intro exI [of _ "thread_next s"] exI [of _ "thread_prev s"] exI [of _ L]) simp
qed

lemma get_ready:
  assumes s: "sched X R s L D W" and xs: "L ReadyList = t # bs"
  shows "\<exists>nx pv. osRtxThreadListGet ReadyList s = Some (t, s\<lparr>thread_next := nx, thread_prev := pv\<rparr>)
    \<and> sched (insert t X) R (s\<lparr>thread_next := nx, thread_prev := pv\<rparr>) (L(ReadyList := bs)) D W
    \<and> \<not> listed (L(ReadyList := bs)) t"
proof -
  have t: "t \<in> set (L ReadyList)" using xs by simp
  have rm: "remove1 t (L ReadyList) = bs" using xs by simp
  obtain nx pv where e: "osRtxThreadListRemove t s = s\<lparr>thread_next := nx, thread_prev := pv\<rparr>"
     "sched (insert t X) R (s\<lparr>thread_next := nx, thread_prev := pv\<rparr>) (L(ReadyList := bs)) D W"
     "\<not> listed (L(ReadyList := bs)) t"
    using remove_ready [OF s t] unfolding rm by blast
  have "osRtxThreadListGet ReadyList s = Some (t, osRtxThreadListRemove t s)"
    by (rule osRtxThreadListGet_remove [OF sched_lists [OF s] ready_owner xs])
  then have "osRtxThreadListGet ReadyList s = Some (t, s\<lparr>thread_next := nx, thread_prev := pv\<rparr>)"
    using e(1) by simp
  then show ?thesis using e(2,3) by blast
qed

lemma get_waiting:
  assumes s: "sched X R s L D W" and p: "p \<in> owners s" "p \<noteq> ReadyList" and xs: "L p = t # bs"
  shows "\<exists>nx pv. osRtxThreadListGet p s = Some (t, s\<lparr>thread_next := nx, thread_prev := pv\<rparr>)
    \<and> sched X R (s\<lparr>thread_next := nx, thread_prev := pv\<rparr>) (L(p := bs)) D W \<and> \<not> listed (L(p := bs)) t"
proof -
  have t: "t \<in> set (L p)" using xs by simp
  have rm: "remove1 t (L p) = bs" using xs by simp
  obtain nx pv where e: "osRtxThreadListRemove t s = s\<lparr>thread_next := nx, thread_prev := pv\<rparr>"
     "sched X R (s\<lparr>thread_next := nx, thread_prev := pv\<rparr>) (L(p := bs)) D W"
     "\<not> listed (L(p := bs)) t"
    using remove_waiting [OF s t p(2)] unfolding rm by blast
  have "osRtxThreadListGet p s = Some (t, osRtxThreadListRemove t s)"
    by (rule osRtxThreadListGet_remove [OF sched_lists [OF s] p(1) xs])
  then have "osRtxThreadListGet p s = Some (t, s\<lparr>thread_next := nx, thread_prev := pv\<rparr>)"
    using e(1) by simp
  then show ?thesis using e(2,3) by blast
qed

lemma put_ready_at:
  assumes s: "sched X R s L D W" and t: "t \<in> X" "\<not> listed L t"
    and walk: "\<exists>nx pv. op s1 = Some (s1\<lparr>thread_next := nx, thread_prev := pv\<rparr>)
           \<and> lists nx pv (owners s) (L(ReadyList := xs))
           \<and> (\<forall>u. u \<noteq> t \<longrightarrow> \<not> listed L u \<longrightarrow> pv u = thread_prev s u)"
    and s1: "s1 = s\<lparr>thread_state := (thread_state s)(t := osRtxThreadReady)\<rparr>"
    and xs: "set xs = insert t (set (L ReadyList))" "by_priority (priority s) xs"
  shows "\<exists>nx pv. op s1 = Some (s\<lparr>thread_state := (thread_state s)(t := osRtxThreadReady),
                                thread_next := nx, thread_prev := pv\<rparr>)
    \<and> sched (X - {t}) R (s\<lparr>thread_state := (thread_state s)(t := osRtxThreadReady),
                           thread_next := nx, thread_prev := pv\<rparr>) (L(ReadyList := xs)) D W"
proof -
  obtain nx pv where e: "op s1 = Some (s1\<lparr>thread_next := nx, thread_prev := pv\<rparr>)"
    "lists nx pv (owners s) (L(ReadyList := xs))"
    "\<forall>u. u \<noteq> t \<longrightarrow> \<not> listed L u \<longrightarrow> pv u = thread_prev s u" using walk by blast
  have "standing (X - {t}) R (threads s) ((thread_state s)(t := osRtxThreadReady)) pv ReadyList
      (L(ReadyList := xs)) (set D \<union> set W)"
    by (rule standing_ready [OF sched_standing [OF s] t(1) xs(1)]) (use e(3) in auto)
  then have "sched (X - {t}) R (s\<lparr>thread_state := (thread_state s)(t := osRtxThreadReady),
                           thread_next := nx, thread_prev := pv\<rparr>) (L(ReadyList := xs)) D W"
    using s e(2) xs(2) by (simp add: sched_def)
  then show ?thesis using e(1) s1 by auto
qed

abbreviation behind :: "rtx \<Rightarrow> ref \<Rightarrow> ref list \<Rightarrow> ref list" where
  "behind s t \<equiv> place (\<lambda>n. priority s t \<le> priority s n) t"

abbreviation in_front :: "rtx \<Rightarrow> ref \<Rightarrow> ref list \<Rightarrow> ref list" where
  "in_front s t \<equiv> place (\<lambda>n. priority s t < priority s n) t"

lemma ready_put:
  assumes s: "sched X R s L D W" and t: "t \<in> X" "\<not> listed L t"
  shows "\<exists>nx pv. osRtxThreadReadyPut t s =
      Some (s\<lparr>thread_state := (thread_state s)(t := osRtxThreadReady), thread_next := nx, thread_prev := pv\<rparr>)
    \<and> sched (X - {t}) R (s\<lparr>thread_state := (thread_state s)(t := osRtxThreadReady),
                           thread_next := nx, thread_prev := pv\<rparr>)
        (L(ReadyList := behind s t (L ReadyList))) D W"
  unfolding osRtxThreadReadyPut_def
proof (rule put_ready_at [OF s t _ refl])
  let ?s = "s\<lparr>thread_state := (thread_state s)(t := osRtxThreadReady)\<rparr>"
  show "\<exists>nx pv. osRtxThreadListPut ReadyList t ?s = Some (?s\<lparr>thread_next := nx, thread_prev := pv\<rparr>)
       \<and> lists nx pv (owners s) (L(ReadyList := behind s t (L ReadyList)))
       \<and> (\<forall>u. u \<noteq> t \<longrightarrow> \<not> listed L u \<longrightarrow> pv u = thread_prev s u)"
    using osRtxThreadListPut_lists [of ?s "owners s" L ReadyList t] sched_lists [OF s] t
      sched_flux [OF s t(1)] by simp
qed (simp_all add: by_priority_place_behind sched_sorted [OF s])

lemma block_running:
  assumes s: "sched X R s L D W" and t: "t \<in> X" "\<not> listed L t"
  shows "\<exists>nx pv. osRtxThreadBlock t s =
      Some (s\<lparr>thread_state := (thread_state s)(t := osRtxThreadReady), thread_next := nx, thread_prev := pv\<rparr>)
    \<and> sched (X - {t}) R (s\<lparr>thread_state := (thread_state s)(t := osRtxThreadReady),
                           thread_next := nx, thread_prev := pv\<rparr>)
        (L(ReadyList := in_front s t (L ReadyList))) D W"
  unfolding osRtxThreadBlock_def Let_def
proof (rule put_ready_at [OF s t _ refl])
  let ?s = "s\<lparr>thread_state := (thread_state s)(t := osRtxThreadReady)\<rparr>"
  have l: "lists (thread_next ?s) (thread_prev ?s) (owners s) L" using sched_lists [OF s] by simp
  show "\<exists>nx pv. (do {
        (prev, next) \<leftarrow> find_slot (\<lambda>n. priority ?s t < priority ?s n) (thread_next ?s) ReadyList
          (thread_next ?s ReadyList);
        Some (link_thread t prev next ?s) }) = Some (?s\<lparr>thread_next := nx, thread_prev := pv\<rparr>)
       \<and> lists nx pv (owners s) (L(ReadyList := in_front s t (L ReadyList)))
       \<and> (\<forall>u. u \<noteq> t \<longrightarrow> \<not> listed L u \<longrightarrow> pv u = thread_prev s u)"
    using walk_and_link [OF l ready_owner t(2) sched_flux(2) [OF s t(1)], of "\<lambda>n. priority s t < priority s n"]
    by simp
qed (simp_all add: by_priority_place_front sched_sorted [OF s])

lemma list_put:
  assumes s: "sched X R s L D W" and p: "p \<in> owners s" "p \<noteq> ReadyList"
    and t: "t \<in> set D \<union> set W" "\<not> listed L t" "thread_state s t \<noteq> osRtxThreadWaitingThreadFlags"
  shows "\<exists>nx pv. osRtxThreadListPut p t s = Some (s\<lparr>thread_next := nx, thread_prev := pv\<rparr>)
    \<and> sched X R (s\<lparr>thread_next := nx, thread_prev := pv\<rparr>) (L(p := behind s t (L p))) D W"
proof -
  have "obj_id s t = osRtxIdThread" using sched_stands [OF s, of t] t unfolding stands_def by auto
  then have to: "t \<notin> owners s" by (rule sched_thread_owner [OF s])
  obtain nx pv where e: "osRtxThreadListPut p t s = Some (s\<lparr>thread_next := nx, thread_prev := pv\<rparr>)"
    "lists nx pv (owners s) (L(p := behind s t (L p)))"
    "\<forall>u. u \<noteq> t \<longrightarrow> \<not> listed L u \<longrightarrow> pv u = thread_prev s u"
    using osRtxThreadListPut_lists [OF sched_lists [OF s] p(1) t(2) to] by blast
  have "standing X R (threads s) (thread_state s) pv ReadyList (L(p := behind s t (L p))) (set D \<union> set W)"
    by (rule standing_wait [OF sched_standing [OF s] t(1) p(2) t(3)]) (use e(3) in auto)
  then have "sched X R (s\<lparr>thread_next := nx, thread_prev := pv\<rparr>) (L(p := behind s t (L p))) D W"
    using s e(2) by (simp add: sched_def by_priority_place_behind)
  then show ?thesis using e(1) by blast
qed

lemma switch:
  assumes s: "sched X None s L D W" and t: "t \<in> X" "\<not> listed L t"
  shows "\<exists>log. osRtxThreadSwitch t s =
      s\<lparr>thread_state := (thread_state s)(t := osRtxThreadRunning), run_next := Some t, error_log := log\<rparr>
    \<and> sched (X - {t}) (Some t) (s\<lparr>thread_state := (thread_state s)(t := osRtxThreadRunning),
          run_next := Some t, error_log := log\<rparr>) L D W"
proof -
  let ?s = "s\<lparr>thread_state := (thread_state s)(t := osRtxThreadRunning), run_next := Some t\<rparr>"
  have "\<exists>log. osRtxThreadStackCheck u = u\<lparr>error_log := log\<rparr>" for u
    unfolding osRtxThreadStackCheck_def osRtxErrorNotify_def
    by (cases "run_curr u") (auto intro: exI [of _ "error_log u"])
  then obtain log where e: "osRtxThreadSwitch t s = ?s\<lparr>error_log := log\<rparr>"
    unfolding osRtxThreadSwitch_def by blast
  have "sched (X - {t}) (Some t) ?s L D W"
    using s standing_run [OF sched_standing [OF s] t] by (simp add: sched_def)
  then show ?thesis using e by auto
qed

lemma set_state:
  assumes s: "sched X R s L D W" and t: "t \<in> X"
  shows "sched X R (s\<lparr>thread_state := (thread_state s)(t := v)\<rparr>) L D W"
  using s standing_state [OF sched_standing [OF s] t] by (simp add: sched_def)

lemma delay_insert:
  assumes s: "sched X R s L D W" and t: "t \<in> X" and d: "d \<noteq> 0"
    and st: "masked (thread_state s t) = osRtxThreadBlocked"
      "thread_state s t = osRtxThreadWaitingThreadFlags \<longrightarrow> \<not> listed L t"
  shows "\<exists>dl nx pv h w D' W'. osRtxThreadDelayInsert t d s =
      Some (s\<lparr>delay := dl, delay_next := nx, delay_prev := pv, delay_list := h, wait_list := w\<rparr>)
    \<and> sched (X - {t}) R (s\<lparr>delay := dl, delay_next := nx, delay_prev := pv, delay_list := h, wait_list := w\<rparr>) L D' W'
    \<and> set D' \<union> set W' = insert t (set D \<union> set W)
    \<and> (d \<noteq> osWaitForever \<longrightarrow> (t, unat d) \<in> set (expiries 0 dl D'))"
proof -
  note ts = sched_flux(3,4) [OF s t]
  have stand: "standing (X - {t}) R (threads s) (thread_state s) (thread_prev s) ReadyList L
      (insert t (set D \<union> set W))"
    by (rule standing_block [OF sched_standing [OF s] t st])
  show ?thesis
  proof (cases "d = osWaitForever")
    case True
    obtain dl nx pv w where e: "osRtxThreadDelayInsert t d s =
          Some (s\<lparr>delay := dl, delay_next := nx, delay_prev := pv, wait_list := w\<rparr>)"
        "delays nx pv dl (delay_list s) w D (W @ [t])" "\<forall>u\<in>set D. dl u = delay s u"
      using osRtxThreadDelayInsert_forever [OF sched_delays [OF s] ts] True by blast
    have u: "set D \<union> set (W @ [t]) = insert t (set D \<union> set W)" by auto
    have "sched (X - {t}) R (s\<lparr>delay := dl, delay_next := nx, delay_prev := pv, delay_list := delay_list s,
        wait_list := w\<rparr>) L D (W @ [t])"
      using s e(2,3) stand unfolding sched_def u by simp
    moreover have "osRtxThreadDelayInsert t d s = Some (s\<lparr>delay := dl, delay_next := nx, delay_prev := pv, delay_list := delay_list s, wait_list := w\<rparr>)" using e(1) by simp
    ultimately show ?thesis using u True by blast
  next
    case False
    obtain dl nx pv h D' where e: "osRtxThreadDelayInsert t d s =
          Some (s\<lparr>delay := dl, delay_next := nx, delay_prev := pv, delay_list := h\<rparr>)"
        "delays nx pv dl h (wait_list s) D' W" "set D' = insert t (set D)"
        "d \<noteq> 0 \<longrightarrow> (D \<noteq> [] \<longrightarrow> delay s (hd D) \<noteq> 0) \<longrightarrow> dl (hd D') \<noteq> 0"
        "expiries 0 dl D' = insert_timeout t (unat d) (expiries 0 (delay s) D)"
      using osRtxThreadDelayInsert_finite [OF sched_delays [OF s] ts False] by blast
    have u: "set D' \<union> set W = insert t (set D \<union> set W)" using e(3) by auto
    have "sched (X - {t}) R (s\<lparr>delay := dl, delay_next := nx, delay_prev := pv, delay_list := h,
        wait_list := wait_list s\<rparr>) L D' W"
      using s d e(2,4) stand unfolding sched_def u by simp
    moreover have "osRtxThreadDelayInsert t d s = Some (s\<lparr>delay := dl, delay_next := nx, delay_prev := pv, delay_list := h, wait_list := wait_list s\<rparr>)" using e(1) by simp
    moreover have "(t, unat d) \<in> set (expiries 0 dl D')" using e(5) by (simp add: insert_timeout_def)
    ultimately show ?thesis using u by blast
  qed
qed

lemma delay_remove:
  assumes s: "sched X R s L D W" and t: "t \<in> set D \<union> set W"
  shows "\<exists>dl nx pv h w D' W'. osRtxThreadDelayRemove t s =
      s\<lparr>delay := dl, delay_next := nx, delay_prev := pv, delay_list := h, wait_list := w\<rparr>
    \<and> sched (insert t X) R (s\<lparr>delay := dl, delay_next := nx, delay_prev := pv, delay_list := h, wait_list := w\<rparr>) L D' W'
    \<and> set D' \<union> set W' = set D \<union> set W - {t}"
proof -
  have dist: "distinct (D @ W)" by (rule delays_distinct [OF sched_delays [OF s]])
  have stand: "standing (insert t X) R (threads s) (thread_state s) (thread_prev s) ReadyList L
      (set D \<union> set W - {t})"
    by (rule standing_unblock [OF sched_standing [OF s] t])
  show ?thesis
  proof (cases "t \<in> set D")
    case True
    obtain dl nx pv h where e: "osRtxThreadDelayRemove t s =
          s\<lparr>delay := dl, delay_next := nx, delay_prev := pv, delay_list := h\<rparr>"
        "delays nx pv dl h (wait_list s) (remove1 t D) W"
        "delay s (hd D) \<noteq> 0 \<longrightarrow> remove1 t D \<noteq> [] \<longrightarrow> dl (hd (remove1 t D)) \<noteq> 0"
      using osRtxThreadDelayRemove_finite [OF sched_delays [OF s] True] by blast
    have u: "set (remove1 t D) \<union> set W = set D \<union> set W - {t}" using dist True by auto
    have "D \<noteq> []" using True by auto
    then have "sched (insert t X) R (s\<lparr>delay := dl, delay_next := nx, delay_prev := pv, delay_list := h,
        wait_list := wait_list s\<rparr>) L (remove1 t D) W"
      using s e(2,3) stand unfolding sched_def u by simp
    moreover have "osRtxThreadDelayRemove t s = s\<lparr>delay := dl, delay_next := nx, delay_prev := pv, delay_list := h, wait_list := wait_list s\<rparr>" using e(1) by simp
    ultimately show ?thesis using u by blast
  next
    case False
    then have tW: "t \<in> set W" using t by simp
    obtain nx pv w where e: "osRtxThreadDelayRemove t s =
          s\<lparr>delay_next := nx, delay_prev := pv, wait_list := w\<rparr>"
        "delays nx pv (delay s) (delay_list s) w D (remove1 t W)"
      using osRtxThreadDelayRemove_forever [OF sched_delays [OF s] tW] by blast
    have u: "set D \<union> set (remove1 t W) = set D \<union> set W - {t}" using dist False by auto
    have "sched (insert t X) R (s\<lparr>delay := delay s, delay_next := nx, delay_prev := pv,
        delay_list := delay_list s, wait_list := w\<rparr>) L D (remove1 t W)"
      using s e(2) stand unfolding sched_def u by simp
    moreover have "osRtxThreadDelayRemove t s = s\<lparr>delay := delay s, delay_next := nx, delay_prev := pv, delay_list := delay_list s, wait_list := w\<rparr>" using e(1) by simp
    ultimately show ?thesis using u by blast
  qed
qed

end
