(* ===== verification/Rtx_Dispatch.thy ===== *)
theory Rtx_Dispatch
  imports Rtx_Sched
begin

text \<open>
  Dispatching and waiting: after \<open>osRtxThreadDispatch\<close>, \<open>osRtxThreadWaitExit\<close> and
  \<open>osRtxThreadWaitEnter\<close> a most urgent thread is chosen to run.
\<close>

section \<open>What the scheduler changes\<close>

text \<open>\<open>s'\<close> differs from \<open>s\<close> only in where threads are, what they return and what was logged.\<close>

definition restore :: "rtx \<Rightarrow> rtx \<Rightarrow> rtx" where
  "restore s s' = s'\<lparr>thread_state := thread_state s, thread_next := thread_next s,
     thread_prev := thread_prev s, delay_next := delay_next s, delay_prev := delay_prev s,
     delay := delay s, delay_list := delay_list s, wait_list := wait_list s, run_next := run_next s,
     regs := regs s, error_log := error_log s\<rparr>"

definition moved :: "rtx \<Rightarrow> rtx \<Rightarrow> bool" where
  "moved s s' \<longleftrightarrow> restore s s' = s"

lemma moved_refl [simp]: "moved s s"
  by (simp add: moved_def restore_def)

lemma moved_trans:
  assumes "moved s s'" and "moved s' s''"
  shows "moved s s''"
proof -
  have "restore s s'' = restore s (restore s' s'')" by (simp add: restore_def)
  then show ?thesis using assms by (simp add: moved_def)
qed

lemma moved_field:
  assumes "moved s s'" and "\<And>u v. f (restore u v) = f v"
  shows "f s' = f s"
  using arg_cong [OF assms(1) [unfolded moved_def], of f] assms(2) by simp

lemma moved_fields:
  assumes "moved s s'"
  shows "priority s' = priority s" "kernel_state s' = kernel_state s" "run_curr s' = run_curr s"
    "obj_id s' = obj_id s" "obj_attr s' = obj_attr s" "robin_timeout s' = robin_timeout s"
    "robin_thread s' = robin_thread s" "robin_tick s' = robin_tick s" "tokens s' = tokens s"
    "max_tokens s' = max_tokens s" "event_flags s' = event_flags s" "wait_flags s' = wait_flags s"
    "flags_options s' = flags_options s" "thread_flags s' = thread_flags s" "isr_cnt s' = isr_cnt s"
    "isr_data s' = isr_data s" "isr_out s' = isr_out s" "isr_in s' = isr_in s" "isr_max s' = isr_max s"
    "post_process s' = post_process s" "kernel_tick s' = kernel_tick s"
    "timer_tick_set s' = timer_tick_set s"
  by (rule moved_field [OF assms]; simp add: restore_def)+

lemma moved_owners: "moved s s' \<Longrightarrow> owners s' = owners s"
  by (simp add: owners_def moved_fields)

lemma moved_steps [simp]:
  "moved s (s\<lparr>thread_next := nx, thread_prev := pv\<rparr>)"
  "moved s (s\<lparr>thread_state := st, thread_next := nx, thread_prev := pv\<rparr>)"
  "moved s (s\<lparr>thread_state := st, run_next := rn, error_log := lg\<rparr>)"
  "moved s (s\<lparr>thread_state := st\<rparr>)"
  "moved s (s\<lparr>regs := rg\<rparr>)"
  "moved s (s\<lparr>delay := dl, delay_next := dn, delay_prev := dp, delay_list := h, wait_list := w\<rparr>)"
  by (simp_all add: moved_def restore_def)

section \<open>Dispatching\<close>

text \<open>
  No ready thread has a higher priority than \<open>c\<close>. \<open>settled\<close> is the state after a handler: a
  thread \<open>n\<close> is chosen, and with \<open>b\<close> a most urgent one when the kernel schedules.
\<close>

definition top :: "rtx \<Rightarrow> (ref \<Rightarrow> ref list) \<Rightarrow> ref \<Rightarrow> bool" where
  "top s L c \<longleftrightarrow> (kernel_state s = osRtxKernelRunning \<longrightarrow> (\<forall>t\<in>set (L ReadyList). priority s t \<le> priority s c))"

definition settled :: "bool \<Rightarrow> rtx \<Rightarrow> bool" where
  "settled b s \<longleftrightarrow> (\<exists>L D W n. sched {} (Some n) s L D W \<and> run_next s = Some n \<and> (b \<longrightarrow> top s L n))"

text \<open>Before a handler the chosen thread \<open>c\<close> runs.\<close>

definition running :: "ref \<Rightarrow> rtx \<Rightarrow> (ref \<Rightarrow> ref list) \<Rightarrow> ref list \<Rightarrow> ref list \<Rightarrow> bool" where
  "running c s L D W \<longleftrightarrow> sched {} (Some c) s L D W \<and> run_curr s = Some c \<and> run_next s = Some c"

lemma settledI: "sched {} (Some n) s L D W \<Longrightarrow> run_next s = Some n \<Longrightarrow> (b \<longrightarrow> top s L n) \<Longrightarrow> settled b s"
  unfolding settled_def by blast

lemma sched_running_unlisted:
  assumes "sched X (Some c) s L D W"
  shows "\<not> listed L c" "c \<notin> set D" "c \<notin> set W" "obj_id s c = osRtxIdThread" "c \<notin> X"
    "thread_state s c = osRtxThreadRunning"
  using sched_stands [OF assms, of c] state_values unfolding stands_def by auto

text \<open>The ready thread \<open>t\<close>, out of its list, takes over from the running thread.\<close>

lemma preempt:
  assumes s: "sched {t} (Some c) s L D W" and t: "\<not> listed L t"
  shows "\<exists>s1 s2. osRtxThreadBlock c s = Some s1 \<and> osRtxThreadSwitch t s1 = s2
    \<and> sched {} (Some t) s2 (L(ReadyList := in_front s c (L ReadyList))) D W
    \<and> run_next s2 = Some t \<and> moved s s2"
proof -
  have c: "\<not> listed L c" "c \<noteq> t" using sched_running_unlisted [OF s] by auto
  obtain nx pv where e: "osRtxThreadBlock c s = Some (s\<lparr>thread_state := (thread_state s)(c := osRtxThreadReady),
        thread_next := nx, thread_prev := pv\<rparr>)"
    "sched ({c, t} - {c}) None (s\<lparr>thread_state := (thread_state s)(c := osRtxThreadReady),
        thread_next := nx, thread_prev := pv\<rparr>) (L(ReadyList := in_front s c (L ReadyList))) D W"
    using block_running [OF sched_stop [OF s] _ c(1)] by blast
  let ?s1 = "s\<lparr>thread_state := (thread_state s)(c := osRtxThreadReady), thread_next := nx, thread_prev := pv\<rparr>"
  let ?L = "L(ReadyList := in_front s c (L ReadyList))"
  have X: "{c, t} - {c} = {t}" using c(2) by auto
  have "\<not> listed ?L t" using t c(2) unfolding listed_def by auto
  then obtain lg where f: "osRtxThreadSwitch t ?s1 = ?s1\<lparr>thread_state := (thread_state ?s1)(t := osRtxThreadRunning),
        run_next := Some t, error_log := lg\<rparr>"
    "sched ({t} - {t}) (Some t) (?s1\<lparr>thread_state := (thread_state ?s1)(t := osRtxThreadRunning),
        run_next := Some t, error_log := lg\<rparr>) ?L D W"
    using switch [OF e(2) [unfolded X], of t] by blast
  let ?s2 = "?s1\<lparr>thread_state := (thread_state ?s1)(t := osRtxThreadRunning), run_next := Some t, error_log := lg\<rparr>"
  have "moved s ?s2" by (rule moved_trans [OF moved_steps(2) moved_steps(3)])
  moreover have "run_next ?s2 = Some t" by simp
  ultimately show ?thesis using e(1) f by (metis Diff_cancel)
qed

lemma dispatch_ready:
  assumes r: "running c s L D W"
  shows "\<exists>s'. osRtxThreadDispatch None s = Some s' \<and> settled b s' \<and> moved s s'"
proof -
  have s: "sched {} (Some c) s L D W" and c: "run_curr s = Some c" "run_next s = Some c"
    using r by (simp_all add: running_def)
  have h: "thread_next s ReadyList = first (L ReadyList)" by (rule sched_head [OF s]) simp
  have sorted: "by_priority (priority s) (L ReadyList)" by (rule sched_sorted [OF s])
  show ?thesis
  proof (cases "L ReadyList")
    case Nil
    then have "osRtxThreadDispatch None s = Some s" using h by (simp add: osRtxThreadDispatch_def)
    moreover have "top s L c" using Nil by (simp add: top_def)
    ultimately show ?thesis using settledI [OF s c(2)] by auto
  next
    case (Cons t bs)
    show ?thesis
    proof (cases "kernel_state s = osRtxKernelRunning \<and> priority s c < priority s t")
      case False
      then have "osRtxThreadDispatch None s = Some s"
        using h Cons c by (auto simp: osRtxThreadDispatch_def)
      moreover have "top s L c" using False Cons sorted by (auto simp: top_def)
      ultimately show ?thesis using settledI [OF s c(2)] by auto
    next
      case True
      have t: "t \<in> set (L ReadyList)" and rm: "remove1 t (L ReadyList) = bs" using Cons by simp_all
      obtain nx pv where e: "osRtxThreadListRemove t s = s\<lparr>thread_next := nx, thread_prev := pv\<rparr>"
        "sched {t} (Some c) (s\<lparr>thread_next := nx, thread_prev := pv\<rparr>) (L(ReadyList := bs)) D W"
        "\<not> listed (L(ReadyList := bs)) t"
        using remove_ready [OF s t] unfolding rm by blast
      let ?s1 = "s\<lparr>thread_next := nx, thread_prev := pv\<rparr>"
      obtain s1 s2 where f: "osRtxThreadBlock c ?s1 = Some s1" "osRtxThreadSwitch t s1 = s2"
        "sched {} (Some t) s2 (L(ReadyList := in_front s c bs)) D W" "run_next s2 = Some t" "moved ?s1 s2"
        using preempt [OF e(2,3)] by auto
      have m: "moved s s2" by (rule moved_trans [OF moved_steps(1) f(5)])
      have "osRtxThreadDispatch None s = Some s2"
        using h Cons c True e(1) f(1,2) by (simp add: osRtxThreadDispatch_def)
      moreover have "top s2 (L(ReadyList := in_front s c bs)) t"
        using sorted Cons True moved_fields [OF m] by (auto simp: top_def)
      ultimately show ?thesis using settledI [OF f(3,4)] m by blast
    qed
  qed
qed

lemma dispatch_thread:
  assumes s: "sched {t} (Some c) s L D W" and c: "run_curr s = Some c" "run_next s = Some c"
    and t: "\<not> listed L t" and top: "b \<longrightarrow> top s L c"
  shows "\<exists>s'. osRtxThreadDispatch (Some t) s = Some s' \<and> settled b s' \<and> moved s s'"
proof (cases "kernel_state s = osRtxKernelRunning \<and> priority s c < priority s t")
  case True
  obtain s1 s2 where f: "osRtxThreadBlock c s = Some s1" "osRtxThreadSwitch t s1 = s2"
    "sched {} (Some t) s2 (L(ReadyList := in_front s c (L ReadyList))) D W" "run_next s2 = Some t" "moved s s2"
    using preempt [OF s t] by auto
  have "osRtxThreadDispatch (Some t) s = Some s2"
    using True c f(1,2) by (simp add: osRtxThreadDispatch_def)
  moreover have "b \<longrightarrow> top s2 (L(ReadyList := in_front s c (L ReadyList))) t"
    using True top moved_fields [OF f(5)] by (fastforce simp: top_def)
  ultimately show ?thesis using settledI [OF f(3,4)] f(5) by blast
next
  case False
  obtain nx pv where e: "osRtxThreadReadyPut t s = Some (s\<lparr>thread_state := (thread_state s)(t := osRtxThreadReady),
      thread_next := nx, thread_prev := pv\<rparr>)"
    "sched ({t} - {t}) (Some c) (s\<lparr>thread_state := (thread_state s)(t := osRtxThreadReady),
      thread_next := nx, thread_prev := pv\<rparr>) (L(ReadyList := behind s t (L ReadyList))) D W"
    using ready_put [OF s _ t] by blast
  let ?s1 = "s\<lparr>thread_state := (thread_state s)(t := osRtxThreadReady), thread_next := nx, thread_prev := pv\<rparr>"
  have "osRtxThreadDispatch (Some t) s = Some ?s1"
    using False c e(1) by (auto simp: osRtxThreadDispatch_def)
  moreover have "b \<longrightarrow> top ?s1 (L(ReadyList := behind s t (L ReadyList))) c"
    using False top by (auto simp: top_def)
  moreover have "sched {} (Some c) ?s1 (L(ReadyList := behind s t (L ReadyList))) D W" using e(2) by simp
  moreover have "run_next ?s1 = Some c" using c by simp
  ultimately show ?thesis using settledI moved_steps(2) by blast
qed

section \<open>Waiting\<close>

text \<open>A thread that no list holds stops waiting and becomes ready.\<close>

lemma wait_exit:
  assumes s: "sched X R s L D W" and t: "t \<in> set D \<union> set W" "\<not> listed L t"
  shows "\<exists>s' D' W'. osRtxThreadWaitExit t v False s = Some s'
    \<and> sched X R s' (L(ReadyList := behind s t (L ReadyList))) D' W'
    \<and> set D' \<union> set W' = set D \<union> set W - {t} \<and> run_next s' = run_next s \<and> moved s s'"
proof -
  let ?s1 = "s\<lparr>regs := (regs s)(t := (regs s t)(0 := v))\<rparr>"
  have s1: "sched X R ?s1 L D W" using s by simp
  obtain dl dn dp h w D' W' where e: "osRtxThreadDelayRemove t ?s1 =
      ?s1\<lparr>delay := dl, delay_next := dn, delay_prev := dp, delay_list := h, wait_list := w\<rparr>"
    "sched (insert t X) R (?s1\<lparr>delay := dl, delay_next := dn, delay_prev := dp, delay_list := h, wait_list := w\<rparr>) L D' W'"
    "set D' \<union> set W' = set D \<union> set W - {t}"
    using delay_remove [OF s1 t(1)] by (elim exE conjE) (rule that)
  let ?s2 = "?s1\<lparr>delay := dl, delay_next := dn, delay_prev := dp, delay_list := h, wait_list := w\<rparr>"
  obtain nx pv where f: "osRtxThreadReadyPut t ?s2 = Some (?s2\<lparr>thread_state := (thread_state ?s2)(t := osRtxThreadReady),
      thread_next := nx, thread_prev := pv\<rparr>)"
    "sched (insert t X - {t}) R (?s2\<lparr>thread_state := (thread_state ?s2)(t := osRtxThreadReady),
      thread_next := nx, thread_prev := pv\<rparr>) (L(ReadyList := behind ?s2 t (L ReadyList))) D' W'"
    using ready_put [OF e(2) insertI1 t(2)] by blast
  let ?s3 = "?s2\<lparr>thread_state := (thread_state ?s2)(t := osRtxThreadReady), thread_next := nx, thread_prev := pv\<rparr>"
  have "t \<notin> X" using sched_stands [OF s, of t] t unfolding stands_def by auto
  then have X: "insert t X - {t} = X" by auto
  have "osRtxThreadWaitExit t v False s = Some ?s3"
    unfolding osRtxThreadWaitExit_def Let_def e(1) using f(1) by simp
  moreover have "moved s ?s3"
    by (rule moved_trans [OF moved_steps(5) moved_trans [OF moved_steps(6) moved_steps(2)]])
  moreover have "run_next ?s3 = run_next s" by simp
  moreover have "sched X R ?s3 (L(ReadyList := behind s t (L ReadyList))) D' W'" using f(2) unfolding X by simp
  ultimately show ?thesis using e(3) by blast
qed

text \<open>The same with dispatching, as the last step of a call.\<close>

lemma wait_exit_dispatch:
  assumes r: "running c s L D W" and t: "t \<in> set D \<union> set W" "\<not> listed L t" and top: "b \<longrightarrow> top s L c"
  shows "\<exists>s'. osRtxThreadWaitExit t v True s = Some s' \<and> settled b s' \<and> moved s s'"
proof -
  let ?s1 = "s\<lparr>regs := (regs s)(t := (regs s t)(0 := v))\<rparr>"
  have s1: "sched {} (Some c) ?s1 L D W" and c: "run_curr s = Some c" "run_next s = Some c"
    using r by (simp_all add: running_def)
  obtain dl dn dp h w D' W' where e: "osRtxThreadDelayRemove t ?s1 =
      ?s1\<lparr>delay := dl, delay_next := dn, delay_prev := dp, delay_list := h, wait_list := w\<rparr>"
    "sched {t} (Some c) (?s1\<lparr>delay := dl, delay_next := dn, delay_prev := dp, delay_list := h, wait_list := w\<rparr>) L D' W'"
    using delay_remove [OF s1 t(1)] by (elim exE conjE) (rule that)
  let ?s2 = "?s1\<lparr>delay := dl, delay_next := dn, delay_prev := dp, delay_list := h, wait_list := w\<rparr>"
  have "b \<longrightarrow> top ?s2 L c" "run_curr ?s2 = Some c" "run_next ?s2 = Some c" using top c by (simp_all add: top_def)
  then obtain s' where f: "osRtxThreadDispatch (Some t) ?s2 = Some s'" "settled b s'" "moved ?s2 s'"
    using dispatch_thread [OF e(2) _ _ t(2)] by blast
  have "moved s s'" by (rule moved_trans [OF moved_steps(5) moved_trans [OF moved_steps(6) f(3)]])
  moreover have "osRtxThreadWaitExit t v True s = Some s'"
    unfolding osRtxThreadWaitExit_def Let_def e(1) using f(1) by simp
  ultimately show ?thesis using f(2) by blast
qed

text \<open>
  The running thread starts to wait, unless the scheduler is locked or no other thread is ready:
  the first ready thread runs instead.
\<close>

lemma wait_enter:
  assumes r: "running c s L D W" and d: "d \<noteq> 0" and st: "masked st = osRtxThreadBlocked"
  shows "osRtxThreadWaitEnter st d s = Some (False, s) \<or>
    (\<exists>s' D' W' n ns. osRtxThreadWaitEnter st d s = Some (True, s') \<and> L ReadyList = n # ns
       \<and> sched {} (Some n) s' (L(ReadyList := ns)) D' W' \<and> run_next s' = Some n
       \<and> set D' \<union> set W' = insert c (set D \<union> set W) \<and> \<not> listed (L(ReadyList := ns)) c
       \<and> top s' (L(ReadyList := ns)) n \<and> thread_state s' c = st
       \<and> (d \<noteq> osWaitForever \<longrightarrow> (c, unat d) \<in> set (expiries 0 (delay s') D')) \<and> moved s s')"
proof (cases "kernel_state s \<noteq> osRtxKernelRunning \<or> L ReadyList = []")
  case True
  have s: "sched {} (Some c) s L D W" using r by (simp add: running_def)
  have "thread_next s ReadyList = first (L ReadyList)" by (rule sched_head [OF s]) simp
  then show ?thesis using True by (auto simp: osRtxThreadWaitEnter_def)
next
  case False
  then obtain n ns where xs: "L ReadyList = n # ns" by (cases "L ReadyList") auto
  have s: "sched {} (Some c) s L D W" and c: "run_curr s = Some c" using r by (simp_all add: running_def)
  have h: "thread_next s ReadyList = Some n" using sched_head [OF s, of ReadyList] xs by simp
  have cl: "\<not> listed L c" using sched_running_unlisted [OF s] by simp
  let ?s1 = "s\<lparr>thread_state := (thread_state s)(c := st)\<rparr>"
  have s1: "sched {c} None ?s1 L D W" using set_state [OF sched_stop [OF s], of c st] by simp
  have st1: "masked (thread_state ?s1 c) = osRtxThreadBlocked" using st by simp
  have sl: "thread_state ?s1 c = osRtxThreadWaitingThreadFlags \<longrightarrow> \<not> listed L c" using cl by simp
  obtain dl dn dp hd w D' W' where e: "osRtxThreadDelayInsert c d ?s1 =
      Some (?s1\<lparr>delay := dl, delay_next := dn, delay_prev := dp, delay_list := hd, wait_list := w\<rparr>)"
    "sched ({c} - {c}) None (?s1\<lparr>delay := dl, delay_next := dn, delay_prev := dp, delay_list := hd, wait_list := w\<rparr>) L D' W'"
    "set D' \<union> set W' = insert c (set D \<union> set W)"
    "d \<noteq> osWaitForever \<longrightarrow> (c, unat d) \<in> set (expiries 0 dl D')"
    using delay_insert [OF s1 insertI1 d st1 sl] by (elim exE conjE) (rule that)
  let ?s2 = "?s1\<lparr>delay := dl, delay_next := dn, delay_prev := dp, delay_list := hd, wait_list := w\<rparr>"
  have s2: "sched {} None ?s2 L D' W'" using e(2) by simp
  obtain nx pv where f: "osRtxThreadListGet ReadyList ?s2 = Some (n, ?s2\<lparr>thread_next := nx, thread_prev := pv\<rparr>)"
    "sched {n} None (?s2\<lparr>thread_next := nx, thread_prev := pv\<rparr>) (L(ReadyList := ns)) D' W'"
    "\<not> listed (L(ReadyList := ns)) n"
    using get_ready [OF s2 xs] by blast
  let ?s3 = "?s2\<lparr>thread_next := nx, thread_prev := pv\<rparr>"
  obtain lg where g: "osRtxThreadSwitch n ?s3 = ?s3\<lparr>thread_state := (thread_state ?s3)(n := osRtxThreadRunning),
        run_next := Some n, error_log := lg\<rparr>"
    "sched ({n} - {n}) (Some n) (?s3\<lparr>thread_state := (thread_state ?s3)(n := osRtxThreadRunning),
        run_next := Some n, error_log := lg\<rparr>) (L(ReadyList := ns)) D' W'"
    using switch [OF f(2) _ f(3)] by blast
  let ?s4 = "?s3\<lparr>thread_state := (thread_state ?s3)(n := osRtxThreadRunning), run_next := Some n, error_log := lg\<rparr>"
  have "osRtxThreadWaitEnter st d s = Some (True, ?s4)"
    using False h c e(1) f(1) g(1) by (simp add: osRtxThreadWaitEnter_def)
  moreover have m: "moved s ?s4"
    by (rule moved_trans [OF moved_steps(4) moved_trans [OF moved_steps(6) moved_trans [OF moved_steps(1) moved_steps(3)]]])
  moreover have "\<not> listed (L(ReadyList := ns)) c"
  proof -
    have "c \<notin> set (L ReadyList)" using cl listed_member [of c L ReadyList] by blast
    then show ?thesis using cl xs unfolding listed_def by auto
  qed
  moreover have "top ?s4 (L(ReadyList := ns)) n"
    using sched_sorted [OF s, of ReadyList] xs by (simp add: top_def)
  moreover have "run_next ?s4 = Some n" by simp
  moreover have "d \<noteq> osWaitForever \<longrightarrow> (c, unat d) \<in> set (expiries 0 (delay ?s4) D')" using e(4) by simp
  moreover have "thread_state ?s4 c = st"
    using sched_running_unlisted(1) [OF s] xs listed_member [of c L ReadyList] by auto
  ultimately show ?thesis using e(3) g(2) xs unfolding Diff_cancel by blast
qed

end
