(* ===== verification/Rtx_Tick.thy ===== *)
theory Rtx_Tick
  imports Rtx_Dispatch
begin

text \<open>
  The tick of the delay list: the loop of \<open>osRtxThreadDelayTick\<close> ends, wakes exactly the threads
  whose time is over and brings every other one a tick closer.
\<close>

section \<open>The tick of the delay list\<close>

lemma standing_expire:
  assumes s: "standing X R T st pv rl L B" and Z: "Z \<subseteq> B"
  shows "standing (X \<union> Z) R T st pv rl L (B - Z)"
  unfolding standing_def
proof
  fix u
  show "stands (u \<in> X \<union> Z) (R = Some u) (u \<in> T) (st u) (pv u) (u \<in> set (L rl)) (listed L u) (u \<in> B - Z)"
    using standingD [OF s, of u] Z by (cases "u \<in> Z") (auto simp: stands_def)
qed

text \<open>The delay list once the threads of \<open>Z\<close> at its front are taken off.\<close>

abbreviation cut_prev :: "'p list \<Rightarrow> 'p link \<Rightarrow> 'p link" where
  "cut_prev D pv \<equiv> (case D of [] \<Rightarrow> pv | n # _ \<Rightarrow> pv(n := None))"

lemma dlist_drop:
  assumes "dlist nx pv a h (Z @ D)"
  shows "dlist nx (cut_prev D pv) None (first D) D"
proof (cases D)
  case Nil
  then show ?thesis by simp
next
  case (Cons n ds)
  have "distinct D" using dlist_distinct [OF assms] by simp
  moreover have "dlist nx pv (Some n) (nx n) ds" using assms Cons by (auto simp: dpath_append)
  ultimately show ?thesis using Cons by simp
qed

lemma delays_drop:
  assumes d: "delays nx pv dl h w (Z @ D) W" and le: "\<forall>u\<in>set D. unat (dl' u) \<le> unat (dl u)"
    and eq: "\<forall>u\<in>set W. dl' u = dl u"
  shows "delays nx (cut_prev D pv) dl' (first D) w D W"
proof -
  have dist: "set D \<inter> set W = {}" using delays_distinct [OF d] by auto
  have "dlist nx pv None w W" using d by (simp add: delays_def)
  then have "dlist nx (cut_prev D pv) None w W"
    using dist by (cases D) simp_all
  moreover have "total dl' D \<le> total dl D" using le by (auto intro!: sum_list_mono)
  then have "total dl' D < 2 ^ 32 - 1" using d unfolding delays_def by simp
  moreover have "dlist nx (cut_prev D pv) None (first D) D"
    by (rule dlist_drop [of nx pv None h Z]) (use d in \<open>simp add: delays_def\<close>)
  moreover have "\<forall>t\<in>set W. dl' t = osWaitForever" using d eq by (simp add: delays_def)
  ultimately show ?thesis using dist unfolding delays_def by blast
qed

lemma expired_prefix:
  assumes "\<forall>z\<in>set Z. dl z = 0" and "D \<noteq> [] \<longrightarrow> dl (hd D) \<noteq> 0"
  shows "expiries 0 dl D = filter (\<lambda>x. 0 < snd x) (expiries 0 dl (Z @ D))"
proof -
  have z: "expiries 0 dl Z = map (\<lambda>u. (u, 0)) Z" using assms(1) by (induction Z) auto
  have tot: "total dl Z = 0" using assms(1) by (induction Z) auto
  have "\<forall>x\<in>set (expiries 0 dl D). 0 < snd x"
  proof (cases D)
    case (Cons n ds)
    then have "0 < unat (dl n)" using assms(2) by (simp add: unat_gt_0)
    then show ?thesis using Cons expiries_bounds [of _ _ "unat (dl n)" dl ds] by fastforce
  qed simp
  then have "filter (\<lambda>x. 0 < snd x) (expiries 0 dl D) = expiries 0 dl D" by (simp add: filter_id_conv)
  moreover have "filter (\<lambda>x. 0 < snd x) (map (\<lambda>u. (u, 0 :: nat)) Z) = []" by (induction Z) simp_all
  ultimately show ?thesis by (simp only: expiries_append filter_append z tot add_0 append_Nil)
qed

text \<open>The loop runs on a state in which the head of the delay list is not yet updated.\<close>

definition stale :: "ref option \<Rightarrow> ref link \<Rightarrow> rtx \<Rightarrow> rtx" where
  "stale h q s = s\<lparr>delay_list := h, delay_prev := q\<rparr>"

lemma stale_fields [simp]:
  "delay_next (stale h q s) = delay_next s" "delay (stale h q s) = delay s"
  by (simp_all add: stale_def)

lemma stale_ListRemove: "osRtxThreadListRemove t (stale h q s) = stale h q (osRtxThreadListRemove t s)"
  by (simp add: stale_def osRtxThreadListRemove_eq)

lemma stale_link: "link_thread t a b (stale h q s) = stale h q (link_thread t a b s)"
  by (simp add: stale_def link_thread_eq)

lemma stale_ReadyPut:
  "osRtxThreadReadyPut t (stale h q s) = map_option (stale h q) (osRtxThreadReadyPut t s)"
proof -
  let ?s = "s\<lparr>thread_state := (thread_state s)(t := osRtxThreadReady)\<rparr>"
  have "(stale h q s)\<lparr>thread_state := (thread_state (stale h q s))(t := osRtxThreadReady)\<rparr> = stale h q ?s"
    by (simp add: stale_def)
  moreover have "thread_next (stale h q ?s) = thread_next ?s" "priority (stale h q ?s) = priority ?s"
    by (simp_all add: stale_def)
  ultimately show ?thesis unfolding osRtxThreadReadyPut_def osRtxThreadListPut_def
    by (cases "find_slot (\<lambda>n. priority ?s t \<le> priority ?s n) (thread_next ?s) ReadyList (thread_next ?s ReadyList)")
       (auto simp: stale_link)
qed

lemma wake_step:
  assumes s: "sched X R s L D W" and t: "t \<in> X"
  shows "\<exists>nx pv L'. osRtxThreadReadyPut t (osRtxThreadListRemove t s)
      = Some (s\<lparr>thread_state := (thread_state s)(t := osRtxThreadReady), thread_next := nx, thread_prev := pv\<rparr>)
    \<and> sched (X - {t}) R (s\<lparr>thread_state := (thread_state s)(t := osRtxThreadReady),
        thread_next := nx, thread_prev := pv\<rparr>) L' D W"
proof -
  obtain nx pv L' where e: "osRtxThreadListRemove t s = s\<lparr>thread_next := nx, thread_prev := pv\<rparr>"
    "sched X R (s\<lparr>thread_next := nx, thread_prev := pv\<rparr>) L' D W" "\<not> listed L' t"
    using remove_any [OF s, of t] t by blast
  show ?thesis using ready_put [OF e(2) t e(3)] unfolding e(1) by auto
qed

lemma wake_expired_all:
  "sched X R s L D W \<Longrightarrow> path (delay_next s) (Some t) (t # zs) (first D) \<Longrightarrow> distinct (t # zs) \<Longrightarrow>
   set (t # zs) \<subseteq> X \<Longrightarrow> \<forall>z\<in>set zs. delay s z = 0 \<Longrightarrow>
   \<exists>st nx pv L'. wake_expired t (stale h q s)
       = Some (first D, stale h q (s\<lparr>thread_state := st, thread_next := nx, thread_prev := pv\<rparr>))
     \<and> sched (X - set (t # zs)) R (s\<lparr>thread_state := st, thread_next := nx, thread_prev := pv\<rparr>) L' D W
     \<and> (\<forall>u. st u = (if u \<in> set (t # zs) then osRtxThreadReady else thread_state s u))"
proof (induction zs arbitrary: t X s L)
  case Nil
  have tX: "t \<in> X" using Nil(4) by simp
  obtain nx pv L' where e: "osRtxThreadReadyPut t (osRtxThreadListRemove t s)
      = Some (s\<lparr>thread_state := (thread_state s)(t := osRtxThreadReady), thread_next := nx, thread_prev := pv\<rparr>)"
    "sched (X - {t}) R (s\<lparr>thread_state := (thread_state s)(t := osRtxThreadReady),
        thread_next := nx, thread_prev := pv\<rparr>) L' D W"
    using wake_step [OF Nil(1) tX] by (elim exE conjE) (rule that)
  have n: "delay_next s t = first D" using Nil(2) by simp
  have "D \<noteq> [] \<longrightarrow> delay s (hd D) \<noteq> 0" using Nil(1) by (simp add: sched_def)
  then have a: "wake_expired t (stale h q s) = Some (first D,
      stale h q (s\<lparr>thread_state := (thread_state s)(t := osRtxThreadReady), thread_next := nx, thread_prev := pv\<rparr>))"
    using n by (subst wake_expired.simps) (cases D; simp add: stale_ListRemove stale_ReadyPut e(1))
  have b: "sched (X - set [t]) R (s\<lparr>thread_state := (thread_state s)(t := osRtxThreadReady),
        thread_next := nx, thread_prev := pv\<rparr>) L' D W" using e(2) by simp
  have "\<forall>u. ((thread_state s)(t := osRtxThreadReady)) u
      = (if u \<in> set [t] then osRtxThreadReady else thread_state s u)" by simp
  with a b show ?case by (intro exI conjI)
next
  case (Cons z zs)
  have tX: "t \<in> X" using Cons(5) by simp
  obtain nx pv L' where e: "osRtxThreadReadyPut t (osRtxThreadListRemove t s)
      = Some (s\<lparr>thread_state := (thread_state s)(t := osRtxThreadReady), thread_next := nx, thread_prev := pv\<rparr>)"
    "sched (X - {t}) R (s\<lparr>thread_state := (thread_state s)(t := osRtxThreadReady),
        thread_next := nx, thread_prev := pv\<rparr>) L' D W"
    using wake_step [OF Cons(2) tX] by (elim exE conjE) (rule that)
  let ?s = "s\<lparr>thread_state := (thread_state s)(t := osRtxThreadReady), thread_next := nx, thread_prev := pv\<rparr>"
  have n: "delay_next s t = Some z" using Cons(3) by simp
  have "path (delay_next ?s) (Some z) (z # zs) (first D)" "distinct (z # zs)" "set (z # zs) \<subseteq> X - {t}"
    "\<forall>z\<in>set zs. delay ?s z = 0" using Cons(3-6) by auto
  from Cons.IH [OF e(2) this]
  obtain st nx' pv' L'' where f: "wake_expired z (stale h q ?s)
       = Some (first D, stale h q (?s\<lparr>thread_state := st, thread_next := nx', thread_prev := pv'\<rparr>))"
     "sched (X - {t} - set (z # zs)) R (?s\<lparr>thread_state := st, thread_next := nx', thread_prev := pv'\<rparr>) L'' D W"
     "\<forall>u. st u = (if u \<in> set (z # zs) then osRtxThreadReady else thread_state ?s u)"
    by (elim exE conjE) (rule that)
  have s2: "?s\<lparr>thread_state := st, thread_next := nx', thread_prev := pv'\<rparr>
      = s\<lparr>thread_state := st, thread_next := nx', thread_prev := pv'\<rparr>" by simp
  have X2: "X - {t} - set (z # zs) = X - set (t # z # zs)" by auto
  have "wake_expired t (stale h q s) = wake_expired z (stale h q ?s)"
    using n Cons(6) by (subst wake_expired.simps) (simp add: stale_ListRemove stale_ReadyPut e(1))
  then have "wake_expired t (stale h q s)
      = Some (first D, stale h q (s\<lparr>thread_state := st, thread_next := nx', thread_prev := pv'\<rparr>))"
    using f(1) unfolding s2 by (rule trans)
  moreover have "\<forall>u. st u = (if u \<in> set (t # z # zs) then osRtxThreadReady else thread_state s u)"
    using f(3) by auto
  ultimately show ?case using f(2) unfolding s2 X2 by (intro exI conjI)
qed

text \<open>
  The head is decremented; the threads whose time is 0 then, a prefix of the list, are in flux.
\<close>

lemma tick_cut:
  fixes s :: rtx
  assumes s: "sched {} R s L D W" and D: "D = t # ds"
  defines "dl \<equiv> (delay s)(t := delay s t - 1)"
  defines "Z \<equiv> takeWhile (\<lambda>u. dl u = 0) D" and "D' \<equiv> dropWhile (\<lambda>u. dl u = 0) D"
  shows "sched (set Z) R (s\<lparr>delay := dl, delay_list := first D', delay_prev := cut_prev D' (delay_prev s)\<rparr>) L D' W"
    and "expiries 0 dl D' = map (\<lambda>(u, e). (u, e - 1)) (filter (\<lambda>x. 1 < snd x) (expiries 0 (delay s) D))"
proof -
  have ZD: "D = Z @ D'" by (simp add: Z_def D'_def)
  have d: "delays (delay_next s) (delay_prev s) (delay s) (delay_list s) (wait_list s) D W"
    by (rule sched_delays [OF s])
  have dist: "distinct (t # ds)" using D delays_distinct [OF d] by simp
  have pos: "delay s t \<noteq> 0" using s D by (simp add: sched_def)
  have ex: "expiries 0 dl D = map (\<lambda>(u, e). (u, e - 1)) (expiries 0 (delay s) D)"
    unfolding D dl_def by (rule delta_tick [where dl = "delay s", OF dist pos])
  have hd: "D' \<noteq> [] \<longrightarrow> dl (hd D') \<noteq> 0"
    unfolding D'_def using hd_dropWhile [of "\<lambda>u. dl u = 0" D] by blast
  have Z0: "\<forall>z\<in>set Z. dl z = 0" unfolding Z_def by (auto dest: set_takeWhileD)
  have le: "unat (dl v) \<le> unat (delay s v)" for v
    using pos by (simp add: dl_def unat_minus_one)
  have "delays (delay_next s) (cut_prev D' (delay_prev s)) dl (first D') (wait_list s) D' W"
  proof (rule delays_drop [where dl = "delay s" and Z = Z])
    show "\<forall>v\<in>set W. dl v = delay s v" using delays_distinct [OF d] D by (auto simp: dl_def)
  qed (use d ZD le in auto)
  moreover have B: "set D \<union> set W - set Z = set D' \<union> set W"
    using delays_distinct [OF d] ZD by auto
  moreover have "standing ({} \<union> set Z) R (threads s) (thread_state s) (thread_prev s) ReadyList L
      (set D \<union> set W - set Z)"
    by (rule standing_expire [OF sched_standing [OF s]]) (use ZD in auto)
  ultimately show "sched (set Z) R (s\<lparr>delay := dl, delay_list := first D', delay_prev := cut_prev D' (delay_prev s)\<rparr>) L D' W"
    using s hd unfolding sched_def by simp
  have fil: "filter (\<lambda>x. 0 < snd x) (map (\<lambda>(u, e). (u, e - 1)) es) = map (\<lambda>(u, e). (u, e - 1)) (filter (\<lambda>x. 1 < snd x) es)"
    for es :: "(ref \<times> nat) list" by (induction es) auto
  show "expiries 0 dl D' = map (\<lambda>(u, e). (u, e - 1)) (filter (\<lambda>x. 1 < snd x) (expiries 0 (delay s) D))"
    using expired_prefix [OF Z0 hd] ex ZD unfolding fil [symmetric] by simp
qed

lemma delay_tick:
  assumes s: "sched {} R s L D W"
  shows "\<exists>s' L' D'. osRtxThreadDelayTick s = Some s' \<and> sched {} R s' L' D' W
    \<and> expiries 0 (delay s') D' = map (\<lambda>(u, e). (u, e - 1)) (filter (\<lambda>x. 1 < snd x) (expiries 0 (delay s) D))
    \<and> (\<forall>u. thread_state s' u = (if u \<in> set D - set D' then osRtxThreadReady else thread_state s u))
    \<and> set D' \<subseteq> set D \<and> run_next s' = run_next s \<and> moved s s'"
proof (cases D)
  case Nil
  then have "delay_list s = None" using sched_delays [OF s] by (simp add: delays_def)
  then show ?thesis using s Nil
    by (intro exI [of _ s] exI [of _ L] exI [of _ D]) (simp add: osRtxThreadDelayTick_def)
next
  case D: (Cons t ds)
  define dl where "dl = (delay s)(t := delay s t - 1)"
  define Z where "Z = takeWhile (\<lambda>u. dl u = 0) D"
  define D' where "D' = dropWhile (\<lambda>u. dl u = 0) D"
  define u where "u = s\<lparr>delay := dl, delay_list := first D', delay_prev := cut_prev D' (delay_prev s)\<rparr>"
  note u = tick_cut [OF s D, folded dl_def, folded Z_def D'_def, folded u_def]
  have ZD: "D = Z @ D'" by (simp add: Z_def D'_def)
  have d: "delays (delay_next s) (delay_prev s) (delay s) (delay_list s) (wait_list s) D W"
    by (rule sched_delays [OF s])
  have h: "delay_list s = Some t" using d D by (auto simp: delays_def)
  have DD: "set D - set D' = set Z" using delays_distinct [OF d] ZD by auto
  have m: "moved s u" unfolding u_def moved_def restore_def by simp
  have exu: "expiries 0 (delay u) D' = map (\<lambda>(u, e). (u, e - 1)) (filter (\<lambda>x. 1 < snd x) (expiries 0 (delay s) D))"
    using u(2) by (simp add: u_def)
  show ?thesis
  proof (cases Z)
    case Nil
    then have "dl t \<noteq> 0" using D by (auto simp: Z_def split: if_splits)
    moreover have "D' = D" using Nil ZD by simp
    moreover have "delay_prev s t = None" using d D by (auto simp: delays_def)
    ultimately have "osRtxThreadDelayTick s = Some u"
      using h D by (simp add: osRtxThreadDelayTick_def u_def dl_def fun_upd_idem)
    moreover have "sched {} R u L D' W" using u(1) Nil by simp
    ultimately show ?thesis using exu m DD Nil ZD
      by (intro exI [of _ u] exI [of _ L] exI [of _ D']) (auto simp: u_def)
  next
    case (Cons z zs)
    then have z: "z = t" "dl t = 0" using D by (auto simp: Z_def split: if_splits)
    have st: "stale (delay_list s) (delay_prev s) u = s\<lparr>delay := dl\<rparr>" by (simp add: stale_def u_def)
    have chn: "path (delay_next u) (Some t) (t # zs) (first D')" "distinct (t # zs)" "set (t # zs) \<subseteq> set Z"
      "\<forall>z\<in>set zs. delay u z = 0"
    proof -
      have "chain (delay_next s) (Some t) (Z @ D')" using d h ZD dpath_path unfolding delays_def by metis
      then obtain r where "path (delay_next s) (Some t) Z r" "chain (delay_next s) r D'"
        unfolding path_append by blast
      then show "path (delay_next u) (Some t) (t # zs) (first D')"
        using chain_start [of "delay_next s" r D'] Cons z(1) by (simp add: u_def)
      show "distinct (t # zs)" using delays_distinct [OF d] ZD Cons z(1) by auto
      show "set (t # zs) \<subseteq> set Z" using Cons z(1) by auto
      show "\<forall>z\<in>set zs. delay u z = 0"
        using Cons set_takeWhileD [of _ "\<lambda>u. dl u = 0" D] by (auto simp: u_def Z_def)
    qed
    obtain st nx pv L' where f: "wake_expired t (stale (delay_list s) (delay_prev s) u)
         = Some (first D', stale (delay_list s) (delay_prev s) (u\<lparr>thread_state := st, thread_next := nx, thread_prev := pv\<rparr>))"
       "sched (set Z - set (t # zs)) R (u\<lparr>thread_state := st, thread_next := nx, thread_prev := pv\<rparr>) L' D' W"
       "\<forall>v. st v = (if v \<in> set (t # zs) then osRtxThreadReady else thread_state u v)"
      using wake_expired_all [OF u(1) chn, of "delay_list s" "delay_prev s"] by (elim exE conjE) (rule that)
    let ?s = "u\<lparr>thread_state := st, thread_next := nx, thread_prev := pv\<rparr>"
    have "osRtxThreadDelayTick s = Some ?s"
      using h z(2) f(1) unfolding st unfolding osRtxThreadDelayTick_def dl_def
      by (cases D') (simp_all add: stale_def u_def)
    moreover have "sched {} R ?s L' D' W" using f(2) Cons z(1) by simp
    moreover have "\<forall>v. thread_state ?s v = (if v \<in> set D - set D' then osRtxThreadReady else thread_state s v)"
      using f(3) DD Cons z(1) by (simp add: u_def)
    moreover have "expiries 0 (delay ?s) D' = map (\<lambda>(u, e). (u, e - 1)) (filter (\<lambda>x. 1 < snd x) (expiries 0 (delay s) D))"
      using exu by simp
    moreover have "set D' \<subseteq> set D" using ZD by auto
    moreover have "run_next ?s = run_next s" by (simp add: u_def)
    moreover have "moved s ?s" by (rule moved_trans [OF m moved_steps(2)])
    ultimately show ?thesis by (intro exI conjI)
  qed
qed

end
