(* ===== verification/Rtx_Mutex.thy ===== *)
theory Rtx_Mutex
  imports Rtx_Thread
begin

text \<open>
  Mutexes, Source/rtx_mutex.c: recursive and robust mutexes with priority inheritance. The
  mutexes a thread owns form a doubly linked list from its \<open>mutex_list\<close>.
\<close>

section \<open>Operations\<close>

text \<open>
  Hand a mutex that was released to the first thread waiting for it. The new owner's list gets
  the mutex in front, with \<open>owner_prev\<close> of the next one left as it was.
\<close>

definition hand_over :: "ref \<Rightarrow> rtx \<Rightarrow> rtx option" where
  "hand_over mutex s =
     (do {
        (thread, s) \<leftarrow> osRtxThreadListGet mutex s;
        s \<leftarrow> osRtxThreadWaitExit thread osOK False s;
        Some (s\<lparr>owner_thread := (owner_thread s)(mutex := Some thread),
                owner_next := (owner_next s)(mutex := mutex_list s thread),
                owner_prev := (owner_prev s)(mutex := None),
                mutex_list := (mutex_list s)(thread := Some mutex),
                lock_count := (lock_count s)(mutex := 1)\<rparr>)
      })"

partial_function (option) osRtxMutexOwnerRelease :: "ref option \<Rightarrow> rtx \<Rightarrow> rtx option" where
  "osRtxMutexOwnerRelease mutex s =
     (case mutex of
        None \<Rightarrow> Some s
      | Some m \<Rightarrow>
        let next = owner_next s m in
        if obj_attr s m AND osMutexRobust \<noteq> 0 then
          do {
            let s = s\<lparr>lock_count := (lock_count s)(m := 0)\<rparr>;
            s \<leftarrow> (if thread_next s m \<noteq> None then hand_over m s else Some s);
            osRtxMutexOwnerRelease next s
          }
        else osRtxMutexOwnerRelease next s)"

definition svcRtxMutexNew :: "obj_attr option \<Rightarrow> ref option rtx_op" where
  "svcRtxMutexNew attr s =
     (let a = attr_or_default attr in
      if \<not> cb_ok 28 (oa_cb_mem a) (oa_cb_size a) then Some (None, s)
      else do {
        ((cb, flags), s) \<leftarrow> alloc_cb (mpi_mutex (mpi_pools s)) 28 (oa_cb_mem a) s;
        case ptr cb of
          None \<Rightarrow> Some (None, s)
        | Some m \<Rightarrow>
          Some (Some m, s\<lparr>obj_id := (obj_id s)(m := osRtxIdMutex),
                          obj_flags := (obj_flags s)(m := flags),
                          obj_attr := (obj_attr s)(m := ucast (oa_attr_bits a)),
                          obj_name := (obj_name s)(m := oa_name a),
                          thread_next := (thread_next s)(m := None),
                          owner_thread := (owner_thread s)(m := None),
                          owner_prev := (owner_prev s)(m := None),
                          owner_next := (owner_next s)(m := None),
                          lock_count := (lock_count s)(m := 0)\<rparr>)
      })"

abbreviation is_mutex :: "rtx \<Rightarrow> ref option \<Rightarrow> bool" where
  "is_mutex \<equiv> is_object osRtxIdMutex"

definition svcRtxMutexGetName :: "ref option \<Rightarrow> rtx \<Rightarrow> u32" where
  "svcRtxMutexGetName mutex_id s = (if \<not> is_mutex s mutex_id then 0 else obj_name s (the mutex_id))"

definition svcRtxMutexAcquire :: "ref option \<Rightarrow> u32 \<Rightarrow> u32 rtx_op" where
  "svcRtxMutexAcquire mutex_id timeout s =
     (case run_curr s of
        None \<Rightarrow> Some (osError, s)
      | Some thread \<Rightarrow>
        if \<not> is_mutex s mutex_id then Some (osErrorParameter, s)
        else let mutex = the mutex_id in
          if lock_count s mutex = 0 then
            let s = s\<lparr>owner_thread := (owner_thread s)(mutex := Some thread),
                      owner_next := (owner_next s)(mutex := mutex_list s thread),
                      owner_prev := (owner_prev s)(mutex := None)\<rparr>;
                s = (case mutex_list s thread of None \<Rightarrow> s
                     | Some m \<Rightarrow> s\<lparr>owner_prev := (owner_prev s)(m := Some mutex)\<rparr>)
            in Some (osOK, s\<lparr>mutex_list := (mutex_list s)(thread := Some mutex),
                             lock_count := (lock_count s)(mutex := 1)\<rparr>)
          else if obj_attr s mutex AND osMutexRecursive \<noteq> 0 \<and> owner_thread s mutex = Some thread then
            if lock_count s mutex = osRtxMutexLockLimit then Some (osErrorResource, s)
            else Some (osOK, s\<lparr>lock_count := (lock_count s)(mutex := lock_count s mutex + 1)\<rparr>)
          else if timeout \<noteq> 0 then
            do {
              s \<leftarrow> (if obj_attr s mutex AND osMutexPrioInherit \<noteq> 0 then
                     do {
                       owner \<leftarrow> owner_thread s mutex;
                       if priority s owner < priority s thread then
                         osRtxThreadListSort owner
                           (s\<lparr>priority := (priority s)(owner := priority s thread)\<rparr>)
                       else Some s
                     }
                   else Some s);
              (entered, s) \<leftarrow> osRtxThreadWaitEnter osRtxThreadWaitingMutex timeout s;
              s \<leftarrow> (if entered then osRtxThreadListPut mutex thread s else Some s);
              Some (osErrorTimeout, s)
            }
          else Some (osErrorResource, s))"

text \<open>Take a mutex out of the list of its owner.\<close>

definition disown :: "ref \<Rightarrow> ref \<Rightarrow> rtx \<Rightarrow> rtx" where
  "disown mutex thread s =
     (let s = (case owner_next s mutex of None \<Rightarrow> s
               | Some n \<Rightarrow> s\<lparr>owner_prev := (owner_prev s)(n := owner_prev s mutex)\<rparr>)
      in case owner_prev s mutex of
           Some p \<Rightarrow> s\<lparr>owner_next := (owner_next s)(p := owner_next s mutex)\<rparr>
         | None \<Rightarrow> s\<lparr>mutex_list := (mutex_list s)(thread := owner_next s mutex)\<rparr>)"

text \<open>The highest priority among \<open>prio\<close> and the threads waiting for the mutexes of a list.\<close>

partial_function (option) waiting_priority :: "rtx \<Rightarrow> ref option \<Rightarrow> int \<Rightarrow> int option" where
  "waiting_priority s mutex prio =
     (case mutex of None \<Rightarrow> Some prio
      | Some m \<Rightarrow> waiting_priority s (owner_next s m)
          (case thread_next s m of
             Some t \<Rightarrow> if prio < priority s t then priority s t else prio
           | None \<Rightarrow> prio))"

definition svcRtxMutexRelease :: "ref option \<Rightarrow> u32 rtx_op" where
  "svcRtxMutexRelease mutex_id s =
     (case run_curr s of
        None \<Rightarrow> Some (osError, s)
      | Some thread \<Rightarrow>
        if \<not> is_mutex s mutex_id then Some (osErrorParameter, s)
        else let mutex = the mutex_id in
          if lock_count s mutex = 0 then Some (osErrorResource, s)
          else if owner_thread s mutex \<noteq> Some thread then Some (osErrorResource, s)
          else let s = s\<lparr>lock_count := (lock_count s)(mutex := lock_count s mutex - 1)\<rparr> in
            if lock_count s mutex = 0 then
              do {
                let s = disown mutex thread s;
                s \<leftarrow> (if obj_attr s mutex AND osMutexPrioInherit \<noteq> 0 then
                       do {
                         prio \<leftarrow> waiting_priority s (mutex_list s thread) (priority_base s thread);
                         Some (s\<lparr>priority := (priority s)(thread := prio)\<rparr>)
                       }
                     else Some s);
                s \<leftarrow> (if thread_next s mutex \<noteq> None then hand_over mutex s else Some s);
                s \<leftarrow> osRtxThreadDispatch None s;
                Some (osOK, s)
              }
            else Some (osOK, s))"

definition svcRtxMutexGetOwner :: "ref option \<Rightarrow> rtx \<Rightarrow> ref option" where
  "svcRtxMutexGetOwner mutex_id s =
     (if \<not> is_mutex s mutex_id then None
      else if lock_count s (the mutex_id) = 0 then None
      else owner_thread s (the mutex_id))"

partial_function (option) unblock_waiters :: "ref \<Rightarrow> u32 \<Rightarrow> rtx \<Rightarrow> rtx option" where
  "unblock_waiters object ret s =
     (if thread_next s object \<noteq> None then
        do {
          (thread, s) \<leftarrow> osRtxThreadListGet object s;
          s \<leftarrow> osRtxThreadWaitExit thread ret False s;
          unblock_waiters object ret s
        }
      else Some s)"

definition svcRtxMutexDelete :: "ref option \<Rightarrow> u32 rtx_op" where
  "svcRtxMutexDelete mutex_id s =
     (if \<not> is_mutex s mutex_id then Some (osErrorParameter, s)
      else do {
        let mutex = the mutex_id;
        s \<leftarrow> (if lock_count s mutex \<noteq> 0 then
               do {
                 thread \<leftarrow> owner_thread s mutex;
                 let s = disown mutex thread s;
                 s \<leftarrow> (if obj_attr s mutex AND osMutexPrioInherit \<noteq> 0 then
                        do {
                          prio \<leftarrow> waiting_priority s (mutex_list s thread) (priority_base s thread);
                          if priority s thread \<noteq> prio
                          then osRtxThreadListSort thread (s\<lparr>priority := (priority s)(thread := prio)\<rparr>)
                          else Some s
                        }
                      else Some s);
                 s \<leftarrow> unblock_waiters mutex osErrorResource s;
                 osRtxThreadDispatch None s
               }
             else Some s);
        s \<leftarrow> free_object (mpi_mutex (mpi_pools s)) mutex
               (s\<lparr>obj_id := (obj_id s)(mutex := osRtxIdInvalid)\<rparr>);
        Some (osOK, s)
      })"

section \<open>Public functions\<close>

definition osMutexNew :: "obj_attr option \<Rightarrow> ref option rtx_op" where
  "osMutexNew attr s = (if irq_mode s then Some (None, s) else svcRtxMutexNew attr s)"

definition osMutexGetName :: "ref option \<Rightarrow> rtx \<Rightarrow> u32" where
  "osMutexGetName mutex_id s = (if irq_mode s then 0 else svcRtxMutexGetName mutex_id s)"

definition osMutexAcquire :: "ref option \<Rightarrow> u32 \<Rightarrow> u32 rtx_op" where
  "osMutexAcquire mutex_id timeout s =
     (if irq_mode s then Some (osErrorISR, s) else svcRtxMutexAcquire mutex_id timeout s)"

definition osMutexRelease :: "ref option \<Rightarrow> u32 rtx_op" where
  "osMutexRelease mutex_id s =
     (if irq_mode s then Some (osErrorISR, s) else svcRtxMutexRelease mutex_id s)"

definition osMutexGetOwner :: "ref option \<Rightarrow> rtx \<Rightarrow> ref option" where
  "osMutexGetOwner mutex_id s = (if irq_mode s then None else svcRtxMutexGetOwner mutex_id s)"

definition osMutexDelete :: "ref option \<Rightarrow> u32 rtx_op" where
  "osMutexDelete mutex_id s =
     (if irq_mode s then Some (osErrorISR, s) else svcRtxMutexDelete mutex_id s)"

end
