(* ===== verification/Rtx_Life.thy ===== *)
theory Rtx_Life
  imports Rtx_Mutex
begin

text \<open>
  Creation and end of threads, the second half of Source/rtx_thread.c, and the public thread
  functions. The address of \<open>osThreadExit\<close> and the initial PSR are not part of the model; the
  saved registers R0 to R3 of a new thread are.
\<close>

section \<open>Creation\<close>

definition no_thread_attr :: thread_attr where
  "no_thread_attr = \<lparr>ta_name = 0, ta_attr_bits = 0, ta_cb_mem = 0, ta_cb_size = 0,
     ta_stack_mem = 0, ta_stack_size = 0, ta_priority = osPriorityNone\<rparr>"

definition thread_attr_or_default :: "thread_attr option \<Rightarrow> thread_attr" where
  "thread_attr_or_default attr = (case attr of None \<Rightarrow> no_thread_attr | Some a \<Rightarrow> a)"

definition effective_priority :: "int \<Rightarrow> int" where
  "effective_priority p = (if p = osPriorityNone then osPriorityNormal else p)"

text \<open>The checks of the attributes and of the stack size.\<close>

definition thread_attr_ok :: "thread_attr \<Rightarrow> bool" where
  "thread_attr_ok a \<longleftrightarrow>
     cb_ok 68 (ta_cb_mem a) (ta_cb_size a)
     \<and> (ta_stack_mem a \<noteq> 0 \<longrightarrow> ta_stack_mem a AND 7 = 0 \<and> ta_stack_size a \<noteq> 0)
     \<and> osPriorityIdle \<le> effective_priority (ta_priority a)
     \<and> effective_priority (ta_priority a) \<le> osPriorityISR
     \<and> (ta_stack_size a \<noteq> 0 \<longrightarrow> ta_stack_size a AND 7 = 0 \<and> 64 + 8 \<le> ta_stack_size a)"

text \<open>
  Stack memory if the caller provides none: from the stack pool when the size is left open and
  the pool is configured, else from the stack memory. Result: the control block (0 when there is
  no stack, the block given back), the stack with its size, and the flags.
\<close>

definition alloc_stack :: "u32 \<Rightarrow> u32 \<Rightarrow> u32 \<Rightarrow> u8 \<Rightarrow> (u32 \<times> u32 \<times> u32 \<times> u8) rtx_op" where
  "alloc_stack cb stack n flags s =
     (if cb \<noteq> 0 \<and> stack = 0 then
        do {
          ((stack, n, flags), s) \<leftarrow>
            (if n = 0 then
               let n = cfg_thread_stack_size (config s) in
               case mpi_stack (mpi_pools s) of
                 Some pool \<Rightarrow>
                   let (stack, s) = osRtxMemoryPoolAlloc (Some pool) s in
                   Some ((stack, n, if stack \<noteq> 0 then flags OR osRtxThreadFlagDefStack else flags), s)
               | None \<Rightarrow>
                   do { (stack, s) \<leftarrow> memory_alloc (mem_stack (mem_pools s)) n 0 s; Some ((stack, n, flags), s) }
             else do { (stack, s) \<leftarrow> memory_alloc (mem_stack (mem_pools s)) n 0 s; Some ((stack, n, flags), s) });
          if stack = 0 then
            do {
              s \<leftarrow> (if flags AND osRtxFlagSystemObject \<noteq> 0
                    then free_cb (mpi_thread (mpi_pools s)) cb s else Some s);
              Some ((0, stack, n, flags OR osRtxFlagSystemMemory), s)
            }
          else Some ((cb, stack, n, flags OR osRtxFlagSystemMemory), s)
        }
      else Some ((cb, stack, n, flags), s))"

text \<open>The magic word at the end of the stack, and the fill pattern up to the first frame.\<close>

definition init_stack :: "u32 \<Rightarrow> u32 \<Rightarrow> rtx \<Rightarrow> rtx" where
  "init_stack stack n s =
     (let w = (memory s)(stack := osRtxStackMagicWord)
      in s\<lparr>memory := (if cfg_flags (config s) AND osRtxConfigStackWatermark \<noteq> 0
            then foldl (\<lambda>w i. w(stack + 4 * of_nat (Suc i) := osRtxStackFillPattern)) w
                   [0..<unat (n div 4 - (16 + 1))]
            else w)\<rparr>)"

definition init_thread :: "ref \<Rightarrow> u8 \<Rightarrow> thread_attr \<Rightarrow> u32 \<Rightarrow> u32 \<Rightarrow> u32 \<Rightarrow> u32 \<Rightarrow> rtx \<Rightarrow> rtx" where
  "init_thread thread flags a stack n func argument s =
     s\<lparr>obj_id := (obj_id s)(thread := osRtxIdThread),
       thread_state := (thread_state s)(thread := osRtxThreadReady),
       obj_flags := (obj_flags s)(thread := flags),
       obj_attr := (obj_attr s)(thread := ucast (ta_attr_bits a)),
       obj_name := (obj_name s)(thread := ta_name a),
       thread_next := (thread_next s)(thread := None),
       thread_prev := (thread_prev s)(thread := None),
       delay_next := (delay_next s)(thread := None),
       delay_prev := (delay_prev s)(thread := None),
       thread_join := (thread_join s)(thread := None),
       delay := (delay s)(thread := 0),
       priority := (priority s)(thread := effective_priority (ta_priority a)),
       priority_base := (priority_base s)(thread := effective_priority (ta_priority a)),
       stack_frame := (stack_frame s)(thread := 0xFD),
       flags_options := (flags_options s)(thread := 0),
       wait_flags := (wait_flags s)(thread := 0),
       thread_flags := (thread_flags s)(thread := 0),
       mutex_list := (mutex_list s)(thread := None),
       stack_mem := (stack_mem s)(thread := stack),
       stack_size := (stack_size s)(thread := n),
       sp := (sp s)(thread := stack + n - 64),
       thread_addr := (thread_addr s)(thread := func),
       regs := (regs s)(thread := (regs s thread)(0 := argument, 1 := 0, 2 := 0, 3 := 0))\<rparr>"

definition svcRtxThreadNew :: "u32 \<Rightarrow> u32 \<Rightarrow> thread_attr option \<Rightarrow> ref option rtx_op" where
  "svcRtxThreadNew func argument attr s =
     (let a = thread_attr_or_default attr in
      if func = 0 \<or> \<not> thread_attr_ok a then Some (None, s)
      else do {
        ((cb, flags), s) \<leftarrow> alloc_cb (mpi_thread (mpi_pools s)) 68 (ta_cb_mem a) s;
        ((cb, stack, n, flags), s) \<leftarrow> alloc_stack cb (ta_stack_mem a) (ta_stack_size a) flags s;
        case ptr cb of
          None \<Rightarrow> Some (None, s)
        | Some thread \<Rightarrow>
          do {
            let s = init_thread thread flags a stack n func argument s;
            let s = init_stack stack n s;
            s \<leftarrow> osRtxThreadDispatch (Some thread)
                   (s\<lparr>post_process := (post_process s)(osRtxIdThread := True)\<rparr>);
            Some (Some thread, s)
          }
      })"

text \<open>The idle thread and, when timers are configured, the timer thread.\<close>

definition osRtxThreadStartup :: "u32 \<Rightarrow> u32 \<Rightarrow> bool rtx_op" where
  "osRtxThreadStartup idle_func timer_func s =
     (do {
        (t, s) \<leftarrow> svcRtxThreadNew idle_func 0 (cfg_idle_attr (config s)) s;
        let s = s\<lparr>idle_thread := t\<rparr>;
        if cfg_timer_mq_mcnt (config s) \<noteq> 0 then
          do {
            (t, s) \<leftarrow> svcRtxThreadNew timer_func 0 (cfg_timer_attr (config s)) s;
            Some (t \<noteq> None, s\<lparr>timer_thread := t\<rparr>)
          }
        else Some (True, s)
      })"

section \<open>End of a thread\<close>

definition osRtxThreadFree :: "ref \<Rightarrow> rtx \<Rightarrow> rtx option" where
  "osRtxThreadFree thread s =
     (do {
        let s = s\<lparr>thread_state := (thread_state s)(thread := osRtxThreadInactive),
                  obj_id := (obj_id s)(thread := osRtxIdInvalid)\<rparr>;
        s \<leftarrow> (if obj_flags s thread AND osRtxFlagSystemMemory \<noteq> 0 then
               if obj_flags s thread AND osRtxThreadFlagDefStack \<noteq> 0
               then Some (snd (osRtxMemoryPoolFree (mpi_stack (mpi_pools s)) (stack_mem s thread) s))
               else memory_free (mem_stack (mem_pools s)) (stack_mem s thread) s
             else Some s);
        free_object (mpi_thread (mpi_pools s)) thread s
      })"

definition svcRtxThreadDetach :: "ref option \<Rightarrow> u32 rtx_op" where
  "svcRtxThreadDetach thread_id s =
     (if \<not> is_thread s thread_id then Some (osErrorParameter, s)
      else let thread = the thread_id in
        if obj_attr s thread AND osThreadJoinable = 0 then Some (osErrorResource, s)
        else if thread_state s thread = osRtxThreadTerminated then
          do { s \<leftarrow> osRtxThreadFree thread (osRtxThreadListUnlink thread s); Some (osOK, s) }
        else Some (osOK, s\<lparr>obj_attr := (obj_attr s)(thread := obj_attr s thread AND NOT osThreadJoinable)\<rparr>))"

definition svcRtxThreadJoin :: "ref option \<Rightarrow> u32 rtx_op" where
  "svcRtxThreadJoin thread_id s =
     (if \<not> is_thread s thread_id then Some (osErrorParameter, s)
      else let thread = the thread_id in
        if obj_attr s thread AND osThreadJoinable = 0 then Some (osErrorResource, s)
        else if thread_state s thread = osRtxThreadRunning then Some (osErrorResource, s)
        else if thread_state s thread = osRtxThreadTerminated then
          do { s \<leftarrow> osRtxThreadFree thread (osRtxThreadListUnlink thread s); Some (osOK, s) }
        else do {
          (entered, s) \<leftarrow> osRtxThreadWaitEnter osRtxThreadWaitingJoin osWaitForever s;
          Some (osErrorResource,
                if entered then s\<lparr>thread_join := (thread_join s)(thread := run_curr s)\<rparr> else s)
        })"

text \<open>
  The steps that exit and terminate share: mutexes released and the joining thread woken; then
  the thread freed, or kept in the terminate list to be joined. \<open>psp\<close> is the process stack
  pointer.
\<close>

definition release_holds :: "ref \<Rightarrow> rtx \<Rightarrow> rtx option" where
  "release_holds thread s =
     (do {
        s \<leftarrow> osRtxMutexOwnerRelease (mutex_list s thread) s;
        case thread_join s thread of
          Some j \<Rightarrow> osRtxThreadWaitExit j osOK False s
        | None \<Rightarrow> Some s
      })"

definition leave_running :: "ref \<Rightarrow> u32 \<Rightarrow> rtx \<Rightarrow> rtx option" where
  "leave_running thread psp s =
     (do {
        (next, s) \<leftarrow> osRtxThreadListGet ReadyList (s\<lparr>sp := (sp s)(thread := psp)\<rparr>);
        Some ((osRtxThreadSwitch next s)\<lparr>run_curr := None\<rparr>)
      })"

definition bury :: "ref \<Rightarrow> rtx \<Rightarrow> rtx option" where
  "bury thread s =
     (if obj_attr s thread AND osThreadJoinable = 0 \<or> thread_join s thread \<noteq> None
      then osRtxThreadFree thread s
      else
        let s = s\<lparr>thread_state := (thread_state s)(thread := osRtxThreadTerminated),
                  thread_prev := (thread_prev s)(thread := None),
                  thread_next := (thread_next s)(thread := terminate_list s)\<rparr>;
            s = (case terminate_list s of None \<Rightarrow> s
                 | Some t \<Rightarrow> s\<lparr>thread_prev := (thread_prev s)(t := Some thread)\<rparr>)
        in Some (s\<lparr>terminate_list := Some thread\<rparr>))"

definition svcRtxThreadExit :: "u32 \<Rightarrow> rtx \<Rightarrow> rtx option" where
  "svcRtxThreadExit psp s =
     (if kernel_state s \<noteq> osRtxKernelRunning \<or> thread_next s ReadyList = None then Some s
      else do {
        thread \<leftarrow> run_curr s;
        s \<leftarrow> release_holds thread s;
        s \<leftarrow> leave_running thread psp s;
        bury thread s
      })"

definition svcRtxThreadTerminate :: "ref option \<Rightarrow> u32 \<Rightarrow> u32 rtx_op" where
  "svcRtxThreadTerminate thread_id psp s =
     (if \<not> is_thread s thread_id then Some (osErrorParameter, s)
      else let thread = the thread_id; (status, s) = leave_lists thread s in
        if status = osOK then
          do {
            s \<leftarrow> release_holds thread s;
            s \<leftarrow> (if thread_state s thread = osRtxThreadRunning then leave_running thread psp s
                  else osRtxThreadDispatch None s);
            s \<leftarrow> bury thread s;
            Some (status, s)
          }
        else Some (status, s))"

section \<open>Public functions\<close>

definition osThreadNew :: "u32 \<Rightarrow> u32 \<Rightarrow> thread_attr option \<Rightarrow> ref option rtx_op" where
  "osThreadNew func argument attr s =
     (if irq_mode s then Some (None, s) else svcRtxThreadNew func argument attr s)"

definition osThreadGetName :: "ref option \<Rightarrow> rtx \<Rightarrow> u32" where
  "osThreadGetName thread_id s = (if irq_mode s then 0 else svcRtxThreadGetName thread_id s)"

definition osThreadGetId :: "rtx \<Rightarrow> ref option" where
  "osThreadGetId s = svcRtxThreadGetId s"

definition osThreadGetState :: "ref option \<Rightarrow> rtx \<Rightarrow> int" where
  "osThreadGetState thread_id s = (if irq_mode s then -1 else svcRtxThreadGetState thread_id s)"

definition osThreadGetStackSize :: "ref option \<Rightarrow> rtx \<Rightarrow> u32" where
  "osThreadGetStackSize thread_id s = (if irq_mode s then 0 else svcRtxThreadGetStackSize thread_id s)"

definition osThreadGetStackSpace :: "ref option \<Rightarrow> rtx \<Rightarrow> u32" where
  "osThreadGetStackSpace thread_id s = (if irq_mode s then 0 else svcRtxThreadGetStackSpace thread_id s)"

definition osThreadSetPriority :: "ref option \<Rightarrow> int \<Rightarrow> u32 rtx_op" where
  "osThreadSetPriority thread_id prio s =
     (if irq_mode s then Some (osErrorISR, s) else svcRtxThreadSetPriority thread_id prio s)"

definition osThreadGetPriority :: "ref option \<Rightarrow> rtx \<Rightarrow> int" where
  "osThreadGetPriority thread_id s =
     (if irq_mode s then osPriorityError else svcRtxThreadGetPriority thread_id s)"

definition osThreadYield :: "u32 rtx_op" where
  "osThreadYield s = (if irq_mode s then Some (osErrorISR, s) else svcRtxThreadYield s)"

definition osThreadSuspend :: "ref option \<Rightarrow> u32 rtx_op" where
  "osThreadSuspend thread_id s =
     (if irq_mode s then Some (osErrorISR, s) else svcRtxThreadSuspend thread_id s)"

definition osThreadResume :: "ref option \<Rightarrow> u32 rtx_op" where
  "osThreadResume thread_id s =
     (if irq_mode s then Some (osErrorISR, s) else svcRtxThreadResume thread_id s)"

definition osThreadDetach :: "ref option \<Rightarrow> u32 rtx_op" where
  "osThreadDetach thread_id s =
     (if irq_mode s then Some (osErrorISR, s) else svcRtxThreadDetach thread_id s)"

definition osThreadJoin :: "ref option \<Rightarrow> u32 rtx_op" where
  "osThreadJoin thread_id s =
     (if irq_mode s then Some (osErrorISR, s) else svcRtxThreadJoin thread_id s)"

definition osThreadTerminate :: "ref option \<Rightarrow> u32 \<Rightarrow> u32 rtx_op" where
  "osThreadTerminate thread_id psp s =
     (if irq_mode s then Some (osErrorISR, s) else svcRtxThreadTerminate thread_id psp s)"

definition osThreadGetCount :: "rtx \<Rightarrow> u32 option" where
  "osThreadGetCount s = (if irq_mode s then Some 0 else svcRtxThreadGetCount s)"

definition osThreadEnumerate :: "u32 \<Rightarrow> u32 \<Rightarrow> rtx \<Rightarrow> ref option list option" where
  "osThreadEnumerate thread_array array_items s =
     (if irq_mode s then Some [] else svcRtxThreadEnumerate thread_array array_items s)"

definition osThreadFlagsSet :: "ref option \<Rightarrow> u32 \<Rightarrow> u32 rtx_op" where
  "osThreadFlagsSet thread_id flags s =
     (if irq_mode s then Some (isrRtxThreadFlagsSet thread_id flags s)
      else svcRtxThreadFlagsSet thread_id flags s)"

definition osThreadFlagsClear :: "u32 \<Rightarrow> rtx \<Rightarrow> u32 \<times> rtx" where
  "osThreadFlagsClear flags s =
     (if irq_mode s then (osErrorISR, s) else svcRtxThreadFlagsClear flags s)"

definition osThreadFlagsGet :: "rtx \<Rightarrow> u32" where
  "osThreadFlagsGet s = (if irq_mode s then 0 else svcRtxThreadFlagsGet s)"

definition osThreadFlagsWait :: "u32 \<Rightarrow> u32 \<Rightarrow> u32 \<Rightarrow> u32 rtx_op" where
  "osThreadFlagsWait flags options timeout s =
     (if irq_mode s then Some (osErrorISR, s) else svcRtxThreadFlagsWait flags options timeout s)"

end
