(* ===== verification/Rtx_Semaphore.thy ===== *)
theory Rtx_Semaphore
  imports Rtx_Thread
begin

text \<open>Semaphores, Source/rtx_semaphore.c.\<close>

section \<open>Operations\<close>

definition SemaphoreTokenDecrement :: "ref \<Rightarrow> rtx \<Rightarrow> bool \<times> rtx" where
  "SemaphoreTokenDecrement sem s =
     (if tokens s sem \<noteq> 0 then (True, s\<lparr>tokens := (tokens s)(sem := tokens s sem - 1)\<rparr>)
      else (False, s))"

definition SemaphoreTokenIncrement :: "ref \<Rightarrow> rtx \<Rightarrow> bool \<times> rtx" where
  "SemaphoreTokenIncrement sem s =
     (if tokens s sem < max_tokens s sem
      then (True, s\<lparr>tokens := (tokens s)(sem := tokens s sem + 1)\<rparr>)
      else (False, s))"

definition osRtxSemaphorePostProcess :: "ref \<Rightarrow> rtx \<Rightarrow> rtx option" where
  "osRtxSemaphorePostProcess sem s =
     (if thread_next s sem \<noteq> None then
        let (ok, s) = SemaphoreTokenDecrement sem s in
        if ok then
          do {
            (thread, s) \<leftarrow> osRtxThreadListGet sem s;
            osRtxThreadWaitExit thread osOK False s
          }
        else Some s
      else Some s)"

definition svcRtxSemaphoreNew :: "u32 \<Rightarrow> u32 \<Rightarrow> obj_attr option \<Rightarrow> ref option rtx_op" where
  "svcRtxSemaphoreNew max_count initial_count attr s =
     (if max_count = 0 \<or> osRtxSemaphoreTokenLimit < max_count \<or> max_count < initial_count
      then Some (None, s)
      else let a = attr_or_default attr in
      if \<not> cb_ok 16 (oa_cb_mem a) (oa_cb_size a) then Some (None, s)
      else do {
        ((cb, flags), s) \<leftarrow> alloc_cb (mpi_semaphore (mpi_pools s)) 16 (oa_cb_mem a) s;
        case ptr cb of
          None \<Rightarrow> Some (None, s)
        | Some sem \<Rightarrow>
          Some (Some sem, s\<lparr>obj_id := (obj_id s)(sem := osRtxIdSemaphore),
                            obj_flags := (obj_flags s)(sem := flags),
                            obj_name := (obj_name s)(sem := oa_name a),
                            thread_next := (thread_next s)(sem := None),
                            tokens := (tokens s)(sem := ucast initial_count),
                            max_tokens := (max_tokens s)(sem := ucast max_count),
                            post_process := (post_process s)(osRtxIdSemaphore := True)\<rparr>)
      })"

abbreviation is_semaphore :: "rtx \<Rightarrow> ref option \<Rightarrow> bool" where
  "is_semaphore \<equiv> is_object osRtxIdSemaphore"

definition svcRtxSemaphoreGetName :: "ref option \<Rightarrow> rtx \<Rightarrow> u32" where
  "svcRtxSemaphoreGetName semaphore_id s =
     (if \<not> is_semaphore s semaphore_id then 0 else obj_name s (the semaphore_id))"

definition svcRtxSemaphoreAcquire :: "ref option \<Rightarrow> u32 \<Rightarrow> u32 rtx_op" where
  "svcRtxSemaphoreAcquire semaphore_id timeout s =
     (if \<not> is_semaphore s semaphore_id then Some (osErrorParameter, s)
      else let sem = the semaphore_id; (ok, s) = SemaphoreTokenDecrement sem s in
        if ok then Some (osOK, s)
        else if timeout \<noteq> 0 then
          do {
            (entered, s) \<leftarrow> osRtxThreadWaitEnter osRtxThreadWaitingSemaphore timeout s;
            s \<leftarrow> (if entered
                  then do { thread \<leftarrow> run_curr s; osRtxThreadListPut sem thread s }
                  else Some s);
            Some (osErrorTimeout, s)
          }
        else Some (osErrorResource, s))"

definition svcRtxSemaphoreRelease :: "ref option \<Rightarrow> u32 rtx_op" where
  "svcRtxSemaphoreRelease semaphore_id s =
     (if \<not> is_semaphore s semaphore_id then Some (osErrorParameter, s)
      else let sem = the semaphore_id in
        if thread_next s sem \<noteq> None then
          do {
            (thread, s) \<leftarrow> osRtxThreadListGet sem s;
            s \<leftarrow> osRtxThreadWaitExit thread osOK True s;
            Some (osOK, s)
          }
        else let (ok, s) = SemaphoreTokenIncrement sem s in
          if ok then Some (osOK, s) else Some (osErrorResource, s))"

definition svcRtxSemaphoreGetCount :: "ref option \<Rightarrow> rtx \<Rightarrow> u32" where
  "svcRtxSemaphoreGetCount semaphore_id s =
     (if \<not> is_semaphore s semaphore_id then 0 else ucast (tokens s (the semaphore_id)))"

definition svcRtxSemaphoreDelete :: "ref option \<Rightarrow> u32 rtx_op" where
  "svcRtxSemaphoreDelete semaphore_id s =
     (if \<not> is_semaphore s semaphore_id then Some (osErrorParameter, s)
      else do {
        let sem = the semaphore_id;
        s \<leftarrow> unblock_all sem osErrorResource s;
        s \<leftarrow> free_object (mpi_semaphore (mpi_pools s)) sem
               (s\<lparr>obj_id := (obj_id s)(sem := osRtxIdInvalid)\<rparr>);
        Some (osOK, s)
      })"

text \<open>The calls from an interrupt never wait, and leave waking a thread to PendSV.\<close>

definition isrRtxSemaphoreAcquire :: "ref option \<Rightarrow> u32 \<Rightarrow> rtx \<Rightarrow> u32 \<times> rtx" where
  "isrRtxSemaphoreAcquire semaphore_id timeout s =
     (if \<not> is_semaphore s semaphore_id \<or> timeout \<noteq> 0 then (osErrorParameter, s)
      else let (ok, s) = SemaphoreTokenDecrement (the semaphore_id) s in
        (if ok then osOK else osErrorResource, s))"

definition isrRtxSemaphoreRelease :: "ref option \<Rightarrow> rtx \<Rightarrow> u32 \<times> rtx" where
  "isrRtxSemaphoreRelease semaphore_id s =
     (if \<not> is_semaphore s semaphore_id then (osErrorParameter, s)
      else let sem = the semaphore_id; (ok, s) = SemaphoreTokenIncrement sem s in
        if ok then (osOK, osRtxPostProcess sem s) else (osErrorResource, s))"

section \<open>Public functions\<close>

definition osSemaphoreNew :: "u32 \<Rightarrow> u32 \<Rightarrow> obj_attr option \<Rightarrow> ref option rtx_op" where
  "osSemaphoreNew max_count initial_count attr s =
     (if irq_mode s then Some (None, s) else svcRtxSemaphoreNew max_count initial_count attr s)"

definition osSemaphoreGetName :: "ref option \<Rightarrow> rtx \<Rightarrow> u32" where
  "osSemaphoreGetName semaphore_id s =
     (if irq_mode s then 0 else svcRtxSemaphoreGetName semaphore_id s)"

definition osSemaphoreAcquire :: "ref option \<Rightarrow> u32 \<Rightarrow> u32 rtx_op" where
  "osSemaphoreAcquire semaphore_id timeout s =
     (if irq_mode s then Some (isrRtxSemaphoreAcquire semaphore_id timeout s)
      else svcRtxSemaphoreAcquire semaphore_id timeout s)"

definition osSemaphoreRelease :: "ref option \<Rightarrow> u32 rtx_op" where
  "osSemaphoreRelease semaphore_id s =
     (if irq_mode s then Some (isrRtxSemaphoreRelease semaphore_id s)
      else svcRtxSemaphoreRelease semaphore_id s)"

definition osSemaphoreGetCount :: "ref option \<Rightarrow> rtx \<Rightarrow> u32" where
  "osSemaphoreGetCount semaphore_id s = svcRtxSemaphoreGetCount semaphore_id s"

definition osSemaphoreDelete :: "ref option \<Rightarrow> u32 rtx_op" where
  "osSemaphoreDelete semaphore_id s =
     (if irq_mode s then Some (osErrorISR, s) else svcRtxSemaphoreDelete semaphore_id s)"

end
