(* ===== verification/Rtx_Evflags.thy ===== *)
theory Rtx_Evflags
  imports Rtx_Thread
begin

text \<open>Event flags, Source/rtx_evflags.c.\<close>

section \<open>Operations\<close>

definition EventFlagsSet :: "ref \<Rightarrow> u32 \<Rightarrow> rtx \<Rightarrow> u32 \<times> rtx" where
  "EventFlagsSet ef flags s =
     (let f = event_flags s ef OR flags in (f, s\<lparr>event_flags := (event_flags s)(ef := f)\<rparr>))"

definition EventFlagsClear :: "ref \<Rightarrow> u32 \<Rightarrow> rtx \<Rightarrow> u32 \<times> rtx" where
  "EventFlagsClear ef flags s =
     (event_flags s ef,
      s\<lparr>event_flags := (event_flags s)(ef := event_flags s ef AND NOT flags)\<rparr>)"

definition EventFlagsCheck :: "ref \<Rightarrow> u32 \<Rightarrow> u32 \<Rightarrow> rtx \<Rightarrow> u32 \<times> rtx" where
  "EventFlagsCheck ef flags options s =
     (let f = event_flags s ef;
          missing = (options AND osFlagsWaitAll \<noteq> 0 \<and> f AND flags \<noteq> flags
                   \<or> options AND osFlagsWaitAll = 0 \<and> f AND flags = 0)
      in if options AND osFlagsNoClear = 0 then
           if missing then (0, s)
           else (f, s\<lparr>event_flags := (event_flags s)(ef := f AND NOT flags)\<rparr>)
         else (if missing then 0 else f, s))"

text \<open>
  The walk over the waiting threads after flags were set: each is checked against the flags left
  by those before it. \<open>result\<close> is the return value of the set call.
\<close>

partial_function (option) wake_flags :: "ref \<Rightarrow> ref option \<Rightarrow> u32 \<Rightarrow> u32 rtx_op" where
  "wake_flags ef p result s =
     (case p of
        None \<Rightarrow> Some (result, s)
      | Some thread \<Rightarrow>
        let next = thread_next s thread;
            options = ucast (flags_options s thread);
            (f, s) = EventFlagsCheck ef (wait_flags s thread) options s
        in if f \<noteq> 0 then
             do {
               let result = (if options AND osFlagsNoClear = 0 then f AND NOT (wait_flags s thread) else f);
               s \<leftarrow> osRtxThreadWaitExit thread f False (osRtxThreadListRemove thread s);
               wake_flags ef next result s
             }
           else wake_flags ef next result s)"

text \<open>The same walk, without a result.\<close>

definition osRtxEventFlagsPostProcess :: "ref \<Rightarrow> rtx \<Rightarrow> rtx option" where
  "osRtxEventFlagsPostProcess ef s =
     (do { (_, s) \<leftarrow> wake_flags ef (thread_next s ef) 0 s; Some s })"

definition svcRtxEventFlagsNew :: "obj_attr option \<Rightarrow> ref option rtx_op" where
  "svcRtxEventFlagsNew attr s =
     (let a = attr_or_default attr in
      if \<not> cb_ok 16 (oa_cb_mem a) (oa_cb_size a) then Some (None, s)
      else do {
        ((cb, flags), s) \<leftarrow> alloc_cb (mpi_event_flags (mpi_pools s)) 16 (oa_cb_mem a) s;
        case ptr cb of
          None \<Rightarrow> Some (None, s)
        | Some ef \<Rightarrow>
          Some (Some ef, s\<lparr>obj_id := (obj_id s)(ef := osRtxIdEventFlags),
                           obj_flags := (obj_flags s)(ef := flags),
                           obj_name := (obj_name s)(ef := oa_name a),
                           thread_next := (thread_next s)(ef := None),
                           event_flags := (event_flags s)(ef := 0),
                           post_process := (post_process s)(osRtxIdEventFlags := True)\<rparr>)
      })"

abbreviation is_event_flags :: "rtx \<Rightarrow> ref option \<Rightarrow> bool" where
  "is_event_flags \<equiv> is_object osRtxIdEventFlags"

definition svcRtxEventFlagsGetName :: "ref option \<Rightarrow> rtx \<Rightarrow> u32" where
  "svcRtxEventFlagsGetName ef_id s = (if \<not> is_event_flags s ef_id then 0 else obj_name s (the ef_id))"

definition svcRtxEventFlagsSet :: "ref option \<Rightarrow> u32 \<Rightarrow> u32 rtx_op" where
  "svcRtxEventFlagsSet ef_id flags s =
     (if \<not> is_event_flags s ef_id \<or> flags AND NOT valid_flags \<noteq> 0 then Some (osErrorParameter, s)
      else do {
        let ef = the ef_id;
        let (f, s) = EventFlagsSet ef flags s;
        (result, s) \<leftarrow> wake_flags ef (thread_next s ef) f s;
        s \<leftarrow> osRtxThreadDispatch None s;
        Some (result, s)
      })"

definition svcRtxEventFlagsClear :: "ref option \<Rightarrow> u32 \<Rightarrow> rtx \<Rightarrow> u32 \<times> rtx" where
  "svcRtxEventFlagsClear ef_id flags s =
     (if \<not> is_event_flags s ef_id \<or> flags AND NOT valid_flags \<noteq> 0 then (osErrorParameter, s)
      else EventFlagsClear (the ef_id) flags s)"

definition svcRtxEventFlagsGet :: "ref option \<Rightarrow> rtx \<Rightarrow> u32" where
  "svcRtxEventFlagsGet ef_id s =
     (if \<not> is_event_flags s ef_id then 0 else event_flags s (the ef_id))"

definition svcRtxEventFlagsWait :: "ref option \<Rightarrow> u32 \<Rightarrow> u32 \<Rightarrow> u32 \<Rightarrow> u32 rtx_op" where
  "svcRtxEventFlagsWait ef_id flags options timeout s =
     (if \<not> is_event_flags s ef_id \<or> flags AND NOT valid_flags \<noteq> 0 then Some (osErrorParameter, s)
      else let ef = the ef_id; (f, s) = EventFlagsCheck ef flags options s in
        if f \<noteq> 0 then Some (f, s)
        else if timeout \<noteq> 0 then
          do {
            (entered, s) \<leftarrow> osRtxThreadWaitEnter osRtxThreadWaitingEventFlags timeout s;
            s \<leftarrow> (if entered then
                   do {
                     thread \<leftarrow> run_curr s;
                     s \<leftarrow> osRtxThreadListPut ef thread s;
                     Some (s\<lparr>wait_flags := (wait_flags s)(thread := flags),
                             flags_options := (flags_options s)(thread := ucast options)\<rparr>)
                   }
                  else Some s);
            Some (osErrorTimeout, s)
          }
        else Some (osErrorResource, s))"

definition svcRtxEventFlagsDelete :: "ref option \<Rightarrow> u32 rtx_op" where
  "svcRtxEventFlagsDelete ef_id s =
     (if \<not> is_event_flags s ef_id then Some (osErrorParameter, s)
      else do {
        let ef = the ef_id;
        s \<leftarrow> unblock_all ef osErrorResource s;
        s \<leftarrow> free_object (mpi_event_flags (mpi_pools s)) ef
               (s\<lparr>obj_id := (obj_id s)(ef := osRtxIdInvalid)\<rparr>);
        Some (osOK, s)
      })"

definition isrRtxEventFlagsSet :: "ref option \<Rightarrow> u32 \<Rightarrow> rtx \<Rightarrow> u32 \<times> rtx" where
  "isrRtxEventFlagsSet ef_id flags s =
     (if \<not> is_event_flags s ef_id \<or> flags AND NOT valid_flags \<noteq> 0 then (osErrorParameter, s)
      else let (f, s) = EventFlagsSet (the ef_id) flags s in (f, osRtxPostProcess (the ef_id) s))"

definition isrRtxEventFlagsWait :: "ref option \<Rightarrow> u32 \<Rightarrow> u32 \<Rightarrow> u32 \<Rightarrow> rtx \<Rightarrow> u32 \<times> rtx" where
  "isrRtxEventFlagsWait ef_id flags options timeout s =
     (if \<not> is_event_flags s ef_id \<or> timeout \<noteq> 0 \<or> flags AND NOT valid_flags \<noteq> 0
      then (osErrorParameter, s)
      else let (f, s) = EventFlagsCheck (the ef_id) flags options s
        in (if f \<noteq> 0 then f else osErrorResource, s))"

section \<open>Public functions\<close>

definition osEventFlagsNew :: "obj_attr option \<Rightarrow> ref option rtx_op" where
  "osEventFlagsNew attr s = (if irq_mode s then Some (None, s) else svcRtxEventFlagsNew attr s)"

definition osEventFlagsGetName :: "ref option \<Rightarrow> rtx \<Rightarrow> u32" where
  "osEventFlagsGetName ef_id s = (if irq_mode s then 0 else svcRtxEventFlagsGetName ef_id s)"

definition osEventFlagsSet :: "ref option \<Rightarrow> u32 \<Rightarrow> u32 rtx_op" where
  "osEventFlagsSet ef_id flags s =
     (if irq_mode s then Some (isrRtxEventFlagsSet ef_id flags s) else svcRtxEventFlagsSet ef_id flags s)"

definition osEventFlagsClear :: "ref option \<Rightarrow> u32 \<Rightarrow> rtx \<Rightarrow> u32 \<times> rtx" where
  "osEventFlagsClear ef_id flags s = svcRtxEventFlagsClear ef_id flags s"

definition osEventFlagsGet :: "ref option \<Rightarrow> rtx \<Rightarrow> u32" where
  "osEventFlagsGet ef_id s = svcRtxEventFlagsGet ef_id s"

definition osEventFlagsWait :: "ref option \<Rightarrow> u32 \<Rightarrow> u32 \<Rightarrow> u32 \<Rightarrow> u32 rtx_op" where
  "osEventFlagsWait ef_id flags options timeout s =
     (if irq_mode s then Some (isrRtxEventFlagsWait ef_id flags options timeout s)
      else svcRtxEventFlagsWait ef_id flags options timeout s)"

definition osEventFlagsDelete :: "ref option \<Rightarrow> u32 rtx_op" where
  "osEventFlagsDelete ef_id s =
     (if irq_mode s then Some (osErrorISR, s) else svcRtxEventFlagsDelete ef_id s)"

end
