(* ===== verification/Rtx_Mempool.thy ===== *)
theory Rtx_Mempool
  imports Rtx_Thread
begin

text \<open>The memory pool objects of Source/rtx_mempool.c: pools of blocks on which threads can wait.\<close>

section \<open>Operations\<close>

text \<open>Give a free block to the first waiting thread, if there are both.\<close>

definition serve_block :: "ref \<Rightarrow> bool \<Rightarrow> rtx \<Rightarrow> rtx option" where
  "serve_block mp dispatch s =
     (if thread_next s mp \<noteq> None then
        let (block, s) = osRtxMemoryPoolAlloc (Some mp) s in
        if block \<noteq> 0 then
          do {
            (thread, s) \<leftarrow> osRtxThreadListGet mp s;
            osRtxThreadWaitExit thread block dispatch s
          }
        else Some s
      else Some s)"

definition osRtxMemoryPoolPostProcess :: "ref \<Rightarrow> rtx \<Rightarrow> rtx option" where
  "osRtxMemoryPoolPostProcess mp s = serve_block mp False s"

definition svcRtxMemoryPoolNew :: "u32 \<Rightarrow> u32 \<Rightarrow> obj_attr option \<Rightarrow> ref option rtx_op" where
  "svcRtxMemoryPoolNew block_count bsize attr s =
     (if block_count = 0 \<or> bsize = 0 then Some (None, s)
      else let b_count = block_count; b_size = (bsize + 3) AND NOT 3 in
      if product_too_large b_count b_size then Some (None, s)
      else let n = b_count * b_size; a = attr_or_default attr in
      if \<not> cb_ok 36 (oa_cb_mem a) (oa_cb_size a) \<or> \<not> data_ok n a then Some (None, s)
      else do {
        let pool = mpi_memory_pool (mpi_pools s);
        ((cb, flags), s) \<leftarrow> alloc_cb pool 36 (oa_cb_mem a) s;
        ((cb, data, flags), s) \<leftarrow> alloc_data pool (mem_mp_data (mem_pools s)) n (oa_data_mem a) cb flags s;
        case ptr cb of
          None \<Rightarrow> Some (None, s)
        | Some mp \<Rightarrow>
          let (_, s) = osRtxMemoryPoolInit (Some mp) b_count b_size data
                (s\<lparr>obj_id := (obj_id s)(mp := osRtxIdMemoryPool),
                   obj_flags := (obj_flags s)(mp := flags),
                   obj_name := (obj_name s)(mp := oa_name a),
                   thread_next := (thread_next s)(mp := None)\<rparr>)
          in Some (Some mp, s\<lparr>post_process := (post_process s)(osRtxIdMemoryPool := True)\<rparr>)
      })"

abbreviation is_memory_pool :: "rtx \<Rightarrow> ref option \<Rightarrow> bool" where
  "is_memory_pool \<equiv> is_object osRtxIdMemoryPool"

definition svcRtxMemoryPoolGetName :: "ref option \<Rightarrow> rtx \<Rightarrow> u32" where
  "svcRtxMemoryPoolGetName mp_id s = (if \<not> is_memory_pool s mp_id then 0 else obj_name s (the mp_id))"

definition svcRtxMemoryPoolAlloc :: "ref option \<Rightarrow> u32 \<Rightarrow> u32 rtx_op" where
  "svcRtxMemoryPoolAlloc mp_id timeout s =
     (if \<not> is_memory_pool s mp_id then Some (0, s)
      else let mp = the mp_id; (block, s) = osRtxMemoryPoolAlloc (Some mp) s in
        if block \<noteq> 0 then Some (block, s)
        else if timeout \<noteq> 0 then
          do {
            (entered, s) \<leftarrow> osRtxThreadWaitEnter osRtxThreadWaitingMemoryPool timeout s;
            s \<leftarrow> (if entered
                  then do { thread \<leftarrow> run_curr s; osRtxThreadListPut mp thread s }
                  else Some s);
            Some (block, s)
          }
        else Some (block, s))"

definition svcRtxMemoryPoolFree :: "ref option \<Rightarrow> u32 \<Rightarrow> u32 rtx_op" where
  "svcRtxMemoryPoolFree mp_id block s =
     (if \<not> is_memory_pool s mp_id then Some (osErrorParameter, s)
      else let mp = the mp_id; (status, s) = osRtxMemoryPoolFree (Some mp) block s in
        if status = osOK then do { s \<leftarrow> serve_block mp True s; Some (status, s) }
        else Some (status, s))"

definition svcRtxMemoryPoolGetCapacity :: "ref option \<Rightarrow> rtx \<Rightarrow> u32" where
  "svcRtxMemoryPoolGetCapacity mp_id s =
     (if \<not> is_memory_pool s mp_id then 0 else max_blocks s (the mp_id))"

definition svcRtxMemoryPoolGetBlockSize :: "ref option \<Rightarrow> rtx \<Rightarrow> u32" where
  "svcRtxMemoryPoolGetBlockSize mp_id s =
     (if \<not> is_memory_pool s mp_id then 0 else block_size s (the mp_id))"

definition svcRtxMemoryPoolGetCount :: "ref option \<Rightarrow> rtx \<Rightarrow> u32" where
  "svcRtxMemoryPoolGetCount mp_id s =
     (if \<not> is_memory_pool s mp_id then 0 else used_blocks s (the mp_id))"

definition svcRtxMemoryPoolGetSpace :: "ref option \<Rightarrow> rtx \<Rightarrow> u32" where
  "svcRtxMemoryPoolGetSpace mp_id s =
     (if \<not> is_memory_pool s mp_id then 0 else max_blocks s (the mp_id) - used_blocks s (the mp_id))"

text \<open>Free data memory that the kernel allocated.\<close>

definition free_data :: "u32 \<Rightarrow> ref \<Rightarrow> rtx \<Rightarrow> rtx option" where
  "free_data pool object s =
     (if obj_flags s object AND osRtxFlagSystemMemory \<noteq> 0
      then memory_free pool (block_base s object) s else Some s)"

definition svcRtxMemoryPoolDelete :: "ref option \<Rightarrow> u32 rtx_op" where
  "svcRtxMemoryPoolDelete mp_id s =
     (if \<not> is_memory_pool s mp_id then Some (osErrorParameter, s)
      else do {
        let mp = the mp_id;
        s \<leftarrow> unblock_all mp 0 s;
        s \<leftarrow> free_data (mem_mp_data (mem_pools s)) mp
               (s\<lparr>obj_id := (obj_id s)(mp := osRtxIdInvalid)\<rparr>);
        s \<leftarrow> free_object (mpi_memory_pool (mpi_pools s)) mp s;
        Some (osOK, s)
      })"

definition isrRtxMemoryPoolAlloc :: "ref option \<Rightarrow> u32 \<Rightarrow> rtx \<Rightarrow> u32 \<times> rtx" where
  "isrRtxMemoryPoolAlloc mp_id timeout s =
     (if \<not> is_memory_pool s mp_id \<or> timeout \<noteq> 0 then (0, s)
      else osRtxMemoryPoolAlloc (Some (the mp_id)) s)"

definition isrRtxMemoryPoolFree :: "ref option \<Rightarrow> u32 \<Rightarrow> rtx \<Rightarrow> u32 \<times> rtx" where
  "isrRtxMemoryPoolFree mp_id block s =
     (if \<not> is_memory_pool s mp_id then (osErrorParameter, s)
      else let (status, s) = osRtxMemoryPoolFree (Some (the mp_id)) block s in
        (status, if status = osOK then osRtxPostProcess (the mp_id) s else s))"

section \<open>Public functions\<close>

definition osMemoryPoolNew :: "u32 \<Rightarrow> u32 \<Rightarrow> obj_attr option \<Rightarrow> ref option rtx_op" where
  "osMemoryPoolNew block_count bsize attr s =
     (if irq_mode s then Some (None, s) else svcRtxMemoryPoolNew block_count bsize attr s)"

definition osMemoryPoolGetName :: "ref option \<Rightarrow> rtx \<Rightarrow> u32" where
  "osMemoryPoolGetName mp_id s = (if irq_mode s then 0 else svcRtxMemoryPoolGetName mp_id s)"

definition osMemoryPoolAlloc :: "ref option \<Rightarrow> u32 \<Rightarrow> u32 rtx_op" where
  "osMemoryPoolAlloc mp_id timeout s =
     (if irq_mode s then Some (isrRtxMemoryPoolAlloc mp_id timeout s)
      else svcRtxMemoryPoolAlloc mp_id timeout s)"

definition osMemoryPoolFree :: "ref option \<Rightarrow> u32 \<Rightarrow> u32 rtx_op" where
  "osMemoryPoolFree mp_id block s =
     (if irq_mode s then Some (isrRtxMemoryPoolFree mp_id block s)
      else svcRtxMemoryPoolFree mp_id block s)"

definition osMemoryPoolGetCapacity :: "ref option \<Rightarrow> rtx \<Rightarrow> u32" where
  "osMemoryPoolGetCapacity mp_id s = svcRtxMemoryPoolGetCapacity mp_id s"

definition osMemoryPoolGetBlockSize :: "ref option \<Rightarrow> rtx \<Rightarrow> u32" where
  "osMemoryPoolGetBlockSize mp_id s = svcRtxMemoryPoolGetBlockSize mp_id s"

definition osMemoryPoolGetCount :: "ref option \<Rightarrow> rtx \<Rightarrow> u32" where
  "osMemoryPoolGetCount mp_id s = svcRtxMemoryPoolGetCount mp_id s"

definition osMemoryPoolGetSpace :: "ref option \<Rightarrow> rtx \<Rightarrow> u32" where
  "osMemoryPoolGetSpace mp_id s = svcRtxMemoryPoolGetSpace mp_id s"

definition osMemoryPoolDelete :: "ref option \<Rightarrow> u32 rtx_op" where
  "osMemoryPoolDelete mp_id s =
     (if irq_mode s then Some (osErrorISR, s) else svcRtxMemoryPoolDelete mp_id s)"

end
