(* ===== verification/Rtx_Msgqueue.thy ===== *)
theory Rtx_Msgqueue
  imports Rtx_Mempool
begin

text \<open>
  Message queues, Source/rtx_msgqueue.c: messages in blocks of the queue's pool, in a doubly
  linked list by priority. A block is an \<open>os_message_t\<close> header of 12 bytes, then the
  contents. An interrupt leaves linking and freeing to PendSV: it hands over the message itself,
  with \<open>flags\<close> telling whether it was taken (1) or is new (0).
\<close>

section \<open>The queue of messages\<close>

text \<open>From the tail past the messages of lower priority: the slot for a message.\<close>

partial_function (option) message_slot ::
    "('p \<Rightarrow> u8) \<Rightarrow> 'p link \<Rightarrow> u8 \<Rightarrow> 'p option \<Rightarrow> 'p option \<Rightarrow> ('p option \<times> 'p option) option" where
  "message_slot prio pv p prev next =
     (case prev of None \<Rightarrow> Some (None, next)
      | Some m \<Rightarrow> if prio m < p then message_slot prio pv p (pv m) (Some m) else Some (Some m, next))"

definition MessageQueuePut :: "ref \<Rightarrow> ref \<Rightarrow> rtx \<Rightarrow> rtx option" where
  "MessageQueuePut mq msg s =
     (do {
        s \<leftarrow> (if msg_last s mq \<noteq> None then
               do {
                 (prev, next) \<leftarrow> message_slot (msg_priority s) (msg_prev s) (msg_priority s msg)
                   (msg_last s mq) None;
                 let s = s\<lparr>msg_prev := (msg_prev s)(msg := prev),
                           msg_next := (msg_next s)(msg := next)\<rparr>;
                 let s = (case prev of
                            Some p \<Rightarrow> s\<lparr>msg_next := (msg_next s)(p := Some msg)\<rparr>
                          | None \<Rightarrow> s\<lparr>msg_first := (msg_first s)(mq := Some msg)\<rparr>);
                 Some (case next of
                         Some n \<Rightarrow> s\<lparr>msg_prev := (msg_prev s)(n := Some msg)\<rparr>
                       | None \<Rightarrow> s\<lparr>msg_last := (msg_last s)(mq := Some msg)\<rparr>)
               }
             else Some (s\<lparr>msg_prev := (msg_prev s)(msg := None),
                          msg_next := (msg_next s)(msg := None),
                          msg_first := (msg_first s)(mq := Some msg),
                          msg_last := (msg_last s)(mq := Some msg)\<rparr>));
        Some (s\<lparr>msg_count := (msg_count s)(mq := msg_count s mq + 1)\<rparr>)
      })"

text \<open>The first message not taken yet; every message passed is marked as taken.\<close>

partial_function (option) take_message :: "ref option \<Rightarrow> rtx \<Rightarrow> (ref option \<times> rtx) option" where
  "take_message p s =
     (case p of
        None \<Rightarrow> Some (None, s)
      | Some msg \<Rightarrow>
        let flags = obj_flags s msg;
            s = s\<lparr>obj_flags := (obj_flags s)(msg := 1)\<rparr>
        in if flags = 0 then Some (Some msg, s) else take_message (msg_next s msg) s)"

definition MessageQueueGet :: "ref \<Rightarrow> (ref option) rtx_op" where
  "MessageQueueGet mq s =
     (if msg_count s mq \<noteq> 0
      then take_message (msg_first s mq) (s\<lparr>msg_count := (msg_count s)(mq := msg_count s mq - 1)\<rparr>)
      else Some (None, s))"

definition MessageQueueRemove :: "ref \<Rightarrow> ref \<Rightarrow> rtx \<Rightarrow> rtx" where
  "MessageQueueRemove mq msg s =
     (let s = (case msg_prev s msg of
                 Some p \<Rightarrow> s\<lparr>msg_next := (msg_next s)(p := msg_next s msg)\<rparr>
               | None \<Rightarrow> s\<lparr>msg_first := (msg_first s)(mq := msg_next s msg)\<rparr>)
      in case msg_next s msg of
           Some n \<Rightarrow> s\<lparr>msg_prev := (msg_prev s)(n := msg_prev s msg)\<rparr>
         | None \<Rightarrow> s\<lparr>msg_last := (msg_last s)(mq := msg_prev s msg)\<rparr>)"

section \<open>Messages and waiting threads\<close>

definition msg_data :: "ref \<Rightarrow> u32" where
  "msg_data msg = address msg + 12"

text \<open>Invalidate a message and give its block back to the pool.\<close>

definition free_message :: "ref \<Rightarrow> ref \<Rightarrow> rtx \<Rightarrow> rtx" where
  "free_message mq msg s =
     snd (osRtxMemoryPoolFree (Some mq) (address msg)
            (s\<lparr>obj_id := (obj_id s)(msg := osRtxIdInvalid)\<rparr>))"

text \<open>Fill a new message block.\<close>

definition fill_message :: "ref \<Rightarrow> ref \<Rightarrow> u32 \<Rightarrow> u8 \<Rightarrow> rtx \<Rightarrow> rtx" where
  "fill_message mq msg src prio s =
     s\<lparr>payload := copy_bytes (msg_data msg) src (msg_size s mq) (payload s),
       obj_id := (obj_id s)(msg := osRtxIdMessage),
       obj_flags := (obj_flags s)(msg := 0),
       msg_priority := (msg_priority s)(msg := prio)\<rparr>"

text \<open>
  Deliver \<open>src\<close>, with its priority, to the first thread that waits to receive; its saved R2 and
  R3 are the pointers it gave.
\<close>

definition deliver :: "ref \<Rightarrow> u32 \<Rightarrow> u8 \<Rightarrow> bool \<Rightarrow> rtx \<Rightarrow> rtx option" where
  "deliver mq src prio dispatch s =
     (do {
        (thread, s) \<leftarrow> osRtxThreadListGet mq s;
        s \<leftarrow> osRtxThreadWaitExit thread osOK dispatch s;
        let s = s\<lparr>payload := copy_bytes (regs s thread 2) src (msg_size s mq) (payload s)\<rparr>;
        Some (if regs s thread 3 \<noteq> 0
              then s\<lparr>payload := (payload s)(regs s thread 3 := prio)\<rparr> else s)
      })"

text \<open>
  Put the message of the first thread that waits to send into the queue, if there is a block for
  it; tells whether there was.
\<close>

definition accept_sender :: "ref \<Rightarrow> bool \<Rightarrow> bool rtx_op" where
  "accept_sender mq dispatch s =
     (let (block, s) = osRtxMemoryPoolAlloc (Some mq) s in
      case ptr block of
        None \<Rightarrow> Some (False, s)
      | Some msg \<Rightarrow>
        do {
          (thread, s) \<leftarrow> osRtxThreadListGet mq s;
          s \<leftarrow> osRtxThreadWaitExit thread osOK dispatch s;
          s \<leftarrow> MessageQueuePut mq msg
                 (fill_message mq msg (regs s thread 2) (ucast (regs s thread 3)) s);
          Some (True, s)
        })"

definition receiver_waits :: "ref \<Rightarrow> rtx \<Rightarrow> bool" where
  "receiver_waits mq s =
     (case thread_next s mq of None \<Rightarrow> False
      | Some t \<Rightarrow> thread_state s t = osRtxThreadWaitingMessageGet)"

definition sender_waits :: "ref \<Rightarrow> rtx \<Rightarrow> bool" where
  "sender_waits mq s =
     (case thread_next s mq of None \<Rightarrow> False
      | Some t \<Rightarrow> thread_state s t = osRtxThreadWaitingMessagePut)"

definition osRtxMessageQueuePostProcess :: "ref \<Rightarrow> rtx \<Rightarrow> rtx option" where
  "osRtxMessageQueuePostProcess msg s =
     (if obj_flags s msg \<noteq> 0 then
        do {
          mq \<leftarrow> ptr (get_word (msg_data msg) (payload s));
          let s = free_message mq msg (MessageQueueRemove mq msg s);
          if thread_next s mq \<noteq> None then do { (_, s) \<leftarrow> accept_sender mq False s; Some s }
          else Some s
        }
      else
        do {
          mq \<leftarrow> msg_next s msg;
          if receiver_waits mq s then
            do {
              s \<leftarrow> deliver mq (msg_data msg) (msg_priority s msg) False s;
              Some (free_message mq msg s)
            }
          else MessageQueuePut mq msg s
        })"

section \<open>Service calls\<close>

definition svcRtxMessageQueueNew :: "u32 \<Rightarrow> u32 \<Rightarrow> obj_attr option \<Rightarrow> ref option rtx_op" where
  "svcRtxMessageQueueNew count size' attr s =
     (if count = 0 \<or> size' = 0 then Some (None, s)
      else let bsize = ((size' + 3) AND NOT 3) + 12 in
      if product_too_large count bsize then Some (None, s)
      else let n = count * bsize; a = attr_or_default attr in
      if \<not> cb_ok 52 (oa_cb_mem a) (oa_cb_size a) \<or> \<not> data_ok n a then Some (None, s)
      else do {
        let pool = mpi_message_queue (mpi_pools s);
        ((cb, flags), s) \<leftarrow> alloc_cb pool 52 (oa_cb_mem a) s;
        ((cb, data, flags), s) \<leftarrow> alloc_data pool (mem_mq_data (mem_pools s)) n (oa_data_mem a) cb flags s;
        case ptr cb of
          None \<Rightarrow> Some (None, s)
        | Some mq \<Rightarrow>
          let (_, s) = osRtxMemoryPoolInit (Some mq) count bsize data
                (s\<lparr>obj_id := (obj_id s)(mq := osRtxIdMessageQueue),
                   obj_flags := (obj_flags s)(mq := flags),
                   obj_name := (obj_name s)(mq := oa_name a),
                   thread_next := (thread_next s)(mq := None),
                   msg_size := (msg_size s)(mq := size'),
                   msg_count := (msg_count s)(mq := 0),
                   msg_first := (msg_first s)(mq := None),
                   msg_last := (msg_last s)(mq := None)\<rparr>)
          in Some (Some mq, s\<lparr>post_process := (post_process s)(osRtxIdMessage := True)\<rparr>)
      })"

abbreviation is_message_queue :: "rtx \<Rightarrow> ref option \<Rightarrow> bool" where
  "is_message_queue \<equiv> is_object osRtxIdMessageQueue"

definition svcRtxMessageQueueGetName :: "ref option \<Rightarrow> rtx \<Rightarrow> u32" where
  "svcRtxMessageQueueGetName mq_id s =
     (if \<not> is_message_queue s mq_id then 0 else obj_name s (the mq_id))"

text \<open>A waiting sender or receiver saves its arguments where R2 and R3 are saved.\<close>

definition save_arguments :: "ref \<Rightarrow> u32 \<Rightarrow> u32 \<Rightarrow> rtx \<Rightarrow> rtx" where
  "save_arguments thread r2 r3 s =
     s\<lparr>regs := (regs s)(thread := (regs s thread)(2 := r2, 3 := r3))\<rparr>"

definition svcRtxMessageQueuePut :: "ref option \<Rightarrow> u32 \<Rightarrow> u8 \<Rightarrow> u32 \<Rightarrow> u32 rtx_op" where
  "svcRtxMessageQueuePut mq_id msg_ptr msg_prio timeout s =
     (if \<not> is_message_queue s mq_id \<or> msg_ptr = 0 then Some (osErrorParameter, s)
      else let mq = the mq_id in
        if receiver_waits mq s then
          do { s \<leftarrow> deliver mq msg_ptr msg_prio True s; Some (osOK, s) }
        else let (block, s) = osRtxMemoryPoolAlloc (Some mq) s in
          case ptr block of
            Some msg \<Rightarrow>
              do {
                s \<leftarrow> MessageQueuePut mq msg (fill_message mq msg msg_ptr msg_prio s);
                Some (osOK, s)
              }
          | None \<Rightarrow>
              if timeout \<noteq> 0 then
                do {
                  (entered, s) \<leftarrow> osRtxThreadWaitEnter osRtxThreadWaitingMessagePut timeout s;
                  s \<leftarrow> (if entered then
                         do {
                           thread \<leftarrow> run_curr s;
                           s \<leftarrow> osRtxThreadListPut mq thread s;
                           Some (save_arguments thread msg_ptr (ucast msg_prio) s)
                         }
                        else Some s);
                  Some (osErrorTimeout, s)
                }
              else Some (osErrorResource, s))"

definition svcRtxMessageQueueGet :: "ref option \<Rightarrow> u32 \<Rightarrow> u32 \<Rightarrow> u32 \<Rightarrow> u32 rtx_op" where
  "svcRtxMessageQueueGet mq_id msg_ptr prio_ptr timeout s =
     (if \<not> is_message_queue s mq_id \<or> msg_ptr = 0 then Some (osErrorParameter, s)
      else let mq = the mq_id in
        do {
          (found, s) \<leftarrow> MessageQueueGet mq s;
          case found of
            Some msg \<Rightarrow>
              do {
                let s = MessageQueueRemove mq msg s;
                let s = s\<lparr>payload := copy_bytes msg_ptr (msg_data msg) (msg_size s mq) (payload s)\<rparr>;
                let s = (if prio_ptr \<noteq> 0
                         then s\<lparr>payload := (payload s)(prio_ptr := msg_priority s msg)\<rparr> else s);
                let s = free_message mq msg s;
                s \<leftarrow> (if thread_next s mq \<noteq> None
                      then do { (_, s) \<leftarrow> accept_sender mq True s; Some s } else Some s);
                Some (osOK, s)
              }
          | None \<Rightarrow>
              if timeout \<noteq> 0 then
                do {
                  (entered, s) \<leftarrow> osRtxThreadWaitEnter osRtxThreadWaitingMessageGet timeout s;
                  s \<leftarrow> (if entered then
                         do {
                           thread \<leftarrow> run_curr s;
                           s \<leftarrow> osRtxThreadListPut mq thread s;
                           Some (save_arguments thread msg_ptr prio_ptr s)
                         }
                        else Some s);
                  Some (osErrorTimeout, s)
                }
              else Some (osErrorResource, s)
        })"

definition svcRtxMessageQueueGetCapacity :: "ref option \<Rightarrow> rtx \<Rightarrow> u32" where
  "svcRtxMessageQueueGetCapacity mq_id s =
     (if \<not> is_message_queue s mq_id then 0 else max_blocks s (the mq_id))"

definition svcRtxMessageQueueGetMsgSize :: "ref option \<Rightarrow> rtx \<Rightarrow> u32" where
  "svcRtxMessageQueueGetMsgSize mq_id s =
     (if \<not> is_message_queue s mq_id then 0 else msg_size s (the mq_id))"

definition svcRtxMessageQueueGetCount :: "ref option \<Rightarrow> rtx \<Rightarrow> u32" where
  "svcRtxMessageQueueGetCount mq_id s =
     (if \<not> is_message_queue s mq_id then 0 else msg_count s (the mq_id))"

definition svcRtxMessageQueueGetSpace :: "ref option \<Rightarrow> rtx \<Rightarrow> u32" where
  "svcRtxMessageQueueGetSpace mq_id s =
     (if \<not> is_message_queue s mq_id then 0 else max_blocks s (the mq_id) - msg_count s (the mq_id))"

partial_function (option) drop_messages :: "ref \<Rightarrow> rtx \<Rightarrow> rtx option" where
  "drop_messages mq s =
     (do {
        (found, s) \<leftarrow> MessageQueueGet mq s;
        case found of
          None \<Rightarrow> Some s
        | Some msg \<Rightarrow> drop_messages mq (free_message mq msg (MessageQueueRemove mq msg s))
      })"

partial_function (option) accept_senders :: "ref \<Rightarrow> rtx \<Rightarrow> rtx option" where
  "accept_senders mq s =
     (do {
        (ok, s) \<leftarrow> accept_sender mq False s;
        if ok \<and> thread_next s mq \<noteq> None then accept_senders mq s else Some s
      })"

definition svcRtxMessageQueueReset :: "ref option \<Rightarrow> u32 rtx_op" where
  "svcRtxMessageQueueReset mq_id s =
     (if \<not> is_message_queue s mq_id then Some (osErrorParameter, s)
      else do {
        let mq = the mq_id;
        s \<leftarrow> drop_messages mq s;
        s \<leftarrow> (if sender_waits mq s then
               do { s \<leftarrow> accept_senders mq s; osRtxThreadDispatch None s }
             else Some s);
        Some (osOK, s)
      })"

definition svcRtxMessageQueueDelete :: "ref option \<Rightarrow> u32 rtx_op" where
  "svcRtxMessageQueueDelete mq_id s =
     (if \<not> is_message_queue s mq_id then Some (osErrorParameter, s)
      else do {
        let mq = the mq_id;
        s \<leftarrow> unblock_all mq osErrorResource s;
        s \<leftarrow> free_data (mem_mq_data (mem_pools s)) mq
               (s\<lparr>obj_id := (obj_id s)(mq := osRtxIdInvalid)\<rparr>);
        s \<leftarrow> free_object (mpi_message_queue (mpi_pools s)) mq s;
        Some (osOK, s)
      })"

section \<open>Interrupt calls\<close>

text \<open>
  A new message is handed to PendSV with the queue in its \<open>next\<close> and the sender's pointer in its
  \<open>prev\<close>; a taken one with the queue's address in place of its contents.
\<close>

definition isrRtxMessageQueuePut :: "ref option \<Rightarrow> u32 \<Rightarrow> u8 \<Rightarrow> u32 \<Rightarrow> rtx \<Rightarrow> u32 \<times> rtx" where
  "isrRtxMessageQueuePut mq_id msg_ptr msg_prio timeout s =
     (if \<not> is_message_queue s mq_id \<or> msg_ptr = 0 \<or> timeout \<noteq> 0 then (osErrorParameter, s)
      else let mq = the mq_id; (block, s) = osRtxMemoryPoolAlloc (Some mq) s in
        case ptr block of
          None \<Rightarrow> (osErrorResource, s)
        | Some msg \<Rightarrow>
          let s = fill_message mq msg msg_ptr msg_prio s;
              s = s\<lparr>msg_prev := (msg_prev s)(msg := ptr msg_ptr),
                    msg_next := (msg_next s)(msg := Some mq)\<rparr>
          in (osOK, osRtxPostProcess msg s))"

definition isrRtxMessageQueueGet :: "ref option \<Rightarrow> u32 \<Rightarrow> u32 \<Rightarrow> u32 \<Rightarrow> u32 rtx_op" where
  "isrRtxMessageQueueGet mq_id msg_ptr prio_ptr timeout s =
     (if \<not> is_message_queue s mq_id \<or> msg_ptr = 0 \<or> timeout \<noteq> 0 then Some (osErrorParameter, s)
      else let mq = the mq_id in
        do {
          (found, s) \<leftarrow> MessageQueueGet mq s;
          Some (case found of
              None \<Rightarrow> (osErrorResource, s)
            | Some msg \<Rightarrow>
              let s = s\<lparr>payload := copy_bytes msg_ptr (msg_data msg) (msg_size s mq) (payload s)\<rparr>;
                  s = (if prio_ptr \<noteq> 0
                       then s\<lparr>payload := (payload s)(prio_ptr := msg_priority s msg)\<rparr> else s);
                  s = s\<lparr>payload := put_word (msg_data msg) (address mq) (payload s)\<rparr>
              in (osOK, osRtxPostProcess msg s))
        })"

section \<open>Public functions\<close>

definition osMessageQueueNew :: "u32 \<Rightarrow> u32 \<Rightarrow> obj_attr option \<Rightarrow> ref option rtx_op" where
  "osMessageQueueNew count size' attr s =
     (if irq_mode s then Some (None, s) else svcRtxMessageQueueNew count size' attr s)"

definition osMessageQueueGetName :: "ref option \<Rightarrow> rtx \<Rightarrow> u32" where
  "osMessageQueueGetName mq_id s = (if irq_mode s then 0 else svcRtxMessageQueueGetName mq_id s)"

definition osMessageQueuePut :: "ref option \<Rightarrow> u32 \<Rightarrow> u8 \<Rightarrow> u32 \<Rightarrow> u32 rtx_op" where
  "osMessageQueuePut mq_id msg_ptr msg_prio timeout s =
     (if irq_mode s then Some (isrRtxMessageQueuePut mq_id msg_ptr msg_prio timeout s)
      else svcRtxMessageQueuePut mq_id msg_ptr msg_prio timeout s)"

definition osMessageQueueGet :: "ref option \<Rightarrow> u32 \<Rightarrow> u32 \<Rightarrow> u32 \<Rightarrow> u32 rtx_op" where
  "osMessageQueueGet mq_id msg_ptr prio_ptr timeout s =
     (if irq_mode s then isrRtxMessageQueueGet mq_id msg_ptr prio_ptr timeout s
      else svcRtxMessageQueueGet mq_id msg_ptr prio_ptr timeout s)"

definition osMessageQueueGetCapacity :: "ref option \<Rightarrow> rtx \<Rightarrow> u32" where
  "osMessageQueueGetCapacity mq_id s = svcRtxMessageQueueGetCapacity mq_id s"

definition osMessageQueueGetMsgSize :: "ref option \<Rightarrow> rtx \<Rightarrow> u32" where
  "osMessageQueueGetMsgSize mq_id s = svcRtxMessageQueueGetMsgSize mq_id s"

definition osMessageQueueGetCount :: "ref option \<Rightarrow> rtx \<Rightarrow> u32" where
  "osMessageQueueGetCount mq_id s = svcRtxMessageQueueGetCount mq_id s"

definition osMessageQueueGetSpace :: "ref option \<Rightarrow> rtx \<Rightarrow> u32" where
  "osMessageQueueGetSpace mq_id s = svcRtxMessageQueueGetSpace mq_id s"

definition osMessageQueueReset :: "ref option \<Rightarrow> u32 rtx_op" where
  "osMessageQueueReset mq_id s =
     (if irq_mode s then Some (osErrorISR, s) else svcRtxMessageQueueReset mq_id s)"

definition osMessageQueueDelete :: "ref option \<Rightarrow> u32 rtx_op" where
  "osMessageQueueDelete mq_id s =
     (if irq_mode s then Some (osErrorISR, s) else svcRtxMessageQueueDelete mq_id s)"

end
