(* ===== verification/Rtx_Timer.thy ===== *)
theory Rtx_Timer
  imports Rtx_Msgqueue
begin

text \<open>
  Software timers, Source/rtx_timer.c, and delays, Source/rtx_delay.c. Running timers are in a
  list ordered by expiry, each with its time relative to the one before. An expired timer sends
  its function and argument (8 bytes at offset 24 of its control block) to the timer thread.
\<close>

section \<open>The timer list\<close>

partial_function (option) timer_slot ::
    "('p \<Rightarrow> u32) \<Rightarrow> 'p link \<Rightarrow> 'p option \<Rightarrow> 'p option \<Rightarrow> u32 \<Rightarrow> ('p option \<times> 'p option \<times> u32) option" where
  "timer_slot tk nx prev next tick =
     (case next of None \<Rightarrow> Some (prev, None, tick)
      | Some n \<Rightarrow> if tk n \<le> tick then timer_slot tk nx (Some n) (nx n) (tick - tk n)
                  else Some (prev, Some n, tick))"

definition TimerInsert :: "ref \<Rightarrow> u32 \<Rightarrow> rtx \<Rightarrow> rtx option" where
  "TimerInsert timer tick s =
     (do {
        (prev, next, tick) \<leftarrow> timer_slot (timer_tick s) (timer_next s) None (timer_list s) tick;
        let s = s\<lparr>timer_tick := (timer_tick s)(timer := tick),
                  timer_prev := (timer_prev s)(timer := prev),
                  timer_next := (timer_next s)(timer := next)\<rparr>;
        let s = (case next of None \<Rightarrow> s
                 | Some n \<Rightarrow> s\<lparr>timer_tick := (timer_tick s)(n := timer_tick s n - timer_tick s timer),
                              timer_prev := (timer_prev s)(n := Some timer)\<rparr>);
        Some (case prev of
                Some p \<Rightarrow> s\<lparr>timer_next := (timer_next s)(p := Some timer)\<rparr>
              | None \<Rightarrow> s\<lparr>timer_list := Some timer\<rparr>)
      })"

definition TimerRemove :: "ref \<Rightarrow> rtx \<Rightarrow> rtx" where
  "TimerRemove timer s =
     (let s = (case timer_next s timer of None \<Rightarrow> s
               | Some n \<Rightarrow> s\<lparr>timer_tick := (timer_tick s)(n := timer_tick s n + timer_tick s timer),
                            timer_prev := (timer_prev s)(n := timer_prev s timer)\<rparr>)
      in case timer_prev s timer of
           Some p \<Rightarrow> s\<lparr>timer_next := (timer_next s)(p := timer_next s timer)\<rparr>
         | None \<Rightarrow> s\<lparr>timer_list := timer_next s timer\<rparr>)"

definition TimerUnlink :: "ref \<Rightarrow> rtx \<Rightarrow> rtx" where
  "TimerUnlink timer s =
     (let s = (case timer_next s timer of None \<Rightarrow> s
               | Some n \<Rightarrow> s\<lparr>timer_prev := (timer_prev s)(n := timer_prev s timer)\<rparr>)
      in s\<lparr>timer_list := timer_next s timer\<rparr>)"

definition timer_finfo :: "ref \<Rightarrow> u32" where
  "timer_finfo timer = address timer + 24"

text \<open>The tick handler runs in interrupt mode, so the put is the interrupt call.\<close>

definition expire_timer :: "ref \<Rightarrow> rtx \<Rightarrow> rtx option" where
  "expire_timer timer s =
     (do {
        let s = TimerUnlink timer s;
        (status, s) \<leftarrow> osMessageQueuePut (timer_mq s) (timer_finfo timer) 0 0 s;
        let s = (if status \<noteq> osOK then osRtxErrorNotify osRtxErrorTimerQueueOverflow timer s else s);
        if timer_type s timer = osRtxTimerPeriodic then TimerInsert timer (timer_load s timer) s
        else Some (s\<lparr>timer_state := (timer_state s)(timer := osRtxTimerStopped)\<rparr>)
      })"

partial_function (option) expire_timers :: "rtx \<Rightarrow> rtx option" where
  "expire_timers s =
     (case timer_list s of
        None \<Rightarrow> Some s
      | Some timer \<Rightarrow>
        if timer_tick s timer = 0 then do { s \<leftarrow> expire_timer timer s; expire_timers s }
        else Some s)"

definition osRtxTimerTick :: "rtx \<Rightarrow> rtx option" where
  "osRtxTimerTick s =
     (case timer_list s of
        None \<Rightarrow> Some s
      | Some timer \<Rightarrow>
        expire_timers (s\<lparr>timer_tick := (timer_tick s)(timer := timer_tick s timer - 1)\<rparr>))"

text \<open>
  The timer thread: its start, and one round of its loop, which reads a message into
  \<open>finfo\<close> on its stack and gives the function and argument to call.
\<close>

definition timer_thread_start :: "rtx \<Rightarrow> rtx option" where
  "timer_thread_start s =
     (do {
        (mq, s) \<leftarrow> osMessageQueueNew (cfg_timer_mq_mcnt (config s)) 8 (cfg_timer_mq_attr (config s)) s;
        Some (s\<lparr>timer_mq := mq, timer_tick_set := True\<rparr>)
      })"

definition timer_thread_round :: "u32 \<Rightarrow> ((u32 \<times> u32) option) rtx_op" where
  "timer_thread_round finfo s =
     (do {
        (status, s) \<leftarrow> osMessageQueueGet (timer_mq s) finfo 0 osWaitForever s;
        Some (if status = osOK
              then (Some (get_word finfo (payload s), get_word (finfo + 4) (payload s)), s)
              else (None, s))
      })"

section \<open>Service calls\<close>

definition svcRtxTimerNew :: "u32 \<Rightarrow> u32 \<Rightarrow> u32 \<Rightarrow> obj_attr option \<Rightarrow> ref option rtx_op" where
  "svcRtxTimerNew func type argument attr s =
     (if func = 0 \<or> type \<noteq> 0 \<and> type \<noteq> 1 then Some (None, s)
      else let a = attr_or_default attr in
      if \<not> cb_ok 32 (oa_cb_mem a) (oa_cb_size a) then Some (None, s)
      else do {
        ((cb, flags), s) \<leftarrow> alloc_cb (mpi_timer (mpi_pools s)) 32 (oa_cb_mem a) s;
        case ptr cb of
          None \<Rightarrow> Some (None, s)
        | Some timer \<Rightarrow>
          Some (Some timer, s\<lparr>obj_id := (obj_id s)(timer := osRtxIdTimer),
                              timer_state := (timer_state s)(timer := osRtxTimerStopped),
                              obj_flags := (obj_flags s)(timer := flags),
                              timer_type := (timer_type s)(timer := ucast type),
                              obj_name := (obj_name s)(timer := oa_name a),
                              timer_prev := (timer_prev s)(timer := None),
                              timer_next := (timer_next s)(timer := None),
                              timer_tick := (timer_tick s)(timer := 0),
                              timer_load := (timer_load s)(timer := 0),
                              payload := put_word (timer_finfo timer + 4) argument
                                           (put_word (timer_finfo timer) func (payload s))\<rparr>)
      })"

abbreviation is_timer :: "rtx \<Rightarrow> ref option \<Rightarrow> bool" where
  "is_timer \<equiv> is_object osRtxIdTimer"

definition svcRtxTimerGetName :: "ref option \<Rightarrow> rtx \<Rightarrow> u32" where
  "svcRtxTimerGetName timer_id s = (if \<not> is_timer s timer_id then 0 else obj_name s (the timer_id))"

definition svcRtxTimerStart :: "ref option \<Rightarrow> u32 \<Rightarrow> u32 rtx_op" where
  "svcRtxTimerStart timer_id ticks s =
     (if \<not> is_timer s timer_id \<or> ticks = 0 then Some (osErrorParameter, s)
      else let timer = the timer_id in
        if timer_state s timer = osRtxTimerRunning then
          do { s \<leftarrow> TimerInsert timer ticks (TimerRemove timer s); Some (osOK, s) }
        else if \<not> timer_tick_set s then Some (osErrorResource, s)
        else do {
          s \<leftarrow> TimerInsert timer ticks
                 (s\<lparr>timer_state := (timer_state s)(timer := osRtxTimerRunning),
                    timer_load := (timer_load s)(timer := ticks)\<rparr>);
          Some (osOK, s)
        })"

definition svcRtxTimerStop :: "ref option \<Rightarrow> rtx \<Rightarrow> u32 \<times> rtx" where
  "svcRtxTimerStop timer_id s =
     (if \<not> is_timer s timer_id then (osErrorParameter, s)
      else let timer = the timer_id in
        if timer_state s timer \<noteq> osRtxTimerRunning then (osErrorResource, s)
        else (osOK, TimerRemove timer
                      (s\<lparr>timer_state := (timer_state s)(timer := osRtxTimerStopped)\<rparr>)))"

definition svcRtxTimerIsRunning :: "ref option \<Rightarrow> rtx \<Rightarrow> u32" where
  "svcRtxTimerIsRunning timer_id s =
     (if \<not> is_timer s timer_id then 0
      else if timer_state s (the timer_id) = osRtxTimerRunning then 1 else 0)"

definition svcRtxTimerDelete :: "ref option \<Rightarrow> u32 rtx_op" where
  "svcRtxTimerDelete timer_id s =
     (if \<not> is_timer s timer_id then Some (osErrorParameter, s)
      else do {
        let timer = the timer_id;
        let s = (if timer_state s timer = osRtxTimerRunning then TimerRemove timer s else s);
        s \<leftarrow> free_object (mpi_timer (mpi_pools s)) timer
               (s\<lparr>timer_state := (timer_state s)(timer := osRtxTimerInactive),
                  obj_id := (obj_id s)(timer := osRtxIdInvalid)\<rparr>);
        Some (osOK, s)
      })"

section \<open>Public functions\<close>

definition osTimerNew :: "u32 \<Rightarrow> u32 \<Rightarrow> u32 \<Rightarrow> obj_attr option \<Rightarrow> ref option rtx_op" where
  "osTimerNew func type argument attr s =
     (if irq_mode s then Some (None, s) else svcRtxTimerNew func type argument attr s)"

definition osTimerGetName :: "ref option \<Rightarrow> rtx \<Rightarrow> u32" where
  "osTimerGetName timer_id s = (if irq_mode s then 0 else svcRtxTimerGetName timer_id s)"

definition osTimerStart :: "ref option \<Rightarrow> u32 \<Rightarrow> u32 rtx_op" where
  "osTimerStart timer_id ticks s =
     (if irq_mode s then Some (osErrorISR, s) else svcRtxTimerStart timer_id ticks s)"

definition osTimerStop :: "ref option \<Rightarrow> rtx \<Rightarrow> u32 \<times> rtx" where
  "osTimerStop timer_id s = (if irq_mode s then (osErrorISR, s) else svcRtxTimerStop timer_id s)"

definition osTimerIsRunning :: "ref option \<Rightarrow> rtx \<Rightarrow> u32" where
  "osTimerIsRunning timer_id s = (if irq_mode s then 0 else svcRtxTimerIsRunning timer_id s)"

definition osTimerDelete :: "ref option \<Rightarrow> u32 rtx_op" where
  "osTimerDelete timer_id s =
     (if irq_mode s then Some (osErrorISR, s) else svcRtxTimerDelete timer_id s)"

section \<open>Delays\<close>

definition svcRtxDelay :: "u32 \<Rightarrow> u32 rtx_op" where
  "svcRtxDelay ticks s =
     (if ticks \<noteq> 0 then
        do { (entered, s) \<leftarrow> osRtxThreadWaitEnter osRtxThreadWaitingDelay ticks s; Some (osOK, s) }
      else Some (osOK, s))"

definition svcRtxDelayUntil :: "u32 \<Rightarrow> u32 rtx_op" where
  "svcRtxDelayUntil ticks s =
     (let ticks = ticks - kernel_tick s in
      if ticks = 0 \<or> 0x7FFFFFFF < ticks then Some (osErrorParameter, s)
      else do { (entered, s) \<leftarrow> osRtxThreadWaitEnter osRtxThreadWaitingDelay ticks s; Some (osOK, s) })"

definition osDelay :: "u32 \<Rightarrow> u32 rtx_op" where
  "osDelay ticks s = (if irq_mode s then Some (osErrorISR, s) else svcRtxDelay ticks s)"

definition osDelayUntil :: "u32 \<Rightarrow> u32 rtx_op" where
  "osDelayUntil ticks s = (if irq_mode s then Some (osErrorISR, s) else svcRtxDelayUntil ticks s)"

end
