(* ===== verification/Rtx_Kernel.thy ===== *)
theory Rtx_Kernel
  imports Rtx_Life Rtx_Semaphore Rtx_Evflags Rtx_Timer
begin

text \<open>
  The exception handlers of Source/rtx_system.c and the kernel control of Source/rtx_kernel.c.
\<close>

section \<open>Exception handlers\<close>

text \<open>One object out of the interrupt queue; post-processing functions may not be registered.\<close>

definition post_process_object :: "ref \<Rightarrow> rtx \<Rightarrow> rtx option" where
  "post_process_object object s =
     (let i = obj_id s object in
      if i = osRtxIdThread then
        if post_process s i then osRtxThreadPostProcess object s else None
      else if i = osRtxIdEventFlags then
        if post_process s i then osRtxEventFlagsPostProcess object s else None
      else if i = osRtxIdSemaphore then
        if post_process s i then osRtxSemaphorePostProcess object s else None
      else if i = osRtxIdMemoryPool then
        if post_process s i then osRtxMemoryPoolPostProcess object s else None
      else if i = osRtxIdMessage then
        if post_process s i then osRtxMessageQueuePostProcess object s else None
      else Some s)"

partial_function (option) post_process_all :: "rtx \<Rightarrow> rtx option" where
  "post_process_all s =
     (let (object, s) = isr_queue_get s in
      case object of
        None \<Rightarrow> Some s
      | Some ob \<Rightarrow> do { s \<leftarrow> post_process_object ob s; post_process_all s })"

definition osRtxPendSV_Handler :: "rtx \<Rightarrow> rtx option" where
  "osRtxPendSV_Handler s =
     (do { s \<leftarrow> post_process_all s; osRtxThreadDispatch None s })"

definition round_robin :: "rtx \<Rightarrow> rtx option" where
  "round_robin s =
     (if robin_timeout s = 0 then Some s
      else if robin_thread s \<noteq> run_next s
      then Some (s\<lparr>robin_thread := run_next s, robin_tick := robin_timeout s\<rparr>)
      else
        let s = (if robin_tick s \<noteq> 0 then s\<lparr>robin_tick := robin_tick s - 1\<rparr> else s) in
        if robin_tick s = 0 \<and> kernel_state s = osRtxKernelRunning then
          case thread_next s ReadyList of
            None \<Rightarrow> Some s
          | Some thread \<Rightarrow>
            do {
              robin \<leftarrow> robin_thread s;
              if priority s thread = priority s robin then
                do {
                  s \<leftarrow> osRtxThreadReadyPut robin (osRtxThreadListRemove thread s);
                  let s = osRtxThreadSwitch thread s;
                  Some (s\<lparr>robin_thread := Some thread, robin_tick := robin_timeout s\<rparr>)
                }
              else Some s
            }
        else Some s)"

text \<open>\<open>OS_Tick_AcknowledgeIRQ\<close>, a hardware access, is left out.\<close>

definition osRtxTick_Handler :: "rtx \<Rightarrow> rtx option" where
  "osRtxTick_Handler s =
     (do {
        let s = s\<lparr>kernel_tick := kernel_tick s + 1\<rparr>;
        s \<leftarrow> (if timer_tick_set s then osRtxTimerTick s else Some s);
        s \<leftarrow> osRtxThreadDelayTick s;
        s \<leftarrow> osRtxThreadDispatch None s;
        round_robin s
      })"

section \<open>Kernel control\<close>

definition KernelBlock :: "rtx \<Rightarrow> rtx" where
  "KernelBlock s =
     (let s = s\<lparr>os_tick_enabled := False, kernel_blocked := True\<rparr>
      in if pendSV_set s then s\<lparr>pendSV_set := False, kernel_pendSV := True\<rparr> else s)"

definition KernelUnblock :: "rtx \<Rightarrow> rtx" where
  "KernelUnblock s =
     (let s = s\<lparr>kernel_blocked := False\<rparr>;
          s = (if kernel_pendSV s then s\<lparr>kernel_pendSV := False, pendSV_set := True\<rparr> else s)
      in s\<lparr>os_tick_enabled := True\<rparr>)"

text \<open>The \<open>memset\<close> of \<open>osRtxInfo\<close>.\<close>

definition clear_info :: "rtx \<Rightarrow> rtx" where
  "clear_info s =
     s\<lparr>kernel_state := 0, kernel_blocked := False, kernel_pendSV := False, kernel_tick := 0,
       run_curr := None, run_next := None, idle_thread := None,
       obj_id := (obj_id s)(ReadyList := 0), thread_next := (thread_next s)(ReadyList := None),
       delay_list := None, wait_list := None, terminate_list := None,
       robin_thread := None, robin_tick := 0, robin_timeout := 0,
       timer_list := None, timer_thread := None, timer_mq := None, timer_tick_set := False,
       isr_max := 0, isr_cnt := 0, isr_in := 0, isr_out := 0,
       post_process := (\<lambda>_. False), mem_pools := zero_mem, mpi_pools := zero_mpi\<rparr>"

text \<open>A memory area: its address if it could be initialized, else the default.\<close>

definition init_area :: "u32 \<Rightarrow> u32 \<Rightarrow> u32 \<Rightarrow> rtx \<Rightarrow> u32 \<times> rtx" where
  "init_area addr n fallback s =
     (let (ok, w) = osRtxMemoryInit addr n (memory s)
      in (if ok \<noteq> 0 then addr else fallback, s\<lparr>memory := w\<rparr>))"

definition init_pool :: "ref option \<Rightarrow> rtx \<Rightarrow> rtx" where
  "init_pool pool s =
     (case pool of None \<Rightarrow> s
      | Some mp \<Rightarrow> snd (osRtxMemoryPoolInit pool (max_blocks s mp) (block_size s mp) (block_base s mp) s))"

definition svcRtxKernelInitialize :: "rtx \<Rightarrow> u32 \<times> rtx" where
  "svcRtxKernelInitialize s =
     (if kernel_state s = osRtxKernelReady then (osOK, s)
      else if kernel_state s \<noteq> osRtxKernelInactive then (osError, s)
      else
        let s = clear_info s;
            c = config s;
            s = s\<lparr>isr_max := cfg_isr_max c, robin_timeout := cfg_robin_timeout c\<rparr>;
            (common, s) = init_area (mem_common (cfg_mem c)) (mem_common (cfg_mem_size c)) 0 s;
            (stack, s) = init_area (mem_stack (cfg_mem c)) (mem_stack (cfg_mem_size c)) common s;
            (mp, s) = init_area (mem_mp_data (cfg_mem c)) (mem_mp_data (cfg_mem_size c)) common s;
            (mq, s) = init_area (mem_mq_data (cfg_mem c)) (mem_mq_data (cfg_mem_size c)) common s;
            s = s\<lparr>mem_pools := \<lparr>mem_stack = stack, mem_mp_data = mp, mem_mq_data = mq, mem_common = common\<rparr>\<rparr>;
            p = cfg_mpi c;
            s = foldl (\<lambda>s pool. init_pool pool s) s
                  [mpi_stack p, mpi_thread p, mpi_timer p, mpi_event_flags p, mpi_mutex p,
                   mpi_semaphore p, mpi_memory_pool p, mpi_message_queue p];
            s = s\<lparr>mpi_pools := p\<rparr>
        in (osOK, s\<lparr>kernel_state := osRtxKernelReady\<rparr>))"

definition svcRtxKernelGetState :: "rtx \<Rightarrow> u8" where
  "svcRtxKernelGetState s = kernel_state s"

text \<open>\<open>tick_setup\<close> is the result of \<open>OS_Tick_Setup\<close>.\<close>

definition svcRtxKernelStart :: "u32 \<Rightarrow> u32 \<Rightarrow> int \<Rightarrow> u32 rtx_op" where
  "svcRtxKernelStart idle_func timer_func tick_setup s =
     (if kernel_state s \<noteq> osRtxKernelReady then Some (osError, s)
      else do {
        (ok, s) \<leftarrow> osRtxThreadStartup idle_func timer_func s;
        if \<not> ok then Some (osError, s)
        else if tick_setup \<noteq> 0 then Some (osError, s)
        else do {
          (thread, s) \<leftarrow> osRtxThreadListGet ReadyList (s\<lparr>os_tick_enabled := True\<rparr>);
          let s = osRtxThreadSwitch thread s;
          Some (osOK, s\<lparr>control_reg := (if cfg_flags (config s) AND osRtxConfigPrivilegedMode \<noteq> 0 then 2 else 3),
                        kernel_state := osRtxKernelRunning\<rparr>)
        }
      })"

definition svcRtxKernelLock :: "rtx \<Rightarrow> int \<times> rtx" where
  "svcRtxKernelLock s =
     (if kernel_state s = osRtxKernelRunning then (0, s\<lparr>kernel_state := osRtxKernelLocked\<rparr>)
      else if kernel_state s = osRtxKernelLocked then (1, s)
      else (-1, s))"

definition svcRtxKernelUnlock :: "rtx \<Rightarrow> int \<times> rtx" where
  "svcRtxKernelUnlock s =
     (if kernel_state s = osRtxKernelRunning then (0, s)
      else if kernel_state s = osRtxKernelLocked
      then (1, s\<lparr>kernel_state := osRtxKernelRunning\<rparr>)
      else (-1, s))"

definition svcRtxKernelRestoreLock :: "int \<Rightarrow> rtx \<Rightarrow> int \<times> rtx" where
  "svcRtxKernelRestoreLock lock s =
     (if kernel_state s = osRtxKernelRunning \<or> kernel_state s = osRtxKernelLocked then
        if lock = 0 then (0, s\<lparr>kernel_state := osRtxKernelRunning\<rparr>)
        else if lock = 1 then (1, s\<lparr>kernel_state := osRtxKernelLocked\<rparr>)
        else (-1, s)
      else (-1, s))"

definition svcRtxKernelSuspend :: "rtx \<Rightarrow> u32 \<times> rtx" where
  "svcRtxKernelSuspend s =
     (if kernel_state s \<noteq> osRtxKernelRunning then (0, s)
      else
        let s = KernelBlock s;
            d = (case delay_list s of None \<Rightarrow> osWaitForever | Some t \<Rightarrow> delay s t);
            d = (case timer_list s of None \<Rightarrow> d | Some t \<Rightarrow> if timer_tick s t < d then timer_tick s t else d)
        in (d, s\<lparr>kernel_state := osRtxKernelSuspended\<rparr>))"

text \<open>The ticks slept through, on the delay list and on the timer list.\<close>

partial_function (option) catch_up_delays :: "ref \<Rightarrow> u32 \<Rightarrow> rtx \<Rightarrow> rtx option" where
  "catch_up_delays thread d s =
     (if delay s thread \<le> d then
        do {
          let d = d - delay s thread;
          s \<leftarrow> osRtxThreadDelayTick (s\<lparr>delay := (delay s)(thread := 1)\<rparr>);
          case delay_list s of
            None \<Rightarrow> Some s
          | Some t \<Rightarrow> if d \<noteq> 0 then catch_up_delays t d s else Some s
        }
      else Some (s\<lparr>delay := (delay s)(thread := delay s thread - d)\<rparr>))"

partial_function (option) catch_up_timers :: "ref \<Rightarrow> u32 \<Rightarrow> rtx \<Rightarrow> rtx option" where
  "catch_up_timers timer d s =
     (if timer_tick s timer \<le> d then
        do {
          let d = d - timer_tick s timer;
          let s = s\<lparr>timer_tick := (timer_tick s)(timer := 1)\<rparr>;
          s \<leftarrow> (if timer_tick_set s then osRtxTimerTick s else None);
          case timer_list s of
            None \<Rightarrow> Some s
          | Some t \<Rightarrow> if d \<noteq> 0 then catch_up_timers t d s else Some s
        }
      else Some (s\<lparr>timer_tick := (timer_tick s)(timer := timer_tick s timer - d)\<rparr>))"

definition svcRtxKernelResume :: "u32 \<Rightarrow> rtx \<Rightarrow> rtx option" where
  "svcRtxKernelResume sleep_ticks s =
     (if kernel_state s \<noteq> osRtxKernelSuspended then Some s
      else do {
        let s = s\<lparr>kernel_tick := kernel_tick s + sleep_ticks\<rparr>;
        s \<leftarrow> (case delay_list s of None \<Rightarrow> Some s | Some t \<Rightarrow> catch_up_delays t sleep_ticks s);
        s \<leftarrow> (case timer_list s of None \<Rightarrow> Some s | Some t \<Rightarrow> catch_up_timers t sleep_ticks s);
        s \<leftarrow> osRtxThreadDispatch None (s\<lparr>kernel_state := osRtxKernelRunning\<rparr>);
        Some (KernelUnblock s)
      })"

definition svcRtxKernelGetTickCount :: "rtx \<Rightarrow> u32" where
  "svcRtxKernelGetTickCount s = kernel_tick s"

definition svcRtxKernelGetTickFreq :: "rtx \<Rightarrow> u32" where
  "svcRtxKernelGetTickFreq s = cfg_tick_freq (config s)"

text \<open>
  The hardware tick timer is read as \<open>count\<close>, and again as \<open>count'\<close> when it reports an overflow
  in between; \<open>interval\<close> is its period.
\<close>

definition svcRtxKernelGetSysTimerCount :: "u32 \<Rightarrow> bool \<Rightarrow> u32 \<Rightarrow> u32 \<Rightarrow> rtx \<Rightarrow> u32" where
  "svcRtxKernelGetSysTimerCount count overflow count' interval s =
     (let (count, tick) = (if overflow then (count', kernel_tick s + 1) else (count, kernel_tick s))
      in count + tick * interval)"

section \<open>Public functions\<close>

definition osKernelInitialize :: "rtx \<Rightarrow> u32 \<times> rtx" where
  "osKernelInitialize s = (if irq_mode s then (osErrorISR, s) else svcRtxKernelInitialize s)"

definition osKernelGetState :: "rtx \<Rightarrow> u8" where
  "osKernelGetState s = svcRtxKernelGetState s"

definition osKernelStart :: "u32 \<Rightarrow> u32 \<Rightarrow> int \<Rightarrow> u32 rtx_op" where
  "osKernelStart idle_func timer_func tick_setup s =
     (if irq_mode s then Some (osErrorISR, s) else svcRtxKernelStart idle_func timer_func tick_setup s)"

definition osKernelLock :: "rtx \<Rightarrow> int \<times> rtx" where
  "osKernelLock s = (if irq_mode s then (-6, s) else svcRtxKernelLock s)"

definition osKernelUnlock :: "rtx \<Rightarrow> int \<times> rtx" where
  "osKernelUnlock s = (if irq_mode s then (-6, s) else svcRtxKernelUnlock s)"

definition osKernelRestoreLock :: "int \<Rightarrow> rtx \<Rightarrow> int \<times> rtx" where
  "osKernelRestoreLock lock s = (if irq_mode s then (-6, s) else svcRtxKernelRestoreLock lock s)"

definition osKernelSuspend :: "rtx \<Rightarrow> u32 \<times> rtx" where
  "osKernelSuspend s = (if irq_mode s then (0, s) else svcRtxKernelSuspend s)"

definition osKernelResume :: "u32 \<Rightarrow> rtx \<Rightarrow> rtx option" where
  "osKernelResume sleep_ticks s = (if irq_mode s then Some s else svcRtxKernelResume sleep_ticks s)"

definition osKernelGetTickCount :: "rtx \<Rightarrow> u32" where
  "osKernelGetTickCount s = svcRtxKernelGetTickCount s"

definition osKernelGetTickFreq :: "rtx \<Rightarrow> u32" where
  "osKernelGetTickFreq s = svcRtxKernelGetTickFreq s"

end
