(* ===== verification/Rtx_Calls.thy ===== *)
theory Rtx_Calls
  imports Rtx_Tick Rtx_Kernel
begin

text \<open>
  The thread service calls keep the scheduler invariant and choose the thread to run next: yield and
  round robin, priority changes, suspend and resume, thread flags and delays.
\<close>

section \<open>What a service call leaves behind\<close>

lemma running_frame [simp]:
  "running c (s\<lparr>thread_flags := v1\<rparr>) L D W = running c s L D W"
  "running c (s\<lparr>wait_flags := v1\<rparr>) L D W = running c s L D W"
  "running c (s\<lparr>flags_options := v2\<rparr>) L D W = running c s L D W"
  "running c (s\<lparr>event_flags := v1\<rparr>) L D W = running c s L D W"
  "running c (s\<lparr>tokens := v3\<rparr>) L D W = running c s L D W"
  "running c (s\<lparr>kernel_tick := v4\<rparr>) L D W = running c s L D W"
  by (simp_all add: running_def)

lemma top_frame [simp]:
  "top (s\<lparr>thread_flags := v1\<rparr>) L c = top s L c" "top (s\<lparr>wait_flags := v1\<rparr>) L c = top s L c"
  "top (s\<lparr>flags_options := v2\<rparr>) L c = top s L c" "top (s\<lparr>event_flags := v1\<rparr>) L c = top s L c"
  "top (s\<lparr>tokens := v3\<rparr>) L c = top s L c" "top (s\<lparr>kernel_tick := v4\<rparr>) L c = top s L c"
  by (simp_all add: top_def)

lemma settled_frame [simp]:
  "settled b (s\<lparr>thread_flags := v1\<rparr>) = settled b s" "settled b (s\<lparr>wait_flags := v1\<rparr>) = settled b s"
  "settled b (s\<lparr>flags_options := v2\<rparr>) = settled b s" "settled b (s\<lparr>event_flags := v1\<rparr>) = settled b s"
  "settled b (s\<lparr>tokens := v3\<rparr>) = settled b s" "settled b (s\<lparr>robin_thread := v5\<rparr>) = settled b s"
  "settled b (s\<lparr>robin_tick := v4\<rparr>) = settled b s"
  by (simp_all add: settled_def top_def)

text \<open>The fields that only object creation, the kernel lock and interrupts change.\<close>

definition keeps :: "rtx \<Rightarrow> rtx \<Rightarrow> bool" where
  "keeps s s' \<longleftrightarrow> obj_id s' = obj_id s \<and> post_process s' = post_process s \<and> isr_data s' = isr_data s
     \<and> isr_cnt s' = isr_cnt s \<and> isr_in s' = isr_in s \<and> isr_out s' = isr_out s \<and> isr_max s' = isr_max s
     \<and> timer_tick_set s' = timer_tick_set s \<and> kernel_state s' = kernel_state s"

lemma keeps_refl [simp]: "keeps s s" by (simp add: keeps_def)

lemma keeps_moved: "moved s s' \<Longrightarrow> keeps s s'"
  by (simp add: keeps_def moved_fields)

lemma keeps_trans: "keeps s s' \<Longrightarrow> keeps s' s'' \<Longrightarrow> keeps s s''"
  by (simp add: keeps_def)

lemma keeps_frame [simp]:
  "keeps (s\<lparr>thread_flags := v1\<rparr>) u = keeps s u" "keeps (s\<lparr>wait_flags := v1\<rparr>) u = keeps s u"
  "keeps (s\<lparr>flags_options := v2\<rparr>) u = keeps s u" "keeps (s\<lparr>event_flags := v1\<rparr>) u = keeps s u"
  "keeps (s\<lparr>tokens := v3\<rparr>) u = keeps s u" "keeps (s\<lparr>kernel_tick := v4\<rparr>) u = keeps s u"
  "keeps (s\<lparr>priority := v5\<rparr>) u = keeps s u" "keeps (s\<lparr>priority_base := v6\<rparr>) u = keeps s u"
  "keeps u (s\<lparr>thread_flags := v1\<rparr>) = keeps u s" "keeps u (s\<lparr>wait_flags := v1\<rparr>) = keeps u s"
  "keeps u (s\<lparr>flags_options := v2\<rparr>) = keeps u s" "keeps u (s\<lparr>event_flags := v1\<rparr>) = keeps u s"
  "keeps u (s\<lparr>tokens := v3\<rparr>) = keeps u s" "keeps u (s\<lparr>robin_thread := v7\<rparr>) = keeps u s"
  "keeps u (s\<lparr>robin_tick := v4\<rparr>) = keeps u s" "keeps u (s\<lparr>kernel_tick := v4\<rparr>) = keeps u s"
  by (simp_all add: keeps_def)

text \<open>A call from a state in which \<open>c\<close> runs returns, and a thread is chosen to run next.\<close>

definition served :: "bool \<Rightarrow> rtx \<Rightarrow> ('a \<times> rtx) option \<Rightarrow> bool" where
  "served b s r \<longleftrightarrow> (\<exists>v s'. r = Some (v, s') \<and> settled b s' \<and> keeps s s')"

lemma served_Some [simp]: "served b s (Some (v, s')) \<longleftrightarrow> settled b s' \<and> keeps s s'"
  by (simp add: served_def)

lemma running_settled: "running c s L D W \<Longrightarrow> (b \<longrightarrow> top s L c) \<Longrightarrow> settled b s"
  by (auto simp: running_def intro: settledI)

lemma running_sched: "running c s L D W \<Longrightarrow> sched {} (Some c) s L D W"
  by (simp add: running_def)

section \<open>Yield and round robin\<close>

lemma rotate:
  assumes s: "sched {} (Some c) s L D W" and xs: "L ReadyList = t # bs" and eq: "priority s t = priority s c"
  shows "\<exists>s1. osRtxThreadReadyPut c (osRtxThreadListRemove t s) = Some s1
    \<and> settled b (osRtxThreadSwitch t s1) \<and> moved s (osRtxThreadSwitch t s1)"
proof -
  have t: "t \<in> set (L ReadyList)" and rm: "remove1 t (L ReadyList) = bs" using xs by simp_all
  have cl: "\<not> listed L c" using sched_running_unlisted [OF s] by simp
  then have tc: "t \<noteq> c" and cbs: "c \<notin> set bs" using t xs listed_member [of c L ReadyList] by auto
  obtain nx pv where e: "osRtxThreadListRemove t s = s\<lparr>thread_next := nx, thread_prev := pv\<rparr>"
    "sched {t, c} None (s\<lparr>thread_next := nx, thread_prev := pv\<rparr>) (L(ReadyList := bs)) D W"
    "\<not> listed (L(ReadyList := bs)) t"
    using remove_ready [OF sched_stop [OF s] t] unfolding rm by blast
  let ?s = "s\<lparr>thread_next := nx, thread_prev := pv\<rparr>"
  let ?L = "L(ReadyList := behind s c bs)"
  have "\<not> listed (L(ReadyList := bs)) c" using cl cbs unfolding listed_upd unfolding listed_def by simp
  then obtain nx' pv' where f: "osRtxThreadReadyPut c ?s =
      Some (?s\<lparr>thread_state := (thread_state ?s)(c := osRtxThreadReady), thread_next := nx', thread_prev := pv'\<rparr>)"
    "sched ({t, c} - {c}) None (?s\<lparr>thread_state := (thread_state ?s)(c := osRtxThreadReady),
      thread_next := nx', thread_prev := pv'\<rparr>) ?L D W"
    using ready_put [OF e(2), of c] by auto
  let ?s1 = "?s\<lparr>thread_state := (thread_state ?s)(c := osRtxThreadReady), thread_next := nx', thread_prev := pv'\<rparr>"
  have X: "{t, c} - {c} = {t}" using tc by auto
  have "\<not> listed ?L t" using e(3) tc unfolding listed_upd by auto
  then obtain lg where g: "osRtxThreadSwitch t ?s1 = ?s1\<lparr>thread_state := (thread_state ?s1)(t := osRtxThreadRunning),
      run_next := Some t, error_log := lg\<rparr>"
    "sched ({t} - {t}) (Some t) (?s1\<lparr>thread_state := (thread_state ?s1)(t := osRtxThreadRunning),
      run_next := Some t, error_log := lg\<rparr>) ?L D W"
    using switch [OF f(2) [unfolded X], of t] by blast
  let ?s2 = "?s1\<lparr>thread_state := (thread_state ?s1)(t := osRtxThreadRunning), run_next := Some t, error_log := lg\<rparr>"
  have "top ?s2 ?L t" using sched_sorted [OF s, of ReadyList] xs eq by (auto simp: top_def)
  then have "settled b ?s2" using g(2) settledI [of t ?s2 ?L D W b] by simp
  moreover have "moved s ?s2"
    by (rule moved_trans [OF moved_steps(1) moved_trans [OF moved_steps(2) moved_steps(3)]])
  moreover have "osRtxThreadReadyPut c (osRtxThreadListRemove t s) = Some ?s1" unfolding e(1) by (rule f(1))
  ultimately show ?thesis unfolding g(1) [symmetric] by blast
qed

lemma yield_served:
  assumes r: "running c s L D W" and top: "b \<longrightarrow> top s L c"
  shows "served b s (svcRtxThreadYield s)"
proof -
  have s: "sched {} (Some c) s L D W" and c: "run_curr s = Some c" using r by (simp_all add: running_def)
  have h: "thread_next s ReadyList = first (L ReadyList)" by (rule sched_head [OF s]) simp
  show ?thesis
  proof (cases "\<exists>t bs. kernel_state s = osRtxKernelRunning \<and> L ReadyList = t # bs \<and> priority s t = priority s c")
    case True
    then obtain t bs where t: "kernel_state s = osRtxKernelRunning" "L ReadyList = t # bs"
      "priority s t = priority s c" by blast
    from rotate [OF s t(2,3)] obtain s1 where e: "osRtxThreadReadyPut c (osRtxThreadListRemove t s) = Some s1"
      "settled b (osRtxThreadSwitch t s1)" "moved s (osRtxThreadSwitch t s1)" by blast
    have "svcRtxThreadYield s = Some (osOK, osRtxThreadSwitch t s1)"
      using h t c e(1) by (simp add: svcRtxThreadYield_def)
    then show ?thesis using e(2,3) keeps_moved by simp
  next
    case False
    then have "svcRtxThreadYield s = Some (osOK, s)"
      using h c by (cases "L ReadyList") (auto simp: svcRtxThreadYield_def)
    then show ?thesis using running_settled [OF r top] by simp
  qed
qed

lemma round_robin_settled:
  assumes s: "settled b s"
  shows "\<exists>s'. round_robin s = Some s' \<and> settled b s' \<and> keeps s s'"
proof -
  obtain L D W n where n: "sched {} (Some n) s L D W" "run_next s = Some n" "b \<longrightarrow> top s L n"
    using s unfolding settled_def by blast
  define u where "u = (if robin_tick s \<noteq> 0 then s\<lparr>robin_tick := robin_tick s - 1\<rparr> else s)"
  have u: "sched {} (Some n) u L D W" "settled b u" "keeps s u" using n(1) s by (auto simp: u_def)
  have uf: "kernel_state u = kernel_state s" "thread_next u = thread_next s" "robin_thread u = robin_thread s"
    "priority u = priority s" by (simp_all add: u_def)
  have h: "thread_next s ReadyList = first (L ReadyList)" by (rule sched_head [OF n(1)]) simp
  show ?thesis
  proof (cases "robin_timeout s = 0 \<or> robin_thread s \<noteq> run_next s")
    case True
    then show ?thesis using s by (auto simp: round_robin_def)
  next
    case False
    then have rt: "robin_timeout s \<noteq> 0" "robin_thread s = Some n" using n(2) by auto
    show ?thesis
    proof (cases "\<exists>t bs. robin_tick u = 0 \<and> kernel_state s = osRtxKernelRunning \<and> L ReadyList = t # bs
        \<and> priority s t = priority s n")
      case True
      then obtain t bs where t: "robin_tick u = 0" "kernel_state s = osRtxKernelRunning" "L ReadyList = t # bs"
        "priority u t = priority u n" unfolding uf by blast
      from rotate [OF u(1) t(3,4)] obtain s1 where e: "osRtxThreadReadyPut n (osRtxThreadListRemove t u) = Some s1"
        "settled b (osRtxThreadSwitch t s1)" "moved u (osRtxThreadSwitch t s1)" by blast
      have "round_robin s = Some ((osRtxThreadSwitch t s1)\<lparr>robin_thread := Some t,
          robin_tick := robin_timeout (osRtxThreadSwitch t s1)\<rparr>)"
        using h t rt n(2) e(1) uf unfolding round_robin_def u_def [symmetric] Let_def by simp
      then show ?thesis using e(2) keeps_trans [OF u(3) keeps_moved [OF e(3)]] by simp
    next
      case False
      then have "round_robin s = Some u"
        using h rt n(2) uf unfolding round_robin_def u_def [symmetric] Let_def
        by (cases "L ReadyList") auto
      then show ?thesis using u by blast
    qed
  qed
qed

section \<open>Priority changes\<close>

lemma list_root_simps [simp]:
  "list_root s None = Some None"
  "list_root s (Some t) = (if obj_id s t = osRtxIdThread then list_root s (thread_prev s t) else Some (Some t))"
  by (subst list_root.simps; simp)+

lemma list_root_owner:
  assumes l: "lists (thread_next s) (thread_prev s) I L" and ids: "\<forall>u\<in>set (L p). obj_id s u = osRtxIdThread"
    "obj_id s p \<noteq> osRtxIdThread"
  shows "L p = as @ t # bs \<Longrightarrow> list_root s (Some t) = Some (Some p)"
proof (induction as arbitrary: t bs rule: rev_induct)
  case Nil
  then have "thread_prev s t = Some p" using lists_prev [OF l, of p "[]" t bs] by simp
  moreover have "obj_id s t = osRtxIdThread" using Nil ids by simp
  ultimately show ?case using ids by simp
next
  case (snoc a as)
  then have "thread_prev s t = Some a" using lists_prev [OF l, of p "as @ [a]" t bs] by simp
  moreover have "obj_id s t = osRtxIdThread" using snoc ids by simp
  moreover have "list_root s (Some a) = Some (Some p)" by (rule snoc.IH [of a "t # bs"]) (use snoc in simp)
  ultimately show ?case by simp
qed

lemma by_priority_upd: "t \<notin> set xs \<Longrightarrow> by_priority (pr(t := v)) xs = by_priority pr xs"
  by (rule by_priority_cong) auto

lemma standing_relink:
  assumes s: "standing X R T st pv rl L B" and m: "\<forall>p. set (L' p) = set (L p)"
    and pv: "\<forall>u. \<not> listed L u \<longrightarrow> pv' u = pv u"
  shows "standing X R T st pv' rl L' B"
  unfolding standing_def
proof
  fix u
  have "listed L' u = listed L u" using m by (simp add: listed_def)
  then show "stands (u \<in> X) (R = Some u) (u \<in> T) (st u) (pv' u) (u \<in> set (L' rl)) (listed L' u) (u \<in> B)"
    using stands_prev [OF standingD [OF s, of u], of "pv' u"] m pv by simp
qed

text \<open>The state after the assignment to the priority; \<open>t\<close> may be out of order in its list.\<close>

lemma list_sort_listed:
  fixes s :: rtx and v :: int and pb :: "ref \<Rightarrow> int"
  assumes s: "sched X R s L D W" and t: "t \<in> set (L p)"
  defines "u \<equiv> s\<lparr>priority := (priority s)(t := v), priority_base := pb\<rparr>"
  shows "\<exists>nx pv L'. osRtxThreadListSort t u = Some (u\<lparr>thread_next := nx, thread_prev := pv\<rparr>)
    \<and> sched X R (u\<lparr>thread_next := nx, thread_prev := pv\<rparr>) L' D W"
proof -
  have own: "owners u = owners s" by (simp add: u_def owners_def)
  have l: "lists (thread_next u) (thread_prev u) (owners s) L" using sched_lists [OF s] by (simp add: u_def)
  note st = sched_listed [OF s t]
  have "\<forall>w\<in>set (L p). obj_id u w = osRtxIdThread" using sched_listed(1) [OF s] by (simp add: u_def)
  moreover have "obj_id u p \<noteq> osRtxIdThread" using sched_thread_owner [OF s, of p] st(2) by (auto simp: u_def)
  moreover obtain as bs where "L p = as @ t # bs" using t by (meson split_list)
  ultimately have root: "list_root u (Some t) = Some (Some p)" by (rule list_root_owner [OF l])
  let ?L1 = "L(p := remove1 t (L p))"
  obtain nx pv where e: "osRtxThreadListRemove t u = u\<lparr>thread_next := nx, thread_prev := pv\<rparr>"
    "lists nx pv (owners s) ?L1" "pv t = None" "\<forall>w. \<not> listed L w \<longrightarrow> pv w = thread_prev u w"
    using osRtxThreadListRemove_lists [OF l t] by blast
  let ?u1 = "u\<lparr>thread_next := nx, thread_prev := pv\<rparr>"
  have l1: "lists (thread_next ?u1) (thread_prev ?u1) (owners s) ?L1" using e(2) by simp
  let ?xs = "behind ?u1 t (?L1 p)"
  have nl: "\<not> listed ?L1 t" by (rule lists_remove1_absent [OF l t])
  have to: "t \<notin> owners s" by (rule sched_thread_owner [OF s st(1)])
  obtain nx' pv' where f: "osRtxThreadListPut p t ?u1 = Some (?u1\<lparr>thread_next := nx', thread_prev := pv'\<rparr>)"
    "lists nx' pv' (owners s) (?L1(p := ?xs))" "\<forall>w. w \<noteq> t \<longrightarrow> \<not> listed ?L1 w \<longrightarrow> pv' w = thread_prev ?u1 w"
    using osRtxThreadListPut_lists [OF l1 st(2) nl to] by (elim exE conjE) (rule that)
  let ?u2 = "u\<lparr>thread_next := nx', thread_prev := pv'\<rparr>"
  let ?L2 = "L(p := ?xs)"
  have mem: "\<forall>q. set (?L2 q) = set (L q)" using st(4) t by auto
  have un: "\<forall>w. \<not> listed L w \<longrightarrow> pv' w = thread_prev s w"
  proof (intro allI impI)
    fix w assume w: "\<not> listed L w"
    then have "w \<noteq> t" using listed_member [of t L p] t by auto
    moreover have "\<not> listed ?L1 w" using w listed_remove(1) [OF st(3,4)] by blast
    ultimately show "pv' w = thread_prev s w" using f(3) e(4) w by (simp add: u_def)
  qed
  have sorted: "by_priority (priority u) (?L2 q)" for q
  proof (cases "q = p")
    case True
    have "by_priority (priority u) (remove1 t (L p))"
      using by_priority_remove1 [OF sched_sorted [OF s]] st(4) by (simp add: u_def by_priority_upd)
    then have "by_priority (priority ?u1) ?xs" by (simp add: by_priority_place_behind)
    then show ?thesis using True by simp
  next
    case False
    then have "t \<notin> set (L q)" using st(3) by blast
    then show ?thesis using False sched_sorted [OF s, of q] by (simp add: u_def by_priority_upd)
  qed
  have "standing X R (threads s) (thread_state s) pv' ReadyList ?L2 (set D \<union> set W)"
    by (rule standing_relink [OF sched_standing [OF s] mem un])
  then have "sched X R ?u2 ?L2 D W"
    using s f(2) sorted own unfolding sched_def by (simp add: u_def owners_def)
  moreover have "osRtxThreadListSort t u = Some ?u2"
    using root e(1) f(1) by (simp add: osRtxThreadListSort_def)
  ultimately show ?thesis by blast
qed

lemma list_sort_unlisted:
  fixes s :: rtx and v :: int and pb :: "ref \<Rightarrow> int"
  assumes s: "sched X R s L D W" and t: "\<not> listed L t" "obj_id s t = osRtxIdThread" "thread_prev s t = None"
  defines "u \<equiv> s\<lparr>priority := (priority s)(t := v), priority_base := pb\<rparr>"
  shows "osRtxThreadListSort t u = Some u \<and> sched X R u L D W"
proof -
  have "by_priority (priority u) (L p)" for p
  proof -
    have "t \<notin> set (L p)" using t(1) listed_member [of t L p] by blast
    then show ?thesis using sched_sorted [OF s, of p] by (simp add: u_def by_priority_upd)
  qed
  then have "sched X R u L D W" using s unfolding sched_def by (simp add: u_def owners_def)
  then show ?thesis using t by (simp add: osRtxThreadListSort_def u_def)
qed

lemma set_priority_served:
  assumes r: "running c s L D W" and top: "b \<longrightarrow> top s L c"
  shows "served b s (svcRtxThreadSetPriority p v s)"
proof -
  have s: "sched {} (Some c) s L D W" and c: "run_curr s = Some c" "run_next s = Some c"
    using r by (simp_all add: running_def)
  have ss: "settled b s" by (rule running_settled [OF r top])
  show ?thesis
  proof (cases "is_thread s p \<and> osPriorityIdle \<le> v \<and> v \<le> osPriorityISR \<and> thread_state s (the p) \<noteq> osRtxThreadTerminated
      \<and> priority s (the p) \<noteq> v")
    case False
    then show ?thesis using ss by (auto simp: svcRtxThreadSetPriority_def Let_def)
  next
    case True
    then obtain t where t: "p = Some t" "obj_id s t = osRtxIdThread" "thread_state s t \<noteq> osRtxThreadTerminated" by auto
    let ?u = "s\<lparr>priority := (priority s)(t := v), priority_base := (priority_base s)(t := v)\<rparr>"
    have "\<exists>nx pv L'. osRtxThreadListSort t ?u = Some (?u\<lparr>thread_next := nx, thread_prev := pv\<rparr>)
      \<and> sched {} (Some c) (?u\<lparr>thread_next := nx, thread_prev := pv\<rparr>) L' D W"
    proof (cases "listed L t")
      case True
      then show ?thesis using list_sort_listed [OF s] unfolding listed_def by blast
    next
      case False
      have "thread_prev s t = None" using sched_stands [OF s, of t] t False by (auto simp: stands_def)
      then have "osRtxThreadListSort t ?u = Some ?u \<and> sched {} (Some c) ?u L D W"
        using list_sort_unlisted [OF s False t(2)] by blast
      then show ?thesis by (intro exI [of _ "thread_next s"] exI [of _ "thread_prev s"] exI [of _ L]) simp
    qed
    then obtain nx pv L' where e: "osRtxThreadListSort t ?u = Some (?u\<lparr>thread_next := nx, thread_prev := pv\<rparr>)"
      "sched {} (Some c) (?u\<lparr>thread_next := nx, thread_prev := pv\<rparr>) L' D W" by blast
    let ?u1 = "?u\<lparr>thread_next := nx, thread_prev := pv\<rparr>"
    have "running c ?u1 L' D W" using e(2) c by (simp add: running_def)
    from dispatch_ready [OF this, of b] obtain s' where f: "osRtxThreadDispatch None ?u1 = Some s'" "settled b s'"
      "moved ?u1 s'" by blast
    have "svcRtxThreadSetPriority p v s = Some (osOK, s')"
      using True t(1) e(1) f(1) by (simp add: svcRtxThreadSetPriority_def Let_def not_less)
    moreover have "keeps s s'" using keeps_moved [OF f(3)] by (simp add: keeps_def)
    ultimately show ?thesis using f(2) by simp
  qed
qed

section \<open>Suspend and resume\<close>

text \<open>The links of a thread in flux that no list holds may be cleared.\<close>

lemma scrub:
  assumes s: "sched X R s L D W" and t: "t \<in> X" "\<not> listed L t"
  shows "sched X R (s\<lparr>thread_state := (thread_state s)(t := v), thread_prev := (thread_prev s)(t := None),
           thread_next := (thread_next s)(t := None)\<rparr>) L D W"
proof -
  let ?s = "s\<lparr>thread_state := (thread_state s)(t := v)\<rparr>"
  have s': "sched X R ?s L D W" by (rule set_state [OF s t(1)])
  have to: "t \<notin> owners s" by (rule sched_flux(2) [OF s t(1)])
  have nl: "t \<notin> set (L p)" for p using t(2) listed_member [of t L p] by blast
  have "thread_prev s t = None" using sched_flux(7) [OF s t(1)] t(2) by simp
  then have pv: "(thread_prev s)(t := None) = thread_prev s" by (simp add: fun_upd_idem)
  have "lists ((thread_next s)(t := None)) (thread_prev s) (owners s) L"
    using sched_lists [OF s] nl to dpath_upd(1) unfolding lists_def by (auto simp: fun_upd_other)
  then show ?thesis using s' unfolding sched_def pv by simp
qed

text \<open>The tail of \<open>svcRtxThreadSuspend\<close>, for a thread taken out of its lists.\<close>

lemma suspend_flux:
  assumes s: "sched {t} R s L D W" and t: "\<not> listed L t"
  shows "\<exists>s' D' W'. osRtxThreadDelayInsert t osWaitForever
      (s\<lparr>thread_state := (thread_state s)(t := osRtxThreadBlocked), thread_prev := (thread_prev s)(t := None),
         thread_next := (thread_next s)(t := None)\<rparr>) = Some s'
    \<and> sched {} R s' L D' W' \<and> run_next s' = run_next s \<and> moved s s'"
proof -
  let ?u = "s\<lparr>thread_state := (thread_state s)(t := osRtxThreadBlocked), thread_prev := (thread_prev s)(t := None),
         thread_next := (thread_next s)(t := None)\<rparr>"
  have u: "sched {t} R ?u L D W" by (rule scrub [OF s _ t]) simp
  have f: "osWaitForever \<noteq> 0" "masked (thread_state ?u t) = osRtxThreadBlocked"
    "thread_state ?u t = osRtxThreadWaitingThreadFlags \<longrightarrow> \<not> listed L t"
    using t by (simp_all add: masked_def rtx_states osWaitForever_def)
  obtain dl dn dp h w D' W' where e: "osRtxThreadDelayInsert t osWaitForever ?u =
      Some (?u\<lparr>delay := dl, delay_next := dn, delay_prev := dp, delay_list := h, wait_list := w\<rparr>)"
    "sched ({t} - {t}) R (?u\<lparr>delay := dl, delay_next := dn, delay_prev := dp, delay_list := h, wait_list := w\<rparr>) L D' W'"
    using delay_insert [OF u insertI1 f] by (elim exE conjE) (rule that)
  let ?s = "?u\<lparr>delay := dl, delay_next := dn, delay_prev := dp, delay_list := h, wait_list := w\<rparr>"
  have "moved s ?s" by (simp add: moved_def restore_def)
  moreover have "sched {} R ?s L D' W'" using e(2) by simp
  moreover have "run_next ?s = run_next s" by simp
  ultimately show ?thesis using e(1) by blast
qed

text \<open>A blocked thread leaves all lists.\<close>

lemma leave_blocked:
  assumes s: "sched X R s L D W" and t: "t \<in> set D \<union> set W"
  shows "\<exists>s' L' D' W'. osRtxThreadDelayRemove t (osRtxThreadListRemove t s) = s'
    \<and> sched (insert t X) R s' L' D' W' \<and> \<not> listed L' t \<and> L' ReadyList = L ReadyList
    \<and> run_next s' = run_next s \<and> thread_state s' = thread_state s \<and> moved s s'"
proof -
  have "t \<in> X \<union> set D \<union> set W" using t by auto
  from remove_any [OF s this]
  obtain nx pv L' where e: "osRtxThreadListRemove t s = s\<lparr>thread_next := nx, thread_prev := pv\<rparr>"
    "sched X R (s\<lparr>thread_next := nx, thread_prev := pv\<rparr>) L' D W" "\<not> listed L' t" "L' ReadyList = L ReadyList"
    by (elim exE conjE) (rule that)
  let ?s = "s\<lparr>thread_next := nx, thread_prev := pv\<rparr>"
  obtain dl dn dp h w D' W' where f: "osRtxThreadDelayRemove t ?s =
      ?s\<lparr>delay := dl, delay_next := dn, delay_prev := dp, delay_list := h, wait_list := w\<rparr>"
    "sched (insert t X) R (?s\<lparr>delay := dl, delay_next := dn, delay_prev := dp, delay_list := h, wait_list := w\<rparr>) L' D' W'"
    using delay_remove [OF e(2) t] by (elim exE conjE) (rule that)
  let ?s2 = "?s\<lparr>delay := dl, delay_next := dn, delay_prev := dp, delay_list := h, wait_list := w\<rparr>"
  have "moved s ?s2" by (rule moved_trans [OF moved_steps(1) moved_steps(6)])
  moreover have "run_next ?s2 = run_next s" "thread_state ?s2 = thread_state s" by simp_all
  moreover have "osRtxThreadDelayRemove t (osRtxThreadListRemove t s) = ?s2" unfolding e(1) by (rule f(1))
  ultimately show ?thesis using f(2) e(3,4) by blast
qed

lemma top_moved: "moved s s' \<Longrightarrow> L' ReadyList = L ReadyList \<Longrightarrow> top s' L' c = top s L c"
  by (simp add: top_def moved_fields)

lemma resume_served:
  assumes r: "running c s L D W" and top: "b \<longrightarrow> top s L c"
  shows "served b s (svcRtxThreadResume p s)"
proof -
  have s: "sched {} (Some c) s L D W" and c: "run_curr s = Some c" "run_next s = Some c"
    using r by (simp_all add: running_def)
  have ss: "settled b s" by (rule running_settled [OF r top])
  show ?thesis
  proof (cases "is_thread s p \<and> masked (thread_state s (the p)) = osRtxThreadBlocked")
    case False
    then show ?thesis using ss by (auto simp: svcRtxThreadResume_def Let_def masked_def)
  next
    case True
    then obtain t where t: "p = Some t" "obj_id s t = osRtxIdThread" "masked (thread_state s t) = osRtxThreadBlocked" by auto
    have "t \<in> set D \<union> set W"
      using sched_stands [OF s, of t] t state_values by (auto simp: stands_def)
    from leave_blocked [OF s this] obtain u L' D' W' where e:
      "osRtxThreadDelayRemove t (osRtxThreadListRemove t s) = u" "sched {t} (Some c) u L' D' W'" "\<not> listed L' t"
      "L' ReadyList = L ReadyList" "run_next u = run_next s" "moved s u" by (elim exE conjE) (rule that)
    have "run_curr u = Some c" "run_next u = Some c" "b \<longrightarrow> top u L' c"
      using c e(5) moved_fields(3) [OF e(6)] top_moved [where L = L and L' = L', OF e(6,4)] top by simp_all
    from dispatch_thread [OF e(2) this(1,2) e(3) this(3)]
    obtain s' where f: "osRtxThreadDispatch (Some t) u = Some s'" "settled b s'" "moved u s'" by blast
    have "svcRtxThreadResume p s = Some (osOK, s')"
      using t f(1) e(1) by (simp add: svcRtxThreadResume_def masked_def)
    moreover have "keeps s s'" using keeps_moved [OF moved_trans [OF e(6) f(3)]] .
    ultimately show ?thesis using f(2) by simp
  qed
qed

text \<open>The running thread gives way to the first ready one.\<close>

lemma running_leaves:
  assumes s: "sched {} (Some c) s L D W" and xs: "L ReadyList = n # bs"
  shows "\<exists>s1. osRtxThreadListGet ReadyList s = Some (n, s1)
    \<and> sched {c} (Some n) (osRtxThreadSwitch n s1) (L(ReadyList := bs)) D W
    \<and> \<not> listed (L(ReadyList := bs)) c \<and> run_next (osRtxThreadSwitch n s1) = Some n
    \<and> top (osRtxThreadSwitch n s1) (L(ReadyList := bs)) n \<and> moved s (osRtxThreadSwitch n s1)"
proof -
  have cl: "\<not> listed L c" using sched_running_unlisted [OF s] by simp
  then have nc: "n \<noteq> c" "c \<notin> set bs" using xs listed_member [of c L ReadyList] by auto
  obtain nx pv where e: "osRtxThreadListGet ReadyList s = Some (n, s\<lparr>thread_next := nx, thread_prev := pv\<rparr>)"
    "sched {n, c} None (s\<lparr>thread_next := nx, thread_prev := pv\<rparr>) (L(ReadyList := bs)) D W"
    "\<not> listed (L(ReadyList := bs)) n"
    using get_ready [OF sched_stop [OF s] xs] by (elim exE conjE) (rule that)
  let ?s1 = "s\<lparr>thread_next := nx, thread_prev := pv\<rparr>"
  obtain lg where g: "osRtxThreadSwitch n ?s1 = ?s1\<lparr>thread_state := (thread_state ?s1)(n := osRtxThreadRunning),
      run_next := Some n, error_log := lg\<rparr>"
    "sched ({n, c} - {n}) (Some n) (?s1\<lparr>thread_state := (thread_state ?s1)(n := osRtxThreadRunning),
      run_next := Some n, error_log := lg\<rparr>) (L(ReadyList := bs)) D W"
    using switch [OF e(2) _ e(3)] by blast
  let ?s2 = "?s1\<lparr>thread_state := (thread_state ?s1)(n := osRtxThreadRunning), run_next := Some n, error_log := lg\<rparr>"
  have "{n, c} - {n} = {c}" using nc by auto
  then have "sched {c} (Some n) ?s2 (L(ReadyList := bs)) D W" using g(2) by simp
  moreover have "\<not> listed (L(ReadyList := bs)) c" using cl nc unfolding listed_upd unfolding listed_def by auto
  moreover have "top ?s2 (L(ReadyList := bs)) n" using sched_sorted [OF s, of ReadyList] xs by (simp add: top_def)
  moreover have "moved s ?s2" by (rule moved_trans [OF moved_steps(1) moved_steps(3)])
  moreover have "run_next ?s2 = Some n" by simp
  ultimately show ?thesis using e(1) unfolding g(1) [symmetric] by blast
qed

lemma os_status_neq: "osErrorResource \<noteq> osOK" by (simp add: os_status)

text \<open>The last part of a suspend, once the thread is in flux; \<open>n\<close> is the thread that runs.\<close>

definition suspend_rest :: "ref \<Rightarrow> rtx \<Rightarrow> (u32 \<times> rtx) option" where
  "suspend_rest t s = do {
     s \<leftarrow> osRtxThreadDelayInsert t osWaitForever
            (s\<lparr>thread_state := (thread_state s)(t := osRtxThreadBlocked), thread_prev := (thread_prev s)(t := None),
               thread_next := (thread_next s)(t := None)\<rparr>);
     Some (osOK, s) }"

lemma suspend_rest_served:
  assumes u: "sched {t} (Some n) u L D W" and t: "\<not> listed L t" and n: "run_next u = Some n"
    and top: "b \<longrightarrow> top u L n" and m: "moved s u"
  shows "served b s (suspend_rest t u)"
proof -
  from suspend_flux [OF u t] obtain s' D' W' where e: "osRtxThreadDelayInsert t osWaitForever
      (u\<lparr>thread_state := (thread_state u)(t := osRtxThreadBlocked), thread_prev := (thread_prev u)(t := None),
         thread_next := (thread_next u)(t := None)\<rparr>) = Some s'"
    "sched {} (Some n) s' L D' W'" "run_next s' = run_next u" "moved u s'" by (elim exE conjE) (rule that)
  have "b \<longrightarrow> top s' L n" using top top_moved [where L = L and L' = L, OF e(4) refl] by simp
  then have "settled b s'" using settledI [OF e(2)] e(3) n by simp
  moreover have "keeps s s'" by (rule keeps_moved [OF moved_trans [OF m e(4)]])
  ultimately show ?thesis using e(1) by (simp add: suspend_rest_def)
qed

lemma suspend_split:
  assumes "is_thread s p" and "leave_lists (the p) s = (st, u)"
  shows "svcRtxThreadSuspend p s =
    (if st = osOK then
       do { u \<leftarrow> (if thread_state u (the p) = osRtxThreadRunning
                  then do { (next, s) \<leftarrow> osRtxThreadListGet ReadyList u; Some (osRtxThreadSwitch next s) }
                  else Some u);
            suspend_rest (the p) u }
     else Some (st, u))"
  using assms by (simp add: svcRtxThreadSuspend_def suspend_rest_def Let_def)

lemma suspend_served:
  assumes r: "running c s L D W" and top: "b \<longrightarrow> top s L c"
  shows "served b s (svcRtxThreadSuspend p s)"
proof (cases "is_thread s p")
  case False
  then show ?thesis using running_settled [OF r top] by (simp add: svcRtxThreadSuspend_def)
next
  case True
  then obtain t where t: "p = Some t" "obj_id s t = osRtxIdThread" by auto
  have s: "sched {} (Some c) s L D W" and c: "run_next s = Some c" using r by (simp_all add: running_def)
  have ss: "settled b s" by (rule running_settled [OF r top])
  note st = sched_stands [OF s, of t, unfolded t(2)]
  have h: "thread_next s ReadyList = first (L ReadyList)" by (rule sched_head [OF s]) simp
  consider (run) "masked (thread_state s t) = osRtxThreadRunning" | (ready) "masked (thread_state s t) = osRtxThreadReady"
    | (blocked) "masked (thread_state s t) = osRtxThreadBlocked" | (other) "leave_lists t s = (osErrorResource, s)"
    unfolding leave_lists_def masked_def Let_def by argo
  then show ?thesis
  proof cases
    case run
    then have tc: "t = c" "thread_state s t = osRtxThreadRunning" using st state_values by (auto simp: stands_def)
    show ?thesis
    proof (cases "kernel_state s = osRtxKernelRunning \<and> L ReadyList \<noteq> []")
      case False
      then have "leave_lists t s = (osErrorResource, s)"
        using run h by (cases "L ReadyList") (auto simp: leave_lists_def masked_def)
      then show ?thesis using True t suspend_split [of p s] ss os_status_neq by simp
    next
      case go: True
      then obtain n bs where xs: "L ReadyList = n # bs" by (cases "L ReadyList") auto
      have "leave_lists t s = (osOK, s)" using run h go xs by (simp add: leave_lists_def masked_def)
      moreover from running_leaves [OF s xs] obtain s1 where e: "osRtxThreadListGet ReadyList s = Some (n, s1)"
        "sched {c} (Some n) (osRtxThreadSwitch n s1) (L(ReadyList := bs)) D W" "\<not> listed (L(ReadyList := bs)) c"
        "run_next (osRtxThreadSwitch n s1) = Some n" "top (osRtxThreadSwitch n s1) (L(ReadyList := bs)) n"
        "moved s (osRtxThreadSwitch n s1)" by (elim exE conjE) (rule that)
      ultimately have "svcRtxThreadSuspend p s = suspend_rest t (osRtxThreadSwitch n s1)"
        using suspend_split [OF True, of osOK s] t(1) tc by simp
      then show ?thesis using suspend_rest_served [OF e(2,3,4) _ e(6), of b] e(5) tc(1) by simp
    qed
  next
    case ready
    then have tr: "t \<in> set (L ReadyList)" "thread_state s t \<noteq> osRtxThreadRunning"
      using st state_values by (auto simp: stands_def)
    obtain nx pv where e: "osRtxThreadListRemove t s = s\<lparr>thread_next := nx, thread_prev := pv\<rparr>"
      "sched {t} (Some c) (s\<lparr>thread_next := nx, thread_prev := pv\<rparr>) (L(ReadyList := remove1 t (L ReadyList))) D W"
      "\<not> listed (L(ReadyList := remove1 t (L ReadyList))) t"
      using remove_ready [OF s tr(1)] by (elim exE conjE) (rule that)
    let ?u = "s\<lparr>thread_next := nx, thread_prev := pv\<rparr>"
    have "osRtxThreadReady \<noteq> osRtxThreadRunning" by (simp add: rtx_states)
    then have "leave_lists t s = (osOK, ?u)" using ready e(1) by (simp add: leave_lists_def masked_def)
    then have "svcRtxThreadSuspend p s = suspend_rest t ?u" using suspend_split [OF True, of osOK ?u] t(1) tr(2) by simp
    moreover have "b \<longrightarrow> top ?u (L(ReadyList := remove1 t (L ReadyList))) c"
      using top notin_set_remove1 [of _ "L ReadyList" t] by (auto simp: top_def)
    ultimately show ?thesis using suspend_rest_served [OF e(2,3)] c by simp
  next
    case blocked
    then have tb: "t \<in> set D \<union> set W" "thread_state s t \<noteq> osRtxThreadRunning"
      using st state_values by (auto simp: stands_def)
    from leave_blocked [OF s tb(1)] obtain u L' D' W' where e:
      "osRtxThreadDelayRemove t (osRtxThreadListRemove t s) = u" "sched {t} (Some c) u L' D' W'" "\<not> listed L' t"
      "L' ReadyList = L ReadyList" "run_next u = run_next s" "thread_state u = thread_state s" "moved s u"
      by (elim exE conjE) (rule that)
    have "osRtxThreadBlocked \<noteq> osRtxThreadRunning" "osRtxThreadBlocked \<noteq> osRtxThreadReady" by (simp_all add: rtx_states)
    then have "leave_lists t s = (osOK, u)" using blocked e(1) by (simp add: leave_lists_def masked_def)
    then have "svcRtxThreadSuspend p s = suspend_rest t u" using suspend_split [OF True, of osOK u] t(1) tb(2) e(6) by simp
    moreover have "b \<longrightarrow> top u L' c" using top top_moved [where L = L and L' = L', OF e(7,4)] by simp
    ultimately show ?thesis using suspend_rest_served [OF e(2,3) _ _ e(7)] e(5) c by simp
  next
    case other
    then show ?thesis using True t suspend_split [of p s] ss os_status_neq by simp
  qed
qed

section \<open>Thread flags and delays\<close>

lemma wait_served:
  assumes r: "running c s L D W" and top: "b \<longrightarrow> top s L c" and d: "d \<noteq> 0"
    and st: "masked st = osRtxThreadBlocked"
  shows "served b s (osRtxThreadWaitEnter st d s)"
proof -
  consider "osRtxThreadWaitEnter st d s = Some (False, s)" |
    (wait) s' D' W' n ns where "osRtxThreadWaitEnter st d s = Some (True, s')"
       "sched {} (Some n) s' (L(ReadyList := ns)) D' W'" "run_next s' = Some n"
       "top s' (L(ReadyList := ns)) n" "moved s s'"
    using wait_enter [OF r d st] by blast
  then show ?thesis
  proof cases
    case 1
    then show ?thesis using running_settled [OF r top] by simp
  next
    case wait
    then have "settled b s'" using settledI by blast
    then show ?thesis using wait(1) keeps_moved [OF wait(5)] by simp
  qed
qed

lemma delay_served:
  assumes r: "running c s L D W" and top: "b \<longrightarrow> top s L c"
  shows "served b s (svcRtxDelay d s)" and "served b s (svcRtxDelayUntil d s)"
proof -
  have st: "masked osRtxThreadWaitingDelay = osRtxThreadBlocked" by (simp add: masked_def rtx_states)
  have w: "served b s (do { (entered, s) \<leftarrow> osRtxThreadWaitEnter osRtxThreadWaitingDelay d s; Some (osOK, s) })"
    if "d \<noteq> 0" for d
    using wait_served [OF r top that st] by (auto simp: served_def)
  show "served b s (svcRtxDelay d s)" using w running_settled [OF r top] by (simp add: svcRtxDelay_def)
  show "served b s (svcRtxDelayUntil d s)"
    using w running_settled [OF r top] by (simp add: svcRtxDelayUntil_def Let_def)
qed

lemma ThreadFlagsCheck_shape: "\<exists>f tf. ThreadFlagsCheck t fl opt s = (f, s\<lparr>thread_flags := tf\<rparr>)"
  by (auto simp: ThreadFlagsCheck_def Let_def intro: exI [of _ "thread_flags s"])

lemma flags_wait_served:
  assumes r: "running c s L D W" and top: "b \<longrightarrow> top s L c"
  shows "served b s (svcRtxThreadFlagsWait flags options timeout s)"
proof -
  have c: "run_curr s = Some c" using r by (simp add: running_def)
  have st: "masked osRtxThreadWaitingThreadFlags = osRtxThreadBlocked" by (simp add: masked_def rtx_states)
  obtain f tf where e: "ThreadFlagsCheck c flags options s = (f, s\<lparr>thread_flags := tf\<rparr>)"
    using ThreadFlagsCheck_shape by blast
  let ?s = "s\<lparr>thread_flags := tf, wait_flags := (wait_flags s)(c := flags),
              flags_options := (flags_options s)(c := ucast options)\<rparr>"
  have "served b ?s (osRtxThreadWaitEnter osRtxThreadWaitingThreadFlags timeout ?s)" if "timeout \<noteq> 0"
    by (rule wait_served [OF _ _ that st]) (use r top in simp_all)
  then have w: "\<exists>v s'. osRtxThreadWaitEnter osRtxThreadWaitingThreadFlags timeout ?s = Some (v, s') \<and> settled b s'
      \<and> keeps s s'" if "timeout \<noteq> 0"
    using that by (auto simp: served_def)
  show ?thesis
  proof (cases "timeout = 0")
    case True
    then show ?thesis using c e running_settled [OF r top] by (simp add: svcRtxThreadFlagsWait_def)
  next
    case False
    then show ?thesis using w c e running_settled [OF r top] by (auto simp: svcRtxThreadFlagsWait_def)
  qed
qed

lemma flags_set_served:
  assumes r: "running c s L D W" and top: "b \<longrightarrow> top s L c"
  shows "served b s (svcRtxThreadFlagsSet p flags s)"
proof -
  have ss: "settled b s" by (rule running_settled [OF r top])
  show ?thesis
  proof (cases "is_thread s p \<and> flags AND NOT valid_flags = 0 \<and> thread_state s (the p) \<noteq> osRtxThreadTerminated")
    case False
    then show ?thesis using ss by (auto simp: svcRtxThreadFlagsSet_def Let_def)
  next
    case True
    then obtain t where t: "p = Some t" "obj_id s t = osRtxIdThread" "flags AND NOT valid_flags = 0"
      "thread_state s t \<noteq> osRtxThreadTerminated" by auto
    define u where "u = s\<lparr>thread_flags := (thread_flags s)(t := thread_flags s t OR flags)\<rparr>"
    obtain f0 tf where e: "ThreadFlagsCheck t (wait_flags u t) (ucast (flags_options u t)) u = (f0, u\<lparr>thread_flags := tf\<rparr>)"
      using ThreadFlagsCheck_shape by blast
    have ru: "running c (u\<lparr>thread_flags := tf\<rparr>) L D W" "b \<longrightarrow> top (u\<lparr>thread_flags := tf\<rparr>) L c"
      using r top by (simp_all add: u_def)
    have su: "settled b u" "keeps s u" using ss by (simp_all add: u_def)
    show ?thesis
    proof (cases "thread_state s t = osRtxThreadWaitingThreadFlags \<and> f0 \<noteq> 0")
      case True
      then have "t \<in> set D \<union> set W" "\<not> listed L t"
        using sched_stands [OF running_sched [OF r], of t] t(2) state_values by (auto simp: stands_def)
      from wait_exit_dispatch [OF ru(1) this ru(2), of f0] obtain s' where f:
        "osRtxThreadWaitExit t f0 True (u\<lparr>thread_flags := tf\<rparr>) = Some s'" "settled b s'" "moved (u\<lparr>thread_flags := tf\<rparr>) s'"
        by blast
      have "\<exists>v. svcRtxThreadFlagsSet p flags s = Some (v, s')"
        using t True e f(1) by (simp add: svcRtxThreadFlagsSet_def ThreadFlagsSet_def u_def Let_def)
      moreover have "keeps s s'" using keeps_moved [OF f(3)] su(2) keeps_trans by simp
      ultimately show ?thesis using f(2) by auto
    next
      case False
      then have "\<exists>v u'. svcRtxThreadFlagsSet p flags s = Some (v, u') \<and> (u' = u \<or> u' = u\<lparr>thread_flags := tf\<rparr>)"
        using t e by (simp add: svcRtxThreadFlagsSet_def ThreadFlagsSet_def u_def Let_def)
      then show ?thesis using su by auto
    qed
  qed
qed

end
