(* ===== verification/Rtx_Waits.thy ===== *)
theory Rtx_Waits
  imports Rtx_Calls
begin

text \<open>
  Calls that wait in the list of an object: semaphores and event flags, with their processing after
  an interrupt.
\<close>

section \<open>Waiting in the list of an object\<close>

lemma owner_id:
  "obj_id s p = i \<Longrightarrow> i \<in> {osRtxIdEventFlags, osRtxIdMutex, osRtxIdSemaphore, osRtxIdMemoryPool, osRtxIdMessageQueue}
   \<Longrightarrow> sched X R s L D W \<Longrightarrow> p \<in> owners s \<and> p \<noteq> ReadyList"
  by (auto simp: owners_def sched_def rtx_ids)

text \<open>The running thread waits and queues up at \<open>p\<close>.\<close>

lemma wait_queue:
  assumes r: "running c s L D W" and top: "b \<longrightarrow> top s L c" and d: "d \<noteq> 0"
    and st: "masked st = osRtxThreadBlocked" "st \<noteq> osRtxThreadWaitingThreadFlags"
    and p: "p \<in> owners s" "p \<noteq> ReadyList"
  shows "osRtxThreadWaitEnter st d s = Some (False, s) \<or>
    (\<exists>s1 s2. osRtxThreadWaitEnter st d s = Some (True, s1) \<and> run_curr s1 = Some c
       \<and> osRtxThreadListPut p c s1 = Some s2 \<and> settled b s2 \<and> keeps s s2)"
proof -
  consider "osRtxThreadWaitEnter st d s = Some (False, s)" |
    (wait) s1 D' W' n ns where "osRtxThreadWaitEnter st d s = Some (True, s1)"
       "sched {} (Some n) s1 (L(ReadyList := ns)) D' W'" "run_next s1 = Some n"
       "set D' \<union> set W' = insert c (set D \<union> set W)" "\<not> listed (L(ReadyList := ns)) c"
       "top s1 (L(ReadyList := ns)) n" "thread_state s1 c = st" "moved s s1"
    using wait_enter [OF r d st(1)] by blast
  then show ?thesis
  proof cases
    case wait
    let ?L = "L(ReadyList := ns)"
    have c: "c \<in> set D' \<union> set W'" using wait(4) by simp
    have "run_curr s1 = Some c" using moved_fields(3) [OF wait(8)] r by (simp add: running_def)
    moreover have po: "p \<in> owners s1" using moved_owners [OF wait(8)] p by simp
    moreover have "thread_state s1 c \<noteq> osRtxThreadWaitingThreadFlags" using wait(7) st(2) by simp
    ultimately obtain nx pv where e: "run_curr s1 = Some c"
      "osRtxThreadListPut p c s1 = Some (s1\<lparr>thread_next := nx, thread_prev := pv\<rparr>)"
      "sched {} (Some n) (s1\<lparr>thread_next := nx, thread_prev := pv\<rparr>) (?L(p := behind s1 c (?L p))) D' W'"
      using list_put [OF wait(2) po p(2) c wait(5)] by blast
    let ?s2 = "s1\<lparr>thread_next := nx, thread_prev := pv\<rparr>"
    have "top ?s2 (?L(p := behind s1 c (?L p))) n" using wait(6) p(2) by (auto simp: top_def)
    then have "settled b ?s2" using settledI [OF e(3)] wait(3) by simp
    moreover have "keeps s ?s2" by (rule keeps_moved [OF moved_trans [OF wait(8) moved_steps(1)]])
    ultimately show ?thesis using wait(1) e(1,2) by blast
  qed simp
qed

text \<open>The first thread that waits at \<open>p\<close> leaves its list; it is blocked.\<close>

lemma get_first:
  assumes r: "running c s L D W" and p: "p \<in> owners s" "p \<noteq> ReadyList" and xs: "L p = t # bs"
  shows "\<exists>s1. osRtxThreadListGet p s = Some (t, s1) \<and> running c s1 (L(p := bs)) D W
    \<and> t \<in> set D \<union> set W \<and> \<not> listed (L(p := bs)) t \<and> moved s s1"
proof -
  have s: "sched {} (Some c) s L D W" by (rule running_sched [OF r])
  have tp: "t \<in> set (L p)" using xs by simp
  then have "t \<notin> set (L ReadyList)" using sched_listed(3) [OF s tp] p(2) by blast
  moreover have "listed L t" using listed_member [where L = L, OF tp] .
  ultimately have "t \<in> set D \<union> set W" using sched_stands [OF s, of t] by (auto simp: stands_def)
  moreover obtain nx pv where e: "osRtxThreadListGet p s = Some (t, s\<lparr>thread_next := nx, thread_prev := pv\<rparr>)"
    "sched {} (Some c) (s\<lparr>thread_next := nx, thread_prev := pv\<rparr>) (L(p := bs)) D W" "\<not> listed (L(p := bs)) t"
    using get_waiting [OF s p xs] by (elim exE conjE) (rule that)
  moreover have "running c (s\<lparr>thread_next := nx, thread_prev := pv\<rparr>) (L(p := bs)) D W"
    using e(2) r by (simp add: running_def)
  ultimately show ?thesis using moved_steps(1) by blast
qed

lemma running_head: "running c s L D W \<Longrightarrow> p \<in> owners s \<Longrightarrow> thread_next s p = first (L p)"
  by (rule sched_head [OF running_sched])

lemma running_moved: "sched {} (Some c) s' L' D' W' \<Longrightarrow> run_next s' = run_next s \<Longrightarrow> moved s s' \<Longrightarrow>
    running c s L D W \<Longrightarrow> running c s' L' D' W'"
  by (simp add: running_def moved_fields)

section \<open>Semaphores\<close>

lemma acquire_served:
  assumes r: "running c s L D W" and top: "b \<longrightarrow> top s L c"
  shows "served b s (svcRtxSemaphoreAcquire p timeout s)"
proof (cases "is_semaphore s p \<and> tokens s (the p) = 0 \<and> timeout \<noteq> 0")
  case False
  then show ?thesis using running_settled [OF r top]
    by (auto simp: svcRtxSemaphoreAcquire_def SemaphoreTokenDecrement_def Let_def)
next
  case True
  then obtain sm where sm: "p = Some sm" "obj_id s sm = osRtxIdSemaphore" "tokens s sm = 0" "timeout \<noteq> 0" by auto
  have own: "sm \<in> owners s \<and> sm \<noteq> ReadyList" by (rule owner_id [OF sm(2) _ running_sched [OF r]]) simp
  have st: "masked osRtxThreadWaitingSemaphore = osRtxThreadBlocked"
    "osRtxThreadWaitingSemaphore \<noteq> osRtxThreadWaitingThreadFlags" by (simp_all add: masked_def rtx_states)
  have "svcRtxSemaphoreAcquire p timeout s = Some (osErrorTimeout, s) \<or>
      (\<exists>s2. svcRtxSemaphoreAcquire p timeout s = Some (osErrorTimeout, s2) \<and> settled b s2 \<and> keeps s s2)"
    using wait_queue [OF r top sm(4) st conjunct1 [OF own] conjunct2 [OF own]] sm
    by (auto simp: svcRtxSemaphoreAcquire_def SemaphoreTokenDecrement_def Let_def)
  then show ?thesis using running_settled [OF r top] by auto
qed

lemma release_served:
  assumes r: "running c s L D W" and top: "b \<longrightarrow> top s L c"
  shows "served b s (svcRtxSemaphoreRelease p s)"
proof (cases "is_semaphore s p \<and> L (the p) \<noteq> []")
  case False
  have "\<not> is_semaphore s p \<or> thread_next s (the p) = None"
    using False running_head [OF r, of "the p"] owner_id [OF _ _ running_sched [OF r], of "the p" osRtxIdSemaphore] by auto
  then show ?thesis using running_settled [OF r top]
    by (auto simp: svcRtxSemaphoreRelease_def SemaphoreTokenIncrement_def Let_def)
next
  case True
  then obtain sm t bs where sm: "p = Some sm" "obj_id s sm = osRtxIdSemaphore" "L sm = t # bs"
    by (cases "L (the p)") auto
  have own: "sm \<in> owners s \<and> sm \<noteq> ReadyList" by (rule owner_id [OF sm(2) _ running_sched [OF r]]) simp
  have h: "thread_next s sm = Some t" using running_head [OF r, of sm] own sm by simp
  from get_first [OF r _ _ sm(3)] own obtain s1 where e: "osRtxThreadListGet sm s = Some (t, s1)"
    "running c s1 (L(sm := bs)) D W" "t \<in> set D \<union> set W" "\<not> listed (L(sm := bs)) t" "moved s s1" by blast
  have "(L(sm := bs)) ReadyList = L ReadyList" using own by auto
  then have "b \<longrightarrow> top s1 (L(sm := bs)) c" using top top_moved [OF e(5)] by blast
  from wait_exit_dispatch [OF e(2,3,4) this] obtain s' where f: "osRtxThreadWaitExit t osOK True s1 = Some s'"
    "settled b s'" "moved s1 s'" by blast
  have "svcRtxSemaphoreRelease p s = Some (osOK, s')"
    using sm h e(1) f(1) by (simp add: svcRtxSemaphoreRelease_def Let_def)
  then show ?thesis using f(2) keeps_moved [OF moved_trans [OF e(5) f(3)]] by simp
qed

text \<open>A step inside a handler: \<open>c\<close> still runs, and no thread is lost.\<close>

definition advanced :: "ref \<Rightarrow> rtx \<Rightarrow> rtx option \<Rightarrow> bool" where
  "advanced c s r \<longleftrightarrow> (\<exists>s' L D W. r = Some s' \<and> running c s' L D W \<and> keeps s s')"

lemma advanced_Some: "running c s' L D W \<Longrightarrow> keeps s s' \<Longrightarrow> advanced c s (Some s')"
  unfolding advanced_def by blast

lemma wait_exit_advanced:
  assumes r: "running c s L D W" and t: "t \<in> set D \<union> set W" "\<not> listed L t"
  shows "advanced c s (osRtxThreadWaitExit t v False s)"
proof -
  obtain s' D' W' where e: "osRtxThreadWaitExit t v False s = Some s'"
    "sched {} (Some c) s' (L(ReadyList := behind s t (L ReadyList))) D' W'" "run_next s' = run_next s" "moved s s'"
    using wait_exit [OF running_sched [OF r] t] by blast
  show ?thesis unfolding e(1)
    by (rule advanced_Some [OF running_moved [OF e(2,3,4) r] keeps_moved [OF e(4)]])
qed

lemma semaphore_post_advanced:
  assumes r: "running c s L D W" and id: "obj_id s sm = osRtxIdSemaphore"
  shows "advanced c s (osRtxSemaphorePostProcess sm s)"
proof (cases "L sm = [] \<or> tokens s sm = 0")
  case True
  have own: "sm \<in> owners s \<and> sm \<noteq> ReadyList" by (rule owner_id [OF id _ running_sched [OF r]]) simp
  then have "osRtxSemaphorePostProcess sm s = Some s"
    using True running_head [OF r, of sm] by (auto simp: osRtxSemaphorePostProcess_def SemaphoreTokenDecrement_def)
  then show ?thesis using advanced_Some [OF r] by simp
next
  case False
  then obtain t bs where xs: "L sm = t # bs" by (cases "L sm") auto
  have own: "sm \<in> owners s \<and> sm \<noteq> ReadyList" by (rule owner_id [OF id _ running_sched [OF r]]) simp
  have h: "thread_next s sm = Some t" using running_head [OF r, of sm] own xs by simp
  let ?s = "s\<lparr>tokens := (tokens s)(sm := tokens s sm - 1)\<rparr>"
  have r': "running c ?s L D W" using r by simp
  have "owners ?s = owners s" by (simp add: owners_def)
  with get_first [OF r' _ _ xs] own obtain s1 where e: "osRtxThreadListGet sm ?s = Some (t, s1)"
    "running c s1 (L(sm := bs)) D W" "t \<in> set D \<union> set W" "\<not> listed (L(sm := bs)) t" "moved ?s s1" by auto
  have "osRtxSemaphorePostProcess sm s = osRtxThreadWaitExit t osOK False s1"
    using h False e(1) by (simp add: osRtxSemaphorePostProcess_def SemaphoreTokenDecrement_def)
  moreover obtain s' L' D' W' where "osRtxThreadWaitExit t osOK False s1 = Some s'" "running c s' L' D' W'" "keeps s1 s'"
    using wait_exit_advanced [OF e(2,3,4)] unfolding advanced_def by blast
  moreover have "keeps s s1" using keeps_moved [OF e(5)] by simp
  ultimately show ?thesis using advanced_Some keeps_trans by metis
qed

section \<open>Event flags\<close>

lemma wake_flags_None [simp]: "wake_flags ef None result s = Some (result, s)"
  by (subst wake_flags.simps) simp

lemma wake_flags_pass:
  "EventFlagsCheck ef (wait_flags s t) (ucast (flags_options s t)) s = (0, u) \<Longrightarrow>
   wake_flags ef (Some t) result s = wake_flags ef (thread_next s t) result u"
  by (subst wake_flags.simps) simp

lemma wake_flags_wake:
  "EventFlagsCheck ef (wait_flags s t) (ucast (flags_options s t)) s = (f, u) \<Longrightarrow> f \<noteq> 0 \<Longrightarrow>
   osRtxThreadWaitExit t f False (osRtxThreadListRemove t u) = Some s' \<Longrightarrow>
   \<exists>rs. wake_flags ef (Some t) result s = wake_flags ef (thread_next s t) rs s'"
  by (subst wake_flags.simps) (simp add: Let_def, blast)

lemma EventFlagsCheck_shape: "\<exists>f ev. EventFlagsCheck ef fl opt s = (f, s\<lparr>event_flags := ev\<rparr>)"
  by (auto simp: EventFlagsCheck_def Let_def intro: exI [of _ "event_flags s"])

lemma wake_flags_advanced:
  "running c s L D W \<Longrightarrow> obj_id s ef = osRtxIdEventFlags \<Longrightarrow> L ef = as @ bs \<Longrightarrow>
   \<exists>v s'. wake_flags ef (first bs) result s = Some (v, s') \<and> advanced c s (Some s')"
proof (induction bs arbitrary: as s L D W result)
  case Nil
  then show ?case using advanced_Some by auto
next
  case (Cons t bs)
  note r = Cons(2)
  have s: "sched {} (Some c) s L D W" by (rule running_sched [OF r])
  have own: "ef \<in> owners s \<and> ef \<noteq> ReadyList" by (rule owner_id [OF Cons(3) _ s]) simp
  have nx: "thread_next s t = first bs" by (rule lists_prev(2) [OF sched_lists [OF s] Cons(4)])
  have te: "t \<in> set (L ef)" using Cons(4) by simp
  obtain f ev where e: "EventFlagsCheck ef (wait_flags s t) (ucast (flags_options s t)) s = (f, s\<lparr>event_flags := ev\<rparr>)"
    using EventFlagsCheck_shape by blast
  let ?u = "s\<lparr>event_flags := ev\<rparr>"
  have u: "sched {} (Some c) ?u L D W" "running c ?u L D W" "keeps s ?u" "obj_id ?u ef = osRtxIdEventFlags"
    using s r Cons(3) by simp_all
  show ?case
  proof (cases "f = 0")
    case True
    have "L ef = (as @ [t]) @ bs" using Cons(4) by simp
    from Cons.IH [OF u(2,4) this, of result] obtain v s' where g: "wake_flags ef (first bs) result ?u = Some (v, s')"
      "advanced c ?u (Some s')" by blast
    have "wake_flags ef (first (t # bs)) result s = Some (v, s')" using True e nx g(1) wake_flags_pass [of ef s t] by simp
    moreover have "advanced c s (Some s')" using g(2) by (simp add: advanced_def)
    ultimately show ?thesis by blast
  next
    case False
    have rm: "remove1 t (L ef) = as @ bs"
      using Cons(4) sched_listed(4) [OF s te] by (simp add: remove1_append)
    obtain nx' pv where g: "osRtxThreadListRemove t ?u = ?u\<lparr>thread_next := nx', thread_prev := pv\<rparr>"
      "sched {} (Some c) (?u\<lparr>thread_next := nx', thread_prev := pv\<rparr>) (L(ef := as @ bs)) D W"
      "\<not> listed (L(ef := as @ bs)) t"
      using remove_waiting [OF u(1) te conjunct2 [OF own]] unfolding rm by (elim exE conjE) (rule that)
    let ?u1 = "?u\<lparr>thread_next := nx', thread_prev := pv\<rparr>"
    have "t \<notin> set (L ReadyList)" using sched_listed(3) [OF s te] own by blast
    then have tb: "t \<in> set D \<union> set W"
      using sched_stands [OF s, of t] listed_member [where L = L, OF te] by (auto simp: stands_def)
    obtain s2 D' W' where k: "osRtxThreadWaitExit t f False ?u1 = Some s2"
      "sched {} (Some c) s2 ((L(ef := as @ bs))(ReadyList := behind ?u1 t ((L(ef := as @ bs)) ReadyList))) D' W'"
      "run_next s2 = run_next ?u1" "moved ?u1 s2"
      using wait_exit [OF g(2) tb g(3)] by blast
    have r1: "running c ?u1 (L(ef := as @ bs)) D W" using g(2) r by (simp add: running_def)
    have r2: "running c s2 ((L(ef := as @ bs))(ReadyList := behind ?u1 t ((L(ef := as @ bs)) ReadyList))) D' W'"
      by (rule running_moved [OF k(2,3,4) r1])
    have kp: "keeps s s2" using keeps_moved [OF moved_trans [OF moved_steps(1) k(4)]] by simp
    have "obj_id s2 ef = osRtxIdEventFlags" using kp Cons(3) by (simp add: keeps_def)
    moreover have "((L(ef := as @ bs))(ReadyList := behind ?u1 t ((L(ef := as @ bs)) ReadyList))) ef = as @ bs"
      using own by simp
    ultimately have "\<exists>v s'. wake_flags ef (first bs) rs s2 = Some (v, s') \<and> advanced c s2 (Some s')" for rs
      by (rule Cons.IH [OF r2])
    then have "\<exists>v s'. wake_flags ef (first (t # bs)) result s = Some (v, s') \<and> advanced c s2 (Some s')"
      using wake_flags_wake [OF e False, of s2 result] g(1) k(1) nx by auto
    then show ?thesis using kp keeps_trans unfolding advanced_def by blast
  qed
qed

lemma wake_flags_all:
  assumes r: "running c s L D W" and ef: "obj_id s ef = osRtxIdEventFlags"
  shows "\<exists>v s'. wake_flags ef (thread_next s ef) result s = Some (v, s') \<and> advanced c s (Some s')"
proof -
  have "ef \<in> owners s" using owner_id [OF ef _ running_sched [OF r]] by simp
  then have "thread_next s ef = first (L ef)" by (rule running_head [OF r])
  then show ?thesis using wake_flags_advanced [OF r ef, of "[]" "L ef" result] by simp
qed

lemma evflags_post_advanced:
  assumes r: "running c s L D W" and ef: "obj_id s ef = osRtxIdEventFlags"
  shows "advanced c s (osRtxEventFlagsPostProcess ef s)"
  using wake_flags_all [OF r ef, of 0] by (auto simp: osRtxEventFlagsPostProcess_def)

lemma evflags_set_served:
  assumes r: "running c s L D W" and top: "b \<longrightarrow> top s L c"
  shows "served b s (svcRtxEventFlagsSet p flags s)"
proof (cases "is_event_flags s p \<and> flags AND NOT valid_flags = 0")
  case False
  then show ?thesis using running_settled [OF r top] by (auto simp: svcRtxEventFlagsSet_def)
next
  case True
  then obtain ef where ef: "p = Some ef" "obj_id s ef = osRtxIdEventFlags" by auto
  let ?u = "s\<lparr>event_flags := (event_flags s)(ef := event_flags s ef OR flags)\<rparr>"
  have "running c ?u L D W" "obj_id ?u ef = osRtxIdEventFlags" using r ef by simp_all
  from wake_flags_all [OF this, of "event_flags s ef OR flags"] obtain v u1 where
    e: "wake_flags ef (thread_next ?u ef) (event_flags s ef OR flags) ?u = Some (v, u1)" "advanced c ?u (Some u1)" by blast
  then obtain L' D' W' where g: "running c u1 L' D' W'" "keeps s u1" by (auto simp: advanced_def)
  from dispatch_ready [OF g(1), of b] obtain s' where f: "osRtxThreadDispatch None u1 = Some s'" "settled b s'" "moved u1 s'"
    by blast
  have "svcRtxEventFlagsSet p flags s = Some (v, s')"
    using True ef e(1) f(1) by (simp add: svcRtxEventFlagsSet_def EventFlagsSet_def Let_def)
  then show ?thesis using f(2) keeps_trans [OF g(2) keeps_moved [OF f(3)]] by simp
qed

lemma evflags_wait_served:
  assumes r: "running c s L D W" and top: "b \<longrightarrow> top s L c"
  shows "served b s (svcRtxEventFlagsWait p flags options timeout s)"
proof (cases "is_event_flags s p \<and> flags AND NOT valid_flags = 0")
  case False
  then show ?thesis using running_settled [OF r top] by (auto simp: svcRtxEventFlagsWait_def)
next
  case True
  then obtain ef where ef: "p = Some ef" "obj_id s ef = osRtxIdEventFlags" by auto
  obtain f ev where e: "EventFlagsCheck ef flags options s = (f, s\<lparr>event_flags := ev\<rparr>)"
    using EventFlagsCheck_shape by blast
  let ?u = "s\<lparr>event_flags := ev\<rparr>"
  have u: "running c ?u L D W" "b \<longrightarrow> top ?u L c" "settled b ?u" "keeps s ?u"
    using r top running_settled [OF r top] by simp_all
  have "obj_id ?u ef = osRtxIdEventFlags" using ef by simp
  then have own: "ef \<in> owners ?u \<and> ef \<noteq> ReadyList" by (rule owner_id [OF _ _ running_sched [OF u(1)]]) simp
  have st: "masked osRtxThreadWaitingEventFlags = osRtxThreadBlocked"
    "osRtxThreadWaitingEventFlags \<noteq> osRtxThreadWaitingThreadFlags" by (simp_all add: masked_def rtx_states)
  show ?thesis
  proof (cases "f = 0 \<and> timeout \<noteq> 0")
    case False
    then show ?thesis using True ef e u by (auto simp: svcRtxEventFlagsWait_def Let_def)
  next
    case go: True
    from wait_queue [OF u(1,2) conjunct2 [OF go] st conjunct1 [OF own] conjunct2 [OF own]]
    show ?thesis
    proof (elim disjE exE conjE)
      assume "osRtxThreadWaitEnter osRtxThreadWaitingEventFlags timeout ?u = Some (False, ?u)"
      then have "svcRtxEventFlagsWait p flags options timeout s = Some (osErrorTimeout, ?u)"
        using True ef e go by (simp add: svcRtxEventFlagsWait_def Let_def)
      then show ?thesis using u by simp
    next
      fix s1 s2
      assume w: "osRtxThreadWaitEnter osRtxThreadWaitingEventFlags timeout ?u = Some (True, s1)"
        "run_curr s1 = Some c" "osRtxThreadListPut ef c s1 = Some s2" "settled b s2" "keeps ?u s2"
      have "svcRtxEventFlagsWait p flags options timeout s = Some (osErrorTimeout,
          s2\<lparr>wait_flags := (wait_flags s2)(c := flags), flags_options := (flags_options s2)(c := ucast options)\<rparr>)"
        using True ef e go w(1-3) by (simp add: svcRtxEventFlagsWait_def Let_def)
      then show ?thesis using w(4,5) by simp
    qed
  qed
qed

end
