(* ===== verification/Rtx_Events.thy ===== *)
theory Rtx_Events
  imports Rtx_Waits
begin

text \<open>
  Interrupts, the PendSV and tick handlers, and sequences of kernel events: the scheduler works
  from any stable state on.
\<close>

section \<open>Interrupts\<close>

text \<open>Every object in the interrupt queue can be post-processed.\<close>

definition posted :: "rtx \<Rightarrow> bool" where
  "posted s \<longleftrightarrow> ring_ok s
     \<and> (\<forall>p\<in>set (ring s). obj_id s p \<in> {osRtxIdThread, osRtxIdEventFlags, osRtxIdSemaphore} \<and> post_process s (obj_id s p))"

lemma ring_fields:
  "isr_data s' = isr_data s \<Longrightarrow> isr_cnt s' = isr_cnt s \<Longrightarrow> isr_in s' = isr_in s \<Longrightarrow> isr_out s' = isr_out s \<Longrightarrow>
   isr_max s' = isr_max s \<Longrightarrow> ring s' = ring s \<and> ring_ok s' = ring_ok s"
  by (simp add: ring_def ring_ok_def)

lemma keeps_posted: "keeps s s' \<Longrightarrow> posted s \<Longrightarrow> posted s'"
  using ring_fields [of s' s] by (simp add: keeps_def posted_def)

lemma get_shape: "\<exists>cnt out. snd (isr_queue_get s) = s\<lparr>isr_cnt := cnt, isr_out := out\<rparr>"
proof (cases "isr_cnt s = 0")
  case True
  then have "snd (isr_queue_get s) = s\<lparr>isr_cnt := isr_cnt s, isr_out := isr_out s\<rparr>" by (simp add: isr_queue_get_def)
  then show ?thesis by blast
qed (auto simp: isr_queue_get_def)

lemma thread_post_advanced:
  assumes r: "running c s L D W" and t: "obj_id s t = osRtxIdThread"
  shows "advanced c s (osRtxThreadPostProcess t s)"
proof -
  obtain f tf where e: "ThreadFlagsCheck t (wait_flags s t) (ucast (flags_options s t)) s = (f, s\<lparr>thread_flags := tf\<rparr>)"
    using ThreadFlagsCheck_shape by blast
  let ?u = "s\<lparr>thread_flags := tf\<rparr>"
  have u: "running c ?u L D W" "keeps s ?u" using r by simp_all
  show ?thesis
  proof (cases "thread_state s t = osRtxThreadWaitingThreadFlags \<and> f \<noteq> 0")
    case True
    then have "t \<in> set D \<union> set W" "\<not> listed L t"
      using sched_stands [OF running_sched [OF r], of t] t state_values by (auto simp: stands_def)
    from wait_exit_advanced [OF u(1) this, of f] have "advanced c ?u (osRtxThreadWaitExit t f False ?u)" .
    then show ?thesis using True e by (simp add: osRtxThreadPostProcess_def advanced_def)
  next
    case False
    then have "osRtxThreadPostProcess t s = Some s \<or> osRtxThreadPostProcess t s = Some ?u"
      using e by (auto simp: osRtxThreadPostProcess_def)
    then show ?thesis using advanced_Some [OF r] advanced_Some [OF u] by auto
  qed
qed

lemma post_object_advanced:
  assumes r: "running c s L D W" and p: "obj_id s p \<in> {osRtxIdThread, osRtxIdEventFlags, osRtxIdSemaphore}"
    "post_process s (obj_id s p)"
  shows "advanced c s (post_process_object p s)"
proof -
  have ids: "osRtxIdEventFlags \<noteq> osRtxIdThread" "osRtxIdSemaphore \<noteq> osRtxIdThread" "osRtxIdSemaphore \<noteq> osRtxIdEventFlags"
    by (simp_all add: rtx_ids)
  from p(1) consider "obj_id s p = osRtxIdThread" | "obj_id s p = osRtxIdEventFlags" | "obj_id s p = osRtxIdSemaphore"
    by blast
  then show ?thesis
  proof cases
    case 1
    then show ?thesis using thread_post_advanced [OF r 1] p(2) by (simp add: post_process_object_def)
  next
    case 2
    then show ?thesis using evflags_post_advanced [OF r 2] p(2) ids by (simp add: post_process_object_def)
  next
    case 3
    then show ?thesis using semaphore_post_advanced [OF r 3] p(2) ids by (simp add: post_process_object_def)
  qed
qed

text \<open>The queue is drained: at most \<open>isr_cnt\<close> rounds.\<close>

definition quiet :: "rtx \<Rightarrow> rtx \<Rightarrow> bool" where
  "quiet s s' \<longleftrightarrow> obj_id s' = obj_id s \<and> post_process s' = post_process s \<and> timer_tick_set s' = timer_tick_set s
     \<and> kernel_state s' = kernel_state s"

lemma keeps_quiet: "keeps s s' \<Longrightarrow> quiet s s'" by (simp add: keeps_def quiet_def)

lemma quiet_trans: "quiet s s' \<Longrightarrow> quiet s' s'' \<Longrightarrow> quiet s s''" by (simp add: quiet_def)

lemma running_isr [simp]: "running c (s\<lparr>isr_cnt := v1, isr_out := v2\<rparr>) L D W = running c s L D W"
  by (simp add: running_def)

lemma post_process_drains:
  "running c s L D W \<Longrightarrow> posted s \<Longrightarrow> n = length (ring s) \<Longrightarrow>
   \<exists>s' L' D' W'. post_process_all s = Some s' \<and> running c s' L' D' W' \<and> posted s' \<and> ring s' = [] \<and> quiet s s'"
proof (induction n arbitrary: s L D W)
  case 0
  have "ring_ok s" using 0(2) by (simp add: posted_def)
  then have "isr_queue_get s = (None, s)" using isrq.get_contents [of s] 0(3) by auto
  then have "post_process_all s = Some s" by (subst post_process_all.simps) simp
  then show ?case using 0 by (intro exI [of _ s]) (auto simp: quiet_def)
next
  case (Suc n)
  note r = Suc(2)
  have ok: "ring_ok s" using Suc(3) by (simp add: posted_def)
  have "ring s \<noteq> []" using Suc(4) by auto
  then obtain p ps where e: "ring s = p # ps" "fst (isr_queue_get s) = Some p" "ring (snd (isr_queue_get s)) = ps"
    using isrq.get_contents [OF ok] by auto
  obtain cnt out where sh: "snd (isr_queue_get s) = s\<lparr>isr_cnt := cnt, isr_out := out\<rparr>" using get_shape by blast
  let ?u = "s\<lparr>isr_cnt := cnt, isr_out := out\<rparr>"
  have u: "isr_queue_get s = (Some p, ?u)" "ring_ok ?u" "ring ?u = ps" "running c ?u L D W"
    using e sh isrq.get_ok [OF ok] r by (auto simp: prod_eq_iff)
  have pu: "posted ?u" using Suc(3) u(2,3) e(1) by (auto simp: posted_def)
  have "obj_id ?u p \<in> {osRtxIdThread, osRtxIdEventFlags, osRtxIdSemaphore}" "post_process ?u (obj_id ?u p)"
    using Suc(3) e(1) by (auto simp: posted_def)
  from post_object_advanced [OF u(4) this] obtain v L1 D1 W1 where
    v: "post_process_object p ?u = Some v" "running c v L1 D1 W1" "keeps ?u v" unfolding advanced_def by blast
  have rv: "ring v = ps" using v(3) ring_fields [of v ?u] u(3) by (simp add: keeps_def)
  obtain s' L' D' W' where w: "post_process_all v = Some s'" "running c s' L' D' W'" "posted s'" "ring s' = []" "quiet v s'"
    using Suc.IH [OF v(2) keeps_posted [OF v(3) pu]] rv Suc(4) e(1) by auto
  have "post_process_all s = Some s'" using u(1) v(1) w(1) by (subst post_process_all.simps) simp
  moreover have "quiet s s'" using keeps_quiet [OF v(3)] w(5) by (simp add: quiet_def)
  ultimately show ?case using w(2,3,4) by blast
qed

lemma pendsv_settled:
  assumes r: "running c s L D W" and p: "posted s"
  shows "\<exists>s'. osRtxPendSV_Handler s = Some s' \<and> settled b s' \<and> posted s' \<and> quiet s s'"
proof -
  obtain u L' D' W' where u: "post_process_all s = Some u" "running c u L' D' W'" "posted u" "quiet s u"
    using post_process_drains [OF r p refl] by blast
  from dispatch_ready [OF u(2), of b] obtain s' where f: "osRtxThreadDispatch None u = Some s'" "settled b s'" "moved u s'"
    by blast
  have "osRtxPendSV_Handler s = Some s'" using u(1) f(1) by (simp add: osRtxPendSV_Handler_def)
  then show ?thesis
    using f(2) keeps_posted [OF keeps_moved [OF f(3)] u(3)] quiet_trans [OF u(4) keeps_quiet [OF keeps_moved [OF f(3)]]]
    by blast
qed

section \<open>The tick\<close>

lemma tick_settled:
  assumes r: "running c s L D W" and no: "\<not> timer_tick_set s"
  shows "\<exists>s'. osRtxTick_Handler s = Some s' \<and> settled b s' \<and> keeps s s'"
proof -
  let ?u = "s\<lparr>kernel_tick := kernel_tick s + 1\<rparr>"
  have ru: "running c ?u L D W" using r by simp
  obtain v L' D' where v: "osRtxThreadDelayTick ?u = Some v" "sched {} (Some c) v L' D' W" "run_next v = run_next ?u"
    "moved ?u v" using delay_tick [OF running_sched [OF ru]] by blast
  from dispatch_ready [OF running_moved [OF v(2,3,4) ru], of b] obtain w where
    w: "osRtxThreadDispatch None v = Some w" "settled b w" "moved v w" by blast
  from round_robin_settled [OF w(2)] obtain s' where s': "round_robin w = Some s'" "settled b s'" "keeps w s'" by blast
  have "osRtxTick_Handler s = Some s'" using no v(1) w(1) s'(1) by (simp add: osRtxTick_Handler_def Let_def)
  moreover have "keeps s s'"
    using keeps_trans [OF keeps_moved [OF moved_trans [OF v(4) w(3)]] s'(3)] by simp
  ultimately show ?thesis using s'(2) by blast
qed

section \<open>Sequences of events\<close>

text \<open>
  What happens to the kernel: service calls by the running thread, calls from interrupt routines,
  and the kernel's own exceptions. A service call and the PendSV and tick handlers end with a
  switch to the thread they chose; an interrupt routine leaves that to PendSV.
\<close>

datatype kernel_event =
    YieldCall | SetPriorityCall "ref option" int | SuspendCall "ref option" | ResumeCall "ref option"
  | ThreadFlagsSetCall "ref option" u32 | ThreadFlagsClearCall u32 | ThreadFlagsWaitCall u32 u32 u32
  | DelayCall u32 | DelayUntilCall u32
  | AcquireCall "ref option" u32 | ReleaseCall "ref option"
  | EventFlagsSetCall "ref option" u32 | EventFlagsClearCall "ref option" u32
  | EventFlagsWaitCall "ref option" u32 u32 u32
  | LockCall | UnlockCall | RestoreLockCall int
  | ThreadFlagsSetIrq "ref option" u32 | EventFlagsSetIrq "ref option" u32 | EventFlagsWaitIrq "ref option" u32 u32 u32
  | ReleaseIrq "ref option" | AcquireIrq "ref option" u32
  | PendSVIrq | TickIrq

definition service :: "('a \<times> rtx) option \<Rightarrow> rtx option" where
  "service r = map_option (\<lambda>(_, s). context_switch s) r"

fun handle :: "kernel_event \<Rightarrow> rtx \<Rightarrow> rtx option" where
  "handle YieldCall s = service (svcRtxThreadYield s)"
| "handle (SetPriorityCall t p) s = service (svcRtxThreadSetPriority t p s)"
| "handle (SuspendCall t) s = service (svcRtxThreadSuspend t s)"
| "handle (ResumeCall t) s = service (svcRtxThreadResume t s)"
| "handle (ThreadFlagsSetCall t f) s = service (svcRtxThreadFlagsSet t f s)"
| "handle (ThreadFlagsClearCall f) s = service (Some (svcRtxThreadFlagsClear f s))"
| "handle (ThreadFlagsWaitCall f opt d) s = service (svcRtxThreadFlagsWait f opt d s)"
| "handle (DelayCall d) s = service (svcRtxDelay d s)"
| "handle (DelayUntilCall d) s = service (svcRtxDelayUntil d s)"
| "handle (AcquireCall p d) s = service (svcRtxSemaphoreAcquire p d s)"
| "handle (ReleaseCall p) s = service (svcRtxSemaphoreRelease p s)"
| "handle (EventFlagsSetCall p f) s = service (svcRtxEventFlagsSet p f s)"
| "handle (EventFlagsClearCall p f) s = service (Some (svcRtxEventFlagsClear p f s))"
| "handle (EventFlagsWaitCall p f opt d) s = service (svcRtxEventFlagsWait p f opt d s)"
| "handle LockCall s = service (Some (svcRtxKernelLock s))"
| "handle UnlockCall s = service (Some (svcRtxKernelUnlock s))"
| "handle (RestoreLockCall l) s = service (Some (svcRtxKernelRestoreLock l s))"
| "handle (ThreadFlagsSetIrq t f) s = Some (snd (isrRtxThreadFlagsSet t f s))"
| "handle (EventFlagsSetIrq p f) s = Some (snd (isrRtxEventFlagsSet p f s))"
| "handle (EventFlagsWaitIrq p f opt d) s = Some (snd (isrRtxEventFlagsWait p f opt d s))"
| "handle (ReleaseIrq p) s = Some (snd (isrRtxSemaphoreRelease p s))"
| "handle (AcquireIrq p d) s = Some (snd (isrRtxSemaphoreAcquire p d s))"
| "handle PendSVIrq s = map_option context_switch (osRtxPendSV_Handler s)"
| "handle TickIrq s = map_option context_switch (osRtxTick_Handler s)"

fun run :: "kernel_event list \<Rightarrow> rtx \<Rightarrow> rtx option" where
  "run [] s = Some s"
| "run (e # es) s = (case handle e s of None \<Rightarrow> None | Some s' \<Rightarrow> run es s')"

text \<open>
  Between two events: the thread lists are well-formed, every thread is where its state says, and,
  with \<open>b\<close>, no ready thread is more urgent than the running one when the kernel schedules.
\<close>

definition registered :: "rtx \<Rightarrow> bool" where
  "registered s \<longleftrightarrow> (\<forall>p. obj_id s p \<in> {osRtxIdThread, osRtxIdEventFlags, osRtxIdSemaphore} \<longrightarrow> post_process s (obj_id s p))"

definition stable :: "bool \<Rightarrow> rtx \<Rightarrow> bool" where
  "stable b s \<longleftrightarrow> (\<exists>c L D W. running c s L D W \<and> (b \<longrightarrow> top s L c)) \<and> posted s \<and> registered s \<and> \<not> timer_tick_set s"

text \<open>Leaving the lock does not schedule; the next tick or PendSV does.\<close>

fun ordered_after :: "kernel_event \<Rightarrow> bool \<Rightarrow> bool" where
  "ordered_after UnlockCall b = False"
| "ordered_after (RestoreLockCall l) b = False"
| "ordered_after PendSVIrq b = True"
| "ordered_after TickIrq b = True"
| "ordered_after e b = b"

lemma stable_switch:
  assumes "settled b s'" and "posted s'" and "quiet s s'" and "registered s" and "\<not> timer_tick_set s"
  shows "stable b (context_switch s')"
proof -
  obtain L D W n where n: "sched {} (Some n) s' L D W" "run_next s' = Some n" "b \<longrightarrow> top s' L n"
    using assms(1) unfolding settled_def by blast
  have "running n (context_switch s') L D W" using n by (simp add: running_def context_switch_def)
  moreover have "b \<longrightarrow> top (context_switch s') L n" using n(3) by (simp add: top_def context_switch_def)
  moreover have "posted (context_switch s')"
    using assms(2) ring_fields [of "context_switch s'" s'] by (simp add: posted_def context_switch_def)
  moreover have "registered (context_switch s')" "\<not> timer_tick_set (context_switch s')"
    using assms(3-5) by (simp_all add: registered_def context_switch_def quiet_def)
  ultimately show ?thesis unfolding stable_def by blast
qed

lemma service_stable:
  assumes "served b s r" and "stable b s"
  shows "\<exists>s'. service r = Some s' \<and> stable b s'"
proof -
  obtain v s' where r: "r = Some (v, s')" "settled b s'" "keeps s s'" using assms(1) by (auto simp: served_def)
  have "posted s" "registered s" "\<not> timer_tick_set s" using assms(2) by (simp_all add: stable_def)
  then have "stable b (context_switch s')"
    using stable_switch [OF r(2) keeps_posted [OF r(3)] keeps_quiet [OF r(3)]] by simp
  then show ?thesis using r(1) by (simp add: service_def)
qed

lemma stableI:
  "running c s L D W \<Longrightarrow> (b \<longrightarrow> top s L c) \<Longrightarrow> posted s \<Longrightarrow> registered s \<Longrightarrow> \<not> timer_tick_set s \<Longrightarrow> stable b s"
  unfolding stable_def by blast

lemma service_Some [simp]: "service (Some r) = Some (context_switch (snd r))"
  by (simp add: service_def split: prod.split)

lemma stable_running:
  assumes "stable b s"
  obtains c L D W where "running c s L D W" "b \<longrightarrow> top s L c"
  using assms unfolding stable_def by blast

lemma stable_frame:
  assumes "stable b s"
  shows "stable b (s\<lparr>thread_flags := v1\<rparr>)" "stable b (s\<lparr>event_flags := v1\<rparr>)" "stable b (s\<lparr>tokens := v2\<rparr>)"
proof -
  obtain c L D W where r: "running c s L D W" "b \<longrightarrow> top s L c" by (rule stable_running [OF assms])
  have q: "posted s" "registered s" "\<not> timer_tick_set s" using assms by (simp_all add: stable_def)
  have p: "posted (s\<lparr>thread_flags := v1\<rparr>)" "posted (s\<lparr>event_flags := v1\<rparr>)" "posted (s\<lparr>tokens := v2\<rparr>)"
    by (rule keeps_posted [OF _ q(1)]; simp)+
  show "stable b (s\<lparr>thread_flags := v1\<rparr>)" "stable b (s\<lparr>event_flags := v1\<rparr>)" "stable b (s\<lparr>tokens := v2\<rparr>)"
    using r q p unfolding stable_def by (auto simp: registered_def)
qed

lemma post_shape:
  "\<exists>pe k e. osRtxPostProcess p s = (snd (isr_queue_put p s))\<lparr>pendSV_set := pe, kernel_pendSV := k, error_log := e\<rparr>"
proof -
  obtain ok u where q: "isr_queue_put p s = (ok, u)" by fastforce
  have e: "osRtxPostProcess p s = (if ok then if \<not> kernel_blocked u then u\<lparr>pendSV_set := True\<rparr>
      else u\<lparr>kernel_pendSV := True\<rparr> else u\<lparr>error_log := error_log (osRtxErrorNotify osRtxErrorISRQueueOverflow p u)\<rparr>)"
    using q by (simp add: osRtxPostProcess_def osRtxErrorNotify_def)
  show ?thesis
    unfolding e q snd_conv
    by (rule exI [of _ "if ok \<and> \<not> kernel_blocked u then True else pendSV_set u"],
        rule exI [of _ "if ok \<and> kernel_blocked u then True else kernel_pendSV u"],
        rule exI [of _ "if ok then error_log u else error_log (osRtxErrorNotify osRtxErrorISRQueueOverflow p u)"]) simp
qed

lemma stable_post:
  assumes st: "stable b s" and p: "obj_id s p \<in> {osRtxIdThread, osRtxIdEventFlags, osRtxIdSemaphore}"
  shows "stable b (osRtxPostProcess p s)"
proof -
  obtain c L D W where r: "running c s L D W" "b \<longrightarrow> top s L c" by (rule stable_running [OF st])
  have q: "posted s" "registered s" "\<not> timer_tick_set s" using st by (simp_all add: stable_def)
  have ok: "ring_ok s" using q(1) by (simp add: posted_def)
  define u where "u = snd (isr_queue_put p s)"
  have "\<exists>cnt d i. u = s\<lparr>isr_cnt := cnt, isr_data := d, isr_in := i\<rparr>"
  proof (cases "isr_cnt s < isr_max s")
    case False
    then have "u = s\<lparr>isr_cnt := isr_cnt s, isr_data := isr_data s, isr_in := isr_in s\<rparr>" by (simp add: u_def isr_queue_put_def)
    then show ?thesis by blast
  qed (auto simp: u_def isr_queue_put_def)
  then obtain cnt d i where u: "u = s\<lparr>isr_cnt := cnt, isr_data := d, isr_in := i\<rparr>" by blast
  have ring: "ring_ok u" "set (ring u) \<subseteq> insert p (set (ring s))"
    using isrq.put_ok [OF ok] isrq.put_contents [OF ok] by (auto simp: u_def)
  have fields: "obj_id u = obj_id s" "post_process u = post_process s" by (simp_all add: u)
  have pu: "posted u" using q p ring fields unfolding posted_def registered_def by auto
  obtain pe k e where o: "osRtxPostProcess p s = u\<lparr>pendSV_set := pe, kernel_pendSV := k, error_log := e\<rparr>"
    using post_shape u_def by blast
  let ?v = "u\<lparr>pendSV_set := pe, kernel_pendSV := k, error_log := e\<rparr>"
  have "posted ?v" using pu ring_fields [of ?v u] by (simp add: posted_def)
  moreover have "running c ?v L D W" "b \<longrightarrow> top ?v L c" using r by (simp_all add: u running_def top_def)
  moreover have "registered ?v" "\<not> timer_tick_set ?v" using q by (simp_all add: u registered_def)
  ultimately show ?thesis unfolding o stable_def by blast
qed


lemma stable_lock:
  assumes "stable b s"
  shows "stable b (s\<lparr>kernel_state := osRtxKernelLocked\<rparr>)" and "stable False (s\<lparr>kernel_state := osRtxKernelRunning\<rparr>)"
    and "stable False s"
proof -
  obtain c L D W where r: "running c s L D W" by (rule stable_running [OF assms])
  have q: "posted s" "registered s" "\<not> timer_tick_set s" using assms by (simp_all add: stable_def)
  have f: "running c (s\<lparr>kernel_state := v\<rparr>) L D W" "posted (s\<lparr>kernel_state := v\<rparr>)" "registered (s\<lparr>kernel_state := v\<rparr>)"
    "\<not> timer_tick_set (s\<lparr>kernel_state := v\<rparr>)" for v
    using r q ring_fields [of "s\<lparr>kernel_state := v\<rparr>" s] by (simp_all add: running_def posted_def registered_def)
  show "stable b (s\<lparr>kernel_state := osRtxKernelLocked\<rparr>)"
    by (rule stableI [OF f(1) _ f(2-4)]) (simp add: top_def rtx_kernel_states)
  show "stable False (s\<lparr>kernel_state := osRtxKernelRunning\<rparr>)" by (rule stableI [OF f(1) _ f(2-4)]) simp
  show "stable False s" using stableI [OF r _ q] by simp
qed

lemma stable_same: "stable b s \<Longrightarrow> stable b (context_switch s)"
proof -
  assume st: "stable b s"
  obtain c L D W where r: "running c s L D W" "b \<longrightarrow> top s L c" by (rule stable_running [OF st])
  have "context_switch s = s" using r(1) by (simp add: context_switch_def running_def)
  then show ?thesis using st by simp
qed

lemma isr_calls_stable:
  assumes st: "stable b s"
  shows "stable b (snd (isrRtxThreadFlagsSet p f s))" and "stable b (snd (isrRtxEventFlagsSet p f s))"
    and "stable b (snd (isrRtxSemaphoreRelease p s))" and "stable b (snd (isrRtxSemaphoreAcquire p d s))"
    and "stable b (snd (isrRtxEventFlagsWait p f opt d s))"
proof -
  show "stable b (snd (isrRtxThreadFlagsSet p f s))"
  proof (cases "is_thread s p \<and> f AND NOT valid_flags = 0")
    case True
    let ?u = "s\<lparr>thread_flags := (thread_flags s)(the p := thread_flags s (the p) OR f)\<rparr>"
    have "stable b (osRtxPostProcess (the p) ?u)" by (rule stable_post [OF stable_frame(1) [OF st]]) (use True in simp)
    then show ?thesis using st by (simp add: isrRtxThreadFlagsSet_def ThreadFlagsSet_def Let_def)
  qed (use st in \<open>auto simp: isrRtxThreadFlagsSet_def\<close>)
  show "stable b (snd (isrRtxEventFlagsSet p f s))"
  proof (cases "is_event_flags s p")
    case True
    let ?u = "s\<lparr>event_flags := (event_flags s)(the p := event_flags s (the p) OR f)\<rparr>"
    have "stable b (osRtxPostProcess (the p) ?u)" by (rule stable_post [OF stable_frame(2) [OF st]]) (use True in simp)
    then show ?thesis using st by (simp add: isrRtxEventFlagsSet_def EventFlagsSet_def Let_def)
  qed (use st in \<open>auto simp: isrRtxEventFlagsSet_def\<close>)
  show "stable b (snd (isrRtxSemaphoreRelease p s))"
  proof (cases "is_semaphore s p")
    case True
    let ?u = "s\<lparr>tokens := (tokens s)(the p := tokens s (the p) + 1)\<rparr>"
    have "stable b (osRtxPostProcess (the p) ?u)" by (rule stable_post [OF stable_frame(3) [OF st]]) (use True in simp)
    then show ?thesis using st by (simp add: isrRtxSemaphoreRelease_def SemaphoreTokenIncrement_def Let_def)
  qed (use st in \<open>auto simp: isrRtxSemaphoreRelease_def\<close>)
  show "stable b (snd (isrRtxSemaphoreAcquire p d s))"
    using st stable_frame(3) [OF st] by (simp add: isrRtxSemaphoreAcquire_def SemaphoreTokenDecrement_def Let_def)
  obtain g ev where "EventFlagsCheck (the p) f opt s = (g, s\<lparr>event_flags := ev\<rparr>)" using EventFlagsCheck_shape by blast
  then show "stable b (snd (isrRtxEventFlagsWait p f opt d s))"
    using st stable_frame(2) [OF st] by (simp add: isrRtxEventFlagsWait_def Let_def)
qed

lemma handle_stable:
  assumes st: "stable b s"
  shows "\<exists>s'. handle e s = Some s' \<and> stable (ordered_after e b) s'"
proof -
  obtain c L D W where r: "running c s L D W" and top: "b \<longrightarrow> top s L c" by (rule stable_running [OF st])
  have q: "posted s" "registered s" "\<not> timer_tick_set s" using st by (simp_all add: stable_def)
  note served = yield_served [OF r top] set_priority_served [OF r top] suspend_served [OF r top]
    resume_served [OF r top] flags_set_served [OF r top] flags_wait_served [OF r top] delay_served [OF r top]
    acquire_served [OF r top] release_served [OF r top] evflags_set_served [OF r top] evflags_wait_served [OF r top]
  note served = served [THEN service_stable, OF st]
  note isr = isr_calls_stable [OF st]
  show ?thesis
  proof (cases e)
    case (ThreadFlagsClearCall f)
    have "snd (svcRtxThreadFlagsClear f s) = s \<or> (\<exists>v. snd (svcRtxThreadFlagsClear f s) = s\<lparr>thread_flags := v\<rparr>)"
      by (auto simp: svcRtxThreadFlagsClear_def ThreadFlagsClear_def split: option.split)
    then have "stable b (snd (svcRtxThreadFlagsClear f s))" using st stable_frame(1) [OF st] by metis
    then show ?thesis using ThreadFlagsClearCall stable_same by simp
  next
    case (EventFlagsClearCall p f)
    have "snd (svcRtxEventFlagsClear p f s) = s \<or> (\<exists>v. snd (svcRtxEventFlagsClear p f s) = s\<lparr>event_flags := v\<rparr>)"
      by (auto simp: svcRtxEventFlagsClear_def EventFlagsClear_def)
    then have "stable b (snd (svcRtxEventFlagsClear p f s))" using st stable_frame(2) [OF st] by metis
    then show ?thesis using EventFlagsClearCall stable_same by simp
  next
    case LockCall
    then show ?thesis using st stable_lock [OF st] stable_same by (auto simp: svcRtxKernelLock_def)
  next
    case UnlockCall
    then show ?thesis using st stable_lock [OF st] stable_same by (auto simp: svcRtxKernelUnlock_def)
  next
    case (RestoreLockCall l)
    then show ?thesis using stable_lock [OF st] stable_lock(1) [OF stable_lock(3) [OF st]] stable_same
      by (auto simp: svcRtxKernelRestoreLock_def)
  next
    case PendSVIrq
    obtain s' where "osRtxPendSV_Handler s = Some s'" "settled True s'" "posted s'" "quiet s s'"
      using pendsv_settled [OF r q(1)] by blast
    then show ?thesis using PendSVIrq stable_switch [OF _ _ _ q(2,3)] by auto
  next
    case TickIrq
    obtain s' where t: "osRtxTick_Handler s = Some s'" "settled True s'" "keeps s s'"
      using tick_settled [OF r q(3)] by blast
    then show ?thesis
      using TickIrq stable_switch [OF t(2) keeps_posted [OF t(3) q(1)] keeps_quiet [OF t(3)] q(2,3)] by auto
  qed (use served isr in simp_all)
qed

lemma run_stable:
  "stable b s \<Longrightarrow> \<exists>s'. run es s = Some s' \<and> stable (fold ordered_after es b) s'"
proof (induction es arbitrary: b s)
  case Nil
  then show ?case by simp
next
  case (Cons e es)
  from handle_stable [OF Cons(2)] obtain u where "handle e s = Some u" "stable (ordered_after e b) u" by blast
  then show ?case using Cons.IH by simp
qed

end
