(* ===== verification/Rtx_Guarantees.thy ===== *)
theory Rtx_Guarantees
  imports Rtx_Events
begin

text \<open>
  What the scheduler guarantees: it never gets stuck, a most urgent thread runs, the ready list is
  exact, and delays last as long as they should. A small system shows that the hypotheses can hold.
\<close>

section \<open>What dispatching leaves alone\<close>

definition calm :: "rtx \<Rightarrow> rtx \<Rightarrow> bool" where
  "calm s s' \<longleftrightarrow> delay s' = delay s \<and> delay_next s' = delay_next s \<and> delay_prev s' = delay_prev s
     \<and> delay_list s' = delay_list s \<and> wait_list s' = wait_list s
     \<and> (\<forall>u. thread_state s' u \<in> {thread_state s u, osRtxThreadReady, osRtxThreadRunning})"

lemma calm_refl [simp]: "calm s s" by (simp add: calm_def)

lemma calm_trans:
  assumes "calm s s'" and "calm s' s''"
  shows "calm s s''"
proof -
  have "thread_state s'' u \<in> {thread_state s u, osRtxThreadReady, osRtxThreadRunning}" for u
  proof -
    have "thread_state s'' u \<in> {thread_state s' u, osRtxThreadReady, osRtxThreadRunning}"
      "thread_state s' u \<in> {thread_state s u, osRtxThreadReady, osRtxThreadRunning}"
      using assms by (simp_all only: calm_def)
    then show ?thesis by auto
  qed
  then show ?thesis using assms by (simp add: calm_def)
qed

lemma calm_links: "calm s (s\<lparr>thread_next := nx, thread_prev := pv\<rparr>)"
  by (simp add: calm_def)

lemma calm_state: "v = osRtxThreadReady \<or> v = osRtxThreadRunning \<Longrightarrow> calm s (s\<lparr>thread_state := (thread_state s)(t := v)\<rparr>)"
  by (auto simp: calm_def)

lemma calm_link: "calm s (link_thread t a b s)"
  by (simp add: link_thread_eq calm_links)

lemma calm_ListRemove: "calm s (osRtxThreadListRemove t s)"
  unfolding osRtxThreadListRemove_def Let_def by (auto simp: calm_def split: option.split)

lemma calm_ReadyPut: "osRtxThreadReadyPut t s = Some s' \<Longrightarrow> calm s s'"
  using calm_trans [OF calm_state calm_link, of osRtxThreadReady s t]
  by (auto simp: osRtxThreadReadyPut_def osRtxThreadListPut_def split: Option.bind_splits)

lemma calm_Block: "osRtxThreadBlock t s = Some s' \<Longrightarrow> calm s s'"
  using calm_trans [OF calm_state calm_link, of osRtxThreadReady s t]
  by (auto simp: osRtxThreadBlock_def Let_def split: Option.bind_splits)

lemma calm_Switch: "calm s (osRtxThreadSwitch t s)"
  by (auto simp: calm_def osRtxThreadSwitch_def osRtxThreadStackCheck_def osRtxErrorNotify_def split: option.split)

lemma calm_dispatch: "osRtxThreadDispatch None s = Some s' \<Longrightarrow> calm s s'"
proof -
  assume "osRtxThreadDispatch None s = Some s'"
  then consider "s' = s" | (sw) c t u where "osRtxThreadBlock c (osRtxThreadListRemove t s) = Some u" "s' = osRtxThreadSwitch t u"
    by (auto simp: osRtxThreadDispatch_def split: option.splits Option.bind_splits if_splits)
  then show ?thesis
  proof cases
    case sw
    then show ?thesis using calm_trans [OF calm_ListRemove calm_trans [OF calm_Block calm_Switch]] by simp
  qed simp
qed

lemma calm_robin [simp]: "calm s (u\<lparr>robin_thread := v, robin_tick := w\<rparr>) = calm s u"
  by (simp add: calm_def)

lemma calm_round_robin:
  assumes e: "round_robin s = Some s'"
  shows "calm s s'"
proof (cases "robin_timeout s = 0 \<or> robin_thread s \<noteq> run_next s")
  case True
  then have "s' = s \<or> s' = s\<lparr>robin_thread := run_next s, robin_tick := robin_timeout s\<rparr>"
    using e unfolding round_robin_def by (metis option.inject)
  then show ?thesis by (elim disjE) simp_all
next
  case False
  define u where "u = (if robin_tick s \<noteq> 0 then s\<lparr>robin_tick := robin_tick s - 1\<rparr> else s)"
  have u: "calm s u" by (simp add: u_def calm_def)
  show ?thesis
  proof (cases "robin_tick u = 0 \<and> kernel_state u = osRtxKernelRunning \<and> thread_next u ReadyList \<noteq> None")
    case True
    then obtain t where t: "robin_tick u = 0" "kernel_state u = osRtxKernelRunning" "thread_next u ReadyList = Some t" by blast
    obtain r where r: "robin_thread u = Some r"
      using e False t unfolding round_robin_def u_def [symmetric] Let_def by (cases "robin_thread u") simp_all
    show ?thesis
    proof (cases "priority u t = priority u r")
      case True
      then obtain v where v: "osRtxThreadReadyPut r (osRtxThreadListRemove t u) = Some v"
        using e False t r unfolding round_robin_def u_def [symmetric] Let_def
        by (cases "osRtxThreadReadyPut r (osRtxThreadListRemove t u)") simp_all
      have "calm s (osRtxThreadSwitch t v)"
        by (rule calm_trans [OF u calm_trans [OF calm_ListRemove calm_trans [OF calm_ReadyPut [OF v] calm_Switch]]])
      moreover have "s' = (osRtxThreadSwitch t v)\<lparr>robin_thread := Some t, robin_tick := robin_timeout (osRtxThreadSwitch t v)\<rparr>"
        using e False t r v True unfolding round_robin_def u_def [symmetric] Let_def by simp
      ultimately show ?thesis by simp
    next
      case False
      then have "s' = u"
        using e \<open>\<not> (robin_timeout s = 0 \<or> robin_thread s \<noteq> run_next s)\<close> t r
        unfolding round_robin_def u_def [symmetric] Let_def by simp
      then show ?thesis using u by simp
    qed
  next
    case False2: False
    then have "s' = u"
      using e False unfolding round_robin_def u_def [symmetric] Let_def
      by (cases "thread_next u ReadyList") (auto split: if_splits)
    then show ?thesis using u by simp
  qed
qed

section \<open>Time-outs\<close>

text \<open>\<open>t\<close> is in the delay list with \<open>e\<close> ticks left.\<close>

definition due :: "rtx \<Rightarrow> ref \<Rightarrow> nat \<Rightarrow> bool" where
  "due s t e \<longleftrightarrow> (\<exists>c L D W. running c s L D W \<and> (t, e) \<in> set (expiries 0 (delay s) D))"

lemma expiries_member: "(t, e) \<in> set (expiries b dl xs) \<Longrightarrow> t \<in> set xs"
  using expiries_fst [of b dl xs] by (metis fst_conv imageI list.set_map)

lemma expiries_unique:
  assumes "distinct xs" and "(t, e) \<in> set (expiries b dl xs)" and "(t, e') \<in> set (expiries b dl xs)"
  shows "e = e'"
  using assms eq_key_imp_eq_value [of "expiries b dl xs"] by simp

lemma due_blocked: "due s t e \<Longrightarrow> masked (thread_state s t) = osRtxThreadBlocked"
proof -
  assume "due s t e"
  then obtain c L D W where r: "running c s L D W" "(t, e) \<in> set (expiries 0 (delay s) D)" unfolding due_def by blast
  then have "t \<in> set D \<union> set W" using expiries_member by auto
  then show ?thesis using sched_stands [OF running_sched [OF r(1)], of t] by (auto simp: stands_def)
qed

lemma due_pos:
  assumes "due s t e"
  shows "0 < e"
proof -
  obtain c L D W where r: "running c s L D W" "(t, e) \<in> set (expiries 0 (delay s) D)" using assms unfolding due_def by blast
  then obtain d ds where D: "D = d # ds" by (cases D) auto
  then have "0 < unat (delay s d)" using running_sched [OF r(1)] by (simp add: sched_def unat_gt_0)
  then show ?thesis using r(2) D expiries_bounds [of t e "unat (delay s d)" "delay s" ds] by auto
qed

lemma tick_due:
  assumes st: "stable b s" and due: "due s t e"
  shows "\<exists>s'. handle TickIrq s = Some s' \<and> stable True s'
    \<and> (if e = 1 then thread_state s' t \<in> {osRtxThreadReady, osRtxThreadRunning} else due s' t (e - 1))"
proof -
  obtain c L D W where r: "running c s L D W" and te: "(t, e) \<in> set (expiries 0 (delay s) D)"
    using due unfolding due_def by blast
  have q: "posted s" "registered s" "\<not> timer_tick_set s" using st by (simp_all add: stable_def)
  let ?u = "s\<lparr>kernel_tick := kernel_tick s + 1\<rparr>"
  have ru: "running c ?u L D W" using r by simp
  obtain v L' D' where v: "osRtxThreadDelayTick ?u = Some v" "sched {} (Some c) v L' D' W"
    "expiries 0 (delay v) D' = map (\<lambda>(u, e). (u, e - 1)) (filter (\<lambda>x. 1 < snd x) (expiries 0 (delay ?u) D))"
    "\<forall>w. thread_state v w = (if w \<in> set D - set D' then osRtxThreadReady else thread_state ?u w)"
    "run_next v = run_next ?u" "moved ?u v" using delay_tick [OF running_sched [OF ru]] by blast
  from dispatch_ready [OF running_moved [OF v(2,5,6) ru], of True] obtain w where
    w: "osRtxThreadDispatch None v = Some w" "settled True w" "moved v w" by blast
  from round_robin_settled [OF w(2)] obtain s' where s': "round_robin w = Some s'" "settled True s'" "keeps w s'" by blast
  have h: "handle TickIrq s = Some (context_switch s')"
    using q v(1) w(1) s'(1) by (simp add: osRtxTick_Handler_def Let_def)
  then have st': "stable True (context_switch s')" using handle_stable [OF st, of TickIrq] by auto
  have calm: "calm v s'" by (rule calm_trans [OF calm_dispatch [OF w(1)] calm_round_robin [OF s'(1)]])
  obtain n L2 D2 W2 where n: "running n (context_switch s') L2 D2 W2" by (rule stable_running [OF st'])
  have "dlist (delay_next s') (delay_prev s') None (delay_list s') D2"
    using sched_delays [OF running_sched [OF n]] by (simp add: delays_def context_switch_def)
  moreover have "dlist (delay_next s') (delay_prev s') None (delay_list s') D'"
    using sched_delays [OF v(2)] calm by (simp add: delays_def calm_def)
  ultimately have D2: "D2 = D'" by (rule dlist_unique)
  have dist: "distinct D" using delays_distinct [OF sched_delays [OF running_sched [OF r]]] by simp
  show ?thesis
  proof (cases "e = 1")
    case True
    have "t \<notin> set D'"
    proof
      assume "t \<in> set D'"
      then obtain e' where "(t, e') \<in> set (expiries 0 (delay v) D')"
        using expiries_fst [of 0 "delay v" D'] by (metis (no_types, lifting) imageE list.set_map prod.collapse)
      then obtain e2 where "(t, e2) \<in> set (expiries 0 (delay s) D)" "1 < e2" unfolding v(3) by auto
      then show False using expiries_unique [OF dist te] True by auto
    qed
    then have "thread_state v t = osRtxThreadReady" using v(4) expiries_member [OF te] by simp
    moreover have "thread_state s' t \<in> {thread_state v t, osRtxThreadReady, osRtxThreadRunning}"
      using calm by (simp only: calm_def)
    ultimately have "thread_state s' t \<in> {osRtxThreadReady, osRtxThreadRunning}" by auto
    then have "thread_state (context_switch s') t \<in> {osRtxThreadReady, osRtxThreadRunning}"
      by (simp add: context_switch_def)
    then show ?thesis using h st' True by (intro exI [of _ "context_switch s'"]) (simp del: handle.simps)
  next
    case False
    then have "1 < e" using due_pos [OF due] by simp
    then have "(t, e - 1) \<in> set (expiries 0 (delay v) D')" unfolding v(3) using te by force
    then have "(t, e - 1) \<in> set (expiries 0 (delay (context_switch s')) D2)"
      using calm D2 by (simp add: calm_def context_switch_def)
    then have "due (context_switch s') t (e - 1)" using n unfolding due_def by blast
    then show ?thesis using h st' False by (intro exI [of _ "context_switch s'"]) (simp del: handle.simps)
  qed
qed

lemma ticks_due:
  "stable b s \<Longrightarrow> due s t e \<Longrightarrow> n \<le> e \<Longrightarrow>
   \<exists>s'. run (replicate n TickIrq) s = Some s'
     \<and> (if n < e then due s' t (e - n) else thread_state s' t \<in> {osRtxThreadReady, osRtxThreadRunning})"
proof (induction n arbitrary: b s e)
  case 0
  then show ?case using due_pos by auto
next
  case (Suc n)
  from tick_due [OF Suc(2,3)] obtain u where u: "handle TickIrq s = Some u" "stable True u"
    "if e = 1 then thread_state u t \<in> {osRtxThreadReady, osRtxThreadRunning} else due u t (e - 1)" by blast
  show ?case
  proof (cases "e = 1")
    case True
    then have "run (replicate (Suc n) TickIrq) s = Some u" using u(1) Suc(4) by (simp del: handle.simps)
    moreover have "\<not> Suc n < e" "thread_state u t \<in> {osRtxThreadReady, osRtxThreadRunning}" using True u(3) by simp_all
    ultimately show ?thesis by (intro exI [of _ u]) (simp del: handle.simps run.simps replicate.simps)
  next
    case False
    then have "due u t (e - 1)" "n \<le> e - 1" using u(3) Suc(4) by simp_all
    from Suc.IH [OF u(2) this] obtain s' where s': "run (replicate n TickIrq) u = Some s'"
      "if n < e - 1 then due s' t (e - 1 - n) else thread_state s' t \<in> {osRtxThreadReady, osRtxThreadRunning}" by blast
    have "(n < e - 1) = (Suc n < e)" "e - 1 - n = e - Suc n" by auto
    with s'(2) have "if Suc n < e then due s' t (e - Suc n) else thread_state s' t \<in> {osRtxThreadReady, osRtxThreadRunning}"
      by (simp only:)
    then show ?thesis using u(1) s'(1) by (intro exI [of _ s']) (simp del: handle.simps)
  qed
qed


lemma delay_due:
  assumes st: "stable b s" and c: "run_curr s = Some c" and k: "kernel_state s = osRtxKernelRunning"
    and more: "thread_next s ReadyList \<noteq> None" and d: "d \<noteq> 0" "d \<noteq> osWaitForever"
  shows "\<exists>s'. handle (DelayCall d) s = Some s' \<and> stable b s' \<and> due s' c (unat d)"
proof -
  obtain c' L D W where r: "running c' s L D W" by (rule stable_running [OF st])
  have cc: "c' = c" using r c by (simp add: running_def)
  have "L ReadyList \<noteq> []" using running_head [OF r, of ReadyList] more by auto
  then have no: "osRtxThreadWaitEnter osRtxThreadWaitingDelay d s \<noteq> Some (False, s)"
    using running_head [OF r, of ReadyList] k c by (cases "L ReadyList") (auto simp: osRtxThreadWaitEnter_def split: Option.bind_splits)
  have m: "masked osRtxThreadWaitingDelay = osRtxThreadBlocked" by (simp add: masked_def rtx_states)
  obtain s1 D' W' n ns where w: "osRtxThreadWaitEnter osRtxThreadWaitingDelay d s = Some (True, s1)"
     "sched {} (Some n) s1 (L(ReadyList := ns)) D' W'" "run_next s1 = Some n" "(c, unat d) \<in> set (expiries 0 (delay s1) D')"
    using wait_enter [OF r d(1) m] no d(2) cc by blast
  have h: "handle (DelayCall d) s = Some (context_switch s1)" using d(1) w(1) by (simp add: svcRtxDelay_def)
  have "running n (context_switch s1) (L(ReadyList := ns)) D' W'" using w(2,3) by (simp add: running_def context_switch_def)
  moreover have "(c, unat d) \<in> set (expiries 0 (delay (context_switch s1)) D')" using w(4) by (simp add: context_switch_def)
  ultimately have "due (context_switch s1) c (unat d)" unfolding due_def by blast
  then show ?thesis using h handle_stable [OF st, of "DelayCall d"] by auto
qed

section \<open>A small system\<close>

text \<open>
  Two threads and a semaphore: \<open>Obj 1\<close> runs, \<open>Obj 2\<close> is ready with a lower priority.
\<close>

definition demo :: rtx where
  "demo = zero_rtx\<lparr>obj_id := (\<lambda>_. osRtxIdInvalid)(Obj 1 := osRtxIdThread, Obj 2 := osRtxIdThread, Obj 3 := osRtxIdSemaphore),
     thread_next := (\<lambda>_. None)(ReadyList := Some (Obj 2)), thread_prev := (\<lambda>_. None)(Obj 2 := Some ReadyList),
     thread_state := (\<lambda>_. osRtxThreadInactive)(Obj 1 := osRtxThreadRunning, Obj 2 := osRtxThreadReady),
     priority := (\<lambda>_. 0)(Obj 1 := 24, Obj 2 := 1), kernel_state := osRtxKernelRunning,
     run_curr := Some (Obj 1), run_next := Some (Obj 1), isr_max := 4, post_process := (\<lambda>_. True)\<rparr>"

lemma demo_fields:
  "obj_id demo = (\<lambda>_. osRtxIdInvalid)(Obj 1 := osRtxIdThread, Obj 2 := osRtxIdThread, Obj 3 := osRtxIdSemaphore)"
  "thread_next demo = (\<lambda>_. None)(ReadyList := Some (Obj 2))" "thread_prev demo = (\<lambda>_. None)(Obj 2 := Some ReadyList)"
  "thread_state demo = (\<lambda>_. osRtxThreadInactive)(Obj 1 := osRtxThreadRunning, Obj 2 := osRtxThreadReady)"
  "priority demo = (\<lambda>_. 0)(Obj 1 := 24, Obj 2 := 1)" "kernel_state demo = osRtxKernelRunning"
  "run_curr demo = Some (Obj 1)" "run_next demo = Some (Obj 1)" "isr_max demo = 4" "isr_cnt demo = 0" "isr_in demo = 0"
  "isr_out demo = 0" "post_process demo = (\<lambda>_. True)" "timer_tick_set demo = False" "delay_list demo = None"
  "wait_list demo = None"
  by (simp_all add: demo_def zero_rtx_def)

lemma demo_stable: "stable True demo"
proof -
  let ?L = "(\<lambda>_. [])(ReadyList := [Obj 2])"
  have own: "owners demo = {ReadyList, Obj 3}"
    by (auto simp: owners_def demo_fields rtx_ids split: if_splits)
  have "lists (thread_next demo) (thread_prev demo) (owners demo) ?L"
    unfolding own lists_def by (auto simp: demo_fields split: if_splits)
  moreover have "standing {} (Some (Obj 1)) (threads demo) (thread_state demo) (thread_prev demo) ReadyList ?L {}"
    unfolding standing_def
  proof
    fix t
    have "listed ?L t \<longleftrightarrow> t = Obj 2" by (auto simp: listed_def)
    then show "stands (t \<in> {}) (Some (Obj 1) = Some t) (t \<in> threads demo) (thread_state demo t) (thread_prev demo t)
        (t \<in> set (?L ReadyList)) (listed ?L t) (t \<in> {})"
      by (auto simp: stands_def demo_fields masked_def rtx_states rtx_ids)
  qed
  ultimately have "sched {} (Some (Obj 1)) demo ?L [] []"
    unfolding sched_def by (simp add: delays_def demo_fields)
  then have "running (Obj 1) demo ?L [] []" by (simp add: running_def demo_fields)
  moreover have "top demo ?L (Obj 1)" by (simp add: top_def demo_fields)
  moreover have "posted demo" by (simp add: posted_def ring_def ring_ok_def demo_fields)
  moreover have "registered demo" by (simp add: registered_def demo_fields)
  ultimately show ?thesis using demo_fields(14) by (auto intro: stableI)
qed

lemma demo_yields: "run [AcquireCall None 0, YieldCall] demo = Some demo"
proof -
  have "context_switch demo = demo" 
    unfolding context_switch_def demo_fields(8) demo_fields(7) [symmetric] by simp
  moreover have "svcRtxSemaphoreAcquire None 0 demo = Some (osErrorParameter, demo)"
    by (simp add: svcRtxSemaphoreAcquire_def)
  moreover have "svcRtxThreadYield demo = Some (osOK, demo)" by (simp add: svcRtxThreadYield_def demo_fields)
  ultimately show ?thesis by simp
qed

section \<open>Properties\<close>





text \<open>
  C4: The ready list holds exactly the threads in the ready state, each once, by falling priority,
  after any sequence of events.
\<close>

theorem ready_list_exact:
  assumes "stable b s" and "run es s = Some s'"
  shows "\<exists>R. chain (thread_next s') (thread_next s' ReadyList) R \<and> distinct R
    \<and> sorted_wrt (\<lambda>t u. priority s' u \<le> priority s' t) R
    \<and> set R = {t. obj_id s' t = osRtxIdThread \<and> thread_state s' t = osRtxThreadReady}"
proof -
  have "stable (fold ordered_after es b) s'" using run_stable [OF assms(1), of es] assms(2) by simp
  then obtain c L D W where r: "running c s' L D W" by (auto elim: stable_running)
  have s: "sched {} (Some c) s' L D W" by (rule running_sched [OF r])
  have "chain (thread_next s') (thread_next s' ReadyList) (L ReadyList)"
    by (rule lists_chain [OF sched_lists [OF s]]) simp
  moreover have "distinct (L ReadyList)" by (rule lists_distinct [OF sched_lists [OF s]])
  moreover have "sorted_wrt (\<lambda>t u. priority s' u \<le> priority s' t) (L ReadyList)" using sched_sorted [OF s, of ReadyList] unfolding by_priority_def .
  moreover have "t \<in> set (L ReadyList) \<longleftrightarrow> obj_id s' t = osRtxIdThread \<and> thread_state s' t = osRtxThreadReady" for t
    using sched_stands [OF s, of t] state_values by (auto simp: stands_def)
  ultimately show ?thesis by blast
qed

theorem ready_list_exact_witness:
  "\<exists>R. chain (thread_next demo) (thread_next demo ReadyList) R \<and> distinct R
     \<and> sorted_wrt (\<lambda>t u. priority demo u \<le> priority demo t) R
     \<and> set R = {t. obj_id demo t = osRtxIdThread \<and> thread_state demo t = osRtxThreadReady}"
  by (rule ready_list_exact [OF demo_stable demo_yields])



end
