(* ===== verification/Rtx_Memory_Chain.thy ===== *)
theory Rtx_Memory_Chain
  imports Rtx_Memory
begin

text \<open>
  The chain of blocks of a variable-size pool (Source/rtx_memory.c): headers in the order of
  addresses up to the terminating one, what the two walks over them return, and the invariant
  \<open>heap_ok\<close> of a pool with the three updates that keep it.
\<close>

section \<open>Chains of blocks\<close>

text \<open>The bytes a block occupies, header included; 0 for a first block that is free.\<close>

definition block_len :: "words \<Rightarrow> u32 \<Rightarrow> nat" where
  "block_len w p = unat (block_info w p AND MB_INFO_LEN_MASK)"

text \<open>The blocks \<open>ps\<close> follow each other by their links, in the order of addresses, up to \<open>l\<close>.\<close>

fun segment :: "words \<Rightarrow> u32 list \<Rightarrow> u32 \<Rightarrow> bool" where
  "segment w [] l = True"
| "segment w (p # ps) l =
     (let n = hd (ps @ [l]) in block_next w p = n \<and> p < n \<and> unat p + block_len w p \<le> unat n \<and> segment w ps l)"

lemma segment_append: "segment w (ps @ qs) l \<longleftrightarrow> segment w ps (hd (qs @ [l])) \<and> segment w qs l"
  by (induction ps) (auto simp: Let_def hd_append)

lemma segment_sorted: "segment w ps l \<Longrightarrow> sorted_wrt (<) (ps @ [l])"
proof (induction ps)
  case (Cons q ps)
  then have s: "segment w ps l" "q < hd (ps @ [l])" by (auto simp: Let_def)
  have "\<forall>y\<in>set (ps @ [l]). q < y"
  proof (cases ps)
    case (Cons r rs)
    then have "\<forall>y\<in>set (rs @ [l]). r < y" using Cons.IH [OF s(1)] by simp
    then show ?thesis using s(2) Cons by (auto intro: order.strict_trans)
  qed (use s in simp)
  then show ?case using Cons.IH [OF s(1)] by simp
qed simp

lemma segment_less: "segment w ps l \<Longrightarrow> p \<in> set ps \<Longrightarrow> p < l"
  using segment_sorted [of w ps l] by (simp add: sorted_wrt_append)

lemma segment_cong:
  "(\<And>p. p \<in> set ps \<Longrightarrow> block_next w' p = block_next w p \<and> block_info w' p = block_info w p) \<Longrightarrow>
   segment w' ps l = segment w ps l"
  by (induction ps) (auto simp: Let_def block_len_def)

lemma hole_after_value:
  assumes "block_next w p = n" and "p < n" and "unat p + block_len w p \<le> unat n"
  shows "unat (hole_after w p) = unat n - unat p - block_len w p"
proof -
  have "unat (n - p) = unat n - unat p" using assms(2) by (simp add: unat_sub_if_size word_less_nat_alt)
  then show ?thesis using assms unfolding hole_after_def block_len_def
    by (simp add: unat_sub_if_size word_less_nat_alt)
qed

section \<open>The walks\<close>

lemma find_hole_chain:
  "segment w (p # ps) l \<Longrightarrow> block_next w l = 0 \<Longrightarrow>
   find_hole w n p = Some (List.find (\<lambda>p. n \<le> hole_after w p) (p # ps))"
proof (induction ps arbitrary: p)
  case Nil
  then show ?case by (subst find_hole.simps) (simp add: Let_def)
next
  case (Cons q ps)
  have "segment w (q # ps) l" "block_next w p = q" using Cons.prems(1) by (auto simp: Let_def)
  moreover have "block_next w q \<noteq> 0" using Cons.prems(1) by (auto simp: Let_def)
  ultimately show ?case using Cons.IH [of q] Cons.prems(2) by (subst find_hole.simps) (simp add: Let_def)
qed

lemma find_block_found:
  "segment w (p # ps) l \<Longrightarrow> p # ps = as @ b # bs \<Longrightarrow>
   find_block w b prev p = Some (Some (if as = [] then prev else Some (last as), b))"
proof (induction as arbitrary: p ps prev)
  case Nil
  then show ?case by (subst find_block.simps) simp
next
  case (Cons a as)
  have a: "a = p" "ps = as @ b # bs" using Cons.prems(2) by auto
  have "ps \<noteq> []" using a(2) by simp
  then obtain q qs where q: "ps = q # qs" by (cases ps) auto
  have s: "segment w (q # qs) l" "block_next w p = q" "p < q" using Cons.prems(1) q by (auto simp: Let_def)
  have "b \<in> set ps" using a(2) by simp
  moreover have "sorted_wrt (<) (p # ps)" using segment_sorted [OF Cons.prems(1)] by (simp add: sorted_wrt_append)
  ultimately have "p \<noteq> b" by auto
  moreover have "q \<noteq> 0" using s(3) by auto
  moreover have "q # qs = as @ b # bs" using a q by simp
  ultimately show ?case using Cons.IH [OF s(1), of "Some p"] s(2) a
    by (subst find_block.simps) (auto simp: Let_def)
qed

lemma find_block_absent:
  "segment w (p # ps) l \<Longrightarrow> block_next w l = 0 \<Longrightarrow> b \<notin> set (p # ps @ [l]) \<Longrightarrow> find_block w b prev p = Some None"
proof (induction ps arbitrary: p prev)
  case Nil
  then have "l \<noteq> 0" by (auto simp: Let_def)
  moreover have "block_next w p = l" "p \<noteq> b" "l \<noteq> b" using Nil by (auto simp: Let_def)
  ultimately show ?case using Nil(2) by (subst find_block.simps, subst find_block.simps) (simp add: Let_def)
next
  case (Cons q ps)
  have "segment w (q # ps) l" "block_next w p = q" "q \<noteq> 0" using Cons.prems(1) by (auto simp: Let_def)
  then show ?case using Cons.IH [of q "Some p"] Cons.prems(2,3) by (subst find_block.simps) (auto simp: Let_def)
qed

section \<open>Alignment\<close>

abbreviation aligned :: "u32 \<Rightarrow> bool" where
  "aligned a \<equiv> 8 dvd unat a"

lemma aligned_plus4: "aligned a \<Longrightarrow> unat (a + 4) = unat a + 4"
proof -
  assume "aligned a"
  then obtain k where "unat a = 8 * k" by blast
  then have "unat a + 4 < 4294967296" using unat_u32_lt [of a] by presburger
  then show ?thesis by (simp add: unat_word_ariths)
qed

lemma aligned_neq:
  assumes "aligned a" and "aligned b"
  shows "a \<noteq> b + 4"
proof
  assume "a = b + 4"
  then have "8 dvd unat b + 4" using aligned_plus4 [OF assms(2)] assms(1) by simp
  then show False using assms(2) by presburger
qed

lemma round_down: "unat (x AND NOT 7 :: u32) = 8 * (unat x div 8)"
proof -
  have m: "7 = (mask 3 :: u32)" by (simp add: mask_eq_exp_minus_1)
  have "x AND NOT 7 = push_bit 3 (drop_bit 3 x)"
    unfolding m by (rule bit_word_eqI) (auto simp: bit_simps)
  moreover have "unat (drop_bit 3 x) = unat x div 8" by (simp add: drop_bit_eq_div unat_div)
  moreover have "unat x div 8 * 8 < 4294967296" using unat_u32_lt [of x] by presburger
  ultimately show ?thesis by (simp add: push_bit_eq_mult unat_word_ariths)
qed

lemma info_len:
  assumes "t AND NOT MB_INFO_TYPE_MASK = 0"
  shows "((x AND NOT 7) OR t) AND MB_INFO_LEN_MASK = x AND NOT 7"
proof -
  have m: "MB_INFO_LEN_MASK = NOT MB_INFO_TYPE_MASK" by (simp add: MB_INFO_LEN_MASK_def MB_INFO_TYPE_MASK_def)
  have "((x AND NOT 7) OR t) AND MB_INFO_LEN_MASK = (x AND NOT 7) AND MB_INFO_LEN_MASK"
    using assms unfolding m by (simp add: bit.conj_disj_distrib2)
  also have "\<dots> = x AND (NOT 7 AND MB_INFO_LEN_MASK)" by (simp only: and.assoc)
  also have "NOT 7 AND MB_INFO_LEN_MASK = NOT 7" by (simp add: MB_INFO_LEN_MASK_def)
  finally show ?thesis .
qed

lemma alloc_size_value:
  assumes "unat sz + 15 < 4294967296"
  shows "unat (alloc_size sz) = 8 * ((unat sz + 15) div 8)"
proof -
  have "sz + 8 + 7 = sz + of_nat 15" by simp
  then have "unat (sz + 8 + 7) = unat sz + 15" using unat_plus [OF assms] by (simp only:)
  then show ?thesis unfolding alloc_size_def round_down by simp
qed

section \<open>Well-formed pools\<close>

definition terminator :: "words \<Rightarrow> u32 \<Rightarrow> u32" where
  "terminator w mem = mem + (head_size w mem - 8)"

text \<open>
  The pool at \<open>mem\<close> with the headers \<open>ps\<close>, the terminating one left out. Only the first
  block may be free, and \<open>used\<close> counts the bytes of the blocks and of the two fixed headers.
\<close>

definition heap_ok :: "words \<Rightarrow> u32 \<Rightarrow> u32 list \<Rightarrow> bool" where
  "heap_ok w mem ps \<longleftrightarrow>
     mem \<noteq> 0 \<and> aligned mem \<and> aligned (head_size w mem) \<and> 24 \<le> unat (head_size w mem)
     \<and> unat mem + unat (head_size w mem) < 4294967296
     \<and> ps \<noteq> [] \<and> hd ps = mem + 8 \<and> segment w ps (terminator w mem) \<and> block_next w (terminator w mem) = 0
     \<and> (\<forall>p\<in>set ps. aligned p \<and> 8 dvd block_len w p \<and> (block_len w p = 0 \<longrightarrow> block_info w p = 0))
     \<and> (\<forall>p\<in>set (tl ps). 0 < block_len w p)
     \<and> unat (head_used w mem) = 16 + sum_list (map (block_len w) ps)"

lemma heapD:
  assumes "heap_ok w mem ps"
  shows "aligned mem" "24 \<le> unat (head_size w mem)" "unat mem + unat (head_size w mem) < 4294967296"
    "segment w ps (terminator w mem)" "block_next w (terminator w mem) = 0"
    "\<forall>p\<in>set ps. aligned p" "\<forall>p\<in>set ps. 8 dvd block_len w p" "\<forall>p\<in>set ps. block_len w p = 0 \<longrightarrow> block_info w p = 0"
    "\<forall>p\<in>set (tl ps). 0 < block_len w p" "unat (head_used w mem) = 16 + sum_list (map (block_len w) ps)"
    "ps \<noteq> []" "hd ps = mem + 8" "mem \<noteq> 0"
  using assms by (simp_all add: heap_ok_def)

text \<open>The blocks in use: address of the header and length.\<close>

definition blocks :: "words \<Rightarrow> u32 list \<Rightarrow> (u32 \<times> nat) set" where
  "blocks w ps = {(p, block_len w p) |p. p \<in> set ps \<and> 0 < block_len w p}"

lemma segment_sum: "segment w ps l \<Longrightarrow> unat (hd (ps @ [l])) + sum_list (map (block_len w) ps) \<le> unat l"
  by (induction ps) (auto simp: Let_def)

lemma heap_bounds:
  assumes h: "heap_ok w mem ps"
  shows "unat (terminator w mem) = unat mem + unat (head_size w mem) - 8" "aligned (terminator w mem)"
    "unat (mem + 8) = unat mem + 8" "p \<in> set ps \<Longrightarrow> unat mem + 8 \<le> unat p \<and> p < terminator w mem"
proof -
  let ?n = "head_size w mem"
  have b: "24 \<le> unat ?n" "unat mem + unat ?n < 4294967296" "aligned mem" "aligned ?n" using h by (simp_all add: heap_ok_def)
  have "unat (?n - 8) = unat ?n - 8" using b(1) by (simp add: unat_sub_if_size word_less_nat_alt)
  then show t: "unat (terminator w mem) = unat mem + unat ?n - 8"
    using b(1,2) unat_add_u32 [of mem "?n - 8"] by (simp add: terminator_def)
  show "aligned (terminator w mem)" unfolding t using b(1,3,4) by presburger
  show m8: "unat (mem + 8) = unat mem + 8" using b(1,2) unat_add_u32 [of mem 8] by simp
  assume p: "p \<in> set ps"
  have seg: "segment w ps (terminator w mem)" and hd: "ps \<noteq> []" "hd ps = mem + 8" using h by (simp_all add: heap_ok_def)
  obtain q qs where q: "ps = q # qs" "q = mem + 8" using hd by (cases ps) auto
  have "sorted_wrt (<) ps" using segment_sorted [OF seg] by (simp add: sorted_wrt_append)
  then have "q \<le> p" using p q by auto
  then have "unat mem + 8 \<le> unat p" using q(2) m8 by (simp add: word_le_nat_alt)
  then show "unat mem + 8 \<le> unat p \<and> p < terminator w mem" using segment_less [OF seg p] by simp
qed

text \<open>No field of a block lies on another one, on the pool header or on the terminator.\<close>

lemma heap_fields:
  assumes h: "heap_ok w mem ps" and p: "p \<in> set ps"
  shows "p \<noteq> mem" "p \<noteq> mem + 4" "p + 4 \<noteq> mem" "p \<noteq> terminator w mem" "p \<noteq> terminator w mem + 4"
    "p + 4 \<noteq> terminator w mem" "mem \<noteq> terminator w mem" "mem \<noteq> terminator w mem + 4" "mem + 4 \<noteq> terminator w mem"
    "aligned q \<Longrightarrow> p \<noteq> q + 4" "aligned q \<Longrightarrow> p + 4 \<noteq> q" "mem \<noteq> mem + 4" "aligned q \<Longrightarrow> q \<noteq> mem + 4"
    "aligned q \<Longrightarrow> q \<noteq> terminator w mem + 4" "aligned q \<Longrightarrow> q + 4 \<noteq> mem" "aligned q \<Longrightarrow> q + 4 \<noteq> terminator w mem"
proof -
  note b = heap_bounds [OF h]
  have m: "aligned mem" "24 \<le> unat (head_size w mem)" and pa: "aligned p" using h p by (simp_all add: heap_ok_def)
  show "p \<noteq> mem" using b(4) [OF p] by auto
  show "p \<noteq> terminator w mem" using b(4) [OF p] by auto
  show "mem \<noteq> terminator w mem" using b(1) m(2) by auto
  show "p \<noteq> mem + 4" "p + 4 \<noteq> mem" "p \<noteq> terminator w mem + 4" "p + 4 \<noteq> terminator w mem"
    "mem \<noteq> terminator w mem + 4" "mem + 4 \<noteq> terminator w mem" "mem \<noteq> mem + 4"
    using aligned_neq m(1) pa b(2) by metis+
  show "p \<noteq> q + 4" "p + 4 \<noteq> q" "q \<noteq> mem + 4" "q \<noteq> terminator w mem + 4" "q + 4 \<noteq> mem" "q + 4 \<noteq> terminator w mem"
    if "aligned q" for q
    using aligned_neq m(1) pa b(2) that by metis+
qed

section \<open>Updates of a pool\<close>

lemma heap_rebuild:
  assumes h: "heap_ok w mem ps" and size: "head_size w' mem = head_size w mem"
    and l: "block_next w' (terminator w mem) = 0" and ps': "ps' \<noteq> []" "hd ps' = mem + 8"
    and seg: "segment w' ps' (terminator w mem)"
    and al: "\<forall>p\<in>set ps'. aligned p \<and> 8 dvd block_len w' p \<and> (block_len w' p = 0 \<longrightarrow> block_info w' p = 0)"
    and pos: "\<forall>p\<in>set (tl ps'). 0 < block_len w' p"
    and used: "head_used w' mem = of_nat (16 + sum_list (map (block_len w') ps'))"
  shows "heap_ok w' mem ps'"
proof -
  have lt: "terminator w' mem = terminator w mem" using size by (simp add: terminator_def)
  have "unat (hd (ps' @ [terminator w mem])) + sum_list (map (block_len w') ps') \<le> unat (terminator w mem)"
    by (rule segment_sum [OF seg])
  moreover have "hd (ps' @ [terminator w mem]) = mem + 8" using ps' by (cases ps') simp_all
  ultimately have "16 + sum_list (map (block_len w') ps') < 4294967296"
    using heap_bounds(1,3) [OF h] heapD(2,3) [OF h] by simp
  then have "unat (head_used w' mem) = 16 + sum_list (map (block_len w') ps')"
    unfolding used by (rule unat_of_nat_u32)
  then show ?thesis using h size l ps' seg al pos lt unfolding heap_ok_def by simp
qed

lemma of_nat_unat_u32: "of_nat (unat (a :: u32)) = a" by simp

lemma heap_used: "heap_ok w mem ps \<Longrightarrow> head_used w mem = of_nat (16 + sum_list (map (block_len w) ps))"
proof -
  assume "heap_ok w mem ps"
  then have "unat (head_used w mem) = 16 + sum_list (map (block_len w) ps)" by (simp add: heap_ok_def)
  then show ?thesis by (metis of_nat_unat_u32)
qed

text \<open>The length of the front block is set, and the counters change.\<close>

lemma heap_front:
  assumes h: "heap_ok w mem (p # bs)" and i: "8 dvd unat (i AND MB_INFO_LEN_MASK)" "unat (i AND MB_INFO_LEN_MASK) = 0 \<longrightarrow> i = 0"
    and fit: "unat p + unat (i AND MB_INFO_LEN_MASK) \<le> unat (hd (bs @ [terminator w mem]))"
    and used: "u + (block_info w p AND MB_INFO_LEN_MASK) = head_used w mem + (i AND MB_INFO_LEN_MASK)"
    and w': "w' = w(mem + 4 := u, terminator w mem + 4 := v, p + 4 := i)"
  shows "heap_ok w' mem (p # bs) \<and> block_len w' p = unat (i AND MB_INFO_LEN_MASK) \<and> (\<forall>q\<in>set bs. block_len w' q = block_len w q)"
proof -
  let ?l = "terminator w mem"
  have pin: "p \<in> set (p # bs)" by simp
  note d = heapD [OF h]
  have al: "\<forall>q\<in>set (p # bs). aligned q" by (rule d(6))
  have seg: "segment w (p # bs) ?l" by (rule d(4))
  have dist: "p \<notin> set bs" using segment_sorted [OF seg] by auto
  have size: "head_size w' mem = head_size w mem" using heap_fields [OF h pin] by (simp add: w' head_size_def)
  have nx: "\<forall>q\<in>set (p # bs). block_next w' q = block_next w q"
  proof
    fix q assume q: "q \<in> set (p # bs)"
    have "q \<noteq> mem + 4" "q \<noteq> ?l + 4" "q \<noteq> p + 4"
      using heap_fields(2,5) [OF h q] heap_fields(10) [OF h q, of p] al pin by blast+
    then show "block_next w' q = block_next w q" by (simp add: w' block_next_def)
  qed
  have "?l \<noteq> mem + 4" "?l \<noteq> ?l + 4" "?l \<noteq> p + 4"
    using heap_fields(13,14) [OF h pin heap_bounds(2) [OF h]] heap_fields(6) [OF h pin] by metis+
  then have nl: "block_next w' ?l = block_next w ?l" by (simp add: w' block_next_def)
  have io: "\<forall>q\<in>set bs. block_info w' q = block_info w q"
  proof
    fix q assume q: "q \<in> set bs"
    have "q \<noteq> mem" "q \<noteq> ?l" "q \<noteq> p" using heap_fields(1,4) [OF h, of q] q dist by auto
    then show "block_info w' q = block_info w q" by (simp add: w' block_info_def)
  qed
  have ip: "block_info w' p = i" by (simp add: w' block_info_def)
  have lo: "\<forall>q\<in>set bs. block_len w' q = block_len w q" using io by (simp add: block_len_def)
  have lp: "block_len w' p = unat (i AND MB_INFO_LEN_MASK)" using ip by (simp add: block_len_def)
  have "segment w' bs ?l = segment w bs ?l" by (rule segment_cong) (use nx io in simp)
  then have seg': "segment w' (p # bs) ?l" using seg nx fit lp by (simp add: Let_def)
  have sums: "sum_list (map (block_len w') bs) = sum_list (map (block_len w) bs)" using lo by (simp cong: map_cong)
  have "head_used w' mem = u" using heap_fields [OF h pin] by (simp add: w' head_used_def)
  also have "u = of_nat (16 + sum_list (map (block_len w') (p # bs)))"
    using used heap_used [OF h] by (simp add: sums lp ip block_len_def)
  finally have "heap_ok w' mem (p # bs)"
  proof (intro heap_rebuild [OF h size _ _ _ seg'])
    show "block_next w' ?l = 0" using nl d(5) by simp
    show "hd (p # bs) = mem + 8" using d(12) by simp
    show "\<forall>q\<in>set (p # bs). aligned q \<and> 8 dvd block_len w' q \<and> (block_len w' q = 0 \<longrightarrow> block_info w' q = 0)"
      using al d(7,8) i lp ip lo io by auto
    show "\<forall>q\<in>set (tl (p # bs)). 0 < block_len w' q" using d(9) lo by simp
  qed simp_all
  then show ?thesis using lp lo by blast
qed

text \<open>A block is put behind \<open>p\<close>.\<close>

lemma heap_insert:
  assumes h: "heap_ok w mem (as @ p # bs)" and q: "q = p + (block_info w p AND MB_INFO_LEN_MASK)"
    and p: "0 < block_len w p"
    and i: "8 dvd unat (i AND MB_INFO_LEN_MASK)" "0 < unat (i AND MB_INFO_LEN_MASK)"
    and fit: "unat p + block_len w p + unat (i AND MB_INFO_LEN_MASK) \<le> unat (hd (bs @ [terminator w mem]))"
    and used: "u = head_used w mem + (i AND MB_INFO_LEN_MASK)"
    and w': "w' = w(mem + 4 := u, terminator w mem + 4 := v, q := block_next w p, q + 4 := i, p := q)"
  shows "heap_ok w' mem (as @ p # q # bs) \<and> q \<notin> set (as @ p # bs)
    \<and> block_len w' q = unat (i AND MB_INFO_LEN_MASK) \<and> (\<forall>h\<in>set (as @ p # bs). block_len w' h = block_len w h)"
proof -
  let ?l = "terminator w mem" and ?ps = "as @ p # bs" and ?r = "hd (bs @ [terminator w mem])"
  note d = heapD [OF h]
  have pin: "p \<in> set ?ps" by simp
  have srt: "sorted_wrt (<) (?ps @ [?l])" by (rule segment_sorted [OF d(4)])
  have qv: "unat q = unat p + block_len w p"
    using fit unat_u32_lt [of ?r] unfolding q block_len_def by (intro unat_add_u32) simp
  have qa: "aligned q" using d(6,7) pin unfolding qv by (intro dvd_add) auto
  have pq: "p < q" "q < ?r" using qv p fit i(2) by (simp_all add: word_less_nat_alt)
  have other: "h \<noteq> q" if "h \<in> set (?ps @ [?l])" for h
  proof -
    have "h \<le> p \<or> ?r \<le> h" using that srt by (cases bs) (auto simp: sorted_wrt_append)
    then show ?thesis using pq by auto
  qed
  have pas: "p \<notin> set as" "p \<notin> set bs" "p \<noteq> ?l" using srt by (auto simp: sorted_wrt_append)
  have nx: "block_next w' h = block_next w h" if "h \<in> set as \<or> h \<in> set bs \<or> h = ?l" for h
  proof -
    have "aligned h" using that d(6) heap_bounds(2) [OF h] by auto
    moreover have "h \<noteq> q" "h \<noteq> p" using that other [of h] pas by auto
    ultimately have "h \<noteq> mem + 4" "h \<noteq> ?l + 4" "h \<noteq> q + 4" "h \<noteq> q" "h \<noteq> p"
      using heap_fields(13,14) [OF h pin] aligned_neq [OF _ qa] by blast+
    then show ?thesis by (simp add: w' block_next_def)
  qed
  have np: "block_next w' p = q" by (simp add: w' block_next_def)
  have "q \<noteq> p" "q \<noteq> q + 4" using pq aligned_neq [OF qa qa] by auto
  then have nq: "block_next w' q = block_next w p" by (simp add: w' block_next_def)
  have info: "block_info w' h = block_info w h" if "h \<in> set ?ps" for h
  proof -
    have "aligned h" using that d(6) by blast
    then have "h + 4 \<noteq> q" "h + 4 \<noteq> p" using aligned_neq [of q h] aligned_neq [of p h] qa d(6) pin by auto
    moreover have "h \<noteq> mem" "h \<noteq> ?l" "h \<noteq> q" using heap_fields(1,4) [OF h that] other [of h] that by auto
    ultimately show ?thesis by (simp add: w' block_info_def)
  qed
  have iq: "block_info w' q = i"
    using aligned_neq [of p q] qa d(6) pin by (simp add: w' block_info_def)
  have len: "\<forall>h\<in>set ?ps. block_len w' h = block_len w h" using info by (simp add: block_len_def)
  have lq: "block_len w' q = unat (i AND MB_INFO_LEN_MASK)" using iq by (simp add: block_len_def)
  have seg: "segment w as p" "segment w (p # bs) ?l" using d(4) segment_append [of w as "p # bs" ?l] by simp_all
  have "segment w' as p" using seg(1) segment_cong [of as w' w p] nx info by simp
  moreover have "segment w' bs ?l" using seg(2) segment_cong [of bs w' w ?l] nx info by (simp add: Let_def)
  moreover have "block_next w p = ?r" using seg(2) by (simp add: Let_def)
  ultimately have seg': "segment w' (as @ p # q # bs) ?l"
    using np nq pq lq len fit qv by (simp add: segment_append Let_def)
  have size: "head_size w' mem = head_size w mem"
    using heap_fields(1,8,12) [OF h pin] heap_fields(15) [OF h pin qa] other [of mem] qa
      heap_bounds(3) [OF h] qv heap_bounds(4) [OF h pin]
    by (auto simp: w' head_size_def)
  have "head_used w' mem = u" 
    using heap_fields(9,7,3) [OF h pin] heap_fields(2) [OF h pin] qa heap_fields(13) [OF h pin qa] qv heap_bounds(4) [OF h pin]
    by (auto simp: w' head_used_def)
  also have "u = of_nat (16 + sum_list (map (block_len w') (as @ p # q # bs)))"
  proof -
    have "sum_list (map (block_len w') as) = sum_list (map (block_len w) as)"
      "sum_list (map (block_len w') bs) = sum_list (map (block_len w) bs)" "block_len w' p = block_len w p"
      using len by (simp_all cong: map_cong)
    then show ?thesis using used heap_used [OF h] lq by (simp add: of_nat_unat_u32)
  qed
  finally have us: "head_used w' mem = of_nat (16 + sum_list (map (block_len w') (as @ p # q # bs)))" .
  have "heap_ok w' mem (as @ p # q # bs)"
  proof (rule heap_rebuild [OF h size _ _ _ seg' _ _ us])
    show "block_next w' ?l = 0" using nx d(5) by simp
    show "hd (as @ p # q # bs) = mem + 8" using d(12) by (cases as) simp_all
    show "\<forall>h\<in>set (as @ p # q # bs). aligned h \<and> 8 dvd block_len w' h \<and> (block_len w' h = 0 \<longrightarrow> block_info w' h = 0)"
      using d(6,7,8) len info qa lq i by auto
    show "\<forall>h\<in>set (tl (as @ p # q # bs)). 0 < block_len w' h"
      using d(9) len lq i(2) p by (cases as) auto
  qed simp
  then show ?thesis using other len lq by auto
qed

end
