(* ===== verification/Rtx_Memory_Steps.thy ===== *)
theory Rtx_Memory_Steps
  imports Rtx_Memory_Chain
begin

text \<open>
  Init, Alloc and Free of Source/rtx_memory.c on a well-formed pool: the blocks after the call,
  and the data of the blocks in use, which no call touches.
\<close>

text \<open>The block behind \<open>p\<close> is taken out.\<close>

lemma heap_remove:
  assumes h: "heap_ok w mem (as @ p # b # bs)"
    and w': "w' = w(mem + 4 := head_used w mem - (block_info w b AND MB_INFO_LEN_MASK), p := block_next w b)"
  shows "heap_ok w' mem (as @ p # bs) \<and> (\<forall>h\<in>set (as @ p # bs). block_len w' h = block_len w h)"
proof -
  let ?l = "terminator w mem" and ?ps = "as @ p # b # bs"
  note d = heapD [OF h]
  have pin: "p \<in> set ?ps" and bin: "b \<in> set ?ps" by simp_all
  have srt: "sorted_wrt (<) (?ps @ [?l])" by (rule segment_sorted [OF d(4)])
  have pas: "p \<notin> set as" "p \<notin> set bs" "p \<noteq> ?l" "p \<noteq> b" using srt by (auto simp: sorted_wrt_append)
  have nx: "block_next w' x = block_next w x" if "x \<in> set ?ps \<or> x = ?l" "x \<noteq> p" for x
  proof -
    have "aligned x" using that d(6) heap_bounds(2) [OF h] by auto
    then have "x \<noteq> mem + 4" using heap_fields(13) [OF h pin] by blast
    then show ?thesis using that by (simp add: w' block_next_def)
  qed
  have info: "block_info w' x = block_info w x" if "x \<in> set ?ps" for x
  proof -
    have "aligned x" using that d(6) by blast
    then have "x + 4 \<noteq> p" using aligned_neq [of p x] d(6) pin by auto
    moreover have "x \<noteq> mem" by (rule heap_fields(1) [OF h that])
    ultimately show ?thesis by (simp add: w' block_info_def)
  qed
  have len: "\<forall>x\<in>set ?ps. block_len w' x = block_len w x" using info by (simp add: block_len_def)
  have np: "block_next w' p = block_next w b" by (simp add: w' block_next_def)
  have seg: "segment w as p" "segment w (p # b # bs) ?l"
    using d(4) segment_append [of w as "p # b # bs" ?l] by simp_all
  have "segment w' as p" using seg(1) segment_cong [of as w' w p] nx info pas by (metis UnI1 set_append)
  moreover have "segment w' bs ?l"
    using seg(2) segment_cong [of bs w' w ?l] nx info pas by (auto simp: Let_def)
  ultimately have seg': "segment w' (as @ p # bs) ?l"
    using np len seg(2) by (auto simp: segment_append Let_def word_less_nat_alt)
  have size: "head_size w' mem = head_size w mem"
    using heap_fields(1,12) [OF h pin] by (auto simp: w' head_size_def)
  have "head_used w' mem = head_used w mem - (block_info w b AND MB_INFO_LEN_MASK)"
    using heap_fields(2) [OF h pin] by (auto simp: w' head_used_def)
  also have "\<dots> = of_nat (16 + sum_list (map (block_len w') (as @ p # bs)))"
  proof -
    have "sum_list (map (block_len w') as) = sum_list (map (block_len w) as)"
      "sum_list (map (block_len w') bs) = sum_list (map (block_len w) bs)" "block_len w' p = block_len w p"
      using len by (simp_all cong: map_cong)
    moreover have "(block_info w b AND MB_INFO_LEN_MASK) = of_nat (block_len w b)"
      by (simp add: block_len_def of_nat_unat_u32)
    ultimately show ?thesis using heap_used [OF h] by simp
  qed
  finally have us: "head_used w' mem = of_nat (16 + sum_list (map (block_len w') (as @ p # bs)))" .
  have "heap_ok w' mem (as @ p # bs)"
  proof (rule heap_rebuild [OF h size _ _ _ seg' _ _ us])
    show "block_next w' ?l = 0" using nx [of ?l] pas d(5) by simp
    show "hd (as @ p # bs) = mem + 8" using d(12) by (cases as) simp_all
    show "\<forall>x\<in>set (as @ p # bs). aligned x \<and> 8 dvd block_len w' x \<and> (block_len w' x = 0 \<longrightarrow> block_info w' x = 0)"
      using d(6,7,8) len info by auto
    show "\<forall>x\<in>set (tl (as @ p # bs)). 0 < block_len w' x"
      using d(9) len by (cases as) auto
  qed simp
  then show ?thesis using len by auto
qed

section \<open>Blocks do not overlap\<close>

lemma segment_gap: "segment w (as @ b # bs) l \<Longrightarrow> h \<in> set (bs @ [l]) \<Longrightarrow> unat b + block_len w b \<le> unat h"
proof -
  assume s: "segment w (as @ b # bs) l" and h: "h \<in> set (bs @ [l])"
  have b: "segment w (b # bs) l" using s by (simp add: segment_append)
  have "hd (bs @ [l]) \<le> h" using segment_sorted [OF b] h by (cases bs) auto
  then show ?thesis using b by (auto simp: Let_def word_le_nat_alt)
qed

lemma blocks_apart:
  assumes h: "heap_ok w mem ps" and b: "b \<in> set ps" and x: "x \<in> set ps \<or> x = terminator w mem \<or> x = mem"
  shows "unat x + 8 \<le> unat b \<or> x = b \<or> unat b + block_len w b \<le> unat x"
proof (cases "x = mem")
  case True
  then show ?thesis using heap_bounds(4) [OF h b] by simp
next
  case False
  note d = heapD [OF h]
  obtain as bs where ps: "ps = as @ b # bs" using b by (meson split_list)
  show ?thesis
  proof (cases "x \<in> set (bs @ [terminator w mem])")
    case True
    then show ?thesis using segment_gap [of w as b bs "terminator w mem" x] d(4) ps by simp
  next
    case F: False
    then have "x \<in> set as \<or> x = b" using x False ps by auto
    moreover have "unat x + 8 \<le> unat b" if "x \<in> set as"
    proof -
      have "x < b" using segment_sorted [OF d(4)] that ps by (auto simp: sorted_wrt_append)
      moreover have "8 dvd unat x" "8 dvd unat b" using d(6) that ps by auto
      ultimately show ?thesis unfolding word_less_nat_alt by presburger
    qed
    ultimately show ?thesis by blast
  qed
qed

lemma interior:
  assumes h: "heap_ok w mem ps" and b: "b \<in> set ps" and a: "unat b + 8 \<le> unat a" "unat a < unat b + block_len w b"
    and x: "x \<in> set ps \<or> x = terminator w mem \<or> x = mem"
  shows "a \<noteq> x" "a \<noteq> x + 4"
proof -
  have "aligned x" using x heapD(1,6) [OF h] heap_bounds(2) [OF h] by auto
  then have x4: "unat (x + 4) = unat x + 4" by (rule aligned_plus4)
  show "a \<noteq> x" "a \<noteq> x + 4" using blocks_apart [OF h b x] a x4 by auto
qed

text \<open>The data of the blocks in use, outside of their headers.\<close>

definition same_data :: "(u32 \<times> nat) set \<Rightarrow> words \<Rightarrow> words \<Rightarrow> bool" where
  "same_data B w w' \<longleftrightarrow> (\<forall>(b, k)\<in>B. \<forall>a. unat b + 8 \<le> unat a \<longrightarrow> unat a < unat b + k \<longrightarrow> w' a = w a)"

section \<open>Allocation\<close>

lemma find_split: "List.find P xs = Some x \<Longrightarrow> \<exists>as bs. xs = as @ x # bs \<and> P x"
  by (induction xs) (auto split: if_splits intro: exI [of _ "[]"] exI [of _ "_ # _"], metis append_Cons)

lemma hole_value:
  assumes h: "heap_ok w mem (as @ p # bs)"
  shows "unat (hole_after w p) = unat (hd (bs @ [terminator w mem])) - unat p - block_len w p"
    and "unat p + block_len w p \<le> unat (hd (bs @ [terminator w mem]))"
proof -
  have "segment w (p # bs) (terminator w mem)" using heapD(4) [OF h] by (simp add: segment_append)
  then have s: "block_next w p = hd (bs @ [terminator w mem])" "p < hd (bs @ [terminator w mem])"
    "unat p + block_len w p \<le> unat (hd (bs @ [terminator w mem]))" by (simp_all add: Let_def)
  show "unat (hole_after w p) = unat (hd (bs @ [terminator w mem])) - unat p - block_len w p"
    by (rule hole_after_value [OF s])
  show "unat p + block_len w p \<le> unat (hd (bs @ [terminator w mem]))" by (rule s(3))
qed

lemma alloc_none:
  assumes h: "heap_ok w mem ps" and ok: "sz \<noteq> 0" "type AND NOT MB_INFO_TYPE_MASK = 0"
    and no: "\<forall>p\<in>set ps. hole_after w p < alloc_size sz"
  shows "osRtxMemoryAlloc mem sz type w = Some (0, w)"
proof -
  note d = heapD [OF h]
  obtain q qs where q: "ps = q # qs" "q = mem + 8" using d(11,12) by (cases ps) auto
  have "find_hole w (alloc_size sz) (mem + 8) = Some (List.find (\<lambda>p. alloc_size sz \<le> hole_after w p) ps)"
    using find_hole_chain [of w q qs "terminator w mem" "alloc_size sz"] d(4,5) q by simp
  also have "List.find (\<lambda>p. alloc_size sz \<le> hole_after w p) ps = None"
    using no by (auto simp: find_None_iff not_le)
  finally show ?thesis using ok d(13) by (simp add: osRtxMemoryAlloc_def)
qed

lemma alloc_at:
  assumes "mem \<noteq> 0" "sz \<noteq> 0" "type AND NOT MB_INFO_TYPE_MASK = 0"
    and "find_hole w (alloc_size sz) (mem + 8) = Some (Some p)"
    and "w1 = w(mem + 4 := head_used w mem + alloc_size sz)" "l = mem + (head_size w1 mem - 8)"
    and "w2 = (if block_info w1 l < head_used w1 mem then w1(l + 4 := head_used w1 mem) else w1)"
  shows "osRtxMemoryAlloc mem sz type w =
    (if block_info w2 p = 0 then Some (p + 8, w2(p + 4 := alloc_size sz OR type))
     else let q = p + (block_info w2 p AND MB_INFO_LEN_MASK); w3 = w2(q := block_next w2 p);
              w3 = w3(q + 4 := alloc_size sz OR type) in Some (q + 8, w3(p := q)))"
  using assms(1-4) unfolding assms(5-7) by (simp add: osRtxMemoryAlloc_def Let_def split del: if_split)

lemma alloc_some:
  assumes h: "heap_ok w mem ps" and ok: "sz \<noteq> 0" "type AND NOT MB_INFO_TYPE_MASK = 0" "unat sz + 15 < 4294967296"
    and yes: "\<exists>p\<in>set ps. alloc_size sz \<le> hole_after w p"
  shows "\<exists>q w' ps'. osRtxMemoryAlloc mem sz type w = Some (q + 8, w') \<and> heap_ok w' mem ps'
    \<and> q \<in> set ps' \<and> block_len w' q = unat (alloc_size sz) \<and> (\<forall>k. (q, k) \<notin> blocks w ps)
    \<and> blocks w' ps' = insert (q, unat (alloc_size sz)) (blocks w ps) \<and> same_data (blocks w ps) w w'
    \<and> head_size w' mem = head_size w mem"
proof -
  note d = heapD [OF h]
  let ?l = "terminator w mem" and ?n = "alloc_size sz"
  obtain q0 qs where q0: "ps = q0 # qs" "q0 = mem + 8" using d(11,12) by (cases ps) auto
  have "List.find (\<lambda>p. ?n \<le> hole_after w p) ps \<noteq> None" using yes by (auto simp: find_None_iff)
  then obtain p where f: "List.find (\<lambda>p. ?n \<le> hole_after w p) ps = Some p" by blast
  then obtain as bs where ps: "ps = as @ p # bs" and fit: "?n \<le> hole_after w p" using find_split by metis
  have fh: "find_hole w ?n (mem + 8) = Some (Some p)"
    using find_hole_chain [of w q0 qs ?l ?n] d(4,5) q0 f by simp
  have pin: "p \<in> set ps" using ps by simp
  have sv: "unat ?n = 8 * ((unat sz + 15) div 8)" by (rule alloc_size_value [OF ok(3)])
  have n8: "8 dvd unat ?n" "0 < unat ?n" using sv by simp_all
  have len: "(?n OR type) AND MB_INFO_LEN_MASK = ?n" unfolding alloc_size_def by (rule info_len [OF ok(2)])
  have room: "unat p + block_len w p + unat ?n \<le> unat (hd (bs @ [?l]))"
    using fit hole_value [of w mem as p bs] h ps unfolding word_le_nat_alt by simp
  define u where "u = head_used w mem + ?n"
  define w1 where "w1 = w(mem + 4 := u)"
  define v where "v = (if block_info w1 ?l < head_used w1 mem then head_used w1 mem else w1 (?l + 4))"
  have tl: "mem + (head_size w1 mem - 8) = ?l"
    using heap_fields(12) [OF h pin] by (simp add: w1_def head_size_def terminator_def)
  have w2: "(if block_info w1 ?l < head_used w1 mem then w1(?l + 4 := head_used w1 mem) else w1) = w1(?l + 4 := v)"
    by (simp add: v_def fun_upd_idem)
  define w2 where "w2 = w1(?l + 4 := v)"
  have i2: "block_info w2 p = block_info w p"
    using heap_fields(1,4) [OF h pin] by (simp add: w2_def w1_def block_info_def)
  have alloc: "osRtxMemoryAlloc mem sz type w = (if block_info w2 p = 0 then Some (p + 8, w2(p + 4 := ?n OR type))
      else let q = p + (block_info w2 p AND MB_INFO_LEN_MASK); w3 = w2(q := block_next w2 p);
               w3 = w3(q + 4 := ?n OR type) in Some (q + 8, w3(p := q)))"
    by (rule alloc_at [OF d(13) ok(1,2) fh w1_def [unfolded u_def] tl [symmetric]]) (simp add: w2_def w2 split del: if_split)
  show ?thesis
  proof (cases "block_info w p = 0")
    case True
    then have l0: "block_len w p = 0" by (simp add: block_len_def)
    then have as: "as = []" using d(9) ps by (cases as) auto
    define w' where "w' = w2(p + 4 := ?n OR type)"
    have hp: "heap_ok w mem (p # bs)" using h ps as by simp
    have f: "heap_ok w' mem (p # bs) \<and> block_len w' p = unat ((?n OR type) AND MB_INFO_LEN_MASK)
        \<and> (\<forall>q\<in>set bs. block_len w' q = block_len w q)"
    proof (rule heap_front [OF hp])
      show "w' = w(mem + 4 := u, ?l + 4 := v, p + 4 := ?n OR type)" by (simp add: w'_def w2_def w1_def)
      show "u + (block_info w p AND MB_INFO_LEN_MASK) = head_used w mem + ((?n OR type) AND MB_INFO_LEN_MASK)"
        using True by (simp add: u_def len)
    qed (use len n8 room l0 in simp_all)
    have len': "block_len w' p = unat ?n" "\<forall>q\<in>set bs. block_len w' q = block_len w q" using f len by simp_all
    have dist: "p \<notin> set bs" using segment_sorted [OF heapD(4) [OF hp]] by auto
    have bl: "blocks w' ps = insert (p, unat ?n) (blocks w ps)"
      using len' l0 n8(2) ps as by (auto simp: blocks_def)
    have "same_data (blocks w ps) w w'"
      unfolding same_data_def
    proof (clarify)
      fix b k and a :: u32 assume b: "(b, k) \<in> blocks w ps" and a: "unat b + 8 \<le> unat a" "unat a < unat b + k"
      have bin: "b \<in> set ps" "k = block_len w b" using b by (auto simp: blocks_def)
      note i = interior [OF h bin(1) a(1) a(2) [unfolded bin(2)]]
      show "w' a = w a" using i(2) [of mem] i(2) [of ?l] i(2) [of p] pin by (simp add: w'_def w2_def w1_def)
    qed
    moreover have "osRtxMemoryAlloc mem sz type w = Some (p + 8, w')" using alloc i2 True by (simp add: w'_def)
    moreover have "head_size w' mem = head_size w mem"
      using heap_fields(3,8,12) [OF h pin] by (simp add: w'_def w2_def w1_def head_size_def)
    moreover have "\<forall>k. (p, k) \<notin> blocks w ps" using l0 by (auto simp: blocks_def)
    moreover have "heap_ok w' mem ps" using f ps as by simp
    ultimately show ?thesis using bl len' pin by blast
  next
    case False
    then have pos: "0 < block_len w p" using d(8) pin by auto
    define q where "q = p + (block_info w p AND MB_INFO_LEN_MASK)"
    define w' where "w' = w(mem + 4 := u, ?l + 4 := v, q := block_next w p, q + 4 := ?n OR type, p := q)"
    have n2: "block_next w2 p = block_next w p"
      using heap_fields(2,5) [OF h pin] by (simp add: w2_def w1_def block_next_def)
    have hp: "heap_ok w mem (as @ p # bs)" using h ps by simp
    have f: "heap_ok w' mem (as @ p # q # bs) \<and> q \<notin> set (as @ p # bs)
        \<and> block_len w' q = unat ((?n OR type) AND MB_INFO_LEN_MASK) \<and> (\<forall>h\<in>set (as @ p # bs). block_len w' h = block_len w h)"
      by (rule heap_insert [OF hp q_def pos _ _ _ _ w'_def]) (use len n8 room u_def in simp_all)
    let ?qs = "as @ p # q # bs"
    have f': "heap_ok w' mem ?qs" "q \<notin> set ps" "block_len w' q = unat ?n" "\<forall>h\<in>set ps. block_len w' h = block_len w h"
      using f len ps by simp_all
    have bl: "blocks w' ?qs = insert (q, unat ?n) (blocks w ps)"
      using f'(2-4) n8(2) ps by (auto simp: blocks_def)
    have size: "head_size w' mem = head_size w mem"
    proof -
      have "p < q"
      proof -
        have "unat q = unat p + block_len w p"
          using room unat_u32_lt [of "hd (bs @ [?l])"] unfolding q_def block_len_def by (intro unat_add_u32) simp
        then show ?thesis using pos by (simp add: word_less_nat_alt)
      qed
      moreover have "mem < p" using heap_bounds(4) [OF h pin] by (simp add: word_less_nat_alt)
      moreover have "aligned q" using heapD(6) [OF f'(1)] by simp
      ultimately show ?thesis using heap_fields(8,12,15) [OF h pin] by (auto simp: w'_def head_size_def)
    qed
    have tt: "terminator w' mem = ?l" using size by (simp add: terminator_def)
    have "same_data (blocks w ps) w w'"
      unfolding same_data_def
    proof (clarify)
      fix b k and a :: u32 assume b: "(b, k) \<in> blocks w ps" and a: "unat b + 8 \<le> unat a" "unat a < unat b + k"
      have bin: "b \<in> set ps" "k = block_len w b" using b by (auto simp: blocks_def)
      have bin': "b \<in> set ?qs" "unat a < unat b + block_len w' b" using bin f'(4) a(2) ps by auto
      note i = interior [OF f'(1) bin'(1) a(1) bin'(2)]
      show "w' a = w a" using i(2) [of mem] i(2) [of ?l] i [of p] i [of q] tt by (simp add: w'_def)
    qed
    moreover have "osRtxMemoryAlloc mem sz type w = Some (q + 8, w')"
      using alloc i2 n2 False by (simp add: w'_def w2_def w1_def q_def Let_def)
    moreover have "\<forall>k. (q, k) \<notin> blocks w ps" using f'(2) by (auto simp: blocks_def)
    moreover have "q \<in> set ?qs" by simp
    ultimately show ?thesis using f'(1,3) bl size by blast
  qed
qed

section \<open>Release\<close>

lemma data_address:
  assumes h: "heap_ok w mem ps" and b: "b \<in> set ps"
  shows "unat (b + 8) = unat b + 8" "b + 8 \<noteq> 0"
proof -
  show v: "unat (b + 8) = unat b + 8"
  proof -
    have "unat b < unat mem + unat (head_size w mem) - 8"
      using heap_bounds(4) [OF h b] heap_bounds(1) [OF h] by (simp add: word_less_nat_alt)
    then have "unat b + 8 < 4294967296" using heapD(3) [OF h] by simp
    then show ?thesis using unat_add_u32 [of b 8] by simp
  qed
  show "b + 8 \<noteq> 0"
  proof
    assume "b + 8 = 0"
    then show False using v by simp
  qed
qed

lemma free_block:
  assumes h: "heap_ok w mem ps" and b: "b \<in> set ps" and pos: "0 < block_len w b"
  shows "\<exists>w' ps'. osRtxMemoryFree mem (b + 8) w = Some (1, w') \<and> heap_ok w' mem ps'
    \<and> blocks w' ps' = blocks w ps - {(b, block_len w b)} \<and> same_data (blocks w ps) w w' \<and> head_size w' mem = head_size w mem"
proof -
  note d = heapD [OF h]
  let ?l = "terminator w mem"
  let ?u = "head_used w mem - (block_info w b AND MB_INFO_LEN_MASK)"
  obtain as bs where ps: "ps = as @ b # bs" using b by (meson split_list)
  obtain q0 qs where q0: "ps = q0 # qs" "q0 = mem + 8" using d(11,12) by (cases ps) auto
  have "find_block w b None (mem + 8) = Some (Some (if as = [] then None else Some (last as), b))"
    using find_block_found [of w q0 qs ?l as b bs None] d(4) q0 ps by simp
  then have free: "osRtxMemoryFree mem (b + 8) w =
      (let w1 = w(mem + 4 := ?u) in (case (if as = [] then None else Some (last as)) of
          None \<Rightarrow> Some (1, w1(b + 4 := 0)) | Some p \<Rightarrow> Some (1, w1(p := block_next w1 b))))"
    using d(13) data_address(2) [OF h b] by (simp add: osRtxMemoryFree_def Let_def)
  have inside: "w' a = w a" if "w' = w(mem + 4 := x, p := y) \<or> w' = w(mem + 4 := x, p + 4 := y)" "p \<in> set ps"
    "(c, k) \<in> blocks w ps" "unat c + 8 \<le> unat a" "unat a < unat c + k" for w' x y p c k and a :: u32
  proof -
    have c: "c \<in> set ps" "k = block_len w c" using that(3) by (auto simp: blocks_def)
    note i = interior [OF h c(1) that(4) that(5) [unfolded c(2)]]
    show ?thesis using i(2) [of mem] i [of p] that(1,2) by auto
  qed
  show ?thesis
  proof (cases "as = []")
    case True
    define w' where "w' = w(mem + 4 := ?u, b + 4 := 0)"
    have hb: "heap_ok w mem (b # bs)" using h ps True by simp
    have ne: "?l + 4 \<noteq> mem + 4" using heap_fields(7) [OF h b] by auto
    have f: "heap_ok w' mem (b # bs) \<and> block_len w' b = unat (0 AND MB_INFO_LEN_MASK) \<and> (\<forall>q\<in>set bs. block_len w' q = block_len w q)"
    proof (rule heap_front [OF hb])
      show "w' = w(mem + 4 := ?u, ?l + 4 := w (?l + 4), b + 4 := 0)"
        using ne by (simp add: w'_def fun_upd_idem)
      show "unat b + unat (0 AND MB_INFO_LEN_MASK) \<le> unat (hd (bs @ [?l]))"
        using d(4) ps True by (simp add: Let_def)
    qed simp_all
    have dist: "b \<notin> set bs" using segment_sorted [OF heapD(4) [OF hb]] by auto
    have "blocks w' (b # bs) = blocks w ps - {(b, block_len w b)}"
      using f dist ps True by (auto simp: blocks_def)
    moreover have "same_data (blocks w ps) w w'"
      unfolding same_data_def using inside [of w' _ b] b w'_def by blast
    moreover have "osRtxMemoryFree mem (b + 8) w = Some (1, w')" using free True by (simp add: w'_def)
    moreover have "head_size w' mem = head_size w mem"
      using heap_fields(3,12) [OF h b] by (auto simp: w'_def head_size_def)
    ultimately show ?thesis using f by blast
  next
    case False
    then obtain as' p where as: "as = as' @ [p]" by (metis rev_exhaust)
    have hb: "heap_ok w mem (as' @ p # b # bs)" using h ps as by simp
    have pin: "p \<in> set ps" using ps as by simp
    define w' where "w' = w(mem + 4 := ?u, p := block_next w b)"
    have f: "heap_ok w' mem (as' @ p # bs) \<and> (\<forall>h\<in>set (as' @ p # bs). block_len w' h = block_len w h)"
      by (rule heap_remove [OF hb w'_def])
    have dist: "b \<notin> set (as' @ p # bs)" using segment_sorted [OF heapD(4) [OF hb]] by (auto simp: sorted_wrt_append)
    have "blocks w' (as' @ p # bs) = blocks w ps - {(b, block_len w b)}"
      using f dist ps as by (auto simp: blocks_def)
    moreover have "same_data (blocks w ps) w w'"
      unfolding same_data_def using inside [of w' _ p] pin w'_def by blast
    moreover have "osRtxMemoryFree mem (b + 8) w = Some (1, w')"
      using free as heap_fields(2) [OF h b] by (simp add: w'_def block_next_def)
    moreover have "head_size w' mem = head_size w mem"
      using heap_fields(1,12) [OF h pin] by (auto simp: w'_def head_size_def)
    ultimately show ?thesis using f by blast
  qed
qed

text \<open>What is not the address of a block's data is refused, and the free front block stays free.\<close>

lemma free_absent:
  assumes h: "heap_ok w mem ps" and x: "x - 8 \<notin> set ps" "x - 8 \<noteq> terminator w mem"
  shows "osRtxMemoryFree mem x w = Some (0, w)"
proof -
  note d = heapD [OF h]
  obtain q qs where q: "ps = q # qs" "q = mem + 8" using d(11,12) by (cases ps) auto
  have "find_block w (x - 8) None (mem + 8) = Some None"
    using find_block_absent [of w q qs "terminator w mem" "x - 8" None] d(4,5) q x by simp
  then show ?thesis by (simp add: osRtxMemoryFree_def)
qed

lemma free_front:
  assumes h: "heap_ok w mem ps" and b: "b \<in> set ps" and z: "block_len w b = 0"
  shows "osRtxMemoryFree mem (b + 8) w = Some (1, w)"
proof -
  note d = heapD [OF h]
  obtain q qs where q: "ps = q # qs" "q = mem + 8" using d(11,12) by (cases ps) auto
  have "b \<notin> set qs" using d(9) q z by auto
  then have bq: "b = mem + 8" using b q by simp
  have i: "block_info w b = 0" using d(8) b z by blast
  have w: "w(mem + 4 := head_used w mem, b + 4 := 0) = w"
  proof -
    have "w(mem + 4 := head_used w mem) = w" by (simp add: head_used_def)
    moreover have "w(b + 4 := 0) = w" using i by (simp add: block_info_def fun_upd_idem)
    ultimately show ?thesis by simp
  qed
  have "find_block w b None (mem + 8) = Some (Some (None, b))"
    using bq by (subst find_block.simps) simp
  then show ?thesis using d(13) i w data_address(2) [OF h b] by (simp add: osRtxMemoryFree_def Let_def)
qed

section \<open>Set-up\<close>

lemma aligned_and: "aligned x \<longleftrightarrow> x AND 7 = 0"
proof -
  have "x AND 7 = x AND mask 3" by (simp add: mask_eq_exp_minus_1)
  also have "\<dots> = x mod 8" by (simp add: and_mask_mod_2p [symmetric] take_bit_eq_mod flip: take_bit_eq_mask)
  finally have "x AND 7 = 0 \<longleftrightarrow> unat (x mod 8) = 0" by (metis unat_0 unat_eq_zero)
  also have "\<dots> \<longleftrightarrow> unat x mod 8 = 0" by (simp add: unat_mod)
  finally show ?thesis by (simp add: dvd_eq_mod_eq_0)
qed

lemma init_ok:
  assumes m: "mem \<noteq> 0" "mem AND 7 = 0" "sz AND 7 = 0" "24 \<le> sz" "unat mem + unat sz < 4294967296"
  shows "\<exists>w'. osRtxMemoryInit mem sz w = (1, w') \<and> heap_ok w' mem [mem + 8] \<and> blocks w' [mem + 8] = {}
    \<and> head_size w' mem = sz"
proof -
  have al: "aligned mem" "aligned sz" using m(2,3) by (simp_all add: aligned_and)
  have s: "24 \<le> unat sz" using m(4) by (simp add: word_le_nat_alt)
  let ?l = "mem + (sz - 8)"
  have s8: "unat (sz - 8) = unat sz - 8" using s by (simp add: unat_sub_if_size word_less_nat_alt)
  have l: "unat ?l = unat mem + unat sz - 8" using s m(5) s8 unat_add_u32 [of mem "sz - 8"] by simp
  have m8: "unat (mem + 8) = unat mem + 8" using s m(5) unat_add_u32 [of mem 8] by simp
  have la: "aligned ?l" "aligned (mem + 8)" unfolding l m8 using al s by presburger+
  have ne: "?l \<noteq> mem" "?l \<noteq> mem + 8" "mem + 8 \<noteq> mem" using l m8 s by auto
  have ne4: "?l \<noteq> mem + 4" "?l \<noteq> mem + 8 + 4" "mem \<noteq> ?l + 4" "mem + 8 \<noteq> ?l + 4" "mem + 8 \<noteq> mem + 4"
    "mem \<noteq> mem + 8 + 4" "mem \<noteq> mem + 4" "?l \<noteq> ?l + 4" "mem + 8 \<noteq> mem + 8 + 4"
    using aligned_neq al la by metis+
  define w' where "w' = w(mem := sz, mem + 4 := 16, mem + 8 := ?l, ?l := 0, ?l + 4 := 16, mem + 8 + 4 := 0)"
  have nsz: "\<not> sz < 24" using m(4) by simp
  have i: "osRtxMemoryInit mem sz w = (1, w')"
    using m(1,2,3) nsz by (simp add: osRtxMemoryInit_def Let_def block_next_def w'_def)
  have n: "head_size w' mem = sz" using ne ne4 by (simp add: w'_def head_size_def)
  have u: "head_used w' mem = 16" 
    using ne ne4 by (auto simp: w'_def head_used_def)
  have b: "block_next w' (mem + 8) = ?l" "block_info w' (mem + 8) = 0" "block_next w' ?l = 0"
    using ne ne4 by (auto simp: w'_def block_next_def block_info_def)
  have t: "terminator w' mem = ?l" by (simp add: terminator_def n)
  have bl: "block_len w' (mem + 8) = 0" by (simp add: block_len_def b)
  have "heap_ok w' mem [mem + 8]"
    using al la m s n u b bl l m8 by (auto simp: heap_ok_def t Let_def word_less_nat_alt)
  moreover have "blocks w' [mem + 8] = {}" using bl by (simp add: blocks_def)
  ultimately show ?thesis using i n by blast
qed

end
