(* ===== verification/Rtx_Memory_Safety.thy ===== *)
theory Rtx_Memory_Safety
  imports Rtx_Memory_Steps
begin

text \<open>
  The variable-size pool as its clients see it: the states any use of the pool reaches, the
  pointers that are live in them, and the guarantees of Alloc and Free.
\<close>

section \<open>A pool in use\<close>

text \<open>
  Every state a client can bring a pool of \<open>sz\<close> bytes at \<open>mem\<close> into: it is set up, blocks are
  allocated and released, and words inside the data of a live block are written. The map holds
  the live pointers with the sizes asked for. Releasing a pointer that is not live is covered;
  only the address one past the pool, which no allocation returns, is not passed to Free.
\<close>

inductive heap_reach :: "u32 \<Rightarrow> u32 \<Rightarrow> words \<Rightarrow> (u32 \<rightharpoonup> u32) \<Rightarrow> bool" for mem sz :: u32 where
  set_up: "osRtxMemoryInit mem sz w = (1, w') \<Longrightarrow> unat mem + unat sz < 4294967296 \<Longrightarrow> heap_reach mem sz w' Map.empty"
| allocate: "heap_reach mem sz w B \<Longrightarrow> osRtxMemoryAlloc mem n type w = Some (p, w') \<Longrightarrow> p \<noteq> 0 \<Longrightarrow>
    unat n + 15 < 4294967296 \<Longrightarrow> heap_reach mem sz w' (B(p \<mapsto> n))"
| refuse: "heap_reach mem sz w B \<Longrightarrow> osRtxMemoryAlloc mem n type w = Some (0, w') \<Longrightarrow>
    unat n + 15 < 4294967296 \<Longrightarrow> heap_reach mem sz w' B"
| release: "heap_reach mem sz w B \<Longrightarrow> osRtxMemoryFree mem p w = Some (r, w') \<Longrightarrow> p \<noteq> mem + sz \<Longrightarrow>
    heap_reach mem sz w' (B(p := None))"
| store: "heap_reach mem sz w B \<Longrightarrow> B p = Some n \<Longrightarrow> 4 dvd unat a \<Longrightarrow> unat p \<le> unat a \<Longrightarrow>
    unat a + 4 \<le> unat p + unat n \<Longrightarrow> heap_reach mem sz (w(a := v)) B"

text \<open>The blocks of the live pointers.\<close>

definition live :: "(u32 \<rightharpoonup> u32) \<Rightarrow> (u32 \<times> nat) set" where
  "live B = {(p - 8, unat (alloc_size n)) |p n. B p = Some n}"

definition represents :: "u32 \<Rightarrow> u32 \<Rightarrow> words \<Rightarrow> u32 list \<Rightarrow> (u32 \<rightharpoonup> u32) \<Rightarrow> bool" where
  "represents mem sz w ps B \<longleftrightarrow> heap_ok w mem ps \<and> head_size w mem = sz \<and> blocks w ps = live B
     \<and> (\<forall>p n. B p = Some n \<longrightarrow> unat n + 15 < 4294967296)"

lemma live_update:
  assumes "B p = None" shows "live (B(p \<mapsto> n)) = insert (p - 8, unat (alloc_size n)) (live B)"
  using assms unfolding live_def by (auto split: if_splits)

lemma live_remove:
  assumes p: "B p = Some n"
  shows "live (B(p := None)) = live B - {(p - 8, unat (alloc_size n))}"
proof (rule Set.set_eqI)
  fix x :: "u32 \<times> nat"
  have "(\<exists>q m. x = (q - 8, unat (alloc_size m)) \<and> (B(p := None)) q = Some m) \<longleftrightarrow>
    (\<exists>q m. x = (q - 8, unat (alloc_size m)) \<and> B q = Some m) \<and> x \<noteq> (p - 8, unat (alloc_size n))"
    using p by (auto split: if_splits) (metis option.inject)
  then show "x \<in> live (B(p := None)) \<longleftrightarrow> x \<in> live B - {(p - 8, unat (alloc_size n))}" by (simp add: live_def)
qed

lemma live_block:
  assumes r: "represents mem sz w ps B" and p: "B p = Some n"
  shows "p - 8 \<in> set ps" "block_len w (p - 8) = unat (alloc_size n)" "0 < block_len w (p - 8)"
    "unat p = unat (p - 8) + 8" "unat n + 8 \<le> unat (alloc_size n)"
proof -
  have "(p - 8, unat (alloc_size n)) \<in> blocks w ps" using r p by (auto simp: represents_def live_def)
  then show b: "p - 8 \<in> set ps" "block_len w (p - 8) = unat (alloc_size n)" "0 < block_len w (p - 8)"
    by (auto simp: blocks_def)
  have "heap_ok w mem ps" using r by (simp add: represents_def)
  then show "unat p = unat (p - 8) + 8" using data_address(1) [of w mem ps "p - 8"] b(1) by simp
  have "unat (alloc_size n) = 8 * ((unat n + 15) div 8)" using r p by (auto simp: represents_def intro: alloc_size_value)
  then show "unat n + 8 \<le> unat (alloc_size n)" by presburger
qed

lemma dead_block:
  assumes r: "represents mem sz w ps B" and p: "B p = None" "p - 8 \<in> set ps"
  shows "block_len w (p - 8) = 0"
proof (rule ccontr)
  assume "block_len w (p - 8) \<noteq> 0"
  then have "(p - 8, block_len w (p - 8)) \<in> live B" using r p(2) by (auto simp: represents_def blocks_def)
  then show False using p(1) by (auto simp: live_def)
qed

text \<open>The operations on a represented pool.\<close>

lemma allocate_cases:
  assumes r: "represents mem sz w ps B" and n: "n \<noteq> 0" "type AND NOT MB_INFO_TYPE_MASK = 0" "unat n + 15 < 4294967296"
  shows "osRtxMemoryAlloc mem n type w = Some (0, w) \<and> (\<forall>p\<in>set ps. hole_after w p < alloc_size n)
    \<or> (\<exists>p w' ps'. osRtxMemoryAlloc mem n type w = Some (p, w') \<and> p \<noteq> 0 \<and> B p = None
        \<and> represents mem sz w' ps' (B(p \<mapsto> n)) \<and> same_data (live B) w w')"
proof (cases "\<exists>p\<in>set ps. alloc_size n \<le> hole_after w p")
  case False
  then have "\<forall>p\<in>set ps. hole_after w p < alloc_size n" by (auto simp: not_le)
  then show ?thesis using alloc_none [of w mem ps n type] n(1,2) r by (simp add: represents_def)
next
  case True
  have h: "heap_ok w mem ps" and bl: "blocks w ps = live B" using r by (simp_all add: represents_def)
  obtain q w' ps' where q: "osRtxMemoryAlloc mem n type w = Some (q + 8, w')" "heap_ok w' mem ps'" "q \<in> set ps'"
    "\<forall>k. (q, k) \<notin> blocks w ps" "blocks w' ps' = insert (q, unat (alloc_size n)) (blocks w ps)"
    "same_data (blocks w ps) w w'" "head_size w' mem = head_size w mem"
    using alloc_some [OF h n True] by (elim exE conjE) (rule that)
  have fresh: "B (q + 8) = None"
  proof (rule ccontr)
    assume "B (q + 8) \<noteq> None"
    then obtain k where "B (q + 8) = Some k" by blast
    then have "(q + 8 - 8, unat (alloc_size k)) \<in> live B" unfolding live_def by blast
    then show False using q(4) bl by simp
  qed
  have "represents mem sz w' ps' (B(q + 8 \<mapsto> n))"
    using r q(2,5,7) n(3) live_update [where B = B and p = "q + 8" and n = n, OF fresh] by (simp add: represents_def)
  then show ?thesis using q(1,6) fresh data_address(2) [OF q(2,3)] bl by (intro disjI2 exI conjI) simp_all
qed

lemma release_live:
  assumes r: "represents mem sz w ps B" and p: "B p = Some n"
  shows "\<exists>w' ps'. osRtxMemoryFree mem p w = Some (1, w') \<and> represents mem sz w' ps' (B(p := None)) \<and> same_data (live B) w w'"
proof -
  have h: "heap_ok w mem ps" and bl: "blocks w ps = live B" using r by (simp_all add: represents_def)
  note b = live_block [OF r p]
  obtain w' ps' where w': "osRtxMemoryFree mem (p - 8 + 8) w = Some (1, w')" "heap_ok w' mem ps'"
    "blocks w' ps' = blocks w ps - {(p - 8, block_len w (p - 8))}" "same_data (blocks w ps) w w'" "head_size w' mem = head_size w mem"
    using free_block [OF h b(1,3)] by (elim exE conjE) (rule that)
  have "represents mem sz w' ps' (B(p := None))"
    using r w'(2,3,5) live_remove [where B = B, OF p] b(2) by (auto simp: represents_def)
  then show ?thesis using w'(1,4) bl by (intro exI conjI) simp_all
qed

lemma release_dead:
  assumes r: "represents mem sz w ps B" and p: "B p = None" "p \<noteq> mem + sz"
  shows "osRtxMemoryFree mem p w = Some (if p = mem + 16 \<and> block_len w (mem + 8) = 0 then 1 else 0, w)"
proof (cases "p - 8 \<in> set ps")
  case True
  have h: "heap_ok w mem ps" using r by (simp add: represents_def)
  have z: "block_len w (p - 8) = 0" by (rule dead_block [OF r p(1) True])
  obtain q qs where "ps = q # qs" "q = mem + 8" using heapD(11,12) [OF h] by (cases ps) auto
  then have "p - 8 = mem + 8" using heapD(9) [OF h] True z by auto
  moreover from this have "p = mem + 16" by (simp add: algebra_simps)
  ultimately show ?thesis using free_front [OF h True z] z by (simp add: algebra_simps)
next
  case False
  have h: "heap_ok w mem ps" and s: "head_size w mem = sz" using r by (simp_all add: represents_def)
  have "mem + 8 \<in> set ps" using heapD(11,12) [OF h] by (cases ps) auto
  moreover have "mem + 16 - 8 = mem + 8" by simp
  ultimately have ne: "p \<noteq> mem + 16" using False by metis
  have "p - 8 \<noteq> terminator w mem" using p(2) s by (auto simp: terminator_def algebra_simps)
  then show ?thesis using free_absent [OF h False] ne by simp
qed

lemma store_keeps:
  assumes r: "represents mem sz w ps B" and p: "B p = Some n" "unat p \<le> unat a" "unat a + 4 \<le> unat p + unat n"
  shows "represents mem sz (w(a := v)) ps B"
proof -
  have h: "heap_ok w mem ps" using r by (simp add: represents_def)
  note b = live_block [OF r p(1)]
  have "unat (p - 8) + 8 \<le> unat a" "unat a < unat (p - 8) + block_len w (p - 8)" using b p by simp_all
  note i = interior [OF h b(1) this]
  let ?w = "w(a := v)"
  have f: "block_next ?w x = block_next w x" "block_info ?w x = block_info w x" "head_size ?w mem = head_size w mem"
    "head_used ?w mem = head_used w mem" if "x \<in> set ps \<or> x = terminator w mem" for x
    using i [of x] i [of mem] i(1) [of "terminator w mem"] that by (auto simp: block_next_def block_info_def head_size_def head_used_def)
  have f3: "head_size ?w mem = head_size w mem" using f(3) [of "terminator w mem"] by simp
  have l: "terminator ?w mem = terminator w mem" using f3 by (simp add: terminator_def)
  have len: "block_len ?w x = block_len w x" if "x \<in> set ps" for x using f(2) that by (simp add: block_len_def)
  then have bl: "blocks ?w ps = blocks w ps" by (auto simp: blocks_def)
  have "segment ?w ps (terminator w mem)" using heapD(4) [OF h] segment_cong [of ps ?w w] f by simp
  moreover have "map (block_len ?w) ps = map (block_len w) ps" using len by simp
  moreover have "set (tl ps) \<subseteq> set ps" by (cases ps) auto
  ultimately have "heap_ok ?w mem ps" using h f l len unfolding heap_ok_def by (metis (no_types, lifting) subsetD)
  then show ?thesis using r f3 bl by (simp add: represents_def)
qed

lemma trivial_alloc: "n = 0 \<or> type AND NOT MB_INFO_TYPE_MASK \<noteq> 0 \<Longrightarrow> osRtxMemoryAlloc mem n type w = Some (0, w)"
  by (auto simp: osRtxMemoryAlloc_def)

lemma reach_represents: "heap_reach mem sz w B \<Longrightarrow> \<exists>ps. represents mem sz w ps B"
proof (induction rule: heap_reach.induct)
  case (set_up w w')
  have "mem \<noteq> 0" "mem AND 7 = 0" "sz AND 7 = 0" "24 \<le> sz"
    using set_up(1) by (auto simp: osRtxMemoryInit_def not_less split: if_splits)
  then have "\<exists>v. osRtxMemoryInit mem sz w = (1, v) \<and> heap_ok v mem [mem + 8] \<and> blocks v [mem + 8] = {} \<and> head_size v mem = sz"
    by (rule init_ok [OF _ _ _ _ set_up(2)])
  then have "heap_ok w' mem [mem + 8] \<and> blocks w' [mem + 8] = {} \<and> head_size w' mem = sz" using set_up(1) by auto
  then have "represents mem sz w' [mem + 8] Map.empty" by (simp add: represents_def live_def)
  then show ?case by blast
next
  case (allocate w B n type p w')
  obtain ps where r: "represents mem sz w ps B" using allocate.IH by blast
  have ok: "n \<noteq> 0" "type AND NOT MB_INFO_TYPE_MASK = 0"
    using allocate(2,3) trivial_alloc [of n type mem w] by (auto simp del: not_gr_zero)
  show ?case using allocate_cases [OF r ok allocate(4)] allocate(2,3) by (auto simp del: fun_upd_apply)
next
  case (refuse w B n type w')
  obtain ps where r: "represents mem sz w ps B" using refuse.IH by blast
  show ?case
  proof (cases "n = 0 \<or> type AND NOT MB_INFO_TYPE_MASK \<noteq> 0")
    case True
    then show ?thesis using trivial_alloc [OF True, of mem w] refuse(2) r by auto
  next
    case False
    then show ?thesis using allocate_cases [OF r _ _ refuse(3), of type] refuse(2) r by auto
  qed
next
  case (release w B p r w')
  obtain ps where rp: "represents mem sz w ps B" using release.IH by blast
  show ?case
  proof (cases "B p")
    case None
    then have "B(p := None) = B" by auto
    then show ?thesis using release_dead [OF rp None release(3)] release(2) rp by auto
  next
    case (Some n)
    then show ?thesis using release_live [OF rp Some] release(2) by (auto simp del: fun_upd_apply)
  qed
next
  case (store w B p n a v)
  then show ?case using store_keeps by blast
qed

section \<open>Room\<close>

lemma takeWhile_split:
  assumes "P (hd xs)" "xs \<noteq> []"
  obtains as h where "xs = as @ h # dropWhile P xs" "P h"
proof -
  have ne: "takeWhile P xs \<noteq> []" using assms by (cases xs) auto
  have "P (last (takeWhile P xs))" using ne last_in_set set_takeWhileD by metis
  moreover have "takeWhile P xs = butlast (takeWhile P xs) @ [last (takeWhile P xs)]" using ne by simp
  then have "xs = butlast (takeWhile P xs) @ last (takeWhile P xs) # dropWhile P xs"
    using takeWhile_dropWhile_id [of P xs] by (metis append.assoc append_Cons append_Nil)
  ultimately show thesis using that by blast
qed

text \<open>If no hole is large enough, every place for the block meets a block in use.\<close>

lemma no_room:
  assumes h: "heap_ok w mem ps" and no: "\<forall>p\<in>set ps. hole_after w p < n" and n: "0 < unat n"
    and c: "unat mem + 8 \<le> c" "c + unat n + 8 \<le> unat mem + unat (head_size w mem)"
  shows "\<exists>(b, k)\<in>blocks w ps. c < unat b + k \<and> unat b < c + unat n"
proof -
  note d = heapD [OF h]
  let ?P = "\<lambda>p. unat p \<le> c" and ?l = "terminator w mem"
  have "?P (hd ps)" using d(12) heap_bounds(3) [OF h] c(1) by simp
  then obtain as b where ps: "ps = as @ b # dropWhile ?P ps" and b: "unat b \<le> c"
    using takeWhile_split [of ?P ps] d(11) by metis
  let ?bs = "dropWhile ?P ps"
  have bin: "b \<in> set ps" by (subst ps) simp
  have hv: "unat (hole_after w b) = unat (hd (?bs @ [?l])) - unat b - block_len w b"
    using hole_value(1) [of w mem as b ?bs] h ps by simp
  have no': "unat (hole_after w b) < unat n" using no bin by (simp add: word_less_nat_alt)
  show ?thesis
  proof (cases "c < unat b + block_len w b")
    case True
    then have "(b, block_len w b) \<in> blocks w ps" using b bin by (auto simp: blocks_def)
    then show ?thesis using True b n by (intro bexI) auto
  next
    case F: False
    show ?thesis
    proof (cases "?bs")
      case Nil
      have "unat (hd (?bs @ [?l])) = unat mem + unat (head_size w mem) - 8"
        unfolding Nil using heap_bounds(1) [OF h] by simp
      then show ?thesis using hv no' F c(2) by linarith
    next
      case (Cons r rs)
      then have "\<not> ?P r" using hd_dropWhile [of ?P ps] by (metis list.distinct(1) list.sel(1))
      moreover have "ps = as @ b # r # rs" using ps unfolding Cons .
      then have "r \<in> set (tl ps)" by (cases as) auto
      moreover from this have "r \<in> set ps" by (cases ps) auto
      moreover have "unat r < c + unat n" using hv no' F Cons by simp
      ultimately have "(r, block_len w r) \<in> blocks w ps" "c < unat r + block_len w r"
        using d(9) by (auto simp: blocks_def)
      then show ?thesis using \<open>unat r < c + unat n\<close> by (intro bexI) auto
    qed
  qed
qed

section \<open>What the blocks of a pool are\<close>

lemma blocks_inside:
  assumes h: "heap_ok w mem ps" and b: "b \<in> set ps"
  shows "unat b + block_len w b + 8 \<le> unat mem + unat (head_size w mem)"
proof -
  obtain as bs where ps: "ps = as @ b # bs" using b by (meson split_list)
  have "unat b + block_len w b \<le> unat (terminator w mem)"
    using segment_gap [of w as b bs "terminator w mem" "terminator w mem"] heapD(4) [OF h] ps by simp
  then show ?thesis using heap_bounds(1) [OF h] heapD(2) [OF h] by simp
qed

lemma sum_blocks: "distinct ps \<Longrightarrow> (\<Sum>(b, k)\<in>blocks w ps. k) = sum_list (map (block_len w) ps)"
proof (induction ps)
  case Nil
  then show ?case by (simp add: blocks_def)
next
  case (Cons p ps)
  have f: "finite (blocks w ps)"
    by (rule finite_subset [of _ "(\<lambda>p. (p, block_len w p)) ` set ps"]) (auto simp: blocks_def)
  show ?case
  proof (cases "block_len w p = 0")
    case True
    then have "blocks w (p # ps) = blocks w ps" by (auto simp: blocks_def)
    then show ?thesis using Cons True by simp
  next
    case False
    then have "blocks w (p # ps) = insert (p, block_len w p) (blocks w ps)" "(p, block_len w p) \<notin> blocks w ps"
      using Cons.prems by (auto simp: blocks_def)
    then show ?thesis using Cons f by simp
  qed
qed

section \<open>The guarantees\<close>

lemma same_data_word:
  assumes r: "represents mem sz w ps B" and s: "same_data (live B) w w'" and q: "B q = Some k"
    and a: "unat q \<le> unat a" "unat a < unat q + unat k"
  shows "w' a = w a"
proof -
  note b = live_block [OF r q]
  have "(q - 8, unat (alloc_size k)) \<in> live B" using q by (auto simp: live_def)
  moreover have "unat (q - 8) + 8 \<le> unat a" "unat a < unat (q - 8) + unat (alloc_size k)" using a b(4,5) by simp_all
  ultimately show ?thesis using s unfolding same_data_def by blast
qed

lemma finite_live:
  assumes r: "represents mem sz w ps B" shows "finite (dom B)"
proof (rule finite_subset)
  have "p \<in> (\<lambda>b. b + 8) ` set ps" if "B p = Some n" for p n
    using live_block(1) [OF r that] by (rule rev_image_eqI) simp
  then show "dom B \<subseteq> (\<lambda>b. b + 8) ` set ps" by blast
qed simp

lemma live_apart:
  assumes r: "represents mem sz w ps B" and p: "B p = Some n" "B q = Some k" "p \<noteq> q"
  shows "unat p + unat n + 8 \<le> unat q \<or> unat q + unat k + 8 \<le> unat p"
proof -
  have h: "heap_ok w mem ps" using r by (simp add: represents_def)
  note bp = live_block [OF r p(1)] and bq = live_block [OF r p(2)]
  have "p - 8 \<noteq> q - 8" using p(3) by simp
  then show ?thesis using blocks_apart [OF h bp(1)] blocks_apart [OF h bq(1), of "p - 8"] bp bq by fastforce
qed

lemma live_inside:
  assumes r: "represents mem sz w ps B" and p: "B p = Some n"
  shows "8 dvd unat p" "unat mem + 16 \<le> unat p" "unat p + unat n + 8 \<le> unat mem + unat sz"
proof -
  have h: "heap_ok w mem ps" "head_size w mem = sz" using r by (simp_all add: represents_def)
  note b = live_block [OF r p]
  show "8 dvd unat p" using heapD(6) [OF h(1)] b by simp
  show "unat mem + 16 \<le> unat p" using heap_bounds(4) [OF h(1) b(1)] b(4) by simp
  show "unat p + unat n + 8 \<le> unat mem + unat sz" using blocks_inside [OF h(1) b(1)] b h(2) by simp
qed

lemma live_sum:
  assumes r: "represents mem sz w ps B"
  shows "(\<Sum>(b, k)\<in>live B. k) = (\<Sum>p\<in>dom B. unat (alloc_size (the (B p))))"
proof -
  have i: "live B = (\<lambda>p. (p - 8, unat (alloc_size (the (B p))))) ` dom B"
    unfolding live_def by (auto simp: image_def dom_def)
  show ?thesis unfolding i by (subst sum.reindex) (auto simp: inj_on_def)
qed

lemma live_used:
  assumes r: "represents mem sz w ps B"
  shows "unat (head_used w mem) = 16 + (\<Sum>p\<in>dom B. unat (alloc_size (the (B p))))"
proof -
  have h: "heap_ok w mem ps" and bl: "blocks w ps = live B" using r by (simp_all add: represents_def)
  have "distinct ps" using segment_sorted [OF heapD(4) [OF h]]
    by (simp add: sorted_wrt_append strict_sorted_iff)
  then show ?thesis using sum_blocks [of ps w] heapD(10) [OF h] live_sum [OF r] bl by simp
qed

text \<open>
  C7: in every state a pool can be brought into, the live blocks are 8-byte aligned, lie inside the
  pool with 8 bytes to spare for their headers, do not overlap each other, and \<open>used\<close> is the
  size of the pool's two headers and of all live blocks.
\<close>

theorem memory_pool_consistent:
  assumes "heap_reach mem sz w B"
  shows "(\<forall>p n. B p = Some n \<longrightarrow>
            8 dvd unat p \<and> unat mem + 16 \<le> unat p \<and> unat p + unat n + 8 \<le> unat mem + unat sz)
       \<and> (\<forall>p n q k. B p = Some n \<and> B q = Some k \<and> p \<noteq> q \<longrightarrow>
            unat p + unat n + 8 \<le> unat q \<or> unat q + unat k + 8 \<le> unat p)
       \<and> unat (head_used w mem) = 16 + (\<Sum>p\<in>dom B. unat (alloc_size (the (B p))))"
proof -
  obtain ps where r: "represents mem sz w ps B" using reach_represents [OF assms] by blast
  show ?thesis using live_inside [OF r] live_apart [OF r] live_used [OF r] by blast
qed

text \<open>
  C8: Alloc always returns. It returns 0 only when every aligned or unaligned place for the block
  meets a live block, and then changes nothing; else the pointer is new and the data of the live
  blocks is as before.
\<close>

theorem memory_alloc_first_fit:
  assumes "heap_reach mem sz w B" and n: "n \<noteq> 0" "type AND NOT MB_INFO_TYPE_MASK = 0" "unat n + 15 < 4294967296"
  shows "\<exists>p w'. osRtxMemoryAlloc mem n type w = Some (p, w') \<and>
    (if p = 0
     then w' = w \<and> (\<forall>c. unat mem + 8 \<le> c \<and> c + unat (alloc_size n) + 8 \<le> unat mem + unat sz \<longrightarrow>
            (\<exists>q k. B q = Some k \<and> c < unat q - 8 + unat (alloc_size k) \<and> unat q - 8 < c + unat (alloc_size n)))
     else B p = None \<and> heap_reach mem sz w' (B(p \<mapsto> n)) \<and>
          (\<forall>q k. B q = Some k \<longrightarrow> (\<forall>a. unat q \<le> unat a \<and> unat a < unat q + unat k \<longrightarrow> w' a = w a)))"
proof -
  obtain ps where r: "represents mem sz w ps B" using reach_represents [OF assms(1)] by blast
  have h: "heap_ok w mem ps" "head_size w mem = sz" "blocks w ps = live B" using r by (simp_all add: represents_def)
  have N: "0 < unat (alloc_size n)" using alloc_size_value [OF n(3)] by simp
  from allocate_cases [OF r n] show ?thesis
  proof
    assume a: "osRtxMemoryAlloc mem n type w = Some (0, w) \<and> (\<forall>p\<in>set ps. hole_after w p < alloc_size n)"
    have "\<exists>q k. B q = Some k \<and> c < unat q - 8 + unat (alloc_size k) \<and> unat q - 8 < c + unat (alloc_size n)"
      if c: "unat mem + 8 \<le> c" "c + unat (alloc_size n) + 8 \<le> unat mem + unat sz" for c
    proof -
      obtain b l where b: "(b, l) \<in> live B" "c < unat b + l" "unat b < c + unat (alloc_size n)"
        using no_room [OF h(1) conjunct2 [OF a] N c(1)] c(2) h(2,3) by auto
      obtain q k where q: "b = q - 8" "l = unat (alloc_size k)" "B q = Some k" using b(1) by (auto simp: live_def)
      show ?thesis using b(2,3) q live_block(4) [OF r q(3)] by (intro exI [of _ q] exI [of _ k]) simp
    qed
    then show ?thesis using a by (intro exI [of _ 0] exI [of _ w]) simp
  next
    assume "\<exists>p w' ps'. osRtxMemoryAlloc mem n type w = Some (p, w') \<and> p \<noteq> 0 \<and> B p = None
        \<and> represents mem sz w' ps' (B(p \<mapsto> n)) \<and> same_data (live B) w w'"
    then obtain p w' where p: "osRtxMemoryAlloc mem n type w = Some (p, w')" "p \<noteq> 0" "B p = None" "same_data (live B) w w'"
      by blast
    have "heap_reach mem sz w' (B(p \<mapsto> n))" by (rule heap_reach.allocate [OF assms(1) p(1,2) n(3)])
    moreover have "w' a = w a" if "B q = Some k" "unat q \<le> unat a" "unat a < unat q + unat k" for q k a
      using same_data_word [OF r p(4) that] .
    ultimately show ?thesis using p by (intro exI [of _ p] exI [of _ w']) simp
  qed
qed


section \<open>A pool of 64 bytes with one block\<close>

definition demo_pool :: words where
  "demo_pool = (\<lambda>_. 0)(0x20000000 := 64, 0x20000004 := 16, 0x20000008 := 0x20000038, 0x20000038 := 0, 0x2000003C := 16, 0x2000000C := 0)"

definition demo_used :: words where
  "demo_used = demo_pool(0x20000004 := 32, 0x2000003C := 32, 0x2000000C := 17)"

lemma demo_set_up: "osRtxMemoryInit 0x20000000 64 (\<lambda>_. 0) = (1, demo_pool)"
  by (simp add: osRtxMemoryInit_def Let_def block_next_def demo_pool_def)

lemma demo_size: "alloc_size 8 = 16" by code_simp

lemma demo_alloc: "osRtxMemoryAlloc 0x20000000 8 1 demo_pool = Some (0x20000010, demo_used)"
proof -
  have "find_hole demo_pool 16 0x20000008 = Some (Some 0x20000008)"
    by (subst find_hole.simps) (simp add: hole_after_def block_fields demo_pool_def MB_INFO_LEN_MASK_def)
  then show ?thesis
    by (simp add: osRtxMemoryAlloc_def demo_size MB_INFO_TYPE_MASK_def block_fields demo_pool_def demo_used_def Let_def)
qed

lemma demo_reach: "heap_reach 0x20000000 64 demo_used [0x20000010 \<mapsto> 8]"
proof -
  have "heap_reach 0x20000000 64 demo_pool Map.empty" by (rule heap_reach.set_up [OF demo_set_up]) simp
  then show ?thesis using demo_alloc by (rule heap_reach.allocate) simp_all
qed

theorem memory_pool_consistent_witness:
  "unat (head_used demo_used 0x20000000) = 16 + unat (alloc_size 8)"
  using memory_pool_consistent [OF demo_reach] by simp

theorem memory_alloc_first_fit_witness:
  "\<exists>p w'. osRtxMemoryAlloc 0x20000000 8 1 demo_used = Some (p, w') \<and> p \<noteq> 0 \<and> w' 0x20000010 = demo_used 0x20000010"
proof -
  have t: "(1 :: u32) AND NOT MB_INFO_TYPE_MASK = 0" by (simp add: MB_INFO_TYPE_MASK_def)
  obtain p w' where p: "osRtxMemoryAlloc 0x20000000 8 1 demo_used = Some (p, w')"
    and "if p = 0
      then w' = demo_used \<and> (\<forall>c. 536870920 \<le> c \<and> c + 24 \<le> (536870976 :: nat) \<longrightarrow> c < 536870936)
      else \<forall>a :: u32. 536870928 \<le> unat a \<and> unat a < 536870936 \<longrightarrow> w' a = demo_used a"
    using memory_alloc_first_fit [OF demo_reach _ t, of 8] by (auto simp: demo_size split: if_splits)
  then have "p \<noteq> 0 \<and> w' 0x20000010 = demo_used 0x20000010" by (auto split: if_splits dest: spec [of _ "536870936 :: nat"])
  then show ?thesis using p by blast
qed


text \<open>
  The bound on the size in these guarantees is needed: the sum with the header wraps, and the
  largest sizes give a block of 8 bytes, which is all header.
\<close>

lemma alloc_size_wraps:
  "alloc_size 0xFFFFFFFC = 8 \<and>
   osRtxMemoryAlloc 0x20000000 0xFFFFFFFC 1 demo_pool
     = Some (0x20000010, demo_pool(0x20000004 := 24, 0x2000003C := 24, 0x2000000C := 9))"
proof -
  have n: "alloc_size 0xFFFFFFFC = 8" by code_simp
  have "find_hole demo_pool 8 0x20000008 = Some (Some 0x20000008)"
    by (subst find_hole.simps) (simp add: hole_after_def block_fields demo_pool_def MB_INFO_LEN_MASK_def)
  then show ?thesis
    by (simp add: n osRtxMemoryAlloc_def MB_INFO_TYPE_MASK_def block_fields demo_pool_def Let_def)
qed

end
