(* ===== verification/Rtx_Pool_Blocks.thy ===== *)
theory Rtx_Pool_Blocks
  imports Rtx_Pool
begin

text \<open>
  The library functions for pools of blocks of one size (Source/rtx_mempool.c): where the blocks
  lie, the chain of the free ones, and what Init, Alloc and Free do to it.
\<close>

section \<open>Blocks of a pool\<close>

text \<open>The blocks of a pool: \<open>n\<close> addresses from \<open>b\<close> on, \<open>k\<close> bytes apart.\<close>

fun slots :: "nat \<Rightarrow> u32 \<Rightarrow> u32 \<Rightarrow> u32 list" where
  "slots 0 k b = []"
| "slots (Suc n) k b = b # slots n k (b + k)"

lemma length_slots [simp]: "length (slots n k b) = n"
  by (induction n arbitrary: b) auto

lemma slots_bounds:
  "unat b + n * unat k < 4294967296 \<Longrightarrow> a \<in> set (slots n k b) \<Longrightarrow>
   unat b \<le> unat a \<and> unat a + unat k \<le> unat b + n * unat k"
proof (induction n arbitrary: b)
  case (Suc n)
  have v: "unat (b + k) = unat b + unat k" using Suc.prems(1) by (intro unat_add_u32) simp
  show ?case
  proof (cases "a = b")
    case True
    then show ?thesis by simp
  next
    case False
    then have "unat (b + k) \<le> unat a \<and> unat a + unat k \<le> unat (b + k) + n * unat k"
      using Suc v by (intro Suc.IH) auto
    then show ?thesis using v by simp
  qed
qed simp

lemma slots_apart:
  "unat b + n * unat k < 4294967296 \<Longrightarrow> 0 < unat k \<Longrightarrow> a \<in> set (slots n k b) \<Longrightarrow> c \<in> set (slots n k b) \<Longrightarrow>
   a = c \<or> unat a + unat k \<le> unat c \<or> unat c + unat k \<le> unat a"
proof (induction n arbitrary: b)
  case (Suc n)
  have v: "unat (b + k) = unat b + unat k" using Suc.prems(1) by (intro unat_add_u32) simp
  have r: "unat (b + k) + n * unat k < 4294967296" using Suc.prems(1) v by simp
  note s = slots_bounds [OF r]
  show ?case using Suc.IH [OF r Suc.prems(2)] Suc.prems(3,4) s [of a] s [of c] v by auto
qed simp

lemma distinct_slots: "unat b + n * unat k < 4294967296 \<Longrightarrow> 0 < unat k \<Longrightarrow> distinct (slots n k b)"
proof (induction n arbitrary: b)
  case (Suc n)
  have v: "unat (b + k) = unat b + unat k" using Suc.prems(1) by (intro unat_add_u32) simp
  have r: "unat (b + k) + n * unat k < 4294967296" using Suc.prems(1) v by simp
  show ?case using Suc.IH [OF r Suc.prems(2)] slots_bounds [OF r, of b] v Suc.prems(2) by auto
qed simp

text \<open>The free blocks, linked through their first word.\<close>

fun free_chain :: "words \<Rightarrow> u32 \<Rightarrow> u32 list \<Rightarrow> bool" where
  "free_chain w a [] \<longleftrightarrow> a = 0"
| "free_chain w a (b # bs) \<longleftrightarrow> a = b \<and> b \<noteq> 0 \<and> free_chain w (w b) bs"

lemma free_chain_upd: "x \<notin> set bs \<Longrightarrow> free_chain (w(x := v)) a bs = free_chain w a bs"
  by (induction bs arbitrary: a) auto

lemma link_blocks_outside: "a \<notin> set (slots (Suc n) k b) \<Longrightarrow> link_blocks n k b w a = w a"
  by (induction n arbitrary: b w) auto

lemma link_blocks_chain:
  "unat b + Suc n * unat k < 4294967296 \<Longrightarrow> 0 < unat k \<Longrightarrow> b \<noteq> 0 \<Longrightarrow>
   free_chain (link_blocks n k b w) b (slots (Suc n) k b)"
proof (induction n arbitrary: b w)
  case (Suc n)
  have v: "unat (b + k) = unat b + unat k" using Suc.prems(1) by (intro unat_add_u32) simp
  have r: "unat (b + k) + Suc n * unat k < 4294967296" using Suc.prems(1) v by simp
  have "b + k \<noteq> 0" using v Suc.prems(2) by (metis add_gr_0 less_numeral_extra(3) unat_0)
  then have "free_chain (link_blocks n k (b + k) (w(b := b + k))) (b + k) (slots (Suc n) k (b + k))"
    by (intro Suc.IH r Suc.prems(2))
  moreover have "b \<notin> set (slots (Suc n) k (b + k))" using slots_bounds [OF r, of b] v Suc.prems(2) by auto
  then have "link_blocks n k (b + k) (w(b := b + k)) b = b + k" using link_blocks_outside by simp
  ultimately show ?case using Suc.prems(3) by simp
qed simp

text \<open>The pool of \<open>n\<close> blocks at \<open>b\<close> belonging to \<open>mp\<close> with the free blocks \<open>fs\<close>.\<close>

definition pool_ok :: "ref \<Rightarrow> nat \<Rightarrow> u32 \<Rightarrow> u32 \<Rightarrow> u32 list \<Rightarrow> rtx \<Rightarrow> bool" where
  "pool_ok mp n k b fs s \<longleftrightarrow>
     unat b + n * unat k < 4294967296 \<and> 0 < unat k \<and> b \<noteq> 0 \<and> block_base s mp = b \<and> unat (block_lim s mp) = unat b + n * unat k
     \<and> distinct fs \<and> set fs \<subseteq> set (slots n k b) \<and> free_chain (memory s) (block_free s mp) fs
     \<and> max_blocks s mp = of_nat n"

lemma pool_init:
  assumes "n \<noteq> 0" "k \<noteq> 0" "b \<noteq> 0" "unat b + unat n * unat k < 4294967296"
  shows "\<exists>s'. osRtxMemoryPoolInit (Some mp) n k b s = (1, s') \<and> pool_ok mp (unat n) k b (slots (unat n) k b) s'
    \<and> s' = s\<lparr>max_blocks := max_blocks s', used_blocks := used_blocks s', block_size := block_size s',
        block_base := block_base s', block_free := block_free s', block_lim := block_lim s', memory := memory s'\<rparr>"
proof -
  obtain j where j: "unat n = Suc j" using assms(1) by (metis not0_implies_Suc unat_eq_zero)
  have nj: "of_nat (Suc j) = n" unfolding j [symmetric] by simp
  have k: "0 < unat k" using assms(2) by (simp add: unat_gt_0)
  have "unat (n * k) = unat n * unat k"
    using assms(4) by (simp add: unat_mult_lem [symmetric, where 'a = 32] unat_word_ariths)
  then have l: "unat (b + n * k) = unat b + unat n * unat k" using assms(4) by (subst unat_add_u32) simp_all
  have "free_chain (link_blocks j k b (memory s)) b (slots (Suc j) k b)"
    using assms(4) j by (intro link_blocks_chain k assms(3)) simp
  then show ?thesis
    using assms(1-3) distinct_slots [OF assms(4) k] l k assms(4) j
    by (simp add: osRtxMemoryPoolInit_def pool_ok_def nj del: slots.simps free_chain.simps of_nat_Suc)
qed

lemma pool_alloc_none:
  "pool_ok mp n k b [] s \<Longrightarrow> osRtxMemoryPoolAlloc (Some mp) s = (0, s)"
  by (simp add: pool_ok_def osRtxMemoryPoolAlloc_def)

lemma pool_alloc_some:
  assumes p: "pool_ok mp n k b (f # fs) s"
  shows "\<exists>s'. osRtxMemoryPoolAlloc (Some mp) s = (f, s') \<and> f \<noteq> 0 \<and> pool_ok mp n k b fs s'
    \<and> s' = s\<lparr>block_free := block_free s', used_blocks := used_blocks s'\<rparr>"
  using p by (auto simp: pool_ok_def osRtxMemoryPoolAlloc_def Let_def)

lemma pool_free_block:
  assumes p: "pool_ok mp n k b fs s" and x: "x \<in> set (slots n k b)" "x \<notin> set fs"
  shows "\<exists>s'. osRtxMemoryPoolFree (Some mp) x s = (osOK, s') \<and> pool_ok mp n k b (x # fs) s'
    \<and> s' = s\<lparr>memory := memory s', block_free := block_free s', used_blocks := used_blocks s'\<rparr>"
proof -
  have r: "unat b + n * unat k < 4294967296" "0 < unat k" using p by (simp_all add: pool_ok_def)
  have xb: "unat b \<le> unat x" "unat x + unat k \<le> unat b + n * unat k" using slots_bounds [OF r(1) x(1)] by simp_all
  then have ok: "\<not> (x < block_base s mp \<or> block_lim s mp \<le> x)"
    using p r(2) by (simp add: pool_ok_def word_less_nat_alt word_le_nat_alt)
  have "x \<noteq> 0" using xb p by (auto simp: pool_ok_def) (metis gr_implies_not_zero unat_gt_0)
  then show ?thesis using p x ok free_chain_upd [of x fs]
    by (simp add: osRtxMemoryPoolFree_def pool_ok_def)
qed

lemma pool_ok_cong:
  "block_base s' = block_base s \<Longrightarrow> block_lim s' = block_lim s \<Longrightarrow> block_free s' = block_free s \<Longrightarrow>
   memory s' = memory s \<Longrightarrow> max_blocks s' = max_blocks s \<Longrightarrow> pool_ok mp n k b fs s' = pool_ok mp n k b fs s"
  by (simp add: pool_ok_def)

end
