(* ===== verification/Rtx_Message_List.thy ===== *)
theory Rtx_Message_List
  imports Rtx_Msgqueue Rtx_Pool_Blocks
begin

text \<open>
  A message queue (Source/rtx_msgqueue.c) on which nobody waits: its list of messages and free
  blocks, the abstract queue it holds, and put and get as operations of the latter.
\<close>

section \<open>The list of messages\<close>

text \<open>The messages of a queue, the most urgent one first.\<close>

definition messages :: "ref \<Rightarrow> ref list \<Rightarrow> rtx \<Rightarrow> bool" where
  "messages mq ms s \<longleftrightarrow> dlist (msg_next s) (msg_prev s) None (msg_first s mq) ms \<and> msg_last s mq = before None ms
     \<and> msg_count s mq = of_nat (length ms) \<and> sorted_wrt (\<lambda>a b. msg_priority s b \<le> msg_priority s a) ms"

lemma message_slot_walk:
  "dpath nx pv None p (xs @ ys) e \<Longrightarrow> \<forall>m\<in>set xs. q \<le> prio m \<Longrightarrow> \<forall>m\<in>set ys. prio m < q \<Longrightarrow>
   message_slot prio pv q (before None (xs @ ys)) n =
     Some (before None xs, if ys = [] then n else Some (hd ys))"
proof (induction ys arbitrary: n e rule: rev_induct)
  case Nil
  then have "xs \<noteq> [] \<Longrightarrow> \<not> prio (last xs) < q" by (metis last_in_set not_less)
  then show ?case by (subst message_slot.simps) (auto simp: before_def)
next
  case (snoc y ys)
  have "dpath nx pv None p ((xs @ ys) @ [y]) e" using snoc.prems(1) by simp
  then obtain r where d: "dpath nx pv None p (xs @ ys) r" "pv y = before None (xs @ ys)"
    unfolding dpath_append [of nx pv None p "xs @ ys" "[y]"] by auto
  have "message_slot prio pv q (before None (xs @ ys)) (Some y) = Some (before None xs, if ys = [] then Some y else Some (hd ys))"
    using snoc.IH [OF d(1)] snoc.prems(2,3) by simp
  moreover have "before None (xs @ ys @ [y]) = Some y" by (simp add: before_def)
  ultimately show ?case using snoc.prems(3) d(2) by (subst message_slot.simps) (simp add: hd_append)
qed

text \<open>A message goes behind those that are at least as urgent.\<close>

lemma message_put:
  assumes m: "messages mq ms s" and new: "msg \<notin> set ms"
  defines "xs \<equiv> takeWhile (\<lambda>m. msg_priority s msg \<le> msg_priority s m) ms"
    and "ys \<equiv> dropWhile (\<lambda>m. msg_priority s msg \<le> msg_priority s m) ms"
  shows "\<exists>s'. MessageQueuePut mq msg s = Some s' \<and> messages mq (xs @ msg # ys) s'
    \<and> s' = s\<lparr>msg_prev := msg_prev s', msg_next := msg_next s', msg_first := msg_first s', msg_last := msg_last s', msg_count := msg_count s'\<rparr>"
proof -
  let ?q = "msg_priority s msg"
  have ms: "ms = xs @ ys" by (simp add: xs_def ys_def)
  have d: "dlist (msg_next s) (msg_prev s) None (msg_first s mq) (xs @ ys)" and l: "msg_last s mq = before None (xs @ ys)"
    and c: "msg_count s mq = of_nat (length ms)" and srt: "sorted_wrt (\<lambda>a b. msg_priority s b \<le> msg_priority s a) ms"
    using m ms by (simp_all add: messages_def)
  have x: "\<forall>m\<in>set xs. ?q \<le> msg_priority s m" unfolding xs_def by (blast dest: set_takeWhileD)
  have y: "\<forall>m\<in>set ys. msg_priority s m < ?q"
  proof (cases ys)
    case (Cons z zs)
    have "\<not> ?q \<le> msg_priority s z" using hd_dropWhile Cons ys_def by (metis list.distinct(1) list.sel(1))
    moreover have "\<forall>m\<in>set zs. msg_priority s m \<le> msg_priority s z" using srt ms Cons by (simp add: sorted_wrt_append)
    ultimately show ?thesis using Cons by auto
  qed simp
  have w: "message_slot (msg_priority s) (msg_prev s) ?q (msg_last s mq) None = Some (before None xs, if ys = [] then None else Some (hd ys))"
    unfolding l by (rule message_slot_walk [OF d x y])
  define nx1 where "nx1 = (let nx = (msg_next s)(msg := if ys = [] then None else Some (hd ys))
    in if xs = [] then nx else nx(last xs := Some msg))"
  define pv1 where "pv1 = (let pv = (msg_prev s)(msg := before None xs) in if ys = [] then pv else pv(hd ys := Some msg))"
  define s1 where "s1 = s\<lparr>msg_prev := pv1, msg_next := nx1,
      msg_first := (if xs = [] then (msg_first s)(mq := Some msg) else msg_first s),
      msg_last := (if ys = [] then (msg_last s)(mq := Some msg) else msg_last s),
      msg_count := (msg_count s)(mq := msg_count s mq + 1)\<rparr>"
  have put: "MessageQueuePut mq msg s = Some s1"
  proof (cases "ms = []")
    case True
    then have "xs = []" "ys = []" using ms by simp_all
    then show ?thesis using l by (simp add: MessageQueuePut_def s1_def nx1_def pv1_def Let_def)
  next
    case False
    then have "msg_last s mq \<noteq> None" using l ms by (simp add: before_def)
    then show ?thesis using w
      by (simp add: MessageQueuePut_def s1_def nx1_def pv1_def Let_def before_def)
  qed
  have dist: "distinct (xs @ ys)" "msg \<notin> set xs" "msg \<notin> set ys" using dlist_distinct [OF d] new ms by auto
  obtain q where q: "dpath (msg_next s) (msg_prev s) None (msg_first s mq) xs q"
    "dlist (msg_next s) (msg_prev s) (before None xs) q ys" using d by (auto simp: dpath_append)
  have qv: "q = (if ys = [] then None else Some (hd ys))" using q(2) by (cases ys) auto
  have hl: "hd ys \<notin> set xs" if "ys \<noteq> []" using dist(1) that by (cases ys) auto
  have lh: "last xs \<notin> set ys" if "xs \<noteq> []" using dist(1) that by (metis disjoint_iff distinct_append last_in_set)
  have nm: "last xs \<noteq> msg" if "xs \<noteq> []" using dist(2) that last_in_set by metis
  have hm: "hd ys \<noteq> msg" if "ys \<noteq> []" using dist(3) that hd_in_set by metis
  have nx: "nx1 u = msg_next s u" if "u \<noteq> msg" "xs = [] \<or> u \<noteq> last xs" for u
    using that by (cases "xs = []") (simp_all add: nx1_def Let_def)
  have pv: "pv1 u = msg_prev s u" if "u \<noteq> msg" "ys = [] \<or> u \<noteq> hd ys" for u
    using that by (cases "ys = []") (simp_all add: pv1_def Let_def)
  have links: "nx1 msg = q" "xs \<noteq> [] \<Longrightarrow> nx1 (last xs) = Some msg" "pv1 msg = before None xs" "ys \<noteq> [] \<Longrightarrow> pv1 (hd ys) = Some msg"
    using nm hm qv by (cases "xs = []"; cases "ys = []"; simp add: nx1_def pv1_def Let_def)+
  have "dlist nx1 pv1 None (if xs = [] then Some msg else msg_first s mq) (xs @ msg # ys)"
  proof (rule dlist_link [OF q dist(1)])
    fix u
    show "nx1 u = msg_next s u" if "u \<in> set xs" "u \<noteq> last xs" using nx that dist(2) by metis
    show "nx1 u = msg_next s u" if "u \<in> set ys" using nx that dist(3) lh by metis
    show "pv1 u = msg_prev s u" if "u \<in> set xs" using pv that dist(2) hl by metis
    show "pv1 u = msg_prev s u" if "u \<in> set ys" "Some u \<noteq> q" using pv that dist(3) qv by metis
    show "pv1 u = Some msg" if "q = Some u" using that qv links(4) by (cases "ys = []") simp_all
  qed (use links in simp_all)
  moreover have "sorted_wrt (\<lambda>a b. msg_priority s b \<le> msg_priority s a) (xs @ msg # ys)"
  proof -
    have "\<forall>m\<in>set ys. msg_priority s m \<le> ?q" using y by (simp add: less_imp_le)
    then show ?thesis using srt x unfolding ms by (simp add: sorted_wrt_append)
  qed
  moreover have "msg_last s1 mq = before None (xs @ msg # ys)"
    using l by (auto simp: s1_def before_def)
  ultimately have "messages mq (xs @ msg # ys) s1"
    using c ms by (cases "xs = []") (simp_all add: messages_def s1_def)
  then show ?thesis using put by (intro exI [of _ s1]) (simp add: s1_def)
qed

text \<open>The first message is taken, if there is one.\<close>

lemma message_get_none: "messages mq [] s \<Longrightarrow> MessageQueueGet mq s = Some (None, s)"
  by (simp add: messages_def MessageQueueGet_def)

lemma message_get_first:
  assumes m: "messages mq (m # ms) s" and f: "obj_flags s m = 0" and len: "length (m # ms) < 4294967296"
  shows "\<exists>s'. MessageQueueGet mq s = Some (Some m, s') \<and> messages mq ms (MessageQueueRemove mq m s')
    \<and> s' = s\<lparr>obj_flags := (obj_flags s)(m := 1), msg_count := (msg_count s)(mq := msg_count s mq - 1)\<rparr>
    \<and> MessageQueueRemove mq m s' = s'\<lparr>msg_prev := msg_prev (MessageQueueRemove mq m s'), msg_next := msg_next (MessageQueueRemove mq m s'),
        msg_first := msg_first (MessageQueueRemove mq m s'), msg_last := msg_last (MessageQueueRemove mq m s')\<rparr>"
proof -
  let ?s = "s\<lparr>obj_flags := (obj_flags s)(m := 1), msg_count := (msg_count s)(mq := msg_count s mq - 1)\<rparr>"
  have d: "dlist (msg_next s) (msg_prev s) None (msg_first s mq) ([] @ m # ms)" and l: "msg_last s mq = before None (m # ms)"
    and c: "msg_count s mq = of_nat (length (m # ms))" and srt: "sorted_wrt (\<lambda>a b. msg_priority s b \<le> msg_priority s a) ms"
    using m by (simp_all add: messages_def)
  have "msg_count s mq \<noteq> 0" using unat_of_nat_u32 [OF len] unfolding c by (metis length_0_conv list.distinct(1) unat_0)
  then have g: "MessageQueueGet mq s = Some (Some m, ?s)"
    using d f by (simp add: MessageQueueGet_def take_message.simps)
  let ?r = "MessageQueueRemove mq m ?s"
  have pm: "msg_prev s m = None" "msg_next s m = (if ms = [] then None else Some (hd ms))"
    using d by (cases ms; auto)+
  define pv1 where "pv1 = (if ms = [] then msg_prev s else (msg_prev s)(hd ms := None))"
  have r: "?r = ?s\<lparr>msg_prev := pv1, msg_first := (msg_first s)(mq := msg_next s m),
      msg_last := (if ms = [] then (msg_last s)(mq := None) else msg_last s)\<rparr>"
    using pm by (simp add: MessageQueueRemove_def pv1_def Let_def)
  have "dlist (msg_next s) pv1 None (if ([] :: ref list) = [] then msg_next s m else msg_first s mq) ([] @ ms)"
  proof (rule dlist_unlink [OF d])
    show "pv1 x = before None []" if "msg_next s m = Some x" for x using that pm by (auto simp: pv1_def split: if_splits)
    show "pv1 x = msg_prev s x" if "x \<in> set ms" "Some x \<noteq> msg_next s m" for x using that pm by (auto simp: pv1_def)
  qed simp_all
  then have "messages mq ms ?r"
    unfolding r using c l srt by (simp add: messages_def before_def)
  then show ?thesis using g r by (intro exI [of _ ?s]) simp
qed

section \<open>Contents of messages\<close>

definition bytes_at :: "(u32 \<Rightarrow> u8) \<Rightarrow> u32 \<Rightarrow> nat \<Rightarrow> u8 list" where
  "bytes_at p a n = map (\<lambda>i. p (a + of_nat i)) [0..<n]"

text \<open>Two ranges of bytes that do not meet, the first one not around the end of memory.\<close>

definition apart :: "u32 \<Rightarrow> nat \<Rightarrow> u32 \<Rightarrow> nat \<Rightarrow> bool" where
  "apart a m b n \<longleftrightarrow> unat a + m \<le> 4294967296 \<and> unat b + n \<le> 4294967296 \<and> (unat a + m \<le> unat b \<or> unat b + n \<le> unat a)"

lemma apart_sub:
  assumes "apart a m b n" and "unat b \<le> unat c" "unat c + l \<le> unat b + n"
  shows "apart a m c l"
  using assms by (auto simp: apart_def)

lemma apart_sym: "apart a m b n \<Longrightarrow> apart b n a m"
  by (auto simp: apart_def)

lemma bytes_cong: "(\<And>i. i < n \<Longrightarrow> p (a + of_nat i) = p' (a + of_nat i)) \<Longrightarrow> bytes_at p a n = bytes_at p' a n"
  by (simp add: bytes_at_def)

lemma length_bytes [simp]: "length (bytes_at p a n) = n"
  by (simp add: bytes_at_def)

lemma unat_offset: "unat a + n \<le> 4294967296 \<Longrightarrow> i < n \<Longrightarrow> unat (a + of_nat i) = unat (a :: u32) + i"
  by (rule unat_plus) simp

lemma bytes_other:
  assumes "apart a m b n" and "\<And>x. unat x < unat a \<or> unat a + m \<le> unat x \<Longrightarrow> p' x = p x"
  shows "bytes_at p' b n = bytes_at p b n"
proof (rule bytes_cong)
  fix i assume i: "i < n"
  have "unat (b + of_nat i) = unat b + i" using assms(1) i by (intro unat_offset) (auto simp: apart_def)
  then show "p' (b + of_nat i) = p (b + of_nat i)" using assms i by (intro assms(2)) (auto simp: apart_def)
qed

lemma outside_range:
  assumes "unat a + unat n \<le> 4294967296" and "unat x < unat a \<or> unat a + unat n \<le> unat (x :: u32)"
  shows "\<not> x - a < n"
  using assms unat_u32_lt [of a] unat_u32_lt [of n] by (auto simp: word_less_nat_alt unat_sub_if_size word_size)

lemma copy_outside:
  "unat a + unat n \<le> 4294967296 \<Longrightarrow> unat x < unat a \<or> unat a + unat n \<le> unat x \<Longrightarrow> copy_bytes a c n p x = p x"
  using outside_range by (simp add: copy_bytes_def)

lemma copy_same:
  "bytes_at (copy_bytes a c n p) a (unat n) = bytes_at p c (unat n)"
  by (auto simp: bytes_at_def copy_bytes_def word_less_nat_alt unat_of_nat_u32 less_trans [OF _ unat_u32_lt])

lemma copy_other: "apart a (unat n) b l \<Longrightarrow> bytes_at (copy_bytes a c n p) b l = bytes_at p b l"
  by (rule bytes_other) (auto simp: apart_def intro: copy_outside)

section \<open>A queue and what it holds\<close>

text \<open>The queue \<open>mq\<close>, \<open>n\<close> blocks of \<open>k\<close> bytes at \<open>b\<close> and messages of \<open>z\<close> bytes.\<close>

definition queue_parts :: "ref \<Rightarrow> nat \<Rightarrow> u32 \<Rightarrow> u32 \<Rightarrow> u32 \<Rightarrow> ref list \<Rightarrow> u32 list \<Rightarrow> rtx \<Rightarrow> bool" where
  "queue_parts mq n k b z ms fs s \<longleftrightarrow>
     pool_ok mq n k b fs s \<and> messages mq ms s \<and> length ms + length fs = n \<and> distinct (map address ms @ fs)
     \<and> (\<forall>m\<in>set ms. m = Obj (address m) \<and> address m \<in> set (slots n k b) \<and> obj_flags s m = 0)
     \<and> obj_id s mq = osRtxIdMessageQueue \<and> thread_next s mq = None \<and> msg_size s mq = z \<and> unat z + 12 \<le> unat k
     \<and> mq \<notin> Obj ` set (slots n k b) \<and> \<not> irq_mode s \<and> 0 < n"

definition contents :: "u32 \<Rightarrow> rtx \<Rightarrow> ref \<Rightarrow> u8 \<times> u8 list" where
  "contents z s m = (msg_priority s m, bytes_at (payload s) (msg_data m) (unat z))"

definition queue_holds :: "ref \<Rightarrow> nat \<Rightarrow> u32 \<Rightarrow> u32 \<Rightarrow> u32 \<Rightarrow> (u8 \<times> u8 list) list \<Rightarrow> rtx \<Rightarrow> bool" where
  "queue_holds mq n k b z q s \<longleftrightarrow> (\<exists>ms fs. queue_parts mq n k b z ms fs s \<and> q = map (contents z s) ms)"

lemma block_place:
  assumes "pool_ok mq n k b fs s" and "a \<in> set (slots n k b)" and "unat z + 12 \<le> unat k"
  shows "unat (msg_data (Obj a)) = unat a + 12" "unat b \<le> unat a" "unat a + 12 + unat z \<le> unat b + n * unat k"
    "unat b + n * unat k < 4294967296"
proof -
  have r: "unat b + n * unat k < 4294967296" using assms(1) by (simp add: pool_ok_def)
  note s = slots_bounds [OF r assms(2)]
  show "unat (msg_data (Obj a)) = unat a + 12"
  proof -
    have "unat a + 12 < 4294967296" using s r assms(3) by linarith
    then show ?thesis using unat_add_u32 [of a 12] by (simp add: msg_data_def)
  qed
  show "unat b \<le> unat a" "unat a + 12 + unat z \<le> unat b + n * unat k" using s assms(3) by simp_all
  show "unat b + n * unat k < 4294967296" by (rule r)
qed

lemma blocks_disjoint:
  assumes "pool_ok mq n k b fs s" and "a \<in> set (slots n k b)" "c \<in> set (slots n k b)" "a \<noteq> c" and "unat z + 12 \<le> unat k"
  shows "apart (msg_data (Obj a)) (unat z) (msg_data (Obj c)) (unat z)"
proof -
  have r: "unat b + n * unat k < 4294967296" "0 < unat k" using assms(1) by (simp_all add: pool_ok_def)
  note pa = block_place [OF assms(1,2,5)] and pc = block_place [OF assms(1,3,5)]
  show ?thesis using slots_apart [OF r assms(2,3)] pa pc assms(4,5) by (auto simp: apart_def)
qed

lemma client_apart:
  assumes "pool_ok mq n k b fs s" and "a \<in> set (slots n k b)" and "unat z + 12 \<le> unat k" and "apart b (n * unat k) p l"
  shows "apart (msg_data (Obj a)) (unat z) p l"
  using block_place [OF assms(1-3)] apart_sym [OF apart_sub [OF apart_sym [OF assms(4)], of "msg_data (Obj a)" "unat z"]] by simp

text \<open>Where a new message goes in the abstract queue.\<close>

definition enqueue :: "u8 \<times> 'a \<Rightarrow> (u8 \<times> 'a) list \<Rightarrow> (u8 \<times> 'a) list" where
  "enqueue x q = takeWhile (\<lambda>y. fst x \<le> fst y) q @ x # dropWhile (\<lambda>y. fst x \<le> fst y) q"

lemma put_refines:
  assumes h: "queue_holds mq n k b z q s" and p: "p \<noteq> 0" "apart b (n * unat k) p (unat z)"
  shows "\<exists>r s'. osMessageQueuePut (Some mq) p prio 0 s = Some (r, s')
    \<and> (if length q < n then r = osOK \<and> queue_holds mq n k b z (enqueue (prio, bytes_at (payload s) p (unat z)) q) s'
       else r = osErrorResource \<and> s' = s)"
proof -
  obtain ms fs where parts: "queue_parts mq n k b z ms fs s" and q: "q = map (contents z s) ms"
    using h by (auto simp: queue_holds_def)
  have po: "pool_ok mq n k b fs s" and m: "messages mq ms s" and len: "length ms + length fs = n"
    and d: "distinct (map address ms @ fs)"
    and mo: "\<forall>m\<in>set ms. m = Obj (address m) \<and> address m \<in> set (slots n k b) \<and> obj_flags s m = 0"
    and mq: "obj_id s mq = osRtxIdMessageQueue" "thread_next s mq = None" "msg_size s mq = z" "unat z + 12 \<le> unat k"
      "mq \<notin> Obj ` set (slots n k b)" "\<not> irq_mode s" "0 < n"
    using parts by (simp_all add: queue_parts_def)
  have rw: "\<not> receiver_waits mq s" by (simp add: receiver_waits_def mq(2))
  show ?thesis
  proof (cases fs)
    case Nil
    then have "osRtxMemoryPoolAlloc (Some mq) s = (0, s)" using po pool_alloc_none by simp
    then have "osMessageQueuePut (Some mq) p prio 0 s = Some (osErrorResource, s)"
      using mq p(1) rw by (simp add: osMessageQueuePut_def svcRtxMessageQueuePut_def ptr_def)
    then show ?thesis using len Nil q by simp
  next
    case (Cons f gs)
    obtain s1 where s1: "osRtxMemoryPoolAlloc (Some mq) s = (f, s1)" "f \<noteq> 0" "pool_ok mq n k b gs s1"
      "s1 = s\<lparr>block_free := block_free s1, used_blocks := used_blocks s1\<rparr>"
      using pool_alloc_some [of mq n k b f gs s] po Cons by auto
    have fs: "f \<in> set (slots n k b)" using po Cons by (simp add: pool_ok_def)
    have new: "Obj f \<notin> set ms"
    proof
      assume "Obj f \<in> set ms"
      then have "f \<in> address ` set ms" by (metis address.simps(1) imageI)
      then show False using d Cons by auto
    qed
    have other: "a \<noteq> f" if "Obj a \<in> set ms" for a using that new by auto
    define s2 where "s2 = fill_message mq (Obj f) p prio s1"
    have f2: "msg_next s2 = msg_next s" "msg_prev s2 = msg_prev s" "msg_first s2 = msg_first s" "msg_last s2 = msg_last s"
      "msg_count s2 = msg_count s" "msg_priority s2 = (msg_priority s)(Obj f := prio)" "memory s2 = memory s"
      "obj_flags s2 = (obj_flags s)(Obj f := 0)" "obj_id s2 = (obj_id s)(Obj f := osRtxIdMessage)"
      "thread_next s2 = thread_next s" "msg_size s2 = msg_size s" "irq_mode s2 = irq_mode s"
      "payload s2 = copy_bytes (msg_data (Obj f)) p z (payload s)"
      by (subst s2_def, subst s1(4), simp add: fill_message_def mq(3))+
    have m2: "messages mq ms s2"
      using m new unfolding messages_def f2 by (auto elim!: sorted_wrt_mono_rel [rotated])
    have p2: "pool_ok mq n k b gs s2" using s1(3) by (simp add: pool_ok_def s2_def fill_message_def)
    let ?stay = "\<lambda>m. msg_priority s2 (Obj f) \<le> msg_priority s2 m"
    let ?ms = "takeWhile ?stay ms @ Obj f # dropWhile ?stay ms"
    obtain s3 where s3: "MessageQueuePut mq (Obj f) s2 = Some s3" "messages mq ?ms s3"
      "s3 = s2\<lparr>msg_prev := msg_prev s3, msg_next := msg_next s3, msg_first := msg_first s3, msg_last := msg_last s3, msg_count := msg_count s3\<rparr>"
      using message_put [OF m2 new] by blast
    have f3: "msg_priority s3 = msg_priority s2" "memory s3 = memory s2" "obj_flags s3 = obj_flags s2" "obj_id s3 = obj_id s2"
      "thread_next s3 = thread_next s2" "msg_size s3 = msg_size s2" "irq_mode s3 = irq_mode s2" "payload s3 = payload s2"
      "block_base s3 = block_base s2" "block_lim s3 = block_lim s2" "block_free s3 = block_free s2" "max_blocks s3 = max_blocks s2"
      by (subst s3(3), simp)+
    have call: "osMessageQueuePut (Some mq) p prio 0 s = Some (osOK, s3)"
      using mq p(1) rw s1(1,2) s3(1) by (simp add: osMessageQueuePut_def svcRtxMessageQueuePut_def ptr_def s2_def)
    have set: "set ?ms = insert (Obj f) (set ms)" by (metis list.simps(15) set_append takeWhile_dropWhile_id Un_insert_right)
    have parts': "queue_parts mq n k b z ?ms gs s3"
      unfolding queue_parts_def
    proof (intro conjI)
      show "pool_ok mq n k b gs s3" using p2 pool_ok_cong [of s3 s2] f3 by simp
      have "length (takeWhile ?stay ms) + length (dropWhile ?stay ms) = length ms"
        by (metis length_append takeWhile_dropWhile_id)
      then show "length ?ms + length gs = n" using len Cons by simp
      show "distinct (map address ?ms @ gs)"
      proof -
        define xs ys where "xs = takeWhile ?stay ms" and "ys = dropWhile ?stay ms"
        have "ms = xs @ ys" by (simp add: xs_def ys_def)
        then have "distinct (map address (xs @ Obj f # ys) @ gs)" using d Cons by auto
        then show ?thesis by (simp only: xs_def ys_def)
      qed
      show "\<forall>m\<in>set ?ms. m = Obj (address m) \<and> address m \<in> set (slots n k b) \<and> obj_flags s3 m = 0"
        unfolding set using mo fs f3 f2 by auto
      show "obj_id s3 mq = osRtxIdMessageQueue" using mq(1,5) fs f3 f2 by auto
    qed (use mq f3 f2 s3(2) in simp_all)
    have same: "contents z s3 m = contents z s m" if "m \<in> set ms" for m
    proof -
      have mm: "m = Obj (address m)" "address m \<in> set (slots n k b)" using mo that by auto
      have "apart (msg_data (Obj f)) (unat z) (msg_data (Obj (address m))) (unat z)"
        using blocks_disjoint [OF po fs mm(2) _ mq(4)] other [of "address m"] that mm(1) by metis
      then have "bytes_at (payload s3) (msg_data m) (unat z) = bytes_at (payload s) (msg_data m) (unat z)"
        using copy_other mm(1) f3 f2 by metis
      then show ?thesis using that new by (auto simp: contents_def f3 f2)
    qed
    have own: "contents z s3 (Obj f) = (prio, bytes_at (payload s) p (unat z))"
      using copy_same by (simp add: contents_def f3 f2)
    have stay: "?stay m \<longleftrightarrow> prio \<le> fst (contents z s m)" if "m \<in> set ms" for m
      using that new by (auto simp: f2 contents_def)
    have "map (contents z s3) (takeWhile ?stay ms) = takeWhile (\<lambda>y. prio \<le> fst y) q"
    proof -
      have "map (contents z s3) (takeWhile ?stay ms) = map (contents z s) (takeWhile ?stay ms)"
        using same by (auto dest: set_takeWhileD)
      moreover have "takeWhile ?stay ms = takeWhile ((\<lambda>y. prio \<le> fst y) \<circ> contents z s) ms"
        using stay by (intro takeWhile_cong refl) simp
      ultimately show ?thesis unfolding q takeWhile_map by simp
    qed
    moreover have "map (contents z s3) (dropWhile ?stay ms) = dropWhile (\<lambda>y. prio \<le> fst y) q"
    proof -
      have "map (contents z s3) (dropWhile ?stay ms) = map (contents z s) (dropWhile ?stay ms)"
        using same by (auto dest: set_dropWhileD)
      moreover have "dropWhile ?stay ms = dropWhile ((\<lambda>y. prio \<le> fst y) \<circ> contents z s) ms"
        using stay by (intro dropWhile_cong refl) simp
      ultimately show ?thesis unfolding q dropWhile_map by simp
    qed
    ultimately have "map (contents z s3) ?ms = enqueue (prio, bytes_at (payload s) p (unat z)) q"
      using own by (simp add: enqueue_def)
    then have "queue_holds mq n k b z (enqueue (prio, bytes_at (payload s) p (unat z)) q) s3"
      using parts' unfolding queue_holds_def by metis
    then show ?thesis using call len Cons q by (intro exI [of _ osOK] exI [of _ s3]) simp
  qed
qed

lemma get_refines:
  assumes h: "queue_holds mq n k b z q s" and p: "p \<noteq> 0" "apart b (n * unat k) p (unat z)"
    and pp: "pp \<noteq> 0" "apart b (n * unat k) pp 1"
    and no: "unat pp < unat p \<or> unat p + unat z \<le> unat pp"
  shows "\<exists>r s'. osMessageQueueGet (Some mq) p pp 0 s = Some (r, s')
    \<and> (case q of [] \<Rightarrow> r = osErrorResource \<and> s' = s
       | (prio, c) # q' \<Rightarrow> r = osOK \<and> queue_holds mq n k b z q' s' \<and> payload s' pp = prio \<and> bytes_at (payload s') p (unat z) = c)"
proof -
  obtain ms fs where parts: "queue_parts mq n k b z ms fs s" and q: "q = map (contents z s) ms"
    using h by (auto simp: queue_holds_def)
  have po: "pool_ok mq n k b fs s" and m: "messages mq ms s" and len: "length ms + length fs = n"
    and d: "distinct (map address ms @ fs)"
    and mo: "\<forall>m\<in>set ms. m = Obj (address m) \<and> address m \<in> set (slots n k b) \<and> obj_flags s m = 0"
    and mq: "obj_id s mq = osRtxIdMessageQueue" "thread_next s mq = None" "msg_size s mq = z" "unat z + 12 \<le> unat k"
      "mq \<notin> Obj ` set (slots n k b)" "\<not> irq_mode s" "0 < n"
    using parts by (simp_all add: queue_parts_def)
  show ?thesis
  proof (cases ms)
    case Nil
    then have "osMessageQueueGet (Some mq) p pp 0 s = Some (osErrorResource, s)"
      using mq p(1) message_get_none m by (simp add: osMessageQueueGet_def svcRtxMessageQueueGet_def)
    then show ?thesis using Nil q by simp
  next
    case (Cons x xs)
    have xo: "x = Obj (address x)" "address x \<in> set (slots n k b)" "obj_flags s x = 0" using mo Cons by auto
    have nl: "length (x # xs) < 4294967296"
    proof -
      have "n \<le> n * unat k" using mq(4) by simp
      moreover have "unat b + n * unat k < 4294967296" using po by (simp add: pool_ok_def)
      moreover have "length (x # xs) \<le> n" using len Cons by simp
      ultimately show ?thesis by linarith
    qed
    obtain s1 where s1: "MessageQueueGet mq s = Some (Some x, s1)" "messages mq xs (MessageQueueRemove mq x s1)"
      "s1 = s\<lparr>obj_flags := (obj_flags s)(x := 1), msg_count := (msg_count s)(mq := msg_count s mq - 1)\<rparr>"
      "MessageQueueRemove mq x s1 = s1\<lparr>msg_prev := msg_prev (MessageQueueRemove mq x s1), msg_next := msg_next (MessageQueueRemove mq x s1),
        msg_first := msg_first (MessageQueueRemove mq x s1), msg_last := msg_last (MessageQueueRemove mq x s1)\<rparr>"
      using message_get_first [of mq x xs s] m xo(3) nl Cons by auto
    define s2 where "s2 = MessageQueueRemove mq x s1"
    have f2: "memory s2 = memory s" "obj_flags s2 = (obj_flags s)(x := 1)" "obj_id s2 = obj_id s" "thread_next s2 = thread_next s"
      "msg_size s2 = msg_size s" "irq_mode s2 = irq_mode s" "payload s2 = payload s" "msg_priority s2 = msg_priority s"
      "block_base s2 = block_base s" "block_lim s2 = block_lim s" "block_free s2 = block_free s" "max_blocks s2 = max_blocks s"
      unfolding s2_def by (subst s1(4), simp add: s1(3))+
    define s3 where "s3 = s2\<lparr>payload := (copy_bytes p (msg_data x) z (payload s))(pp := msg_priority s x),
        obj_id := (obj_id s2)(x := osRtxIdInvalid)\<rparr>"
    have p3: "pool_ok mq n k b fs s3" using po by (simp add: pool_ok_def s3_def f2)
    have nf: "address x \<notin> set fs" using d Cons by auto
    obtain s4 where s4: "osRtxMemoryPoolFree (Some mq) (address x) s3 = (osOK, s4)" "pool_ok mq n k b (address x # fs) s4"
      "s4 = s3\<lparr>memory := memory s4, block_free := block_free s4, used_blocks := used_blocks s4\<rparr>"
      using pool_free_block [OF p3 xo(2) nf] by (elim exE conjE) (rule that)
    have f4: "obj_flags s4 = obj_flags s3" "obj_id s4 = obj_id s3" "thread_next s4 = thread_next s3" "msg_size s4 = msg_size s3"
      "irq_mode s4 = irq_mode s3" "payload s4 = payload s3" "msg_priority s4 = msg_priority s3" "msg_next s4 = msg_next s3"
      "msg_prev s4 = msg_prev s3" "msg_first s4 = msg_first s3" "msg_last s4 = msg_last s3" "msg_count s4 = msg_count s3"
      by (subst s4(3), simp)+
    have f3: "obj_flags s3 = obj_flags s2" "thread_next s3 = thread_next s" "msg_size s3 = msg_size s" "irq_mode s3 = irq_mode s"
      "msg_priority s3 = msg_priority s" "msg_next s3 = msg_next s2" "msg_prev s3 = msg_prev s2" "msg_first s3 = msg_first s2"
      "msg_last s3 = msg_last s2" "msg_count s3 = msg_count s2" "obj_id s3 = (obj_id s)(x := osRtxIdInvalid)"
      "payload s3 = (copy_bytes p (msg_data x) z (payload s))(pp := msg_priority s x)"
      by (simp_all add: s3_def f2)
    have call: "osMessageQueueGet (Some mq) p pp 0 s = Some (osOK, s4)"
    proof -
      have "free_message mq x (s2\<lparr>payload := (copy_bytes p (msg_data x) z (payload s))(pp := msg_priority s x)\<rparr>) = s4"
        using s4(1) by (simp add: free_message_def s3_def)
      then show ?thesis using mq p(1) pp(1) s1(1) f2 f3 f4
        by (simp add: osMessageQueueGet_def svcRtxMessageQueueGet_def Let_def s2_def [symmetric])
    qed
    have "messages mq xs s4"
      using s1(2) unfolding s2_def [symmetric] messages_def f4 f3 f2 by simp
    have parts': "queue_parts mq n k b z xs (address x # fs) s4"
      unfolding queue_parts_def
    proof (intro conjI)
      show "\<forall>m\<in>set xs. m = Obj (address m) \<and> address m \<in> set (slots n k b) \<and> obj_flags s4 m = 0"
        using mo d Cons f4 f3 f2 by auto
      show "obj_id s4 mq = osRtxIdMessageQueue" using mq(1,5) xo f4 f3 by (auto simp: image_iff)
      show "distinct (map address xs @ address x # fs)" using d Cons by auto
    qed (use mq f4 f3 f2 s4(2) len Cons \<open>messages mq xs s4\<close> in simp_all)
    have keep: "bytes_at (payload s4) (msg_data m) (unat z) = bytes_at (payload s) (msg_data m) (unat z)" if "m \<in> set xs" for m
    proof -
      have mm: "m = Obj (address m)" "address m \<in> set (slots n k b)" using mo that Cons by auto
      have a: "apart (msg_data m) (unat z) p (unat z)" "apart (msg_data m) (unat z) pp 1"
        using client_apart [OF po mm(2) mq(4) p(2)] client_apart [OF po mm(2) mq(4) pp(2)] mm(1) by simp_all
      have "bytes_at (payload s4) (msg_data m) (unat z) = bytes_at (copy_bytes p (msg_data x) z (payload s)) (msg_data m) (unat z)"
        unfolding f4 f3 by (rule bytes_other [OF apart_sym [OF a(2)]]) auto
      also have "\<dots> = bytes_at (payload s) (msg_data m) (unat z)" by (rule copy_other [OF apart_sym [OF a(1)]])
      finally show ?thesis .
    qed
    have "map (contents z s4) xs = map (contents z s) xs" using keep by (simp add: contents_def f4 f3)
    then have hold: "queue_holds mq n k b z (map (contents z s) xs) s4" using parts' unfolding queue_holds_def by metis
    have "bytes_at (payload s4) p (unat z) = bytes_at (copy_bytes p (msg_data x) z (payload s)) p (unat z)"
    proof (rule bytes_other)
      show "apart pp 1 p (unat z)" using no pp(2) p(2) by (auto simp: apart_def)
    qed (auto simp: f4 f3)
    then have "bytes_at (payload s4) p (unat z) = bytes_at (payload s) (msg_data x) (unat z)" by (simp add: copy_same)
    moreover have "payload s4 pp = msg_priority s x" by (simp add: f4 f3)
    ultimately show ?thesis using call hold Cons q
      by (intro exI [of _ osOK] exI [of _ s4]) (simp add: contents_def)
  qed
qed

end
