(* ===== verification/Rtx_Message_Guarantee.thy ===== *)
theory Rtx_Message_Guarantee
  imports Rtx_Message_List
begin

text \<open>
  A message queue from \<open>osMessageQueueNew\<close> on, its client, and the refinement of a bounded
  priority queue.
\<close>

section \<open>A new queue\<close>

definition stride :: "nat \<Rightarrow> nat" where
  "stride z = 4 * ((z + 3) div 4) + 12"

lemma new_queue:
  assumes new: "osMessageQueueNew n z (Some a) s0 = Some (Some mq, s)" and own: "oa_cb_mem a \<noteq> 0" "oa_data_mem a \<noteq> 0"
    and room: "unat (oa_data_mem a) + unat n * stride (unat z) < 4294967296"
    and cb: "unat (oa_cb_mem a) < unat (oa_data_mem a) \<or> unat (oa_data_mem a) + unat n * stride (unat z) \<le> unat (oa_cb_mem a)"
  shows "\<exists>k. unat k = stride (unat z) \<and> queue_holds mq (unat n) k (oa_data_mem a) z [] s"
proof -
  define k where "k = ((z + 3) AND NOT 3) + 12"
  have irq: "\<not> irq_mode s0" using new by (auto simp: osMessageQueueNew_def split: if_splits)
  have svc: "svcRtxMessageQueueNew n z (Some a) s0 = Some (Some mq, s)" using new irq by (simp add: osMessageQueueNew_def)
  have nz: "n \<noteq> 0" "z \<noteq> 0" using svc by (auto simp: svcRtxMessageQueueNew_def split: if_splits)
  have n: "0 < unat n" using nz(1) by (simp add: unat_gt_0)
  then have "stride (unat z) \<le> unat n * stride (unat z)" by simp
  then have small: "stride (unat z) < 4294967296" using room by linarith
  then have "unat z + 3 < 4294967296" unfolding stride_def by presburger
  then have "unat (z + 3) = unat z + 3" using unat_add_u32 [of z 3] by simp
  then have "unat ((z + 3) AND NOT 3) = 4 * ((unat z + 3) div 4)" by (simp only: round_down_4)
  then have kv: "unat k = stride (unat z)"
    using small unat_add_u32 [of "(z + 3) AND NOT 3" 12] by (simp add: k_def stride_def)
  have room': "unat (oa_data_mem a) + unat n * unat k < 4294967296" using room kv by simp
  have kz: "k \<noteq> 0" "unat z + 12 \<le> unat k" using kv by (auto simp: stride_def)
  let ?t = "s0\<lparr>obj_id := (obj_id s0)(Obj (oa_cb_mem a) := osRtxIdMessageQueue), obj_flags := (obj_flags s0)(Obj (oa_cb_mem a) := 0),
     obj_name := (obj_name s0)(Obj (oa_cb_mem a) := oa_name a), thread_next := (thread_next s0)(Obj (oa_cb_mem a) := None),
     msg_size := (msg_size s0)(Obj (oa_cb_mem a) := z), msg_count := (msg_count s0)(Obj (oa_cb_mem a) := 0),
     msg_first := (msg_first s0)(Obj (oa_cb_mem a) := None), msg_last := (msg_last s0)(Obj (oa_cb_mem a) := None)\<rparr>"
  obtain u where u: "osRtxMemoryPoolInit (Some (Obj (oa_cb_mem a))) n k (oa_data_mem a) ?t = (1, u)"
    "pool_ok (Obj (oa_cb_mem a)) (unat n) k (oa_data_mem a) (slots (unat n) k (oa_data_mem a)) u"
    "u = ?t\<lparr>max_blocks := max_blocks u, used_blocks := used_blocks u, block_size := block_size u,
        block_base := block_base u, block_free := block_free u, block_lim := block_lim u, memory := memory u\<rparr>"
    using pool_init [OF nz(1) kz(1) own(2) room', of "Obj (oa_cb_mem a)" ?t] by (elim exE conjE) (rule that)
  have e: "mq = Obj (oa_cb_mem a) \<and> s = u\<lparr>post_process := (post_process u)(osRtxIdMessage := True)\<rparr>"
    using svc own u(1) nz
    by (simp add: svcRtxMessageQueueNew_def attr_or_default_def alloc_cb_def alloc_data_def ptr_def k_def Let_def split: if_splits)
  have f: "obj_id u = obj_id ?t" "thread_next u = thread_next ?t" "msg_size u = msg_size ?t" "msg_count u = msg_count ?t"
    "msg_first u = msg_first ?t" "msg_last u = msg_last ?t" "irq_mode u = irq_mode s0"
    by (subst u(3), simp)+
  have "oa_cb_mem a \<notin> set (slots (unat n) k (oa_data_mem a))"
    using slots_bounds [of "oa_data_mem a" "unat n" k "oa_cb_mem a"] cb room kv kz(2) by auto
  moreover have "distinct (slots (unat n) k (oa_data_mem a))" using u(2) by (simp add: pool_ok_def)
  moreover have "pool_ok mq (unat n) k (oa_data_mem a) (slots (unat n) k (oa_data_mem a)) s"
    using u(2) e pool_ok_cong [of s u] by simp
  ultimately have "queue_parts mq (unat n) k (oa_data_mem a) z [] (slots (unat n) k (oa_data_mem a)) s"
    using e f irq kz(2) n by (auto simp: queue_parts_def messages_def)
  then show ?thesis using kv unfolding queue_holds_def by (intro exI [of _ k]) auto
qed

section \<open>A client\<close>

datatype client_op = Send u8 "u8 list" | Receive

definition write_bytes :: "u32 \<Rightarrow> u8 list \<Rightarrow> (u32 \<Rightarrow> u8) \<Rightarrow> u32 \<Rightarrow> u8" where
  "write_bytes a c p = (\<lambda>x. if unat (x - a) < length c then c ! unat (x - a) else p x)"

text \<open>
  The client writes a message into its buffer and puts it, or gets one into the buffer, its
  priority to \<open>pp\<close>, and reads it; no call waits.
\<close>

fun client :: "ref \<Rightarrow> u32 \<Rightarrow> u32 \<Rightarrow> nat \<Rightarrow> client_op list \<Rightarrow> rtx \<Rightarrow> ((u32 \<times> (u8 \<times> u8 list) option) list \<times> rtx) option" where
  "client mq buf pp z [] s = Some ([], s)"
| "client mq buf pp z (Send prio c # cs) s =
     do {
       (r, s) \<leftarrow> osMessageQueuePut (Some mq) buf prio 0 (s\<lparr>payload := write_bytes buf c (payload s)\<rparr>);
       (rs, s) \<leftarrow> client mq buf pp z cs s;
       Some ((r, None) # rs, s)
     }"
| "client mq buf pp z (Receive # cs) s =
     do {
       (r, s) \<leftarrow> osMessageQueueGet (Some mq) buf pp 0 s;
       (rs, s') \<leftarrow> client mq buf pp z cs s;
       Some ((r, if r = osOK then Some (payload s pp, bytes_at (payload s) buf z) else None) # rs, s')
     }"

text \<open>What a bounded priority queue answers.\<close>

fun answers :: "nat \<Rightarrow> client_op list \<Rightarrow> (u8 \<times> u8 list) list \<Rightarrow> (u32 \<times> (u8 \<times> u8 list) option) list" where
  "answers n [] q = []"
| "answers n (Send prio c # cs) q =
     (if length q < n then (osOK, None) # answers n cs (enqueue (prio, c) q) else (osErrorResource, None) # answers n cs q)"
| "answers n (Receive # cs) q =
     (case q of [] \<Rightarrow> (osErrorResource, None) # answers n cs [] | x # q \<Rightarrow> (osOK, Some x) # answers n cs q)"

lemma write_read: "unat a + length c \<le> 4294967296 \<Longrightarrow> bytes_at (write_bytes a c p) a (length c) = c"
  by (auto simp: bytes_at_def write_bytes_def unat_of_nat_u32 intro: nth_equalityI)

lemma write_other:
  assumes "apart b m a (length c)" shows "bytes_at (write_bytes a c p) b m = bytes_at p b m"
proof (rule bytes_other [OF apart_sym [OF assms]])
  fix x :: u32 assume x: "unat x < unat a \<or> unat a + length c \<le> unat x"
  have l: "unat a + length c \<le> 4294967296" using assms by (simp add: apart_def)
  have "\<not> unat (x - a) < length c"
    using x l unat_u32_lt [of a] by (auto simp: unat_sub_if_size word_size word_le_nat_alt)
  then show "write_bytes a c p x = p x" by (simp add: write_bytes_def)
qed

lemma holds_write:
  assumes h: "queue_holds mq n k b z q s" and a: "apart b (n * unat k) buf (length c)"
  shows "queue_holds mq n k b z q (s\<lparr>payload := write_bytes buf c (payload s)\<rparr>)"
proof -
  obtain ms fs where parts: "queue_parts mq n k b z ms fs s" and q: "q = map (contents z s) ms"
    using h by (auto simp: queue_holds_def)
  have "contents z (s\<lparr>payload := write_bytes buf c (payload s)\<rparr>) m = contents z s m" if "m \<in> set ms" for m
  proof -
    have m: "m = Obj (address m)" "address m \<in> set (slots n k b)" using parts that by (auto simp: queue_parts_def)
    have "apart (msg_data m) (unat z) buf (length c)"
      using client_apart [OF _ m(2) _ a, of mq fs s z] parts m(1) by (simp add: queue_parts_def)
    then show ?thesis by (simp add: contents_def write_other)
  qed
  then have "q = map (contents z (s\<lparr>payload := write_bytes buf c (payload s)\<rparr>)) ms" using q by simp
  moreover have "queue_parts mq n k b z ms fs (s\<lparr>payload := write_bytes buf c (payload s)\<rparr>)"
    using parts by (simp add: queue_parts_def pool_ok_def messages_def)
  ultimately show ?thesis unfolding queue_holds_def by blast
qed

lemma client_answers:
  assumes buf: "buf \<noteq> 0" "apart b (n * unat k) buf (unat z)" and pp: "pp \<noteq> 0" "apart b (n * unat k) pp 1"
    and no: "unat pp < unat buf \<or> unat buf + unat z \<le> unat pp"
  shows "queue_holds mq n k b z q s \<Longrightarrow> \<forall>prio c. Send prio c \<in> set cs \<longrightarrow> length c = unat z \<Longrightarrow>
    \<exists>s'. client mq buf pp (unat z) cs s = Some (answers n cs q, s')"
proof (induction cs arbitrary: q s)
  case Nil
  then show ?case by simp
next
  case (Cons op cs)
  have cs: "\<forall>prio c. Send prio c \<in> set cs \<longrightarrow> length c = unat z" using Cons.prems(2) by simp
  show ?case
  proof (cases op)
    case (Send prio c)
    have len: "length c = unat z" using Cons.prems(2) Send by simp
    let ?s = "s\<lparr>payload := write_bytes buf c (payload s)\<rparr>"
    have h: "queue_holds mq n k b z q ?s" using holds_write [OF Cons.prems(1), of buf c] buf(2) len by simp
    have c: "bytes_at (payload ?s) buf (unat z) = c"
      using write_read [of buf c "payload s"] buf(2) len by (simp add: apart_def)
    obtain r s1 where s1: "osMessageQueuePut (Some mq) buf prio 0 ?s = Some (r, s1)"
      "if length q < n then r = osOK \<and> queue_holds mq n k b z (enqueue (prio, c) q) s1 else r = osErrorResource \<and> s1 = ?s"
      using put_refines [OF h buf, of prio] unfolding c by blast
    show ?thesis
    proof (cases "length q < n")
      case True
      then obtain s2 where "client mq buf pp (unat z) cs s1 = Some (answers n cs (enqueue (prio, c) q), s2)"
        using Cons.IH [OF _ cs] s1(2) by auto
      then show ?thesis using s1 True Send by simp
    next
      case False
      then obtain s2 where "client mq buf pp (unat z) cs s1 = Some (answers n cs q, s2)"
        using Cons.IH [OF h cs] s1(2) by auto
      then show ?thesis using s1 False Send by simp
    qed
  next
    case Receive
    obtain r s1 where s1: "osMessageQueueGet (Some mq) buf pp 0 s = Some (r, s1)"
      "case q of [] \<Rightarrow> r = osErrorResource \<and> s1 = s
       | (prio, c) # q' \<Rightarrow> r = osOK \<and> queue_holds mq n k b z q' s1 \<and> payload s1 pp = prio \<and> bytes_at (payload s1) buf (unat z) = c"
      using get_refines [OF Cons.prems(1) buf pp no] by blast
    show ?thesis
    proof (cases q)
      case Nil
      then obtain s2 where "client mq buf pp (unat z) cs s1 = Some (answers n cs [], s2)"
        using Cons.IH [OF Cons.prems(1) cs] s1(2) by auto
      then show ?thesis using s1 Nil Receive by (simp add: os_status)
    next
      case (Cons x q')
      obtain prio c where x: "x = (prio, c)" by (cases x)
      then obtain s2 where "client mq buf pp (unat z) cs s1 = Some (answers n cs q', s2)"
        using Cons.IH [of q' s1, OF _ cs] s1(2) Cons by auto
      then show ?thesis using s1 Cons x Receive by simp
    qed
  qed
qed

text \<open>
  C10: a message queue is a bounded priority queue. From its creation in memory of the caller, and
  as long as nobody waits on it, every sequence of puts and gets answers what a list of at most
  \<open>n\<close> messages answers that is kept by falling priority, first come first served within one:
  the status codes, the priorities and all bytes of the messages.
\<close>

theorem message_queue_refines:
  assumes new: "osMessageQueueNew n z (Some a) s0 = Some (Some mq, s)" and own: "oa_cb_mem a \<noteq> 0" "oa_data_mem a \<noteq> 0"
    and room: "unat (oa_data_mem a) + unat n * stride (unat z) < 4294967296"
    and cb: "unat (oa_cb_mem a) < unat (oa_data_mem a) \<or> unat (oa_data_mem a) + unat n * stride (unat z) \<le> unat (oa_cb_mem a)"
    and buf: "buf \<noteq> 0" "apart (oa_data_mem a) (unat n * stride (unat z)) buf (unat z)"
    and pp: "pp \<noteq> 0" "apart (oa_data_mem a) (unat n * stride (unat z)) pp 1" "apart buf (unat z) pp 1"
    and cs: "\<forall>prio c. Send prio c \<in> set cs \<longrightarrow> length c = unat z"
  shows "\<exists>s'. client mq buf pp (unat z) cs s = Some (answers (unat n) cs [], s')"
proof -
  obtain k where k: "unat k = stride (unat z)" "queue_holds mq (unat n) k (oa_data_mem a) z [] s"
    using new_queue [OF new own room cb] by blast
  have no: "unat pp < unat buf \<or> unat buf + unat z \<le> unat pp" using pp(3) by (auto simp: apart_def)
  show ?thesis using client_answers [OF buf(1) _ pp(1) _ no k(2) cs] buf(2) pp(2) k(1) by simp
qed

definition demo_attr :: obj_attr where
  "demo_attr = \<lparr>oa_name = 0, oa_attr_bits = 0, oa_cb_mem = 0x20000000, oa_cb_size = 52, oa_data_mem = 0x20000100, oa_data_size = 32\<rparr>"

lemma demo_new: "\<exists>s. osMessageQueueNew 2 4 (Some demo_attr) zero_rtx = Some (Some (Obj 0x20000000), s)"
proof -
  have p: "\<not> product_too_large 2 16" by code_simp
  have c: "cb_ok 52 (oa_cb_mem demo_attr) (oa_cb_size demo_attr)" "data_ok 32 demo_attr" by code_simp+
  have i: "\<not> irq_mode zero_rtx" by (simp add: zero_rtx_def)
  show ?thesis using p c i
    by (simp add: osMessageQueueNew_def svcRtxMessageQueueNew_def attr_or_default_def alloc_cb_def alloc_data_def ptr_def
        demo_attr_def Let_def osRtxMemoryPoolInit_def)
qed

theorem message_queue_refines_witness:
  "\<exists>s s'. osMessageQueueNew 2 4 (Some demo_attr) zero_rtx = Some (Some (Obj 0x20000000), s) \<and>
     client (Obj 0x20000000) 0x20000200 0x20000300 4
       [Send 1 [1, 2, 3, 4], Send 7 [5, 6, 7, 8], Send 9 [0, 0, 0, 0], Receive, Receive, Receive] s
     = Some ([(osOK, None), (osOK, None), (osErrorResource, None), (osOK, Some (7, [5, 6, 7, 8])),
              (osOK, Some (1, [1, 2, 3, 4])), (osErrorResource, None)], s')"
proof -
  obtain s where s: "osMessageQueueNew 2 4 (Some demo_attr) zero_rtx = Some (Some (Obj 0x20000000), s)" using demo_new by blast
  let ?cs = "[Send 1 [1, 2, 3, 4], Send 7 [5, 6, 7, 8], Send 9 [0, 0, 0, 0], Receive, Receive, Receive]"
  have "\<exists>s'. client (Obj 0x20000000) 0x20000200 0x20000300 (unat (4 :: u32)) ?cs s = Some (answers (unat (2 :: u32)) ?cs [], s')"
    by (rule message_queue_refines [OF s]) (auto simp: demo_attr_def stride_def apart_def)
  moreover have "answers (unat (2 :: u32)) ?cs [] = [(osOK, None), (osOK, None), (osErrorResource, None), (osOK, Some (7, [5, 6, 7, 8])),
      (osOK, Some (1, [1, 2, 3, 4])), (osErrorResource, None)]" by (simp add: enqueue_def word_le_nat_alt)
  ultimately show ?thesis using s by auto
qed

end
