(* ===== verification/Rtx_Timer_Exact.thy ===== *)
theory Rtx_Timer_Exact
  imports Rtx_Timer Rtx_Delays
begin

text \<open>
  The software timers of Source/rtx_timer.c: the list of relative times as a list of absolute ones,
  what starting, stopping and a tick do to it, and when a timer expires.
\<close>

section \<open>The list of running timers\<close>

lemma timer_slot_simps [simp]:
  fixes tk :: "'p \<Rightarrow> u32" and d :: u32
  shows "timer_slot tk nx a None d = Some (a, None, d)"
    "timer_slot tk nx a (Some n) d =
       (if tk n \<le> d then timer_slot tk nx (Some n) (nx n) (d - tk n) else Some (a, Some n, d))"
  by (subst timer_slot.simps; simp)+

text \<open>The walk is that of the delay list.\<close>

lemma timer_slot_delay: "chain nx p xs \<Longrightarrow> timer_slot tk nx a p d = delay_slot tk nx a p d"
  by (induction xs arbitrary: a p d) auto

text \<open>
  The running timers \<open>T\<close> in the order of their expiry: the times fit in 32 bits, and each one
  is in the running state and has a period if it is periodic.
\<close>

definition timers :: "ref list \<Rightarrow> rtx \<Rightarrow> bool" where
  "timers T s \<longleftrightarrow> dlist (timer_next s) (timer_prev s) None (timer_list s) T \<and> total (timer_tick s) T < 4294967296
     \<and> (\<forall>t. timer_state s t = osRtxTimerRunning \<longleftrightarrow> t \<in> set T) \<and> (\<forall>t\<in>set T. timer_load s t \<noteq> 0)"

abbreviation left_times :: "ref list \<Rightarrow> rtx \<Rightarrow> (ref \<times> nat) list" where
  "left_times T s \<equiv> expiries 0 (timer_tick s) T"

lemma timer_insert:
  assumes l: "dlist (timer_next s) (timer_prev s) None (timer_list s) T" "total (timer_tick s) T < 4294967296"
    and t: "t \<notin> set T"
  shows "\<exists>T' s'. TimerInsert t d s = Some s' \<and> dlist (timer_next s') (timer_prev s') None (timer_list s') T'
    \<and> total (timer_tick s') T' < 4294967296 \<and> set T' = insert t (set T)
    \<and> left_times T' s' = insert_timeout t (unat d) (left_times T s)
    \<and> s' = s\<lparr>timer_tick := timer_tick s', timer_prev := timer_prev s', timer_next := timer_next s', timer_list := timer_list s'\<rparr>"
proof -
  have c: "chain (timer_next s) (timer_list s) T" by (rule dpath_path [OF l(1)])
  obtain as bs r where w: "T = as @ bs" "timer_slot (timer_tick s) (timer_next s) None (timer_list s) d = Some (before None as, first bs, r)"
    "unat d = total (timer_tick s) as + unat r" "bs \<noteq> [] \<longrightarrow> r < timer_tick s (hd bs)"
    using delay_slot_chain [OF c, of "timer_tick s" None d] timer_slot_delay [OF c] by metis
  have dist: "distinct (as @ bs)" using dlist_distinct [OF l(1)] w(1) by simp
  have e: "unat d = 0 + total (timer_tick s) as + unat r" using w(3) by simp
  have tn: "t \<notin> set (as @ bs)" using t w(1) by simp
  define nx1 where "nx1 = (if as = [] then timer_next s else (timer_next s)(last as := Some t))(t := first bs)"
  define pv1 where "pv1 = (case bs of [] \<Rightarrow> timer_prev s | n # _ \<Rightarrow> (timer_prev s)(n := Some t))(t := before None as)"
  define s1 where "s1 = s\<lparr>timer_tick := delta_insert t r bs (timer_tick s), timer_prev := pv1, timer_next := nx1,
    timer_list := if as = [] then Some t else timer_list s\<rparr>"
  have la: "last as \<noteq> t" if "as \<noteq> []" using tn that by auto
  have i: "TimerInsert t d s = Some s1"
  proof (cases bs)
    case Nil
    then show ?thesis using w(2) la
      by (cases "as = []") (simp_all add: TimerInsert_def s1_def nx1_def pv1_def delta_insert_def before_None fun_upd_twist)
  next
    case (Cons n ns)
    then have "n \<noteq> t" using tn by auto
    then show ?thesis using w(2) la Cons
      by (cases "as = []") (simp_all add: TimerInsert_def s1_def nx1_def pv1_def delta_insert_def before_None fun_upd_twist)
  qed
  have "dlist (timer_next s) (timer_prev s) None (timer_list s) (as @ bs)" using l(1) w(1) by simp
  then have "dlist nx1 pv1 None (if as = [] then Some t else timer_list s) (as @ t # bs)"
    by (rule dlist_insert [OF _ tn nx1_def pv1_def])
  moreover have "total (timer_tick s1) (as @ t # bs) < 4294967296"
  proof -
    have "total (timer_tick s) as + unat r < 4294967296" using w(3) unat_u32_lt [of d] by simp
    then show ?thesis
      using delta_insert_expiries(2) [where dl = "timer_tick s" and b = 0, OF dist tn e w(4)] l(2) w(1) by (simp add: s1_def)
  qed
  moreover have "left_times (as @ t # bs) s1 = insert_timeout t (unat d) (left_times T s)"
    using delta_insert_expiries(1) [where dl = "timer_tick s" and b = 0, OF dist tn e w(4)] w(1) by (simp add: s1_def)
  moreover have "set (as @ t # bs) = insert t (set T)" using w(1) by auto
  ultimately show ?thesis using i by (intro exI [of _ "as @ t # bs"] exI [of _ s1]) (simp add: s1_def)
qed

lemma timer_remove:
  assumes l: "dlist (timer_next s) (timer_prev s) None (timer_list s) T" "total (timer_tick s) T < 4294967296"
    and t: "t \<in> set T"
  shows "\<exists>T'. dlist (timer_next (TimerRemove t s)) (timer_prev (TimerRemove t s)) None (timer_list (TimerRemove t s)) T'
    \<and> total (timer_tick (TimerRemove t s)) T' < 4294967296 \<and> set T' = set T - {t}
    \<and> left_times T' (TimerRemove t s) = filter (\<lambda>(u, _). u \<noteq> t) (left_times T s)
    \<and> TimerRemove t s = s\<lparr>timer_tick := timer_tick (TimerRemove t s), timer_prev := timer_prev (TimerRemove t s),
        timer_next := timer_next (TimerRemove t s), timer_list := timer_list (TimerRemove t s)\<rparr>"
proof -
  obtain as bs where T: "T = as @ t # bs" using t by (meson split_list)
  have d: "dlist (timer_next s) (timer_prev s) None (timer_list s) (as @ t # bs)" using l(1) T by simp
  have dist: "distinct (as @ t # bs)" by (rule dlist_distinct [OF d])
  have nt: "timer_next s t = first bs" "timer_prev s t = before None as"
    using d by (auto simp: dpath_append dest: dlist_start)
  define s1 where "s1 = TimerRemove t s"
  have f: "timer_next s1 = (if as = [] then timer_next s else (timer_next s)(last as := timer_next s t))"
    "timer_prev s1 = (case bs of [] \<Rightarrow> timer_prev s | n # _ \<Rightarrow> (timer_prev s)(n := timer_prev s t))"
    "timer_list s1 = (if as = [] then timer_next s t else timer_list s)" "timer_tick s1 = delta_remove t bs (timer_tick s)"
    "s1 = s\<lparr>timer_tick := timer_tick s1, timer_prev := timer_prev s1, timer_next := timer_next s1, timer_list := timer_list s1\<rparr>"
  proof -
    have nb: "n \<noteq> t" if "bs = n # ns" for n ns using dist that by auto
    show "timer_next s1 = (if as = [] then timer_next s else (timer_next s)(last as := timer_next s t))"
      "timer_prev s1 = (case bs of [] \<Rightarrow> timer_prev s | n # _ \<Rightarrow> (timer_prev s)(n := timer_prev s t))"
      "timer_list s1 = (if as = [] then timer_next s t else timer_list s)" "timer_tick s1 = delta_remove t bs (timer_tick s)"
      "s1 = s\<lparr>timer_tick := timer_tick s1, timer_prev := timer_prev s1, timer_next := timer_next s1, timer_list := timer_list s1\<rparr>"
      using nt nb by (cases bs; cases "as = []"; simp add: s1_def TimerRemove_def Let_def before_None delta_remove_def)+
  qed
  have "dlist (timer_next s1) (timer_prev s1) None (timer_list s1) (as @ bs)"
    unfolding f(3) by (rule dlist_delete [OF d f(1)]) (simp add: f(2))
  moreover have "left_times (as @ bs) s1 = filter (\<lambda>(u, _). u \<noteq> t) (left_times T s)"
    using delta_remove_expiries(1) [OF dist, of "timer_tick s" 0] l(2) T f(4) by simp
  moreover have "total (timer_tick s1) (as @ bs) < 4294967296"
    using delta_remove_expiries(2) [OF dist, of "timer_tick s"] l(2) T f(4) by (simp split: if_splits)
  moreover have "set (as @ bs) = set T - {t}" using dist T by auto
  ultimately show ?thesis using f(5) unfolding s1_def by blast
qed

section \<open>Expiry\<close>

text \<open>What the message to the timer thread leaves alone.\<close>

definition same_timers :: "rtx \<Rightarrow> rtx \<Rightarrow> bool" where
  "same_timers s s' \<longleftrightarrow> timer_list s' = timer_list s \<and> timer_next s' = timer_next s \<and> timer_prev s' = timer_prev s
     \<and> timer_tick s' = timer_tick s \<and> timer_load s' = timer_load s \<and> timer_type s' = timer_type s
     \<and> timer_state s' = timer_state s \<and> irq_mode s' = irq_mode s \<and> timer_tick_set s' = timer_tick_set s"

lemma same_post: "same_timers s (osRtxPostProcess x s)"
  by (auto simp: same_timers_def osRtxPostProcess_def isr_queue_put_def osRtxErrorNotify_def split: prod.splits)

lemma same_alloc: "osRtxMemoryPoolAlloc mq s = (b, s') \<Longrightarrow> same_timers s s'"
  by (auto simp: same_timers_def osRtxMemoryPoolAlloc_def Let_def split: option.splits if_splits)

lemma same_trans: "same_timers s s' \<Longrightarrow> same_timers s' s'' \<Longrightarrow> same_timers s s''"
  by (simp add: same_timers_def)

lemma same_put:
  assumes "irq_mode s"
  shows "\<exists>r s'. osMessageQueuePut mq p prio 0 s = Some (r, s') \<and> same_timers s s'"
proof -
  obtain r s' where r: "isrRtxMessageQueuePut mq p prio 0 s = (r, s')" by fastforce
  have "same_timers s s'"
  proof (cases "is_message_queue s mq \<and> p \<noteq> 0")
    case True
    obtain b u where b: "osRtxMemoryPoolAlloc (Some (the mq)) s = (b, u)" by fastforce
    show ?thesis
    proof (cases "ptr b")
      case None
      then show ?thesis using r b True same_alloc [OF b] by (simp add: isrRtxMessageQueuePut_def)
    next
      case (Some m)
      define v where "v = (fill_message (the mq) m p prio u)\<lparr>msg_prev := (msg_prev (fill_message (the mq) m p prio u))(m := ptr p),
          msg_next := (msg_next (fill_message (the mq) m p prio u))(m := Some (the mq))\<rparr>"
      have "s' = osRtxPostProcess m v" using r b True Some by (simp add: isrRtxMessageQueuePut_def v_def Let_def)
      moreover have "same_timers u v" by (simp add: v_def fill_message_def same_timers_def)
      ultimately show ?thesis using same_trans [OF same_alloc [OF b] same_trans [OF _ same_post]] by blast
    qed
  next
    case False
    then show ?thesis using r by (auto simp: isrRtxMessageQueuePut_def same_timers_def)
  qed
  then show ?thesis using r assms by (simp add: osMessageQueuePut_def)
qed

text \<open>The first timer has expired.\<close>

abbreviation periodic :: "rtx \<Rightarrow> ref \<Rightarrow> bool" where
  "periodic s t \<equiv> timer_type s t = osRtxTimerPeriodic"

lemma expire_first:
  assumes T: "timers (t # ts) s" and irq: "irq_mode s" and z: "timer_tick s t = 0"
  shows "\<exists>T' s'. expire_timer t s = Some s' \<and> timers T' s' \<and> irq_mode s' \<and> timer_load s' = timer_load s \<and> timer_type s' = timer_type s
    \<and> left_times T' s' = (if periodic s t then insert_timeout t (unat (timer_load s t)) (left_times ts s) else left_times ts s)"
proof -
  have d: "dlist (timer_next s) (timer_prev s) None (timer_list s) (t # ts)" and tot: "total (timer_tick s) (t # ts) < 4294967296"
    and run: "\<forall>u. timer_state s u = osRtxTimerRunning \<longleftrightarrow> u \<in> set (t # ts)" and ld: "\<forall>u\<in>set (t # ts). timer_load s u \<noteq> 0"
    using T by (simp_all add: timers_def)
  have dist: "distinct (t # ts)" by (rule dlist_distinct [OF d])
  then have tn: "t \<notin> set ts" by simp
  have nt: "timer_next s t = first ts" "timer_prev s t = None" "dlist (timer_next s) (timer_prev s) (Some t) (timer_next s t) ts"
    using d by (auto dest: dlist_start)
  define s1 where "s1 = TimerUnlink t s"
  have f1: "timer_next s1 = timer_next s" "timer_prev s1 = (case ts of [] \<Rightarrow> timer_prev s | n # _ \<Rightarrow> (timer_prev s)(n := None))"
    "timer_list s1 = timer_next s t" "timer_tick s1 = timer_tick s" "timer_load s1 = timer_load s" "timer_type s1 = timer_type s"
    "timer_state s1 = timer_state s" "irq_mode s1 = irq_mode s"
    using nt by (cases ts; simp add: s1_def TimerUnlink_def Let_def)+
  have d1: "dlist (timer_next s1) (timer_prev s1) None (timer_list s1) ts"
  proof -
    have "dlist (timer_next s1) (timer_prev s1) None (if ([] :: ref list) = [] then timer_next s t else timer_list s) ([] @ ts)"
    proof (rule dlist_delete)
      show "dlist (timer_next s) (timer_prev s) None (timer_list s) ([] @ t # ts)" using d by simp
    qed (use f1 nt in \<open>cases ts; simp\<close>)+
    then show ?thesis using f1(3) by simp
  qed
  obtain r s2 where s2: "osMessageQueuePut (timer_mq s1) (timer_finfo t) 0 0 s1 = Some (r, s2)" "same_timers s1 s2"
    using same_put [of s1] irq f1(8) by metis
  define s3 where "s3 = (if r \<noteq> osOK then osRtxErrorNotify osRtxErrorTimerQueueOverflow t s2 else s2)"
  have e: "expire_timer t s = (if timer_type s3 t = osRtxTimerPeriodic then TimerInsert t (timer_load s3 t) s3
        else Some (s3\<lparr>timer_state := (timer_state s3)(t := osRtxTimerStopped)\<rparr>))"
    using s2(1) unfolding expire_timer_def s1_def [symmetric] s3_def Let_def by (simp split del: if_split)
  have f3: "timer_next s3 = timer_next s1" "timer_prev s3 = timer_prev s1" "timer_list s3 = timer_list s1" "timer_tick s3 = timer_tick s"
    "timer_load s3 = timer_load s" "timer_type s3 = timer_type s" "timer_state s3 = timer_state s" "irq_mode s3"
    using s2(2) f1 irq by (simp_all add: s3_def same_timers_def osRtxErrorNotify_def)
  have d3: "dlist (timer_next s3) (timer_prev s3) None (timer_list s3) ts" "total (timer_tick s3) ts < 4294967296"
    using d1 f3 tot by simp_all
  show ?thesis
  proof (cases "periodic s t")
    case True
    obtain T' s4 where s4: "TimerInsert t (timer_load s3 t) s3 = Some s4" "dlist (timer_next s4) (timer_prev s4) None (timer_list s4) T'"
      "total (timer_tick s4) T' < 4294967296" "set T' = insert t (set ts)"
      "left_times T' s4 = insert_timeout t (unat (timer_load s3 t)) (left_times ts s3)"
      "s4 = s3\<lparr>timer_tick := timer_tick s4, timer_prev := timer_prev s4, timer_next := timer_next s4, timer_list := timer_list s4\<rparr>"
      using timer_insert [OF d3 tn, of "timer_load s3 t"] by (elim exE conjE) (rule that)
    have f4: "timer_state s4 = timer_state s" "timer_load s4 = timer_load s" "timer_type s4 = timer_type s" "irq_mode s4"
      by (subst s4(6), simp add: f3)+
    have "timers T' s4" using s4(2-4) f4 run ld by (simp add: timers_def)
    then show ?thesis using e s4(1,5) f3 f4 True by (intro exI [of _ T'] exI [of _ s4]) simp
  next
    case False
    let ?s = "s3\<lparr>timer_state := (timer_state s3)(t := osRtxTimerStopped)\<rparr>"
    have "timers ts ?s" using d3 f3 run ld dist by (auto simp: timers_def rtx_timer_states)
    then show ?thesis using e f3 False by (intro exI [of _ ts] exI [of _ ?s]) simp
  qed
qed

lemma insert_timeout_set: "set (insert_timeout t e ts) = insert (t, e) (set ts)"
proof -
  have "set (takeWhile (\<lambda>x. snd x \<le> e) ts) \<union> set (dropWhile (\<lambda>x. snd x \<le> e) ts) = set ts"
    by (metis set_append takeWhile_dropWhile_id)
  then show ?thesis by (auto simp: insert_timeout_def)
qed

lemma insert_timeout_filter: "\<not> P (t, e) \<Longrightarrow> filter P (insert_timeout t e ts) = filter P ts"
proof -
  assume "\<not> P (t, e)"
  then have "filter P (insert_timeout t e ts) = filter P (takeWhile (\<lambda>x. snd x \<le> e) ts @ dropWhile (\<lambda>x. snd x \<le> e) ts)"
    by (simp add: insert_timeout_def del: takeWhile_dropWhile_id)
  then show ?thesis by simp
qed

lemma expire_all:
  "timers T s \<Longrightarrow> irq_mode s \<Longrightarrow> length (filter (\<lambda>x. snd x = 0) (left_times T s)) = n \<Longrightarrow>
   \<exists>T' s'. expire_timers s = Some s' \<and> timers T' s' \<and> irq_mode s' \<and> timer_load s' = timer_load s \<and> timer_type s' = timer_type s
     \<and> (\<forall>t e. (t, e) \<in> set (left_times T' s') \<longleftrightarrow> 0 < e \<and> ((t, e) \<in> set (left_times T s)
          \<or> (t, 0) \<in> set (left_times T s) \<and> periodic s t \<and> e = unat (timer_load s t)))"
proof (induction n arbitrary: T s)
  case 0
  then have pos: "0 < e" if "(t, e) \<in> set (left_times T s)" for t e
    using that by (force simp: filter_empty_conv)
  have "timer_tick s t \<noteq> 0" if hd: "timer_list s = Some t" for t
  proof -
    obtain ts where "T = t # ts" using 0(1) hd by (auto simp: timers_def)
    then show ?thesis using pos [of t "unat (timer_tick s t)"] by auto
  qed
  then have "expire_timers s = Some s" by (subst expire_timers.simps) (auto split: option.split)
  then show ?case using 0(1,2) pos by (intro exI [of _ T] exI [of _ s]) auto
next
  case (Suc n)
  then have "filter (\<lambda>x. snd x = 0) (left_times T s) \<noteq> []" by auto
  then obtain u where u: "(u, 0) \<in> set (left_times T s)" by (auto simp: filter_empty_conv)
  then obtain t ts where T: "T = t # ts" by (cases T) auto
  have "unat (timer_tick s t) = 0"
    using u T expiries_bounds [of u 0 "unat (timer_tick s t)" "timer_tick s" ts] by auto
  then have z: "timer_tick s t = 0" by (simp add: unat_eq_zero)
  have l: "left_times T s = (t, 0) # left_times ts s" using T z by simp
  have tl: "timer_list s = Some t" using Suc.prems(1) T by (simp add: timers_def)
  obtain T1 s1 where s1: "expire_timer t s = Some s1" "timers T1 s1" "irq_mode s1" "timer_load s1 = timer_load s" "timer_type s1 = timer_type s"
    "left_times T1 s1 = (if periodic s t then insert_timeout t (unat (timer_load s t)) (left_times ts s) else left_times ts s)"
    using expire_first [OF Suc.prems(1) [unfolded T] Suc.prems(2) z] by (elim exE conjE) (rule that)
  have ld: "0 < unat (timer_load s t)" using Suc.prems(1) T by (simp add: timers_def unat_gt_0)
  have tn: "t \<notin> set ts" using Suc.prems(1) T dlist_distinct unfolding timers_def by fastforce
  have "length (filter (\<lambda>x. snd x = 0) (left_times T1 s1)) = n"
    using Suc.prems(3) ld unfolding s1(6) l by (simp add: insert_timeout_filter)
  from Suc.IH [OF s1(2,3) this] obtain T' s' where s': "expire_timers s1 = Some s'" "timers T' s'" "irq_mode s'"
    "timer_load s' = timer_load s1" "timer_type s' = timer_type s1"
    "\<forall>t e. (t, e) \<in> set (left_times T' s') \<longleftrightarrow> 0 < e \<and> ((t, e) \<in> set (left_times T1 s1)
          \<or> (t, 0) \<in> set (left_times T1 s1) \<and> periodic s1 t \<and> e = unat (timer_load s1 t))" by (elim exE conjE) (rule that)
  have "expire_timers s = Some s'" using s1(1) s'(1) tl z by (subst expire_timers.simps) simp
  moreover have "(v, e) \<in> set (left_times T' s') \<longleftrightarrow> 0 < e \<and> ((v, e) \<in> set (left_times T s)
          \<or> (v, 0) \<in> set (left_times T s) \<and> periodic s v \<and> e = unat (timer_load s v))" for v e
    using s'(6) s1(4-6) l ld by (auto simp: insert_timeout_set split: if_splits)
  ultimately show ?case using s'(2-5) s1(4,5) by (intro exI [of _ T'] exI [of _ s']) simp
qed

text \<open>One tick.\<close>

definition pending :: "ref list \<Rightarrow> rtx \<Rightarrow> bool" where
  "pending T s \<longleftrightarrow> timers T s \<and> (\<forall>(t, e)\<in>set (left_times T s). 0 < e)"

lemma timer_tick_exact:
  assumes p: "pending T s" and irq: "irq_mode s"
  shows "\<exists>T' s'. osRtxTimerTick s = Some s' \<and> pending T' s' \<and> timer_load s' = timer_load s \<and> timer_type s' = timer_type s
    \<and> (\<forall>t e. (t, e) \<in> set (left_times T' s') \<longleftrightarrow> 0 < e \<and> ((t, e + 1) \<in> set (left_times T s)
          \<or> (t, 1) \<in> set (left_times T s) \<and> periodic s t \<and> e = unat (timer_load s t)))"
proof (cases T)
  case Nil
  then show ?thesis using p by (intro exI [of _ "[]"] exI [of _ s]) (simp add: pending_def osRtxTimerTick_def timers_def)
next
  case (Cons t ts)
  let ?s = "s\<lparr>timer_tick := (timer_tick s)(t := timer_tick s t - 1)\<rparr>"
  have T: "timers T s" and pos: "\<forall>(t, e)\<in>set (left_times T s). 0 < e" using p by (simp_all add: pending_def)
  have h: "timer_list s = Some t" using T Cons by (simp add: timers_def)
  have nz: "timer_tick s t \<noteq> 0" using pos Cons by auto
  have dist: "distinct (t # ts)" using T Cons dlist_distinct unfolding timers_def by metis
  have l: "left_times T ?s = map (\<lambda>(u, e). (u, e - 1)) (left_times T s)"
  proof -
    have "timer_tick ?s = (timer_tick s)(t := timer_tick s t - 1)" by simp
    then show ?thesis unfolding Cons by (simp only: delta_tick [where dl = "timer_tick s", OF dist nz])
  qed
  have "total ((timer_tick s)(t := timer_tick s t - 1)) ts = total (timer_tick s) ts" using dist by (intro total_cong) auto
  moreover have "unat (timer_tick s t - 1) < unat (timer_tick s t)" using nz by (simp add: unat_minus_one unat_gt_0)
  ultimately have T': "timers T ?s" using T Cons by (auto simp: timers_def)
  have irq': "irq_mode ?s" using irq by simp
  obtain T' s' where s': "expire_timers ?s = Some s'" "timers T' s'" "irq_mode s'"
    "timer_load s' = timer_load ?s" "timer_type s' = timer_type ?s"
    "\<forall>t e. (t, e) \<in> set (left_times T' s') \<longleftrightarrow> 0 < e \<and> ((t, e) \<in> set (left_times T ?s)
          \<or> (t, 0) \<in> set (left_times T ?s) \<and> periodic ?s t \<and> e = unat (timer_load ?s t))"
    using expire_all [OF T' irq' refl] by (elim exE conjE) (rule that)
  have m: "(u, e) \<in> set (left_times T ?s) \<longleftrightarrow> (u, e + 1) \<in> set (left_times T s)" for u e
    unfolding l using pos by (force simp: image_iff)
  have "pending T' s'" using s'(2,3,6) by (auto simp: pending_def)
  moreover have "osRtxTimerTick s = Some s'" using h s'(1) by (simp add: osRtxTimerTick_def)
  moreover have "(u, e) \<in> set (left_times T' s') \<longleftrightarrow> 0 < e \<and> ((u, e + 1) \<in> set (left_times T s)
          \<or> (u, 1) \<in> set (left_times T s) \<and> periodic s u \<and> e = unat (timer_load s u))" for u e
    using s'(6) m [of u e] m [of u 0] by simp
  ultimately show ?thesis using s'(4,5) by (intro exI [of _ T'] exI [of _ s']) simp
qed

section \<open>Starting a timer\<close>

lemma start_stopped:
  assumes p: "pending T s" and t: "is_timer s (Some t)" "timer_state s t \<noteq> osRtxTimerRunning" and set: "timer_tick_set s" and n: "n \<noteq> 0"
  shows "\<exists>T1 s1. svcRtxTimerStart (Some t) n s = Some (osOK, s1) \<and> pending T1 s1
    \<and> set (left_times T1 s1) = insert (t, unat n) (set (left_times T s)) \<and> timer_load s1 = (timer_load s)(t := n) \<and> timer_type s1 = timer_type s"
proof -
  have T: "timers T s" and pos: "\<forall>(t, e)\<in>set (left_times T s). 0 < e" using p by (simp_all add: pending_def)
  have tn: "t \<notin> set T" using T t(2) by (simp add: timers_def)
  let ?s = "s\<lparr>timer_state := (timer_state s)(t := osRtxTimerRunning), timer_load := (timer_load s)(t := n)\<rparr>"
  have d: "dlist (timer_next ?s) (timer_prev ?s) None (timer_list ?s) T" "total (timer_tick ?s) T < 4294967296"
    using T by (simp_all add: timers_def)
  obtain T1 s1 where s1: "TimerInsert t n ?s = Some s1" "dlist (timer_next s1) (timer_prev s1) None (timer_list s1) T1"
    "total (timer_tick s1) T1 < 4294967296" "set T1 = insert t (set T)" "left_times T1 s1 = insert_timeout t (unat n) (left_times T ?s)"
    "s1 = ?s\<lparr>timer_tick := timer_tick s1, timer_prev := timer_prev s1, timer_next := timer_next s1, timer_list := timer_list s1\<rparr>"
    using timer_insert [OF d tn, of n] by (elim exE conjE) (rule that)
  have f: "timer_state s1 = (timer_state s)(t := osRtxTimerRunning)" "timer_load s1 = (timer_load s)(t := n)" "timer_type s1 = timer_type s"
    by (subst s1(6), simp)+
  have l: "set (left_times T1 s1) = insert (t, unat n) (set (left_times T s))" using s1(5) by (simp add: insert_timeout_set)
  have "timers T1 s1" using T s1(2-4) f n by (auto simp: timers_def)
  then have "pending T1 s1" using l pos n by (simp add: pending_def unat_gt_0)
  moreover have "svcRtxTimerStart (Some t) n s = Some (osOK, s1)" using t set n s1(1) by (simp add: svcRtxTimerStart_def)
  ultimately show ?thesis using l f by (intro exI [of _ T1] exI [of _ s1]) simp
qed

text \<open>A running timer that is started again expires after the new time, but keeps its old period.\<close>

lemma restart_keeps_period:
  assumes p: "pending T s" and t: "is_timer s (Some t)" "timer_state s t = osRtxTimerRunning" and n: "n \<noteq> 0"
  shows "\<exists>T1 s1. svcRtxTimerStart (Some t) n s = Some (osOK, s1) \<and> (t, unat n) \<in> set (left_times T1 s1)
    \<and> timers T1 s1 \<and> timer_load s1 = timer_load s"
proof -
  have T: "timers T s" using p by (simp add: pending_def)
  have ti: "t \<in> set T" using T t(2) by (simp add: timers_def)
  let ?r = "TimerRemove t s"
  obtain T0 where r: "dlist (timer_next ?r) (timer_prev ?r) None (timer_list ?r) T0" "total (timer_tick ?r) T0 < 4294967296"
    "set T0 = set T - {t}" "?r = s\<lparr>timer_tick := timer_tick ?r, timer_prev := timer_prev ?r, timer_next := timer_next ?r, timer_list := timer_list ?r\<rparr>"
    using timer_remove [OF _ _ ti, of s] T unfolding timers_def by blast
  have tn: "t \<notin> set T0" using r(3) by simp
  obtain T1 s1 where s1: "TimerInsert t n ?r = Some s1" "dlist (timer_next s1) (timer_prev s1) None (timer_list s1) T1"
    "total (timer_tick s1) T1 < 4294967296" "set T1 = insert t (set T0)" "left_times T1 s1 = insert_timeout t (unat n) (left_times T0 ?r)"
    "s1 = ?r\<lparr>timer_tick := timer_tick s1, timer_prev := timer_prev s1, timer_next := timer_next s1, timer_list := timer_list s1\<rparr>"
    using timer_insert [OF r(1,2) tn, of n] by (elim exE conjE) (rule that)
  have fr: "timer_state ?r = timer_state s" "timer_load ?r = timer_load s" by (subst r(4), simp)+
  have f: "timer_state s1 = timer_state s" "timer_load s1 = timer_load s" by (subst s1(6), simp add: fr)+
  have "timers T1 s1" using T s1(2-4) r(3) ti f by (auto simp: timers_def)
  moreover have "(t, unat n) \<in> set (left_times T1 s1)" using s1(5) by (simp add: insert_timeout_set)
  moreover have "svcRtxTimerStart (Some t) n s = Some (osOK, s1)" using t n s1(1) by (simp add: svcRtxTimerStart_def)
  ultimately show ?thesis using f by (intro exI [of _ T1] exI [of _ s1]) simp
qed

section \<open>Ticks\<close>

text \<open>The timer part of \<open>k\<close> tick interrupts.\<close>

fun timer_ticks :: "nat \<Rightarrow> rtx \<Rightarrow> rtx option" where
  "timer_ticks 0 s = Some s"
| "timer_ticks (Suc k) s = do { s \<leftarrow> osRtxTimerTick (s\<lparr>irq_mode := True\<rparr>); timer_ticks k s }"

lemma pending_irq: "pending T (s\<lparr>irq_mode := True\<rparr>) = pending T s"
  by (simp add: pending_def timers_def)

lemma expired_stays:
  "pending T s \<Longrightarrow> t \<notin> set T \<Longrightarrow> \<exists>T' s'. timer_ticks k s = Some s' \<and> pending T' s' \<and> t \<notin> set T'"
proof (induction k arbitrary: T s)
  case 0
  then show ?case by auto
next
  case (Suc k)
  obtain T1 s1 where s1: "osRtxTimerTick (s\<lparr>irq_mode := True\<rparr>) = Some s1" "pending T1 s1"
    "\<forall>t e. (t, e) \<in> set (left_times T1 s1) \<longrightarrow> (t, e + 1) \<in> set (left_times T s) \<or> (t, 1) \<in> set (left_times T s)"
    using timer_tick_exact [of T "s\<lparr>irq_mode := True\<rparr>"] Suc.prems(1) by (auto simp: pending_irq)
  have "t \<notin> set T1"
  proof
    assume "t \<in> set T1"
    then obtain e where "(t, e) \<in> set (left_times T1 s1)" using expiries_fst [of 0 "timer_tick s1" T1]
      by (metis imageE list.set_map prod.collapse)
    then have "t \<in> set T" using s1(3) expiries_fst [of 0 "timer_tick s" T] by (metis fst_conv imageI list.set_map)
    then show False using Suc.prems(2) by simp
  qed
  then show ?case using Suc.IH [OF s1(2)] s1(1) by simp
qed

definition due_in :: "rtx \<Rightarrow> ref \<Rightarrow> nat \<Rightarrow> bool" where
  "due_in s t e \<longleftrightarrow> (\<exists>T. pending T s \<and> (t, e) \<in> set (left_times T s))"

lemma ticks_timer:
  "pending T s \<Longrightarrow> (t, e) \<in> set (left_times T s) \<Longrightarrow> 0 < unat (timer_load s t) \<Longrightarrow> \<exists>s'. timer_ticks k s = Some s' \<and>
     (if k < e then due_in s' t (e - k)
      else if periodic s t then due_in s' t (unat (timer_load s t) - (k - e) mod unat (timer_load s t))
      else timer_state s' t \<noteq> osRtxTimerRunning)"
proof (induction k arbitrary: T s e)
  case 0
  then have "0 < e" by (auto simp: pending_def)
  then show ?case using 0 by (auto simp: due_in_def)
next
  case (Suc k)
  let ?L = "unat (timer_load s t)"
  have pos: "0 < e" using Suc.prems(1,2) by (auto simp: pending_def)
  obtain T1 s1 where s1: "osRtxTimerTick (s\<lparr>irq_mode := True\<rparr>) = Some s1" "pending T1 s1" "timer_load s1 = timer_load s" "timer_type s1 = timer_type s"
    "\<forall>t e. (t, e) \<in> set (left_times T1 s1) \<longleftrightarrow> 0 < e \<and> ((t, e + 1) \<in> set (left_times T s)
          \<or> (t, 1) \<in> set (left_times T s) \<and> periodic s t \<and> e = unat (timer_load s t))"
    using timer_tick_exact [of T "s\<lparr>irq_mode := True\<rparr>"] Suc.prems(1) by (auto simp: pending_irq)
  show ?case
  proof (cases "e = 1")
    case False
    then have "(t, e - 1) \<in> set (left_times T1 s1)" using s1(5) pos Suc.prems(2) by simp
    moreover have "0 < unat (timer_load s1 t)" using Suc.prems(3) s1(3) by simp
    ultimately obtain s' where s': "timer_ticks k s1 = Some s'"
      "if k < e - 1 then due_in s' t (e - 1 - k) else if periodic s t then due_in s' t (?L - (k - (e - 1)) mod ?L)
       else timer_state s' t \<noteq> osRtxTimerRunning"
      using Suc.IH [OF s1(2), of "e - 1"] unfolding s1(3,4) by blast
    have r: "(k < e - 1) = (Suc k < e)" "e - 1 - k = e - Suc k" "k - (e - 1) = Suc k - e" using pos False by auto
    show ?thesis using s1(1) s'(1) s'(2) [unfolded r] by simp
  next
    case e: True
    show ?thesis
    proof (cases "periodic s t")
      case True
      then have "(t, ?L) \<in> set (left_times T1 s1)" using s1(5) e Suc.prems(2,3) by simp
      moreover have "0 < unat (timer_load s1 t)" using Suc.prems(3) s1(3) by simp
      ultimately obtain s' where s': "timer_ticks k s1 = Some s'"
        "if k < ?L then due_in s' t (?L - k) else if periodic s t then due_in s' t (?L - (k - ?L) mod ?L)
         else timer_state s' t \<noteq> osRtxTimerRunning"
        using Suc.IH [OF s1(2), of ?L] unfolding s1(3,4) by blast
      have "due_in s' t (?L - k mod ?L)" using s'(2) True by (auto simp: le_mod_geq not_less split: if_splits)
      then show ?thesis using s1(1) s'(1) True e by simp
    next
      case False
      have "t \<notin> set T1"
      proof
        assume "t \<in> set T1"
        then obtain f where f: "(t, f) \<in> set (left_times T1 s1)" using expiries_fst [of 0 "timer_tick s1" T1]
          by (metis imageE list.set_map prod.collapse)
        then have "(t, f + 1) \<in> set (left_times T s)" "0 < f" using s1(5) False by auto
        moreover have "distinct (map fst (left_times T s))"
          using Suc.prems(1) dlist_distinct by (auto simp: pending_def timers_def)
        ultimately show False using Suc.prems(2) e eq_key_imp_eq_value [of "left_times T s" t 1 "f + 1"] by simp
      qed
      then obtain s' T' where "timer_ticks k s1 = Some s'" "pending T' s'" "t \<notin> set T'" using expired_stays [OF s1(2)] by blast
      then show ?thesis using s1(1) False e by (auto simp: pending_def timers_def)
    qed
  qed
qed


definition demo_timer :: rtx where
  "demo_timer = zero_rtx\<lparr>obj_id := (\<lambda>_. 0)(Obj 64 := osRtxIdTimer), timer_state := (\<lambda>_. 0)(Obj 64 := osRtxTimerStopped),
     timer_type := (\<lambda>_. 0)(Obj 64 := osRtxTimerPeriodic), timer_tick_set := True\<rparr>"


end
