(* ===== verification/Rtx_Objects.thy ===== *)
theory Rtx_Objects
  imports Rtx_Memory_Safety Rtx_Semaphore Rtx_Evflags Rtx_Mutex Rtx_Timer
begin

text \<open>
  The objects of the kernel and the memory they live in: what every class of objects promises of
  its creation and deletion, as a locale over the memory pool, its interpretations for
  semaphores, mutexes, event flags and timers, and programs that use all of them.
\<close>

section \<open>Objects in the common pool\<close>

text \<open>Nobody uses the object: it may be deleted without waking up a thread.\<close>

definition unused :: "rtx \<Rightarrow> ref \<Rightarrow> bool" where
  "unused s x \<longleftrightarrow> (if obj_id s x = osRtxIdTimer then timer_state s x \<noteq> osRtxTimerRunning
     else thread_next s x = None \<and> (obj_id s x = osRtxIdMutex \<longrightarrow> lock_count s x = 0))"

lemma unused_timer: "obj_id s x = osRtxIdTimer \<Longrightarrow> unused s x \<longleftrightarrow> timer_state s x \<noteq> osRtxTimerRunning"
  by (simp add: unused_def)

lemma unused_other: "obj_id s x \<noteq> osRtxIdTimer \<Longrightarrow>
    unused s x \<longleftrightarrow> thread_next s x = None \<and> (obj_id s x = osRtxIdMutex \<longrightarrow> lock_count s x = 0)"
  by (simp add: unused_def)

text \<open>The kernel takes control blocks from the common pool at \<open>mem\<close>, and is called from a thread.\<close>

definition common_pool :: "u32 \<Rightarrow> rtx \<Rightarrow> bool" where
  "common_pool mem s \<longleftrightarrow> mem_common (mem_pools s) = mem \<and> \<not> irq_mode s \<and> mpi_semaphore (mpi_pools s) = None
     \<and> mpi_mutex (mpi_pools s) = None \<and> mpi_event_flags (mpi_pools s) = None \<and> mpi_timer (mpi_pools s) = None"

text \<open>What creating or deleting the object \<open>x\<close> leaves alone.\<close>

definition others_kept :: "ref \<Rightarrow> rtx \<Rightarrow> rtx \<Rightarrow> bool" where
  "others_kept x s s' \<longleftrightarrow> mem_pools s' = mem_pools s \<and> mpi_pools s' = mpi_pools s \<and> irq_mode s' = irq_mode s
     \<and> (\<forall>y. y \<noteq> x \<longrightarrow> obj_id s' y = obj_id s y \<and> obj_flags s' y = obj_flags s y \<and> thread_next s' y = thread_next s y
          \<and> lock_count s' y = lock_count s y \<and> timer_state s' y = timer_state s y)"

lemma others_unused: "others_kept x s s' \<Longrightarrow> y \<noteq> x \<Longrightarrow> unused s' y = unused s y"
  by (simp add: others_kept_def unused_def)

lemma others_pool: "others_kept x s s' \<Longrightarrow> common_pool mem s' = common_pool mem s"
  by (simp add: others_kept_def common_pool_def)

text \<open>The sizes of the control blocks.\<close>

definition control_block :: "u8 \<Rightarrow> u32" where
  "control_block c = (if c = osRtxIdSemaphore then 16 else if c = osRtxIdMutex then 28
     else if c = osRtxIdEventFlags then 16 else if c = osRtxIdTimer then 32 else 0)"

text \<open>
  The live objects: each has its class, its control block is a live block of the pool of the size
  of that class, and nobody uses it.
\<close>

definition object_table :: "u32 \<Rightarrow> u32 \<Rightarrow> (u32 \<rightharpoonup> u8) \<Rightarrow> rtx \<Rightarrow> bool" where
  "object_table mem sz T s \<longleftrightarrow> common_pool mem s
     \<and> (\<exists>B. heap_reach mem sz (memory s) B \<and> (\<forall>p c. T p = Some c \<longrightarrow> B p = Some (control_block c)))
     \<and> (\<forall>p c. T p = Some c \<longrightarrow> obj_id s (Obj p) = c \<and> obj_flags s (Obj p) = osRtxFlagSystemObject \<and> unused s (Obj p))"

section \<open>A class of objects\<close>

text \<open>
  The interface of every class of objects: \<open>new\<close>, with the arguments \<open>a\<close> of the call,
  takes a control block of \<open>need\<close> bytes from the common pool and gives it the identity
  \<open>cls\<close>; \<open>del\<close> accepts only objects of its class and gives the block back.
\<close>

locale object_class =
  fixes new :: "'a \<Rightarrow> ref option rtx_op" and valid :: "'a \<Rightarrow> bool"
    and del :: "ref option \<Rightarrow> u32 rtx_op" and cls :: u8 and need :: u32
  assumes size_fits: "need = control_block cls" "need \<noteq> 0"
    and new_invalid: "\<not> valid a \<Longrightarrow> common_pool mem s \<Longrightarrow> new a s = Some (None, s)"
    and new_fails: "valid a \<Longrightarrow> common_pool mem s \<Longrightarrow> osRtxMemoryAlloc mem need 1 (memory s) = Some (0, w) \<Longrightarrow>
      new a s = Some (None, s\<lparr>memory := w\<rparr>)"
    and new_object: "valid a \<Longrightarrow> common_pool mem s \<Longrightarrow> osRtxMemoryAlloc mem need 1 (memory s) = Some (p, w) \<Longrightarrow> p \<noteq> 0 \<Longrightarrow>
      \<exists>s'. new a s = Some (Some (Obj p), s') \<and> memory s' = w \<and> obj_id s' (Obj p) = cls
        \<and> obj_flags s' (Obj p) = osRtxFlagSystemObject \<and> unused s' (Obj p) \<and> others_kept (Obj p) s s'"
    and delete: "common_pool mem s \<Longrightarrow> obj_id s (Obj p) = cls \<Longrightarrow> obj_flags s (Obj p) = osRtxFlagSystemObject \<Longrightarrow>
      unused s (Obj p) \<Longrightarrow> osRtxMemoryFree mem p (memory s) = Some (r, w) \<Longrightarrow>
      \<exists>s'. del (Some (Obj p)) s = Some (osOK, s') \<and> memory s' = w \<and> others_kept (Obj p) s s'"
    and wrong_class: "common_pool mem s \<Longrightarrow> obj_id s (Obj p) \<noteq> cls \<Longrightarrow> del (Some (Obj p)) s = Some (osErrorParameter, s)"

context object_class
begin

lemma make_typed:
  assumes t: "object_table mem sz T s"
  shows "\<exists>r s'. new a s = Some (r, s') \<and> (case r of None \<Rightarrow> object_table mem sz T s'
    | Some x \<Rightarrow> \<exists>p. x = Obj p \<and> T p = None \<and> object_table mem sz (T(p \<mapsto> cls)) s')"
proof (cases "valid a")
  case False
  have "common_pool mem s" using t by (simp add: object_table_def)
  then have "new a s = Some (None, s)" by (rule new_invalid [OF False])
  then show ?thesis using t by simp
next
  case True
  have c: "common_pool mem s" using t by (simp add: object_table_def)
  obtain B where B: "heap_reach mem sz (memory s) B" "\<forall>p c. T p = Some c \<longrightarrow> B p = Some (control_block c)"
    using t by (auto simp: object_table_def)
  obtain ps where r: "represents mem sz (memory s) ps B" using reach_represents [OF B(1)] by blast
  have small: "unat need + 15 < 4294967296" using size_fits(1) by (simp add: control_block_def split: if_splits)
  have ty: "(1 :: u32) AND NOT MB_INFO_TYPE_MASK = 0" by (simp add: MB_INFO_TYPE_MASK_def)
  from allocate_cases [OF r size_fits(2) ty small] show ?thesis
  proof
    assume "osRtxMemoryAlloc mem need 1 (memory s) = Some (0, memory s) \<and> (\<forall>p\<in>set ps. hole_after (memory s) p < alloc_size need)"
    then have "new a s = Some (None, s)" using new_fails [OF True c] by simp
    then show ?thesis using t by simp
  next
    assume "\<exists>p w' ps'. osRtxMemoryAlloc mem need 1 (memory s) = Some (p, w') \<and> p \<noteq> 0 \<and> B p = None
        \<and> represents mem sz w' ps' (B(p \<mapsto> need)) \<and> same_data (live B) (memory s) w'"
    then obtain p w where p: "osRtxMemoryAlloc mem need 1 (memory s) = Some (p, w)" "p \<noteq> 0" "B p = None" by blast
    obtain s' where s': "new a s = Some (Some (Obj p), s')" "memory s' = w" "obj_id s' (Obj p) = cls"
      "obj_flags s' (Obj p) = osRtxFlagSystemObject" "unused s' (Obj p)" "others_kept (Obj p) s s'"
      using new_object [OF True c p(1,2)] by blast
    have T: "T p = None" using B(2) p(3) by (cases "T p") auto
    have "heap_reach mem sz (memory s') (B(p \<mapsto> need))" unfolding s'(2) by (rule heap_reach.allocate [OF B(1) p(1,2) small])
    moreover have "\<forall>q c. (T(p \<mapsto> cls)) q = Some c \<longrightarrow> (B(p \<mapsto> need)) q = Some (control_block c)" using B(2) size_fits(1) by auto
    moreover have "obj_id s' (Obj q) = c \<and> obj_flags s' (Obj q) = osRtxFlagSystemObject \<and> unused s' (Obj q)"
      if "(T(p \<mapsto> cls)) q = Some c" for q c
      using that s'(3-6) t others_unused [OF s'(6), of "Obj q"] by (cases "q = p") (auto simp: object_table_def others_kept_def)
    ultimately have "object_table mem sz (T(p \<mapsto> cls)) s'" using c others_pool [OF s'(6)] unfolding object_table_def by blast
    then show ?thesis using s'(1) T by (intro exI [of _ "Some (Obj p)"] exI [of _ s']) simp
  qed
qed

lemma delete_typed:
  assumes t: "object_table mem sz T s" and p: "T p = Some cls"
  shows "\<exists>s'. del (Some (Obj p)) s = Some (osOK, s') \<and> object_table mem sz (T(p := None)) s'"
proof -
  have c: "common_pool mem s" and o: "obj_id s (Obj p) = cls" "obj_flags s (Obj p) = osRtxFlagSystemObject" "unused s (Obj p)"
    using t p by (auto simp: object_table_def)
  obtain B where B: "heap_reach mem sz (memory s) B" "\<forall>p c. T p = Some c \<longrightarrow> B p = Some (control_block c)"
    using t by (auto simp: object_table_def)
  obtain ps where r: "represents mem sz (memory s) ps B" using reach_represents [OF B(1)] by blast
  have Bp: "B p = Some need" using B(2) p size_fits(1) by simp
  obtain w where w: "osRtxMemoryFree mem p (memory s) = Some (1, w)" using release_live [OF r Bp] by blast
  have ne: "p \<noteq> mem + sz"
  proof
    assume "p = mem + sz"
    moreover have "unat mem + unat sz < 4294967296" using r heapD(3) [of "memory s" mem ps] by (simp add: represents_def)
    ultimately have "unat p = unat mem + unat sz" using unat_add_u32 [of mem sz] by simp
    then show False using live_inside(3) [OF r Bp] by simp
  qed
  obtain s' where s': "del (Some (Obj p)) s = Some (osOK, s')" "memory s' = w" "others_kept (Obj p) s s'"
    using delete [OF c o w] by blast
  have "heap_reach mem sz (memory s') (B(p := None))" unfolding s'(2) by (rule heap_reach.release [OF B(1) w ne])
  moreover have "\<forall>q c. (T(p := None)) q = Some c \<longrightarrow> (B(p := None)) q = Some (control_block c)" using B(2) by auto
  moreover have "obj_id s' (Obj q) = c \<and> obj_flags s' (Obj q) = osRtxFlagSystemObject \<and> unused s' (Obj q)"
    if "(T(p := None)) q = Some c" for q c
    using that s'(3) t others_unused [OF s'(3), of "Obj q"] by (cases "q = p") (auto simp: object_table_def others_kept_def)
  ultimately have "object_table mem sz (T(p := None)) s'" using c others_pool [OF s'(3)] unfolding object_table_def by blast
  then show ?thesis using s'(1) by blast
qed

lemma delete_refused:
  assumes "object_table mem sz T s" and "T p = Some c" and "c \<noteq> cls"
  shows "del (Some (Obj p)) s = Some (osErrorParameter, s)"
  using assms by (intro wrong_class) (auto simp: object_table_def)

end

section \<open>The objects of the kernel\<close>

lemmas object_defs = alloc_cb_def memory_alloc_def free_object_def free_cb_def memory_free_def attr_or_default_def no_attr_def
  cb_ok_def common_pool_def ptr_def unused_timer unused_other others_kept_def control_block_def osRtxFlagSystemObject_def unblock_all_def Let_def rtx_ids

interpretation sems: object_class "\<lambda>(mx, ini). osSemaphoreNew mx ini None"
  "\<lambda>(mx, ini). mx \<noteq> 0 \<and> mx \<le> osRtxSemaphoreTokenLimit \<and> ini \<le> mx" osSemaphoreDelete osRtxIdSemaphore 16
  by unfold_locales
    (auto simp: osSemaphoreNew_def svcRtxSemaphoreNew_def osSemaphoreDelete_def svcRtxSemaphoreDelete_def object_defs not_less split: if_splits)

interpretation mutexes: object_class "\<lambda>_ :: unit. osMutexNew None" "\<lambda>_. True" osMutexDelete osRtxIdMutex 28
  by unfold_locales
    (auto simp: osMutexNew_def svcRtxMutexNew_def osMutexDelete_def svcRtxMutexDelete_def object_defs)

interpretation flags: object_class "\<lambda>_ :: unit. osEventFlagsNew None" "\<lambda>_. True" osEventFlagsDelete osRtxIdEventFlags 16
  by unfold_locales
    (auto simp: osEventFlagsNew_def svcRtxEventFlagsNew_def osEventFlagsDelete_def svcRtxEventFlagsDelete_def object_defs)

interpretation timer_objects: object_class "\<lambda>(func, type, argument). osTimerNew func type argument None"
  "\<lambda>(func, type, argument). func \<noteq> 0 \<and> (type = 0 \<or> type = 1)" osTimerDelete osRtxIdTimer 32
  by unfold_locales
    (auto simp: osTimerNew_def svcRtxTimerNew_def osTimerDelete_def svcRtxTimerDelete_def object_defs rtx_timer_states split: if_splits)

section \<open>Programs that create and delete objects\<close>

datatype object_op = NewSemaphore u32 u32 | NewMutex | NewEventFlags | NewTimer u32 u32 u32
  | DelSemaphore u32 | DelMutex u32 | DelEventFlags u32 | DelTimer u32

text \<open>
  A client keeps the class of every handle it got and has not deleted. A handle that is live
  already when it is handed out again is an error of the kernel.
\<close>

definition created :: "u8 \<Rightarrow> (u32 \<rightharpoonup> u8) \<Rightarrow> (ref option \<times> rtx) option \<Rightarrow> ((u32 \<rightharpoonup> u8) \<times> rtx) option" where
  "created c T res =
     (case res of
        Some (None, s) \<Rightarrow> Some (T, s)
      | Some (Some (Obj p), s) \<Rightarrow> if T p = None then Some (T(p \<mapsto> c), s) else None
      | _ \<Rightarrow> None)"

definition deleted :: "u32 \<Rightarrow> (u32 \<rightharpoonup> u8) \<Rightarrow> (u32 \<times> rtx) option \<Rightarrow> ((u32 \<rightharpoonup> u8) \<times> rtx) option" where
  "deleted p T res = do { (status, s) \<leftarrow> res; Some (if status = osOK then T(p := None) else T, s) }"

fun object_step :: "object_op \<Rightarrow> (u32 \<rightharpoonup> u8) \<times> rtx \<Rightarrow> ((u32 \<rightharpoonup> u8) \<times> rtx) option" where
  "object_step (NewSemaphore mx ini) (T, s) = created osRtxIdSemaphore T (osSemaphoreNew mx ini None s)"
| "object_step NewMutex (T, s) = created osRtxIdMutex T (osMutexNew None s)"
| "object_step NewEventFlags (T, s) = created osRtxIdEventFlags T (osEventFlagsNew None s)"
| "object_step (NewTimer func type argument) (T, s) = created osRtxIdTimer T (osTimerNew func type argument None s)"
| "object_step (DelSemaphore p) (T, s) = (if T p = None then Some (T, s) else deleted p T (osSemaphoreDelete (Some (Obj p)) s))"
| "object_step (DelMutex p) (T, s) = (if T p = None then Some (T, s) else deleted p T (osMutexDelete (Some (Obj p)) s))"
| "object_step (DelEventFlags p) (T, s) = (if T p = None then Some (T, s) else deleted p T (osEventFlagsDelete (Some (Obj p)) s))"
| "object_step (DelTimer p) (T, s) = (if T p = None then Some (T, s) else deleted p T (osTimerDelete (Some (Obj p)) s))"

fun object_run :: "object_op list \<Rightarrow> (u32 \<rightharpoonup> u8) \<times> rtx \<Rightarrow> ((u32 \<rightharpoonup> u8) \<times> rtx) option" where
  "object_run [] ts = Some ts"
| "object_run (x # xs) ts = do { ts \<leftarrow> object_step x ts; object_run xs ts }"

lemma created_typed:
  assumes "\<exists>r s'. res = Some (r, s') \<and> (case r of None \<Rightarrow> object_table mem sz T s'
    | Some x \<Rightarrow> \<exists>p. x = Obj p \<and> T p = None \<and> object_table mem sz (T(p \<mapsto> c)) s')"
  shows "\<exists>T' s'. created c T res = Some (T', s') \<and> object_table mem sz T' s'"
  using assms by (auto simp: created_def split: option.splits)

lemma deleted_typed:
  assumes "T p = Some cls \<Longrightarrow> \<exists>s'. res = Some (osOK, s') \<and> object_table mem sz (T(p := None)) s'"
    and "\<And>c. T p = Some c \<Longrightarrow> c \<noteq> cls \<Longrightarrow> res = Some (osErrorParameter, s)" and "object_table mem sz T s"
  shows "\<exists>T' s'. (if T p = None then Some (T, s) else deleted p T res) = Some (T', s') \<and> object_table mem sz T' s'"
proof (cases "T p")
  case (Some c)
  then show ?thesis using assms(1) assms(2) [OF Some] assms(3)
    by (cases "c = cls") (auto simp: deleted_def os_status simp del: fun_upd_apply)
qed (use assms(3) in simp)

lemma object_step_typed:
  assumes t: "object_table mem sz T s"
  shows "\<exists>T' s'. object_step x (T, s) = Some (T', s') \<and> object_table mem sz T' s'"
proof (cases x)
  case (NewSemaphore mx ini)
  then show ?thesis using created_typed [OF sems.make_typed [OF t, of "(mx, ini)"]] by simp
next
  case NewMutex
  then show ?thesis using created_typed [OF mutexes.make_typed [OF t]] by simp
next
  case NewEventFlags
  then show ?thesis using created_typed [OF flags.make_typed [OF t]] by simp
next
  case (NewTimer func type argument)
  then show ?thesis using created_typed [OF timer_objects.make_typed [OF t, of "(func, type, argument)"]] by simp
next
  case (DelSemaphore p)
  then show ?thesis using deleted_typed [OF sems.delete_typed [OF t] sems.delete_refused [OF t] t] by simp
next
  case (DelMutex p)
  then show ?thesis using deleted_typed [OF mutexes.delete_typed [OF t] mutexes.delete_refused [OF t] t] by simp
next
  case (DelEventFlags p)
  then show ?thesis using deleted_typed [OF flags.delete_typed [OF t] flags.delete_refused [OF t] t] by simp
next
  case (DelTimer p)
  then show ?thesis using deleted_typed [OF timer_objects.delete_typed [OF t] timer_objects.delete_refused [OF t] t] by simp
qed

lemma object_run_typed:
  "object_table mem sz T s \<Longrightarrow> \<exists>T' s'. object_run xs (T, s) = Some (T', s') \<and> object_table mem sz T' s'"
proof (induction xs arbitrary: T s)
  case (Cons x xs)
  obtain T1 s1 where "object_step x (T, s) = Some (T1, s1)" "object_table mem sz T1 s1"
    using object_step_typed [OF Cons.prems] by blast
  then show ?case using Cons.IH by simp
qed auto



end
