(* ===== verification/Rtx_Anomalies.thy ===== *)
theory Rtx_Anomalies
  imports Rtx_Msgqueue Rtx_Mutex
begin

text \<open>
  Two places where the kernel does not do what it means to: the post processing of a message that
  an interrupt took (Source/rtx_msgqueue.c), and the hand-over of a mutex (Source/rtx_mutex.c).
\<close>

section \<open>A receiver is taken for a sender\<close>

text \<open>
  \<open>Obj 0x100\<close> is a queue whose only message, at 0x200, was taken by an interrupt; the
  thread \<open>Obj 0x300\<close> then found the queue empty and waits to receive into its buffer at 0x400.
\<close>

definition taken :: rtx where
  "taken = zero_rtx\<lparr>
     obj_id := (\<lambda>_. 0)(Obj 0x100 := osRtxIdMessageQueue, Obj 0x200 := osRtxIdMessage, Obj 0x300 := osRtxIdThread),
     obj_flags := (\<lambda>_. 0)(Obj 0x200 := 1), msg_size := (\<lambda>_. 4), max_blocks := (\<lambda>_. 1), used_blocks := (\<lambda>_. 1),
     block_base := (\<lambda>_. 0x200), block_lim := (\<lambda>_. 0x210), msg_first := (\<lambda>_. None)(Obj 0x100 := Some (Obj 0x200)),
     msg_last := (\<lambda>_. None)(Obj 0x100 := Some (Obj 0x200)), payload := put_word 0x20C 0x100 (\<lambda>_. 0),
     thread_next := (\<lambda>_. None)(Obj 0x100 := Some (Obj 0x300)), thread_prev := (\<lambda>_. None)(Obj 0x300 := Some (Obj 0x100)),
     thread_state := (\<lambda>_. 0)(Obj 0x300 := osRtxThreadWaitingMessageGet), delay := (\<lambda>_. osWaitForever),
     wait_list := Some (Obj 0x300), regs := (\<lambda>_ _. 0)(Obj 0x300 := (\<lambda>_. 0)(0 := osErrorTimeout, 2 := 0x400))\<rparr>"

text \<open>
  Post processing of the taken message frees its block, sees that somebody waits, and takes the
  receiver for a sender: the receiver returns \<open>osOK\<close> although it got nothing, and the contents of
  its buffer are put into the queue as a message.
\<close>

lemma receiver_taken_for_sender:
  "\<exists>s'. osRtxMessageQueuePostProcess (Obj 0x200) taken = Some s' \<and> thread_state s' (Obj 0x300) = osRtxThreadReady
     \<and> regs s' (Obj 0x300) 0 = osOK \<and> msg_count s' (Obj 0x100) = 1 \<and> msg_first s' (Obj 0x100) = Some (Obj 0x200)"
proof -
  have q: "ptr (get_word (msg_data (Obj 0x200)) (payload taken)) = Some (Obj 0x100)"
    by (simp add: taken_def zero_rtx_def msg_data_def get_word_def put_word_def ptr_def)
  have slot: "find_slot stay nx p None = Some (p, None)" for stay nx and p :: ref by (subst find_slot.simps) simp
  show ?thesis
    unfolding osRtxMessageQueuePostProcess_def q
    by (simp add: taken_def zero_rtx_def free_message_def MessageQueueRemove_def osRtxMemoryPoolFree_def accept_sender_def
        osRtxMemoryPoolAlloc_def osRtxThreadListGet_def osRtxThreadWaitExit_def osRtxThreadDelayRemove_def osRtxThreadReadyPut_def
        osRtxThreadListPut_def slot link_thread_def MessageQueuePut_def fill_message_def ptr_def rtx_ids Let_def)
qed

section \<open>A mutex is lost from the list of its owner\<close>

text \<open>
  The thread \<open>t\<close> owns \<open>m1\<close> and is handed \<open>m2\<close>. Taking \<open>m1\<close> out of its list when it
  releases \<open>m1\<close> leaves the list empty, while it still owns \<open>m2\<close>: the priority it inherits
  through \<open>m2\<close> is lost, and \<open>m2\<close> is not released when it ends.
\<close>

lemma hand_over_unlinks:
  assumes t: "thread_next s m2 = Some t" "mutex_list s t = Some m1" "owner_next s m1 = None" "owner_prev s m1 = None"
    and m: "m1 \<noteq> m2" and h: "hand_over m2 s = Some s'"
  shows "owner_thread s' m2 = Some t \<and> lock_count s' m2 = 1 \<and> mutex_list s' t = Some m2
    \<and> mutex_list (disown m1 t s') t = None"
proof -
  obtain u where u: "osRtxThreadListGet m2 s = Some (t, u)" using t(1) by (simp add: osRtxThreadListGet_def Let_def)
  obtain v where v: "osRtxThreadWaitExit t osOK False u = Some v" and s': "s' = v\<lparr>owner_thread := (owner_thread v)(m2 := Some t),
      owner_next := (owner_next v)(m2 := mutex_list v t), owner_prev := (owner_prev v)(m2 := None),
      mutex_list := (mutex_list v)(t := Some m2), lock_count := (lock_count v)(m2 := 1)\<rparr>"
    using h u by (auto simp: hand_over_def split: Option.bind_splits)
  have "owner_next u = owner_next s \<and> owner_prev u = owner_prev s \<and> mutex_list u = mutex_list s"
    using u t(1) by (auto simp: osRtxThreadListGet_def Let_def split: option.splits)
  moreover have "owner_next v = owner_next u \<and> owner_prev v = owner_prev u \<and> mutex_list v = mutex_list u"
    using v by (auto simp: osRtxThreadWaitExit_def osRtxThreadDelayRemove_def osRtxThreadReadyPut_def osRtxThreadListPut_def
        link_thread_def Let_def split: option.splits Option.bind_splits if_splits)
  ultimately show ?thesis using t m by (simp add: s' disown_def Let_def)
qed

end
