(* ===== verification/Equeue.thy ===== *)
theory Equeue
  imports Linked_List "HOL-Library.Monad_Syntax"
begin

text \<open>
  The event queue of mbed-os, events/source/equeue.c: call-backs that run at or after a time of
  a millisecond counter that wraps around. Events live in chunks of a buffer and wait in a list
  of slots by time, each slot a list of siblings with the same time, newest first.

  The fields of \<open>equeue_t\<close> and \<open>struct equeue_event\<close> are functions from addresses, an event
  \<open>e\<close> has its data at \<open>e + 36\<close>, and \<open>place\<close> is what a pointer to a pointer points to. Functions
  the code gets by pointer are named by \<open>func\<close> and \<open>timer_func\<close>; what they do is a parameter
  (\<open>platform\<close>), together with the wait for the semaphore, in which other threads run. The
  mutexes are critical sections and have no sequential effect. A result \<open>None\<close> is a null
  pointer that is followed or a loop that does not end.
\<close>

section \<open>Data\<close>

datatype func = Ecallback_dispatch | Equeue_chain_dispatch | User_Function nat
datatype timer_func = Equeue_chain_update | User_Update nat
datatype place = Queue_Of u32 | Chunks_Of u32 | Next_Of u32 | Sibling_Of u32

text \<open>
  \<open>now\<close> is the millisecond counter of the platform, \<open>lapses\<close> the time that passes before each of
  its next readings, \<open>user\<close> the state of the program that uses the queue.
\<close>

record 'u equeue =
  eq_queue :: "u32 link"
  eq_tick :: "u32 \<Rightarrow> u32"
  eq_break :: "u32 \<Rightarrow> bool"
  eq_generation :: "u32 \<Rightarrow> u8"
  eq_buffer :: "u32 \<Rightarrow> u32"
  eq_npw2 :: "u32 \<Rightarrow> nat"
  eq_allocated :: "u32 \<Rightarrow> u32"
  eq_chunks :: "u32 link"
  slab_size :: "u32 \<Rightarrow> u32"
  slab_data :: "u32 \<Rightarrow> u32"
  bg_active :: "u32 \<Rightarrow> bool"
  bg_update :: "u32 \<Rightarrow> timer_func option"
  bg_timer :: "u32 \<Rightarrow> u32"
  eventsema :: "u32 \<Rightarrow> bool"
  e_size :: "u32 \<Rightarrow> u32"
  e_id :: "u32 \<Rightarrow> u8"
  e_generation :: "u32 \<Rightarrow> u8"
  e_next :: "u32 link"
  e_sibling :: "u32 link"
  e_ref :: "u32 \<Rightarrow> place"
  e_target :: "u32 \<Rightarrow> u32"
  e_period :: "u32 \<Rightarrow> u32"
  e_dtor :: "u32 \<Rightarrow> func option"
  e_cb :: "u32 \<Rightarrow> func option"
  ec_cb :: "u32 \<Rightarrow> func option"
  ec_data :: "u32 \<Rightarrow> u32"
  ctx_q :: "u32 \<Rightarrow> u32"
  ctx_target :: "u32 \<Rightarrow> u32"
  ctx_id :: "u32 \<Rightarrow> u32"
  now :: u32
  lapses :: "u32 list"
  user :: 'u

record 'u platform =
  call_cb :: "func \<Rightarrow> u32 \<Rightarrow> 'u equeue \<Rightarrow> 'u equeue option"
  call_update :: "timer_func \<Rightarrow> u32 \<Rightarrow> u32 \<Rightarrow> 'u equeue \<Rightarrow> 'u equeue option"
  wait_event :: "u32 \<Rightarrow> u32 \<Rightarrow> 'u equeue \<Rightarrow> 'u equeue option"

definition event_size :: u32 where "event_size = 36"

fun deref :: "'u equeue \<Rightarrow> place \<Rightarrow> u32 option" where
  "deref s (Queue_Of q) = eq_queue s q"
| "deref s (Chunks_Of q) = eq_chunks s q"
| "deref s (Next_Of e) = e_next s e"
| "deref s (Sibling_Of e) = e_sibling s e"

fun assign :: "place \<Rightarrow> u32 option \<Rightarrow> 'u equeue \<Rightarrow> 'u equeue" where
  "assign (Queue_Of q) v s = s\<lparr>eq_queue := (eq_queue s)(q := v)\<rparr>"
| "assign (Chunks_Of q) v s = s\<lparr>eq_chunks := (eq_chunks s)(q := v)\<rparr>"
| "assign (Next_Of e) v s = s\<lparr>e_next := (e_next s)(e := v)\<rparr>"
| "assign (Sibling_Of e) v s = s\<lparr>e_sibling := (e_sibling s)(e := v)\<rparr>"

definition set_ref :: "u32 option \<Rightarrow> place \<Rightarrow> 'u equeue \<Rightarrow> 'u equeue" where
  "set_ref e p s = (case e of None \<Rightarrow> s | Some e \<Rightarrow> s\<lparr>e_ref := (e_ref s)(e := p)\<rparr>)"

section \<open>Time, semaphore, identifiers\<close>

definition equeue_tick :: "'u equeue \<Rightarrow> u32 \<times> 'u equeue" where
  "equeue_tick s = (case lapses s of
     [] \<Rightarrow> (now s, s)
   | d # ds \<Rightarrow> (now s + d, s\<lparr>now := now s + d, lapses := ds\<rparr>))"

definition equeue_tickdiff :: "u32 \<Rightarrow> u32 \<Rightarrow> int" where
  "equeue_tickdiff a b = sint (a - b)"

definition equeue_clampdiff :: "u32 \<Rightarrow> u32 \<Rightarrow> u32" where
  "equeue_clampdiff a b = (if 0 < equeue_tickdiff a b then a - b else 0)"

definition equeue_sema_signal :: "u32 \<Rightarrow> 'u equeue \<Rightarrow> 'u equeue" where
  "equeue_sema_signal q s = s\<lparr>eventsema := (eventsema s)(q := True)\<rparr>"

definition equeue_sema_wait :: "'u platform \<Rightarrow> u32 \<Rightarrow> u32 \<Rightarrow> 'u equeue \<Rightarrow> 'u equeue option" where
  "equeue_sema_wait P q ms s =
     (if eventsema s q then Some (s\<lparr>eventsema := (eventsema s)(q := False)\<rparr>) else wait_event P q ms s)"

definition equeue_incid :: "u32 \<Rightarrow> u32 \<Rightarrow> 'u equeue \<Rightarrow> 'u equeue" where
  "equeue_incid q e s =
     (let i = e_id s e + 1;
          i = (if push_bit (eq_npw2 s q) (ucast i :: u32) = 0 then 1 else i)
      in s\<lparr>e_id := (e_id s)(e := i)\<rparr>)"

definition equeue_event_id :: "u32 \<Rightarrow> u32 \<Rightarrow> 'u equeue \<Rightarrow> u32" where
  "equeue_event_id q e s = push_bit (eq_npw2 s q) (ucast (e_id s e)) OR (e - eq_buffer s q)"

section \<open>Life time of a queue\<close>

text \<open>The number of bits of \<open>size\<close>, counted by shifting it to 0.\<close>

fun bit_count :: "nat \<Rightarrow> u32 \<Rightarrow> nat" where
  "bit_count 0 s = 0"
| "bit_count (Suc k) s = (if s = 0 then 0 else Suc (bit_count k (drop_bit 1 s)))"

definition equeue_create_inplace :: "u32 \<Rightarrow> u32 \<Rightarrow> u32 \<Rightarrow> 'u equeue \<Rightarrow> u32 \<times> 'u equeue" where
  "equeue_create_inplace q sz buffer s =
     (let (buf, sz) = (if 4 \<le> sz
            then let b = (buffer + 3) AND NOT 3 in (b, (sz - (b - buffer)) AND NOT 3)
            else (buffer, sz));
          s = s\<lparr>eq_buffer := (eq_buffer s)(q := buf), eq_allocated := (eq_allocated s)(q := 0),
                eq_npw2 := (eq_npw2 s)(q := bit_count 32 sz), eq_chunks := (eq_chunks s)(q := None),
                slab_size := (slab_size s)(q := sz), slab_data := (slab_data s)(q := buf),
                eq_queue := (eq_queue s)(q := None)\<rparr>;
          (tick, s) = equeue_tick s
      in (0, s\<lparr>eq_tick := (eq_tick s)(q := tick), eq_generation := (eq_generation s)(q := 0),
               eq_break := (eq_break s)(q := False), bg_active := (bg_active s)(q := False),
               bg_update := (bg_update s)(q := None), bg_timer := (bg_timer s)(q := 0),
               eventsema := (eventsema s)(q := False)\<rparr>))"

text \<open>\<open>buffer\<close> is what \<open>malloc\<close> returns.\<close>

definition equeue_create :: "u32 \<Rightarrow> u32 \<Rightarrow> u32 \<Rightarrow> 'u equeue \<Rightarrow> u32 \<times> 'u equeue" where
  "equeue_create q sz buffer s =
     (if buffer = 0 then (-1, s)
      else let (err, s) = equeue_create_inplace q sz buffer s
           in (err, s\<lparr>eq_allocated := (eq_allocated s)(q := buffer)\<rparr>))"

definition run_dtor :: "'u platform \<Rightarrow> u32 \<Rightarrow> 'u equeue \<Rightarrow> 'u equeue option" where
  "run_dtor P e s = (case e_dtor s e of None \<Rightarrow> Some s | Some f \<Rightarrow> call_cb P f (e + event_size) s)"

partial_function (option) destroy_siblings ::
    "'u platform \<Rightarrow> u32 option \<Rightarrow> 'u equeue \<Rightarrow> 'u equeue option" where
  "destroy_siblings P e s =
     (case e of None \<Rightarrow> Some s
      | Some x \<Rightarrow> do { s \<leftarrow> run_dtor P x s; destroy_siblings P (e_sibling s x) s })"

partial_function (option) destroy_slots ::
    "'u platform \<Rightarrow> u32 option \<Rightarrow> 'u equeue \<Rightarrow> 'u equeue option" where
  "destroy_slots P es s =
     (case es of None \<Rightarrow> Some s
      | Some x \<Rightarrow> do {
          s \<leftarrow> destroy_siblings P (e_sibling s x) s;
          s \<leftarrow> run_dtor P x s;
          destroy_slots P (e_next s x) s })"

definition equeue_destroy :: "'u platform \<Rightarrow> u32 \<Rightarrow> 'u equeue \<Rightarrow> 'u equeue option" where
  "equeue_destroy P q s = do {
     s \<leftarrow> destroy_slots P (eq_queue s q) s;
     (case bg_update s q of None \<Rightarrow> Some s | Some f \<Rightarrow> call_update P f (bg_timer s q) (- 1) s)
   }"

section \<open>Chunks\<close>

partial_function (option) find_chunk ::
    "'u equeue \<Rightarrow> u32 \<Rightarrow> place \<Rightarrow> (place \<times> u32) option option" where
  "find_chunk s sz p =
     (case deref s p of None \<Rightarrow> Some None
      | Some e \<Rightarrow> if sz \<le> e_size s e then Some (Some (p, e)) else find_chunk s sz (Next_Of e))"

definition equeue_mem_alloc :: "u32 \<Rightarrow> u32 \<Rightarrow> 'u equeue \<Rightarrow> (u32 option \<times> 'u equeue) option" where
  "equeue_mem_alloc q sz s =
     (let sz = (sz + event_size + 3) AND NOT 3 in do {
        found \<leftarrow> find_chunk s sz (Chunks_Of q);
        case found of
          Some (p, e) \<Rightarrow>
            (case e_sibling s e of
               Some b \<Rightarrow> let s = assign p (Some b) s
                 in Some (Some e, s\<lparr>e_next := (e_next s)(b := e_next s e)\<rparr>)
             | None \<Rightarrow> Some (Some e, assign p (e_next s e) s))
        | None \<Rightarrow>
            if sz \<le> slab_size s q
            then let e = slab_data s q
              in Some (Some e, s\<lparr>slab_data := (slab_data s)(q := e + sz),
                   slab_size := (slab_size s)(q := slab_size s q - sz),
                   e_size := (e_size s)(e := sz), e_id := (e_id s)(e := 1)\<rparr>)
            else Some (None, s)
      })"

text \<open>The place of the first chunk that is not smaller.\<close>

partial_function (option) chunk_slot :: "'u equeue \<Rightarrow> u32 \<Rightarrow> place \<Rightarrow> place option" where
  "chunk_slot s sz p =
     (case deref s p of None \<Rightarrow> Some p
      | Some x \<Rightarrow> if e_size s x < sz then chunk_slot s sz (Next_Of x) else Some p)"

definition equeue_mem_dealloc :: "u32 \<Rightarrow> u32 \<Rightarrow> 'u equeue \<Rightarrow> 'u equeue option" where
  "equeue_mem_dealloc q e s = do {
     p \<leftarrow> chunk_slot s (e_size s e) (Chunks_Of q);
     let s = (case deref s p of
           Some x \<Rightarrow>
             if e_size s x = e_size s e
             then s\<lparr>e_sibling := (e_sibling s)(e := Some x), e_next := (e_next s)(e := e_next s x)\<rparr>
             else s\<lparr>e_sibling := (e_sibling s)(e := None), e_next := (e_next s)(e := Some x)\<rparr>
         | None \<Rightarrow> s\<lparr>e_sibling := (e_sibling s)(e := None), e_next := (e_next s)(e := None)\<rparr>);
     Some (assign p (Some e) s)
   }"

definition is_user_allocated_event :: "u32 \<Rightarrow> u32 \<Rightarrow> 'u equeue \<Rightarrow> bool" where
  "is_user_allocated_event q e s \<longleftrightarrow> eq_buffer s q = 0 \<or> e < eq_buffer s q \<or> slab_data s q < e"

definition equeue_alloc :: "u32 \<Rightarrow> u32 \<Rightarrow> 'u equeue \<Rightarrow> (u32 option \<times> 'u equeue) option" where
  "equeue_alloc q sz s = do {
     (e, s) \<leftarrow> equeue_mem_alloc q sz s;
     case e of
       None \<Rightarrow> Some (None, s)
     | Some e \<Rightarrow> Some (Some (e + event_size), s\<lparr>e_target := (e_target s)(e := 0),
         e_period := (e_period s)(e := - 1), e_dtor := (e_dtor s)(e := None)\<rparr>)
   }"

definition equeue_dealloc :: "'u platform \<Rightarrow> u32 \<Rightarrow> u32 \<Rightarrow> 'u equeue \<Rightarrow> 'u equeue option" where
  "equeue_dealloc P q p s =
     (let e = p - event_size in do {
        s \<leftarrow> run_dtor P e s;
        if is_user_allocated_event q e s then Some s else equeue_mem_dealloc q e s
      })"

section \<open>The list of events\<close>

text \<open>The place of the first slot that is not earlier than \<open>target\<close>.\<close>

partial_function (option) event_slot :: "'u equeue \<Rightarrow> u32 \<Rightarrow> place \<Rightarrow> place option" where
  "event_slot s target p =
     (case deref s p of None \<Rightarrow> Some p
      | Some x \<Rightarrow> if equeue_tickdiff (e_target s x) target < 0
          then event_slot s target (Next_Of x) else Some p)"

text \<open>Linking \<open>e\<close> in at \<open>p\<close>: at the head of a slot of its time, or as a slot of its own.\<close>

definition link_event :: "u32 \<Rightarrow> place \<Rightarrow> 'u equeue \<Rightarrow> 'u equeue" where
  "link_event e p s =
     (let s = (case deref s p of
           Some x \<Rightarrow>
             if e_target s x = e_target s e
             then let s = s\<lparr>e_next := (e_next s)(e := e_next s x)\<rparr>;
                      s = set_ref (e_next s e) (Next_Of e) s;
                      s = s\<lparr>e_sibling := (e_sibling s)(e := Some x)\<rparr>;
                      s = s\<lparr>e_next := (e_next s)(x := None)\<rparr>
                  in set_ref (Some x) (Sibling_Of e) s
             else let s = s\<lparr>e_next := (e_next s)(e := Some x)\<rparr>;
                      s = set_ref (Some x) (Next_Of e) s
                  in s\<lparr>e_sibling := (e_sibling s)(e := None)\<rparr>
         | None \<Rightarrow> s\<lparr>e_next := (e_next s)(e := None), e_sibling := (e_sibling s)(e := None)\<rparr>);
          s = assign p (Some e) s
      in set_ref (Some e) p s)"

definition notify_background ::
    "'u platform \<Rightarrow> u32 \<Rightarrow> u32 \<Rightarrow> u32 \<Rightarrow> 'u equeue \<Rightarrow> 'u equeue option" where
  "notify_background P q target tick s =
     (case bg_update s q of None \<Rightarrow> Some s
      | Some f \<Rightarrow> call_update P f (bg_timer s q) (equeue_clampdiff target tick) s)"

definition equeue_enqueue ::
    "'u platform \<Rightarrow> u32 \<Rightarrow> u32 \<Rightarrow> u32 \<Rightarrow> 'u equeue \<Rightarrow> 'u equeue option" where
  "equeue_enqueue P q e tick s =
     (let s = s\<lparr>e_target := (e_target s)(e := tick + equeue_clampdiff (e_target s e) tick)\<rparr>;
          s = s\<lparr>e_generation := (e_generation s)(e := eq_generation s q)\<rparr>
      in do {
        p \<leftarrow> event_slot s (e_target s e) (Queue_Of q);
        let s = link_event e p s;
        if bg_active s q \<and> eq_queue s q = Some e \<and> e_sibling s e = None
        then notify_background P q (e_target s e) tick s else Some s
      })"

text \<open>Taking \<open>e\<close> out of the list.\<close>

definition unlink_event :: "u32 \<Rightarrow> 'u equeue \<Rightarrow> 'u equeue" where
  "unlink_event e s =
     (case e_sibling s e of
        Some b \<Rightarrow>
          let s = s\<lparr>e_next := (e_next s)(b := e_next s e)\<rparr>;
              s = set_ref (e_next s b) (Next_Of b) s;
              s = assign (e_ref s e) (Some b) s
          in set_ref (Some b) (e_ref s e) s
      | None \<Rightarrow>
          let s = assign (e_ref s e) (e_next s e) s
          in set_ref (e_next s e) (e_ref s e) s)"

definition in_flight :: "u32 \<Rightarrow> u32 \<Rightarrow> 'u equeue \<Rightarrow> bool" where
  "in_flight q e s =
     (let diff = equeue_tickdiff (e_target s e) (eq_tick s q)
      in diff < 0 \<or> diff = 0 \<and> e_generation s e \<noteq> eq_generation s q)"

definition equeue_unqueue_by_address :: "u32 \<Rightarrow> u32 \<Rightarrow> 'u equeue \<Rightarrow> u32 option \<times> 'u equeue" where
  "equeue_unqueue_by_address q e s =
     (let s = s\<lparr>e_cb := (e_cb s)(e := None), e_period := (e_period s)(e := - 1)\<rparr>
      in if in_flight q e s then (None, s) else (Some e, unlink_event e s))"

definition event_of_id :: "u32 \<Rightarrow> u32 \<Rightarrow> 'u equeue \<Rightarrow> u32" where
  "event_of_id q i s = eq_buffer s q + (i AND (push_bit (eq_npw2 s q) 1 - 1))"

definition id_matches :: "u32 \<Rightarrow> u32 \<Rightarrow> 'u equeue \<Rightarrow> bool" where
  "id_matches q i s \<longleftrightarrow> ucast (e_id s (event_of_id q i s)) = drop_bit (eq_npw2 s q) i"

definition equeue_unqueue_by_id :: "u32 \<Rightarrow> u32 \<Rightarrow> 'u equeue \<Rightarrow> u32 option \<times> 'u equeue" where
  "equeue_unqueue_by_id q i s =
     (let e = event_of_id q i s in
      if \<not> id_matches q i s then (None, s)
      else case equeue_unqueue_by_address q e s of
          (None, s) \<Rightarrow> (None, s)
        | (Some _, s) \<Rightarrow> (Some e, equeue_incid q e s))"

text \<open>
  The expired slots: the last of them, if any (else the pointer stays at the local \<open>head\<close>), and
  the first slot behind.
\<close>

partial_function (option) expired_end ::
    "'u equeue \<Rightarrow> u32 \<Rightarrow> u32 option \<Rightarrow> u32 option \<Rightarrow> (u32 option \<times> u32 option) option" where
  "expired_end s target prev p =
     (case p of None \<Rightarrow> Some (prev, None)
      | Some x \<Rightarrow> if equeue_tickdiff (e_target s x) target \<le> 0
          then expired_end s target (Some x) (e_next s x) else Some (prev, p))"

partial_function (option) reverse_slot ::
    "u32 option \<Rightarrow> u32 option \<Rightarrow> 'u equeue \<Rightarrow> (u32 option \<times> 'u equeue) option" where
  "reverse_slot prev e s =
     (case e of None \<Rightarrow> Some (prev, s)
      | Some x \<Rightarrow>
          let s = s\<lparr>e_next := (e_next s)(x := prev)\<rparr> in reverse_slot e (e_sibling s x) s)"

text \<open>\<open>tail = None\<close> is the pointer to the local \<open>head\<close>.\<close>

partial_function (option) flatten_slots ::
    "u32 option \<Rightarrow> u32 option \<Rightarrow> u32 option \<Rightarrow> 'u equeue \<Rightarrow> (u32 option \<times> 'u equeue) option" where
  "flatten_slots head tail ess s =
     (case ess of None \<Rightarrow> Some (head, s)
      | Some es \<Rightarrow>
          let ess = e_next s es in do {
            (prev, s) \<leftarrow> reverse_slot None (Some es) s;
            case tail of
              None \<Rightarrow> flatten_slots prev (Some es) ess s
            | Some t \<Rightarrow> flatten_slots head (Some es) ess (s\<lparr>e_next := (e_next s)(t := prev)\<rparr>)
          })"

definition equeue_dequeue :: "u32 \<Rightarrow> u32 \<Rightarrow> 'u equeue \<Rightarrow> (u32 option \<times> 'u equeue) option" where
  "equeue_dequeue q target s =
     (let s = s\<lparr>eq_generation := (eq_generation s)(q := eq_generation s q + 1)\<rparr>;
          s = (if equeue_tickdiff (eq_tick s q) target \<le> 0
               then s\<lparr>eq_tick := (eq_tick s)(q := target)\<rparr> else s);
          head = eq_queue s q
      in do {
        (prev, rest) \<leftarrow> expired_end s target None head;
        let s = s\<lparr>eq_queue := (eq_queue s)(q := rest)\<rparr>;
        let s = set_ref rest (Queue_Of q) s;
        let (head, s) = (case prev of None \<Rightarrow> (None, s)
           | Some x \<Rightarrow> (head, s\<lparr>e_next := (e_next s)(x := None)\<rparr>));
        flatten_slots head None head s
      })"

section \<open>Posting and cancelling\<close>

text \<open>The common part of the two ways to post.\<close>

definition post_event :: "'u platform \<Rightarrow> u32 \<Rightarrow> func option \<Rightarrow> u32 \<Rightarrow> 'u equeue \<Rightarrow> 'u equeue option" where
  "post_event P q cb e s =
     (let (tick, s) = equeue_tick s;
          s = s\<lparr>e_cb := (e_cb s)(e := cb), e_target := (e_target s)(e := tick + e_target s e)\<rparr>
      in equeue_enqueue P q e tick s)"

definition equeue_post ::
    "'u platform \<Rightarrow> u32 \<Rightarrow> func option \<Rightarrow> u32 \<Rightarrow> 'u equeue \<Rightarrow> (u32 \<times> 'u equeue) option" where
  "equeue_post P q cb p s =
     (let e = p - event_size in do {
        s \<leftarrow> post_event P q cb e s;
        Some (equeue_event_id q e s, equeue_sema_signal q s)
      })"

definition equeue_post_user_allocated ::
    "'u platform \<Rightarrow> u32 \<Rightarrow> func option \<Rightarrow> u32 \<Rightarrow> 'u equeue \<Rightarrow> 'u equeue option" where
  "equeue_post_user_allocated P q cb p s = do {
     s \<leftarrow> post_event P q cb p s;
     Some (equeue_sema_signal q s)
   }"

definition equeue_cancel :: "'u platform \<Rightarrow> u32 \<Rightarrow> u32 \<Rightarrow> 'u equeue \<Rightarrow> (bool \<times> 'u equeue) option" where
  "equeue_cancel P q i s =
     (if i = 0 then Some (False, s)
      else case equeue_unqueue_by_id q i s of
          (Some e, s) \<Rightarrow> do { s \<leftarrow> equeue_dealloc P q (e + event_size) s; Some (True, s) }
        | (None, s) \<Rightarrow> Some (False, s))"

definition equeue_cancel_user_allocated ::
    "'u platform \<Rightarrow> u32 \<Rightarrow> u32 \<Rightarrow> 'u equeue \<Rightarrow> (bool \<times> 'u equeue) option" where
  "equeue_cancel_user_allocated P q e s =
     (if e = 0 then Some (False, s)
      else case equeue_unqueue_by_address q e s of
          (Some e, s) \<Rightarrow> do { s \<leftarrow> equeue_dealloc P q (e + event_size) s; Some (True, s) }
        | (None, s) \<Rightarrow> Some (False, s))"

definition equeue_timeleft :: "u32 \<Rightarrow> u32 \<Rightarrow> 'u equeue \<Rightarrow> u32 \<times> 'u equeue" where
  "equeue_timeleft q i s =
     (if i = 0 then (- 1, s)
      else if id_matches q i s
      then let (tick, s) = equeue_tick s in (equeue_clampdiff (e_target s (event_of_id q i s)) tick, s)
      else (- 1, s))"

definition equeue_timeleft_user_allocated :: "u32 \<Rightarrow> u32 \<Rightarrow> 'u equeue \<Rightarrow> u32 \<times> 'u equeue" where
  "equeue_timeleft_user_allocated q e s =
     (if e = 0 then (- 1, s)
      else let (tick, s) = equeue_tick s in (equeue_clampdiff (e_target s e) tick, s))"

definition equeue_break :: "u32 \<Rightarrow> 'u equeue \<Rightarrow> 'u equeue" where
  "equeue_break q s = equeue_sema_signal q (s\<lparr>eq_break := (eq_break s)(q := True)\<rparr>)"

definition equeue_event_delay :: "u32 \<Rightarrow> u32 \<Rightarrow> 'u equeue \<Rightarrow> 'u equeue" where
  "equeue_event_delay p ms s = s\<lparr>e_target := (e_target s)(p - event_size := ms)\<rparr>"

definition equeue_event_period :: "u32 \<Rightarrow> u32 \<Rightarrow> 'u equeue \<Rightarrow> 'u equeue" where
  "equeue_event_period p ms s = s\<lparr>e_period := (e_period s)(p - event_size := ms)\<rparr>"

definition equeue_event_dtor :: "u32 \<Rightarrow> func option \<Rightarrow> 'u equeue \<Rightarrow> 'u equeue" where
  "equeue_event_dtor p dtor s = s\<lparr>e_dtor := (e_dtor s)(p - event_size := dtor)\<rparr>"

section \<open>Dispatching\<close>

text \<open>What happens to an event after its call-back: a periodic one waits again, others are freed.\<close>

definition finish_event :: "'u platform \<Rightarrow> u32 \<Rightarrow> u32 \<Rightarrow> 'u equeue \<Rightarrow> 'u equeue option" where
  "finish_event P q e s =
     (if 0 \<le> sint (e_period s e)
      then let s = s\<lparr>e_target := (e_target s)(e := e_target s e + e_period s e)\<rparr>;
               (tick, s) = equeue_tick s
           in equeue_enqueue P q e tick s
      else equeue_dealloc P q (e + event_size) (equeue_incid q e s))"

partial_function (option) dispatch_events ::
    "'u platform \<Rightarrow> u32 \<Rightarrow> u32 option \<Rightarrow> 'u equeue \<Rightarrow> 'u equeue option" where
  "dispatch_events P q es s =
     (case es of None \<Rightarrow> Some s
      | Some e \<Rightarrow>
          let es = e_next s e in do {
            s \<leftarrow> (case e_cb s e of None \<Rightarrow> Some s | Some cb \<Rightarrow> call_cb P cb (e + event_size) s);
            s \<leftarrow> finish_event P q e s;
            dispatch_events P q es s
          })"

definition stop_dispatch :: "'u platform \<Rightarrow> u32 \<Rightarrow> u32 \<Rightarrow> 'u equeue \<Rightarrow> 'u equeue option" where
  "stop_dispatch P q tick s = do {
     s \<leftarrow> (case bg_update s q of None \<Rightarrow> Some s
        | Some f \<Rightarrow> do {
            s \<leftarrow> (case eq_queue s q of None \<Rightarrow> Some s
               | Some e \<Rightarrow> call_update P f (bg_timer s q) (equeue_clampdiff (e_target s e) tick) s);
            Some (s\<lparr>bg_active := (bg_active s)(q := True)\<rparr>) });
     Some (s\<lparr>eq_break := (eq_break s)(q := False)\<rparr>)
   }"

definition closest_deadline :: "u32 \<Rightarrow> u32 \<Rightarrow> u32 \<Rightarrow> 'u equeue \<Rightarrow> u32" where
  "closest_deadline q tick deadline s =
     (case eq_queue s q of None \<Rightarrow> deadline
      | Some e \<Rightarrow>
          let diff = equeue_clampdiff (e_target s e) tick in if diff < deadline then diff else deadline)"

partial_function (option) dispatch_loop ::
    "'u platform \<Rightarrow> u32 \<Rightarrow> u32 \<Rightarrow> u32 \<Rightarrow> u32 \<Rightarrow> 'u equeue \<Rightarrow> 'u equeue option" where
  "dispatch_loop P q ms timeout tick s = do {
     (es, s) \<leftarrow> equeue_dequeue q tick s;
     s \<leftarrow> dispatch_events P q es s;
     let (tick, s) = equeue_tick s;
     if 0 \<le> sint ms \<and> equeue_tickdiff timeout tick \<le> 0 then stop_dispatch P q tick s
     else do {
       let deadline = closest_deadline q tick (if 0 \<le> sint ms then timeout - tick else - 1) s;
       s \<leftarrow> equeue_sema_wait P q deadline s;
       if eq_break s q then Some (s\<lparr>eq_break := (eq_break s)(q := False)\<rparr>)
       else let (tick, s) = equeue_tick s in dispatch_loop P q ms timeout tick s
     }
   }"

definition equeue_dispatch :: "'u platform \<Rightarrow> u32 \<Rightarrow> u32 \<Rightarrow> 'u equeue \<Rightarrow> 'u equeue option" where
  "equeue_dispatch P q ms s =
     (let (tick, s) = equeue_tick s
      in dispatch_loop P q ms (tick + ms) tick (s\<lparr>bg_active := (bg_active s)(q := False)\<rparr>))"

section \<open>Simple call-backs\<close>

definition ecallback_dispatch :: "'u platform \<Rightarrow> u32 \<Rightarrow> 'u equeue \<Rightarrow> 'u equeue option" where
  "ecallback_dispatch P p s =
     (case ec_cb s p of None \<Rightarrow> None | Some f \<Rightarrow> call_cb P f (ec_data s p) s)"

text \<open>
  The three calls differ in the delay and period they set; the code passes
  \<open>sizeof(struct ecallback)\<close>, 8 bytes.
\<close>

definition post_callback ::
    "'u platform \<Rightarrow> u32 \<Rightarrow> (u32 \<Rightarrow> 'u equeue \<Rightarrow> 'u equeue) \<Rightarrow> func option \<Rightarrow> u32 \<Rightarrow> 'u equeue
       \<Rightarrow> (u32 \<times> 'u equeue) option" where
  "post_callback P q setup cb data s = do {
     (p, s) \<leftarrow> equeue_alloc q 8 s;
     case p of
       None \<Rightarrow> Some (0, s)
     | Some p \<Rightarrow>
         let s = setup p s;
             s = s\<lparr>ec_cb := (ec_cb s)(p := cb), ec_data := (ec_data s)(p := data)\<rparr>
         in equeue_post P q (Some Ecallback_dispatch) p s
   }"

definition equeue_call ::
    "'u platform \<Rightarrow> u32 \<Rightarrow> func option \<Rightarrow> u32 \<Rightarrow> 'u equeue \<Rightarrow> (u32 \<times> 'u equeue) option" where
  "equeue_call P q cb data s = post_callback P q (\<lambda>p s. s) cb data s"

definition equeue_call_in ::
    "'u platform \<Rightarrow> u32 \<Rightarrow> u32 \<Rightarrow> func option \<Rightarrow> u32 \<Rightarrow> 'u equeue \<Rightarrow> (u32 \<times> 'u equeue) option" where
  "equeue_call_in P q ms cb data s = post_callback P q (\<lambda>p. equeue_event_delay p ms) cb data s"

definition equeue_call_every ::
    "'u platform \<Rightarrow> u32 \<Rightarrow> u32 \<Rightarrow> func option \<Rightarrow> u32 \<Rightarrow> 'u equeue \<Rightarrow> (u32 \<times> 'u equeue) option" where
  "equeue_call_every P q ms cb data s =
     post_callback P q (\<lambda>p s. equeue_event_period p ms (equeue_event_delay p ms s)) cb data s"

section \<open>Background timers and chained queues\<close>

definition equeue_background ::
    "'u platform \<Rightarrow> u32 \<Rightarrow> timer_func option \<Rightarrow> u32 \<Rightarrow> 'u equeue \<Rightarrow> 'u equeue option" where
  "equeue_background P q update timer s = do {
     s \<leftarrow> (case bg_update s q of None \<Rightarrow> Some s | Some f \<Rightarrow> call_update P f (bg_timer s q) (- 1) s);
     let s = s\<lparr>bg_update := (bg_update s)(q := update), bg_timer := (bg_timer s)(q := timer)\<rparr>;
     s \<leftarrow> (case (update, eq_queue s q) of
         (Some f, Some e) \<Rightarrow>
           let (tick, s) = equeue_tick s
           in call_update P f (bg_timer s q) (equeue_clampdiff (e_target s e) tick) s
       | _ \<Rightarrow> Some s);
     Some (s\<lparr>bg_active := (bg_active s)(q := True)\<rparr>)
   }"

definition equeue_chain_dispatch :: "'u platform \<Rightarrow> u32 \<Rightarrow> 'u equeue \<Rightarrow> 'u equeue option" where
  "equeue_chain_dispatch P p s = equeue_dispatch P p 0 s"

definition equeue_chain_update :: "'u platform \<Rightarrow> u32 \<Rightarrow> u32 \<Rightarrow> 'u equeue \<Rightarrow> 'u equeue option" where
  "equeue_chain_update P c ms s = do {
     (_, s) \<leftarrow> equeue_cancel P (ctx_target s c) (ctx_id s c) s;
     if 0 \<le> sint ms
     then do {
       (i, s) \<leftarrow> equeue_call_in P (ctx_target s c) ms (Some Equeue_chain_dispatch) (ctx_q s c) s;
       Some (s\<lparr>ctx_id := (ctx_id s)(c := i)\<rparr>)
     }
     else equeue_dealloc P (ctx_q s c) c s
   }"

text \<open>\<open>target = 0\<close> is the null pointer; \<open>struct equeue_chain_context\<close> has 12 bytes.\<close>

definition equeue_chain :: "'u platform \<Rightarrow> u32 \<Rightarrow> u32 \<Rightarrow> 'u equeue \<Rightarrow> (u32 \<times> 'u equeue) option" where
  "equeue_chain P q target s =
     (if target = 0 then do { s \<leftarrow> equeue_background P q None 0 s; Some (0, s) }
      else do {
        (c, s) \<leftarrow> equeue_alloc q 12 s;
        case c of
          None \<Rightarrow> Some (- 1, s)
        | Some c \<Rightarrow> do {
            let s = s\<lparr>ctx_q := (ctx_q s)(c := q), ctx_target := (ctx_target s)(c := target),
                      ctx_id := (ctx_id s)(c := 0)\<rparr>;
            s \<leftarrow> equeue_background P q (Some Equeue_chain_update) c s;
            Some (0, s)
          }
      })"

text \<open>
  A program linked with the library: the functions of the library that are called by pointer get
  their code, all others are those of the user. The number bounds how deep such calls nest.
\<close>

primrec linked :: "nat \<Rightarrow> 'u platform \<Rightarrow> 'u platform" where
  "linked 0 U = \<lparr>call_cb = \<lambda>f p s. None, call_update = \<lambda>f p ms s. None, wait_event = wait_event U\<rparr>"
| "linked (Suc n) U =
     \<lparr>call_cb = \<lambda>f p s. (case f of
         Ecallback_dispatch \<Rightarrow> ecallback_dispatch (linked n U) p s
       | Equeue_chain_dispatch \<Rightarrow> equeue_chain_dispatch (linked n U) p s
       | User_Function _ \<Rightarrow> call_cb U f p s),
      call_update = \<lambda>f p ms s. (case f of
         Equeue_chain_update \<Rightarrow> equeue_chain_update (linked n U) p ms s
       | User_Update _ \<Rightarrow> call_update U f p ms s),
      wait_event = wait_event U\<rparr>"

text \<open>The loops are executable.\<close>

declare destroy_siblings.simps [code] destroy_slots.simps [code] find_chunk.simps [code]
  chunk_slot.simps [code] event_slot.simps [code] expired_end.simps [code] reverse_slot.simps [code]
  flatten_slots.simps [code] dispatch_events.simps [code] dispatch_loop.simps [code]

end
