(* ===== verification/Equeue_List.thy ===== *)
theory Equeue_List
  imports Equeue
begin

text \<open>
  The list of slots of an event queue (events/source/equeue.c) as a list of lists, and what
  linking, unlinking and collecting events do to it.
\<close>

section \<open>Slots\<close>

text \<open>
  \<open>sibs\<close> is a slot from its newest event on, with the pointers back to the places that point to
  each event; \<open>segs\<close> is a sequence of slots up to the pointer \<open>r\<close>. Only the first event of
  a slot has a next one.
\<close>

fun sibs :: "u32 link \<Rightarrow> (u32 \<Rightarrow> place) \<Rightarrow> place \<Rightarrow> u32 option \<Rightarrow> u32 list \<Rightarrow> bool" where
  "sibs sb rf pl p [] = (p = None)"
| "sibs sb rf pl p (x # xs) = (p = Some x \<and> rf x = pl \<and> sibs sb rf (Sibling_Of x) (sb x) xs)"

fun segs :: "u32 link \<Rightarrow> u32 link \<Rightarrow> (u32 \<Rightarrow> place) \<Rightarrow> place \<Rightarrow> u32 option \<Rightarrow> u32 list list \<Rightarrow> u32 option \<Rightarrow> bool" where
  "segs nx sb rf pl p [] r = (p = r)"
| "segs nx sb rf pl p (xs # ss) r =
     (xs \<noteq> [] \<and> sibs sb rf pl p xs \<and> (\<forall>y\<in>set (tl xs). nx y = None) \<and>
      segs nx sb rf (Next_Of (hd xs)) (nx (hd xs)) ss r)"

definition place_after :: "place \<Rightarrow> u32 list list \<Rightarrow> place" where
  "place_after pl ss = (if ss = [] then pl else Next_Of (hd (last ss)))"

lemma place_after_simps [simp]: "place_after pl [] = pl"
  "place_after pl (xs # ss) = place_after (Next_Of (hd xs)) ss"
  "place_after pl (ss @ [xs]) = Next_Of (hd xs)"
  by (auto simp: place_after_def)

lemma sibs_cong:
  "(\<And>x. x \<in> set xs \<Longrightarrow> sb' x = sb x) \<Longrightarrow> (\<And>x. x \<in> set xs \<Longrightarrow> rf' x = rf x) \<Longrightarrow>
   sibs sb' rf' pl p xs = sibs sb rf pl p xs"
  by (induction xs arbitrary: pl p) auto

lemma segs_cong:
  "(\<And>x. x \<in> set (concat ss) \<Longrightarrow> nx' x = nx x) \<Longrightarrow> (\<And>x. x \<in> set (concat ss) \<Longrightarrow> sb' x = sb x) \<Longrightarrow>
   (\<And>x. x \<in> set (concat ss) \<Longrightarrow> rf' x = rf x) \<Longrightarrow>
   segs nx' sb' rf' pl p ss r = segs nx sb rf pl p ss r"
proof (induction ss arbitrary: pl p)
  case (Cons xs ss)
  have "sibs sb' rf' pl p xs = sibs sb rf pl p xs" using Cons.prems by (intro sibs_cong) auto
  moreover have "xs \<noteq> [] \<Longrightarrow> nx' (hd xs) = nx (hd xs)" using Cons.prems(1) by simp
  moreover have "\<And>y. y \<in> set (tl xs) \<Longrightarrow> nx' y = nx y" using Cons.prems(1) by (cases xs) auto
  ultimately show ?case using Cons.IH [of "Next_Of (hd xs)" "nx (hd xs)"] Cons.prems by auto
qed simp

lemma segs_append:
  "segs nx sb rf pl p (as @ bs) r \<longleftrightarrow>
   (\<exists>m. segs nx sb rf pl p as m \<and> segs nx sb rf (place_after pl as) m bs r)"
  by (induction as arbitrary: pl p) auto

lemma sibs_head: "sibs sb rf pl p xs \<Longrightarrow> xs \<noteq> [] \<Longrightarrow> p = Some (hd xs) \<and> rf (hd xs) = pl"
  by (cases xs) auto

lemma segs_head: "segs nx sb rf pl p (xs # ss) r \<Longrightarrow> p = Some (hd xs) \<and> xs \<noteq> [] \<and> rf (hd xs) = pl"
  using sibs_head by auto

lemma segs_nonempty: "segs nx sb rf pl p ss r \<Longrightarrow> xs \<in> set ss \<Longrightarrow> xs \<noteq> []"
  by (induction ss arbitrary: pl p) auto

lemma segs_value:
  "segs nx sb rf (Queue_Of q) p as r \<Longrightarrow> r = (if as = [] then p else nx (hd (last as)))"
proof (induction as arbitrary: r rule: rev_induct)
  case (snoc xs as)
  then show ?case by (auto simp: segs_append)
qed simp

lemma segs_relink:
  assumes "segs nx sb rf pl p as r" and "distinct (concat as)" and "as \<noteq> []" and "t = hd (last as)"
  shows "segs (nx(t := r')) sb rf pl p as r'"
proof -
  obtain us xs where as: "as = us @ [xs]" using assms(3) by (metis rev_exhaust)
  have u: "segs nx sb rf pl p us (Some (hd xs))" "xs \<noteq> []" "sibs sb rf (place_after pl us) (Some (hd xs)) xs"
    "\<forall>y\<in>set (tl xs). nx y = None"
    using assms(1) as sibs_head by (auto simp: segs_append)
  have t: "t = hd xs" "t \<notin> set (concat us)" "t \<notin> set (tl xs)"
    using assms as u(2) by (auto simp: neq_Nil_conv)
  have "segs (nx(t := r')) sb rf pl p us (Some (hd xs)) = segs nx sb rf pl p us (Some (hd xs))"
    by (rule segs_cong) (use t in auto)
  then show ?thesis using u t as by (auto simp: segs_append)
qed

text \<open>\<open>holds s q ss\<close>: the slots \<open>ss\<close> wait in the queue \<open>q\<close>.\<close>

definition holds :: "'u equeue \<Rightarrow> u32 \<Rightarrow> u32 list list \<Rightarrow> bool" where
  "holds s q ss \<longleftrightarrow>
     segs (e_next s) (e_sibling s) (e_ref s) (Queue_Of q) (eq_queue s q) ss None \<and> distinct (concat ss)"

abbreviation behind :: "u32 \<Rightarrow> u32 list list \<Rightarrow> place" where
  "behind q ss \<equiv> place_after (Queue_Of q) ss"

lemma deref_behind:
  assumes "segs (e_next s) sb rf (Queue_Of q) (eq_queue s q) as r"
  shows "deref s (behind q as) = r"
  using segs_value [OF assms] by (simp add: place_after_def)

lemma holds_split:
  assumes "holds s q (as @ bs)"
  obtains r where "segs (e_next s) (e_sibling s) (e_ref s) (Queue_Of q) (eq_queue s q) as r"
    and "segs (e_next s) (e_sibling s) (e_ref s) (behind q as) r bs None"
    and "deref s (behind q as) = r"
    and "r = (case bs of [] \<Rightarrow> None | xs # _ \<Rightarrow> Some (hd xs))"
    and "distinct (concat as)" "distinct (concat bs)" "set (concat as) \<inter> set (concat bs) = {}"
proof -
  obtain r where r: "segs (e_next s) (e_sibling s) (e_ref s) (Queue_Of q) (eq_queue s q) as r"
    "segs (e_next s) (e_sibling s) (e_ref s) (behind q as) r bs None"
    using assms by (auto simp: holds_def segs_append)
  moreover have "deref s (behind q as) = r" using r(1) by (rule deref_behind)
  moreover have "r = (case bs of [] \<Rightarrow> None | xs # _ \<Rightarrow> Some (hd xs))"
    using r(2) segs_head by (cases bs) auto
  moreover have "distinct (concat as)" "distinct (concat bs)" "set (concat as) \<inter> set (concat bs) = {}"
    using assms by (auto simp: holds_def)
  ultimately show ?thesis using that by blast
qed

section \<open>Linking an event\<close>

lemma set_ref_fields [simp]:
  "e_next (set_ref x p s) = e_next s" "e_sibling (set_ref x p s) = e_sibling s" "eq_queue (set_ref x p s) = eq_queue s"
  "e_ref (set_ref x p s) = (case x of None \<Rightarrow> e_ref s | Some y \<Rightarrow> (e_ref s)(y := p))"
  by (auto simp: set_ref_def split: option.splits)

text \<open>The front of the list when the pointer behind it is set to \<open>Some e\<close>.\<close>

lemma front_assign:
  assumes "segs (e_next s) sb rf (Queue_Of q) (eq_queue s q) as r" and "distinct (concat as)"
    and nx: "\<And>x. x \<in> set (concat as) \<Longrightarrow> e_next s' x = e_next s x"
    and sb: "\<And>x. x \<in> set (concat as) \<Longrightarrow> sb' x = sb x" and rf: "\<And>x. x \<in> set (concat as) \<Longrightarrow> rf' x = rf x"
    and q: "eq_queue s' q = eq_queue s q"
  shows "segs (e_next (assign (behind q as) v s')) sb' rf' (Queue_Of q)
    (eq_queue (assign (behind q as) v s') q) as v"
proof (cases "as = []")
  case False
  define t where "t = hd (last as)"
  have "segs ((e_next s)(t := v)) sb rf (Queue_Of q) (eq_queue s q) as v"
    by (rule segs_relink [OF assms(1,2) False t_def])
  also have "segs ((e_next s)(t := v)) sb rf (Queue_Of q) (eq_queue s q) as v =
    segs ((e_next s')(t := v)) sb' rf' (Queue_Of q) (eq_queue s q) as v"
    using nx sb rf by (intro segs_cong [symmetric]) auto
  finally show ?thesis using False q by (simp add: place_after_def t_def)
qed simp

lemma assign_frame [simp]:
  "e_sibling (assign (behind q as) v s) = e_sibling s" "e_ref (assign (behind q as) v s) = e_ref s"
  by (cases "as = []"; simp add: place_after_def)+

lemma assign_next: "x \<notin> set (concat as) \<Longrightarrow> \<forall>xs\<in>set as. xs \<noteq> [] \<Longrightarrow>
    e_next (assign (behind q as) v s) x = e_next s x"
  by (cases as rule: rev_cases) auto

lemma link_event_new:
  assumes h: "holds s q (as @ bs)" and e: "e \<notin> set (concat (as @ bs))"
    and new: "\<And>xs cs. bs = xs # cs \<Longrightarrow> e_target s (hd xs) \<noteq> e_target s e"
  shows "holds (link_event e (behind q as) s) q (as @ [e] # bs)"
    and "\<And>x. x \<noteq> e \<Longrightarrow> x \<notin> set (concat (as @ bs)) \<Longrightarrow>
      e_next (link_event e (behind q as) s) x = e_next s x \<and> e_sibling (link_event e (behind q as) s) x = e_sibling s x"
proof -
  obtain r where r: "segs (e_next s) (e_sibling s) (e_ref s) (Queue_Of q) (eq_queue s q) as r"
    "segs (e_next s) (e_sibling s) (e_ref s) (behind q as) r bs None"
    "deref s (behind q as) = r" "r = (case bs of [] \<Rightarrow> None | xs # _ \<Rightarrow> Some (hd xs))"
    and d: "distinct (concat as)" "distinct (concat bs)" "set (concat as) \<inter> set (concat bs) = {}"
    using h by (rule holds_split)
  have ne: "\<forall>xs\<in>set as. xs \<noteq> []" "\<And>xs cs. bs = xs # cs \<Longrightarrow> xs \<noteq> []"
    using segs_nonempty [OF r(1)] segs_nonempty [OF r(2)] by auto
  define s1 where "s1 = (set_ref r (Next_Of e) (s\<lparr>e_next := (e_next s)(e := r)\<rparr>))\<lparr>e_sibling := (e_sibling s)(e := None)\<rparr>"
  have link: "link_event e (behind q as) s = set_ref (Some e) (behind q as) (assign (behind q as) (Some e) s1)"
    using r(3,4) new unfolding link_event_def s1_def
    by (auto simp: set_ref_def Let_def split: option.splits list.splits)
  have s1: "e_next s1 = (e_next s)(e := r)" "e_sibling s1 = (e_sibling s)(e := None)" "eq_queue s1 = eq_queue s"
    "e_ref s1 = (case r of None \<Rightarrow> e_ref s | Some x \<Rightarrow> (e_ref s)(x := Next_Of e))"
    by (auto simp: s1_def set_ref_def split: option.splits)
  let ?s = "link_event e (behind q as) s"
  have rx: "x \<in> set (concat bs)" if "r = Some x" for x using r(4) ne(2) that by (auto split: list.splits)
  have front: "segs (e_next ?s) (e_sibling ?s) (e_ref ?s) (Queue_Of q) (eq_queue ?s q) as (Some e)"
    unfolding link set_ref_fields assign_frame
    by (rule front_assign [OF r(1) d(1)]) (use e d(3) rx in \<open>auto simp: s1 split: option.splits\<close>)
  have tail: "segs (e_next ?s) (e_sibling ?s) (e_ref ?s) (Next_Of e) r bs None"
  proof (cases bs)
    case Nil
    then show ?thesis using r(4) by simp
  next
    case (Cons xs cs)
    have rr: "r = Some (hd xs)" using r(4) Cons by simp
    have off: "y \<notin> set (concat as)" "y \<noteq> e" if "y \<in> set (concat bs)" for y using that d(3) e by auto
    have nx: "e_next ?s y = e_next s y" if "y \<in> set (concat bs)" for y
      unfolding link using off [OF that] by (simp add: assign_next [OF off(1) [OF that] ne(1)] s1 del: set_concat)
    have sb: "e_sibling ?s y = e_sibling s y" if "y \<in> set (concat bs)" for y
      unfolding link using off [OF that] by (simp add: s1 del: set_concat)
    have rf: "e_ref ?s y = (if y = hd xs then Next_Of e else e_ref s y)" if "y \<in> set (concat bs)" for y
      unfolding link using off [OF that] rr by (simp add: s1 del: set_concat)
    obtain z zs where xs: "xs = z # zs" using ne(2) [OF Cons] by (cases xs) auto
    have b: "sibs (e_sibling s) (e_ref s) (behind q as) (Some z) (z # zs)" "\<forall>y\<in>set zs. e_next s y = None"
      "segs (e_next s) (e_sibling s) (e_ref s) (Next_Of z) (e_next s z) cs None"
      using r(2) rr Cons xs by simp_all
    have dz: "z \<notin> set zs" "z \<notin> set (concat cs)" using d(2) Cons xs by auto
    have "sibs (e_sibling ?s) (e_ref ?s) (Sibling_Of z) (e_sibling s z) zs"
      using b(1) dz sb rf Cons xs by (subst sibs_cong [where sb = "e_sibling s" and rf = "e_ref s"]) auto
    moreover have "segs (e_next ?s) (e_sibling ?s) (e_ref ?s) (Next_Of z) (e_next s z) cs None"
      using b(3) dz nx sb rf Cons xs
      by (subst segs_cong [where sb = "e_sibling s" and rf = "e_ref s" and nx = "e_next s"]) auto
    ultimately show ?thesis using b(2) nx sb rf Cons xs rr by simp
  qed
  have own: "e_next ?s e = r" "e_sibling ?s e = None" "e_ref ?s e = behind q as"
    unfolding link using e by (simp_all add: assign_next [OF _ ne(1)] s1)
  show "holds ?s q (as @ [e] # bs)" using front tail own e d by (auto simp: holds_def segs_append)
  show "e_next ?s x = e_next s x \<and> e_sibling ?s x = e_sibling s x" if "x \<noteq> e" "x \<notin> set (concat (as @ bs))" for x
    unfolding link using that by (simp add: assign_next [OF _ ne(1)] s1)
qed

lemma link_event_join:
  assumes h: "holds s q (as @ xs # bs)" and e: "e \<notin> set (concat (as @ xs # bs))"
    and same: "e_target s (hd xs) = e_target s e"
  shows "holds (link_event e (behind q as) s) q (as @ (e # xs) # bs)"
    and "\<And>x. x \<noteq> e \<Longrightarrow> x \<notin> set (concat (as @ xs # bs)) \<Longrightarrow>
      e_next (link_event e (behind q as) s) x = e_next s x \<and> e_sibling (link_event e (behind q as) s) x = e_sibling s x"
proof -
  obtain r where r: "segs (e_next s) (e_sibling s) (e_ref s) (Queue_Of q) (eq_queue s q) as r"
    "segs (e_next s) (e_sibling s) (e_ref s) (behind q as) r (xs # bs) None"
    "deref s (behind q as) = r" "r = Some (hd xs)"
    and d: "distinct (concat as)" "distinct (concat (xs # bs))" "set (concat as) \<inter> set (concat (xs # bs)) = {}"
    by (rule holds_split [OF h]) simp
  obtain z zs where xs: "xs = z # zs" using r(2) by (cases xs) auto
  have ne: "\<forall>ys\<in>set as. ys \<noteq> []" "\<And>ys cs. bs = ys # cs \<Longrightarrow> ys \<noteq> []"
    using segs_nonempty [OF r(1)] segs_nonempty [OF r(2)] by auto
  define n where "n = e_next s z"
  have n: "n = (case bs of [] \<Rightarrow> None | ys # _ \<Rightarrow> Some (hd ys))"
    using r(2) segs_head xs n_def by (cases bs) auto
  define s1 where "s1 = set_ref (Some z) (Sibling_Of e) ((set_ref n (Next_Of e) (s\<lparr>e_next := (e_next s)(e := n)\<rparr>))
    \<lparr>e_sibling := (e_sibling s)(e := Some z), e_next := (e_next s)(e := n, z := None)\<rparr>)"
  have ez: "e \<noteq> z" using e xs by auto
  have link: "link_event e (behind q as) s = set_ref (Some e) (behind q as) (assign (behind q as) (Some e) s1)"
    using r(3,4) same ez xs unfolding link_event_def s1_def n_def
    by (simp add: set_ref_def Let_def split: option.splits)
  have s1: "e_next s1 = (e_next s)(e := n, z := None)" "e_sibling s1 = (e_sibling s)(e := Some z)"
    "e_ref s1 = (case n of None \<Rightarrow> e_ref s | Some x \<Rightarrow> (e_ref s)(x := Next_Of e))(z := Sibling_Of e)"
    "eq_queue s1 = eq_queue s"
    by (simp_all add: s1_def split: option.split)
  let ?s = "link_event e (behind q as) s"
  have nx: "x \<in> set (concat bs)" if "n = Some x" for x using n ne(2) that by (auto split: list.splits)
  have front: "segs (e_next ?s) (e_sibling ?s) (e_ref ?s) (Queue_Of q) (eq_queue ?s q) as (Some e)"
    unfolding link set_ref_fields assign_frame
    by (rule front_assign [OF r(1) d(1)]) (use e d(3) nx xs in \<open>auto simp: s1 split: option.splits\<close>)
  have off: "y \<notin> set (concat as)" "y \<noteq> e" if "y \<in> set (concat (xs # bs))" for y using that d(3) e by auto
  have fields: "e_next ?s y = (if y = z then None else e_next s y)" "e_sibling ?s y = e_sibling s y"
    "e_ref ?s y = (if y = z then Sibling_Of e else if n = Some y then Next_Of e else e_ref s y)"
    if "y \<in> set (concat (xs # bs))" for y
    unfolding link using off [OF that]
    by (simp_all add: assign_next [OF off(1) [OF that] ne(1)] s1 del: set_concat split: option.splits)
  have own: "e_next ?s e = n" "e_sibling ?s e = Some z" "e_ref ?s e = behind q as"
    unfolding link using e ez by (simp_all add: assign_next [OF _ ne(1)] s1)
  have b: "sibs (e_sibling s) (e_ref s) (Sibling_Of z) (e_sibling s z) zs" "\<forall>y\<in>set zs. e_next s y = None"
    "segs (e_next s) (e_sibling s) (e_ref s) (Next_Of z) n bs None"
    using r(2) r(4) xs n_def by simp_all
  have dz: "z \<notin> set zs" "z \<notin> set (concat bs)" "set zs \<inter> set (concat bs) = {}" "distinct (concat bs)"
    using d(2) xs by auto
  have "sibs (e_sibling ?s) (e_ref ?s) (Sibling_Of z) (e_sibling s z) zs"
    using b(1) dz nx fields xs by (subst sibs_cong [where sb = "e_sibling s" and rf = "e_ref s"]) auto
  then have "sibs (e_sibling ?s) (e_ref ?s) (behind q as) (Some e) (e # xs)" "\<forall>y\<in>set xs. e_next ?s y = None"
    using own fields xs b(2) by auto
  moreover have "segs (e_next ?s) (e_sibling ?s) (e_ref ?s) (Next_Of e) n bs None"
  proof (cases bs)
    case Nil
    then show ?thesis using n by simp
  next
    case (Cons ys cs)
    obtain w ws where ys: "ys = w # ws" using ne(2) [OF Cons] by (cases ys) auto
    have nw: "n = Some w" using n Cons ys by simp
    have w: "sibs (e_sibling s) (e_ref s) (Sibling_Of w) (e_sibling s w) ws" "\<forall>y\<in>set ws. e_next s y = None"
      "segs (e_next s) (e_sibling s) (e_ref s) (Next_Of w) (e_next s w) cs None"
      using b(3) Cons ys by simp_all
    have dw: "w \<notin> set ws" "w \<notin> set (concat cs)" "z \<noteq> w" "z \<notin> set ws" "z \<notin> set (concat cs)"
      using dz Cons ys by auto
    have "sibs (e_sibling ?s) (e_ref ?s) (Sibling_Of w) (e_sibling s w) ws"
      using w(1) dw fields nw Cons ys by (subst sibs_cong [where sb = "e_sibling s" and rf = "e_ref s"]) auto
    moreover have "segs (e_next ?s) (e_sibling ?s) (e_ref ?s) (Next_Of w) (e_next s w) cs None"
      using w(3) dw fields nw Cons ys
      by (subst segs_cong [where sb = "e_sibling s" and rf = "e_ref s" and nx = "e_next s"]) auto
    ultimately show ?thesis using w(2) dw fields nw Cons ys by auto
  qed
  ultimately show "holds ?s q (as @ (e # xs) # bs)"
    using front own e d by (auto simp: holds_def segs_append)
  show "e_next ?s x = e_next s x \<and> e_sibling ?s x = e_sibling s x" if "x \<noteq> e" "x \<notin> set (concat (as @ xs # bs))" for x
    unfolding link using that xs by (auto simp: assign_next [OF _ ne(1)] s1)
qed

section \<open>Unlinking an event\<close>

lemma sibs_inner:
  "sibs sb rf pl p (us @ e # vs) \<Longrightarrow> us \<noteq> [] \<Longrightarrow>
   rf e = Sibling_Of (last us) \<and> sb e = (case vs of [] \<Rightarrow> None | b # _ \<Rightarrow> Some b)"
proof (induction us arbitrary: pl p)
  case (Cons u us)
  show ?case
  proof (cases "us = []")
    case True
    then have "rf e = Sibling_Of u" "sibs sb rf (Sibling_Of e) (sb e) vs" using Cons.prems(1) by simp_all
    then show ?thesis using True by (cases vs) simp_all
  next
    case False
    then show ?thesis using Cons.IH [of "Sibling_Of u" "sb u"] Cons.prems(1) by simp
  qed
qed simp

lemma sibs_remove:
  assumes "sibs sb rf pl p (us @ e # vs)" and "us \<noteq> []" and "distinct (us @ e # vs)"
  shows "sibs (sb(last us := sb e)) (case sb e of None \<Rightarrow> rf | Some b \<Rightarrow> rf(b := Sibling_Of (last us))) pl p (us @ vs)"
  using assms
proof (induction us arbitrary: pl p)
  case (Cons u us)
  have vs: "sibs sb rf (Sibling_Of e) (sb e) vs" "sb e = (case vs of [] \<Rightarrow> None | b # _ \<Rightarrow> Some b)"
    if "sibs sb rf (Sibling_Of u) (Some e) (e # vs)" for u using that by (auto split: list.splits)
  show ?case
  proof (cases "us = []")
    case True
    then have s: "sibs sb rf (Sibling_Of e) (sb e) vs" "p = Some u" "rf u = pl" using Cons.prems by auto
    show ?thesis
    proof (cases vs)
      case (Cons b ws)
      then have "sibs (sb(u := Some b)) (rf(b := Sibling_Of u)) (Sibling_Of b) (sb b) ws = sibs sb rf (Sibling_Of b) (sb b) ws"
        using Cons.prems True by (intro sibs_cong) auto
      then show ?thesis using s True Cons Cons.prems(3) by (auto simp: fun_upd_def)
    qed (use s True in auto)
  next
    case False
    have "sibs (sb(last us := sb e)) (case sb e of None \<Rightarrow> rf | Some b \<Rightarrow> rf(b := Sibling_Of (last us)))
        (Sibling_Of u) (sb u) (us @ vs)"
      by (rule Cons.IH) (use Cons.prems False in simp_all)
    moreover have "u \<noteq> last us" "sb e \<noteq> Some u"
      using False Cons.prems(3) sibs_inner [OF Cons.prems(1)] by (auto split: list.splits)
    ultimately show ?thesis using False Cons.prems(1) by (cases "sb e") (simp_all add: fun_upd_def)
  qed
qed simp

lemma unlink_inner:
  assumes h: "holds s q (as @ (us @ e # vs) # bs)" and us: "us \<noteq> []"
  shows "holds (unlink_event e s) q (as @ (us @ vs) # bs)"
    and "\<And>x. e_next (unlink_event e s) x = e_next s x"
    and "\<And>x. x \<notin> set us \<Longrightarrow> e_sibling (unlink_event e s) x = e_sibling s x"
proof -
  obtain r where r: "segs (e_next s) (e_sibling s) (e_ref s) (Queue_Of q) (eq_queue s q) as r"
    "segs (e_next s) (e_sibling s) (e_ref s) (behind q as) r ((us @ e # vs) # bs) None"
    and d: "distinct (concat as)" "distinct (concat ((us @ e # vs) # bs))"
      "set (concat as) \<inter> set (concat ((us @ e # vs) # bs)) = {}"
    by (rule holds_split [OF h]) simp
  have x: "sibs (e_sibling s) (e_ref s) (behind q as) r (us @ e # vs)"
    "\<forall>y\<in>set (tl us @ e # vs). e_next s y = None"
    "segs (e_next s) (e_sibling s) (e_ref s) (Next_Of (hd us)) (e_next s (hd us)) bs None"
    using r(2) us by (auto simp: tl_append split: list.splits)
  have e: "e_ref s e = Sibling_Of (last us)" "e_sibling s e = (case vs of [] \<Rightarrow> None | b # _ \<Rightarrow> Some b)"
    using sibs_inner [OF x(1) us] by simp_all
  let ?s = "unlink_event e s"
  have fields: "e_sibling ?s = (e_sibling s)(last us := e_sibling s e)" "e_next ?s = e_next s" "eq_queue ?s = eq_queue s"
    "e_ref ?s = (case e_sibling s e of None \<Rightarrow> e_ref s | Some b \<Rightarrow> (e_ref s)(b := Sibling_Of (last us)))"
    using e x(2) d(2) us by (auto simp: unlink_event_def Let_def fun_eq_iff split: list.splits)
  then show "e_next ?s x = e_next s x" for x by simp
  show "e_sibling ?s x = e_sibling s x" if "x \<notin> set us" for x using that us fields(1) by auto
  have lu: "last us \<in> set us" using us by simp
  have b: "b \<in> set vs" if "e_sibling s e = Some b" for b using e(2) that by (auto split: list.splits)
  have "segs (e_next ?s) (e_sibling ?s) (e_ref ?s) (Queue_Of q) (eq_queue ?s q) as r"
    unfolding fields using r(1) d(3) lu b
    by (subst segs_cong [where sb = "e_sibling s" and rf = "e_ref s" and nx = "e_next s"])
      (auto split: option.splits)
  moreover have "segs (e_next ?s) (e_sibling ?s) (e_ref ?s) (Next_Of (hd us)) (e_next s (hd us)) bs None"
    unfolding fields using x(3) d(2) lu b
    by (subst segs_cong [where sb = "e_sibling s" and rf = "e_ref s" and nx = "e_next s"])
      (auto split: option.splits)
  moreover have "sibs (e_sibling ?s) (e_ref ?s) (behind q as) r (us @ vs)"
    unfolding fields using d(2) by (intro sibs_remove x(1) us) auto
  moreover have "\<forall>y\<in>set (tl (us @ vs)). e_next ?s y = None" using x(2) us fields(2) by simp
  ultimately show "holds ?s q (as @ (us @ vs) # bs)"
    using d us fields(2) by (auto simp: holds_def segs_append)
qed

text \<open>The slots behind a place, when the reference to the first of them moves to another place.\<close>

lemma segs_move:
  assumes "segs nx sb rf pl p bs r" and "distinct (concat bs)"
    and "\<And>x. x \<in> set (concat bs) \<Longrightarrow> nx' x = nx x" "\<And>x. x \<in> set (concat bs) \<Longrightarrow> sb' x = sb x"
    and rf: "\<And>x. x \<in> set (concat bs) \<Longrightarrow> rf' x = (if p = Some x then pl' else rf x)"
  shows "segs nx' sb' rf' pl' p bs r"
proof (cases bs)
  case (Cons ys cs)
  obtain w ws where ys: "ys = w # ws" using assms(1) Cons by (cases ys) auto
  have p: "p = Some w" and w: "sibs sb rf (Sibling_Of w) (sb w) ws" "\<forall>y\<in>set ws. nx y = None"
    "segs nx sb rf (Next_Of w) (nx w) cs r"
    using assms(1) Cons ys by simp_all
  have dw: "w \<notin> set ws" "w \<notin> set (concat cs)" using assms(2) Cons ys by auto
  have "sibs sb' rf' (Sibling_Of w) (sb w) ws"
    using w(1) dw assms(3-) p Cons ys by (subst sibs_cong [where sb = sb and rf = rf]) auto
  moreover have "segs nx' sb' rf' (Next_Of w) (nx w) cs r"
    using w(3) dw assms(3-) p Cons ys by (subst segs_cong [where sb = sb and rf = rf and nx = nx]) auto
  ultimately show ?thesis using w(2) dw assms(3-) p Cons ys by auto
qed (use assms in simp)

lemma unlink_head:
  assumes h: "holds s q (as @ (e # vs) # bs)"
  shows "holds (unlink_event e s) q (as @ (if vs = [] then bs else vs # bs))"
    and "\<And>x. x \<notin> set (concat (as @ (e # vs) # bs)) \<Longrightarrow>
      e_next (unlink_event e s) x = e_next s x \<and> e_sibling (unlink_event e s) x = e_sibling s x"
proof -
  obtain r where r: "segs (e_next s) (e_sibling s) (e_ref s) (Queue_Of q) (eq_queue s q) as r"
    "segs (e_next s) (e_sibling s) (e_ref s) (behind q as) r ((e # vs) # bs) None"
    and d: "distinct (concat as)" "distinct (concat ((e # vs) # bs))"
      "set (concat as) \<inter> set (concat ((e # vs) # bs)) = {}"
    by (rule holds_split [OF h]) simp
  have ne: "\<forall>ys\<in>set as. ys \<noteq> []" using segs_nonempty [OF r(1)] by auto
  define n where "n = e_next s e"
  have x: "sibs (e_sibling s) (e_ref s) (Sibling_Of e) (e_sibling s e) vs" "\<forall>y\<in>set vs. e_next s y = None"
    "segs (e_next s) (e_sibling s) (e_ref s) (Next_Of e) n bs None" "e_ref s e = behind q as"
    using r(2) n_def by auto
  have n: "x \<in> set (concat bs)" if "n = Some x" for x
  proof (cases bs)
    case (Cons ys cs)
    then show ?thesis using segs_head [OF x(3) [unfolded Cons]] that by auto
  qed (use x(3) that in simp)
  have off: "y \<notin> set (concat as)" if "y \<in> set (concat ((e # vs) # bs))" for y using that d(3) by blast
  let ?s = "unlink_event e s"
  have "holds ?s q (as @ (if vs = [] then bs else vs # bs)) \<and>
    (\<forall>x. x \<notin> set (concat (as @ (e # vs) # bs)) \<longrightarrow> e_next ?s x = e_next s x \<and> e_sibling ?s x = e_sibling s x)"
  proof (cases vs)
    case Nil
    have ref: "e_ref (assign (behind q as) n s) e = behind q as" using x(4) by simp
    have sb: "e_sibling s e = None" using x(1) Nil by simp
    have nx: "e_next (assign (behind q as) n s) e = n" using off [of e] by (simp add: assign_next [OF _ ne] n_def)
    have link: "?s = set_ref n (behind q as) (assign (behind q as) n s)"
      unfolding unlink_event_def sb Let_def option.case n_def [symmetric] x(4) nx ref by (rule refl)
    have "segs (e_next ?s) (e_sibling ?s) (e_ref ?s) (Queue_Of q) (eq_queue ?s q) as n"
      unfolding link set_ref_fields assign_frame
      by (rule front_assign [OF r(1) d(1)]) (use d(3) n in \<open>auto split: option.splits\<close>)
    moreover have "segs (e_next ?s) (e_sibling ?s) (e_ref ?s) (behind q as) n bs None"
    proof (rule segs_move [OF x(3)])
      fix y assume "y \<in> set (concat bs)"
      then have "y \<notin> set (concat as)" by (intro off) simp
      then show "e_next ?s y = e_next s y" unfolding link by (simp add: assign_next [OF _ ne] del: set_concat)
      show "e_sibling ?s y = e_sibling s y" unfolding link by simp
      show "e_ref ?s y = (if n = Some y then behind q as else e_ref s y)"
        unfolding link by (simp split: option.splits)
    qed (use d(2) in auto)
    moreover have "distinct (concat (as @ bs))" using d by auto
    ultimately have "holds ?s q (as @ bs)" unfolding holds_def segs_append by blast
    moreover have "e_next ?s y = e_next s y \<and> e_sibling ?s y = e_sibling s y"
      if "y \<notin> set (concat (as @ (e # vs) # bs))" for y
      unfolding link using that by (simp add: assign_next [OF _ ne])
    ultimately show ?thesis using Nil by simp
  next
    case (Cons b ws)
    have sb: "e_sibling s e = Some b" using x(1) Cons by simp
    have eb: "e \<noteq> b" "n \<noteq> Some e" "n \<noteq> Some b" using d(2) n Cons by auto
    define s1 where "s1 = set_ref n (Next_Of b) (s\<lparr>e_next := (e_next s)(b := n)\<rparr>)"
    have s1: "e_next s1 = (e_next s)(b := n)" "e_sibling s1 = e_sibling s" "eq_queue s1 = eq_queue s"
      "e_ref s1 = (case n of None \<Rightarrow> e_ref s | Some x \<Rightarrow> (e_ref s)(x := Next_Of b))"
      by (simp_all add: s1_def split: option.splits)
    have ref: "e_ref s1 e = behind q as" using eb x(4) by (simp add: s1 split: option.split)
    have nb: "e_next (s\<lparr>e_next := (e_next s)(b := n)\<rparr>) b = n" by simp
    have link: "?s = set_ref (Some b) (behind q as) (assign (behind q as) (Some b) s1)"
      unfolding unlink_event_def sb Let_def option.case n_def [symmetric] nb s1_def [symmetric] ref assign_frame
      by (rule refl)
    have front: "segs (e_next ?s) (e_sibling ?s) (e_ref ?s) (Queue_Of q) (eq_queue ?s q) as (Some b)"
      unfolding link set_ref_fields assign_frame
      by (rule front_assign [OF r(1) d(1)]) (use d(3) n Cons in \<open>auto simp: s1 split: option.splits\<close>)
    have fields: "e_next ?s y = (if y = b then n else e_next s y)" "e_sibling ?s y = e_sibling s y"
      "e_ref ?s y = (if y = b then behind q as else if n = Some y then Next_Of b else e_ref s y)"
      if "y \<notin> set (concat as)" for y
      unfolding link using that by (simp_all add: assign_next [OF _ ne] s1 del: set_concat split: option.splits)
    have fields_in: "e_next ?s y = (if y = b then n else e_next s y)" "e_sibling ?s y = e_sibling s y"
      "e_ref ?s y = (if y = b then behind q as else if n = Some y then Next_Of b else e_ref s y)"
      if "y \<in> set (concat (vs # bs))" for y
      by (rule fields, rule off, use that in simp)+
    have "sibs (e_sibling ?s) (e_ref ?s) (Sibling_Of b) (e_sibling s b) ws"
      using x(1) d(2) n fields_in Cons by (subst sibs_cong [where sb = "e_sibling s" and rf = "e_ref s"]) auto
    moreover have "segs (e_next ?s) (e_sibling ?s) (e_ref ?s) (Next_Of b) n bs None"
      by (rule segs_move [OF x(3)]) (use d(2) fields_in Cons in auto)
    ultimately have "segs (e_next ?s) (e_sibling ?s) (e_ref ?s) (behind q as) (Some b) (vs # bs) None"
      using x(2) fields_in Cons d(2) by simp
    moreover have "distinct (concat (as @ vs # bs))" using d by auto
    ultimately have "holds ?s q (as @ vs # bs)" using front unfolding holds_def segs_append by blast
    moreover have "e_next ?s y = e_next s y \<and> e_sibling ?s y = e_sibling s y"
      if "y \<notin> set (concat (as @ (e # vs) # bs))" for y
      using fields [of y] that Cons by simp
    ultimately show ?thesis using Cons by simp
  qed
  then show "holds ?s q (as @ (if vs = [] then bs else vs # bs))"
    and "\<And>x. x \<notin> set (concat (as @ (e # vs) # bs)) \<Longrightarrow> e_next ?s x = e_next s x \<and> e_sibling ?s x = e_sibling s x"
    by blast+
qed

end
