(* ===== verification/Equeue_Walk.thy ===== *)
theory Equeue_Walk
  imports Equeue_List
begin

text \<open>
  The walks over the slots of an event queue (events/source/equeue.c): the search for the slot of
  a new event, and the collection of the events that are due.
\<close>

lemma segs_deref:
  assumes "segs (e_next s) sb rf (Queue_Of q) (eq_queue s q) (as @ bs) u"
  obtains r where "deref s (behind q as) = r" and "segs (e_next s) sb rf (behind q as) r bs u"
proof -
  obtain r where "segs (e_next s) sb rf (Queue_Of q) (eq_queue s q) as r" "segs (e_next s) sb rf (behind q as) r bs u"
    using assms by (auto simp: segs_append)
  then show ?thesis using that deref_behind by blast
qed

lemma event_slot_split:
  assumes "segs (e_next s) sb rf (Queue_Of q) (eq_queue s q) (cs @ as @ bs) None"
    and "\<And>xs. xs \<in> set as \<Longrightarrow> equeue_tickdiff (e_target s (hd xs)) target < 0"
    and "\<And>xs ds. bs = xs # ds \<Longrightarrow> 0 \<le> equeue_tickdiff (e_target s (hd xs)) target"
  shows "event_slot s target (behind q cs) = Some (behind q (cs @ as))"
  using assms
proof (induction as arbitrary: cs)
  case Nil
  obtain r where r: "deref s (behind q cs) = r" "segs (e_next s) sb rf (behind q cs) r bs None"
    using segs_deref [of s sb rf q cs bs None] Nil.prems(1) by auto
  show ?case
  proof (cases bs)
    case Nil
    then show ?thesis using r by (subst event_slot.simps) simp
  next
    case (Cons xs ds)
    then have "r = Some (hd xs)" using r(2) segs_head by blast
    then show ?thesis using r(1) Nil.prems(3) [OF Cons] by (subst event_slot.simps) simp
  qed
next
  case (Cons xs as)
  obtain r where r: "deref s (behind q cs) = r" "segs (e_next s) sb rf (behind q cs) r (xs # as @ bs) None"
    using segs_deref [of s sb rf q cs "xs # as @ bs" None] Cons.prems(1) by auto
  have "r = Some (hd xs)" using segs_head [OF r(2)] by simp
  moreover have "event_slot s target (behind q (cs @ [xs])) = Some (behind q ((cs @ [xs]) @ as))"
    using Cons.prems by (intro Cons.IH) auto
  ultimately show ?case using r(1) Cons.prems(2) [of xs] by (subst event_slot.simps) simp
qed

lemma expired_end_split:
  assumes "segs (e_next s) sb rf pl p (as @ bs) None"
    and "\<And>xs. xs \<in> set as \<Longrightarrow> equeue_tickdiff (e_target s (hd xs)) target \<le> 0"
    and "\<And>xs ds. bs = xs # ds \<Longrightarrow> 0 < equeue_tickdiff (e_target s (hd xs)) target"
  shows "expired_end s target prev p =
    Some (if as = [] then prev else Some (hd (last as)), case bs of [] \<Rightarrow> None | xs # _ \<Rightarrow> Some (hd xs))"
  using assms
proof (induction as arbitrary: prev pl p)
  case Nil
  show ?case
  proof (cases bs)
    case Nil
    then show ?thesis using Nil.prems(1) by (subst expired_end.simps) simp
  next
    case (Cons xs ds)
    then have "p = Some (hd xs)" using Nil.prems(1) segs_head [of "e_next s" sb rf pl p xs ds None] by simp
    then show ?thesis using Nil.prems(3) [OF Cons] Cons by (subst expired_end.simps) simp
  qed
next
  case (Cons xs as)
  have "p = Some (hd xs)" using Cons.prems(1) segs_head [of "e_next s" sb rf pl p xs "as @ bs" None] by simp
  moreover have "expired_end s target (Some (hd xs)) (e_next s (hd xs)) =
    Some (if as = [] then Some (hd xs) else Some (hd (last as)), case bs of [] \<Rightarrow> None | xs # _ \<Rightarrow> Some (hd xs))"
    by (rule Cons.IH) (use Cons.prems in auto)
  ultimately show ?case using Cons.prems(2) [of xs] by (subst expired_end.simps) simp
qed

lemma reverse_slot_path:
  "sibs (e_sibling s) rf pl p xs \<Longrightarrow> distinct xs \<Longrightarrow>
   \<exists>N. reverse_slot prev p s = Some (if xs = [] then prev else Some (last xs), s\<lparr>e_next := N\<rparr>) \<and>
     path N (if xs = [] then prev else Some (last xs)) (rev xs) prev \<and> (\<forall>y. y \<notin> set xs \<longrightarrow> N y = e_next s y)"
proof (induction xs arbitrary: prev pl p s)
  case Nil
  then have "reverse_slot prev p s = Some (prev, s\<lparr>e_next := e_next s\<rparr>)" by (subst reverse_slot.simps) simp
  then show ?case by (intro exI [of _ "e_next s"]) simp
next
  case (Cons x xs)
  let ?s = "s\<lparr>e_next := (e_next s)(x := prev)\<rparr>"
  have "sibs (e_sibling ?s) rf (Sibling_Of x) (e_sibling s x) xs" "distinct xs" using Cons.prems by simp_all
  from Cons.IH [OF this, of "Some x"] obtain N where
    N: "reverse_slot (Some x) (e_sibling s x) ?s =
        Some (if xs = [] then Some x else Some (last xs), ?s\<lparr>e_next := N\<rparr>)"
      "path N (if xs = [] then Some x else Some (last xs)) (rev xs) (Some x)"
      "\<forall>y. y \<notin> set xs \<longrightarrow> N y = e_next ?s y" by blast
  have "N x = prev" using N(3) Cons.prems(2) by simp
  then have "path N (Some (last (x # xs))) (rev (x # xs)) prev"
    using N(2) by (cases "xs = []") (simp_all add: path_snoc)
  moreover have "reverse_slot prev p s = Some (Some (last (x # xs)), s\<lparr>e_next := N\<rparr>)"
    using Cons.prems(1) N(1) by (subst reverse_slot.simps) (simp add: Let_def)
  moreover have "\<forall>y. y \<notin> set (x # xs) \<longrightarrow> N y = e_next s y" using N(3) by simp
  ultimately show ?case by (intro exI [of _ N]) simp
qed

lemma reversed_slot:
  assumes "path N (Some (last xs)) (rev xs) None" and "xs \<noteq> []" and "distinct xs"
    and M: "\<And>y. y \<in> set xs \<Longrightarrow> y \<noteq> hd xs \<Longrightarrow> M y = N y" and "chain M (M (hd xs)) zs"
  shows "chain M (Some (last xs)) (rev xs @ zs)"
proof -
  have rev: "rev xs = rev (tl xs) @ [hd xs]" using assms(2) by (cases xs) auto
  have "path N (Some (last xs)) (rev (tl xs)) (Some (hd xs))" using assms(1) rev by (simp add: path_snoc)
  moreover have "M y = N y" if "y \<in> set (rev (tl xs))" for y
    using that assms(2,3) by (intro M) (cases xs; auto)+
  ultimately have "path M (Some (last xs)) (rev (tl xs)) (Some (hd xs))"
    by (subst path_cong [where nx' = N]) simp_all
  then show ?thesis unfolding rev using assms(5) by (auto simp: path_append)
qed

text \<open>The walk over the other slots, once the first has been reversed.\<close>

lemma flatten_rest:
  "segs (e_next s) (e_sibling s) rf pl p ss None \<Longrightarrow> distinct (concat ss) \<Longrightarrow> t \<notin> set (concat ss) \<Longrightarrow>
   e_next s t = None \<Longrightarrow>
   \<exists>N. flatten_slots h (Some t) p s = Some (h, s\<lparr>e_next := N\<rparr>) \<and>
     chain N (N t) (concat (map rev ss)) \<and> (\<forall>y. y \<noteq> t \<longrightarrow> y \<notin> set (concat ss) \<longrightarrow> N y = e_next s y)"
proof (induction ss arbitrary: pl p t s)
  case Nil
  then have "flatten_slots h (Some t) p s = Some (h, s\<lparr>e_next := e_next s\<rparr>)" by (subst flatten_slots.simps) simp
  then show ?case using Nil by (intro exI [of _ "e_next s"]) simp
next
  case (Cons xs ss)
  let ?x = "hd xs"
  have p: "p = Some ?x" "xs \<noteq> []" using segs_head [OF Cons.prems(1)] by simp_all
  have x: "sibs (e_sibling s) rf pl p xs" "segs (e_next s) (e_sibling s) rf (Next_Of ?x) (e_next s ?x) ss None"
    using Cons.prems(1) by simp_all
  have d: "distinct xs" "distinct (concat ss)" "set xs \<inter> set (concat ss) = {}" "t \<notin> set xs" "t \<notin> set (concat ss)"
    using Cons.prems(2,3) by auto
  obtain N where N: "reverse_slot None p s = Some (Some (last xs), s\<lparr>e_next := N\<rparr>)"
    "path N (Some (last xs)) (rev xs) None" "\<forall>y. y \<notin> set xs \<longrightarrow> N y = e_next s y"
    using reverse_slot_path [OF x(1) d(1), of None] p(2) by auto
  let ?N = "N(t := Some (last xs))" let ?s = "s\<lparr>e_next := ?N\<rparr>"
  have "segs ?N (e_sibling s) rf (Next_Of ?x) (e_next s ?x) ss None"
    using x(2) N(3) d(3,5) by (subst segs_cong [where nx = "e_next s" and sb = "e_sibling s" and rf = rf]) auto
  then have 1: "segs (e_next ?s) (e_sibling ?s) rf (Next_Of ?x) (e_next s ?x) ss None" by simp
  have "rev xs = rev (tl xs) @ [?x]" using p(2) by (cases xs) auto
  then have "N ?x = None" using N(2) by (simp add: path_snoc)
  then have 2: "e_next ?s ?x = None" using d(4) p(2) by auto
  have 3: "?x \<notin> set (concat ss)" using d(3) p(2) hd_in_set by blast
  obtain M where M: "flatten_slots h (Some ?x) (e_next s ?x) ?s = Some (h, ?s\<lparr>e_next := M\<rparr>)"
    "chain M (M ?x) (concat (map rev ss))" "\<forall>y. y \<noteq> ?x \<longrightarrow> y \<notin> set (concat ss) \<longrightarrow> M y = ?N y"
    using Cons.IH [OF 1 d(2) 3 2] by auto
  have "flatten_slots h (Some t) p s = Some (h, s\<lparr>e_next := M\<rparr>)"
    using M(1) N(1) p(1) by (subst flatten_slots.simps) (simp add: Let_def)
  moreover have "chain M (Some (last xs)) (rev xs @ concat (map rev ss))"
  proof (rule reversed_slot [OF N(2) p(2) d(1) _ M(2)])
    fix y assume "y \<in> set xs" "y \<noteq> ?x"
    moreover have "y \<noteq> t" "y \<notin> set (concat ss)" using d(3,4) \<open>y \<in> set xs\<close> by blast+
    ultimately show "M y = N y" using M(3) by simp
  qed
  moreover have "t \<noteq> ?x" using d(4) p(2) hd_in_set by blast
  then have "M t = Some (last xs)" using M(3) d(5) by simp
  moreover have "\<forall>y. y \<noteq> t \<longrightarrow> y \<notin> set (concat (xs # ss)) \<longrightarrow> M y = e_next s y"
  proof (intro allI impI)
    fix y assume "y \<noteq> t" "y \<notin> set (concat (xs # ss))"
    moreover from this have "y \<noteq> ?x" using p(2) by auto
    ultimately show "M y = e_next s y" using M(3) N(3) by simp
  qed
  ultimately show ?case by (intro exI [of _ M]) simp
qed

lemma flatten_slots_chain:
  assumes "segs (e_next s) (e_sibling s) rf pl p ss None" and "distinct (concat ss)"
  obtains h N where "flatten_slots p None p s = Some (h, s\<lparr>e_next := N\<rparr>)"
    and "chain N h (concat (map rev ss))" and "\<And>y. y \<notin> set (concat ss) \<Longrightarrow> N y = e_next s y"
proof (cases ss)
  case Nil
  then have "flatten_slots p None p s = Some (None, s\<lparr>e_next := e_next s\<rparr>)"
    using assms(1) by (subst flatten_slots.simps) simp
  then show ?thesis by (rule that) (simp_all add: Nil)
next
  case (Cons xs cs)
  let ?x = "hd xs"
  have p: "p = Some ?x" "xs \<noteq> []" using segs_head [OF assms(1) [unfolded Cons]] by blast+
  have x: "sibs (e_sibling s) rf pl p xs" "segs (e_next s) (e_sibling s) rf (Next_Of ?x) (e_next s ?x) cs None"
    using assms(1) [unfolded Cons] by simp_all
  have d: "distinct xs" "distinct (concat cs)" "set xs \<inter> set (concat cs) = {}" using assms(2) Cons by auto
  obtain N where N: "reverse_slot None p s = Some (Some (last xs), s\<lparr>e_next := N\<rparr>)"
    "path N (Some (last xs)) (rev xs) None" "\<forall>y. y \<notin> set xs \<longrightarrow> N y = e_next s y"
    using reverse_slot_path [OF x(1) d(1), of None] p(2) by auto
  let ?s = "s\<lparr>e_next := N\<rparr>"
  have 1: "segs (e_next ?s) (e_sibling ?s) rf (Next_Of ?x) (e_next s ?x) cs None"
    using x(2) N(3) d(3) by (subst segs_cong [where nx = "e_next s" and sb = "e_sibling s" and rf = rf]) auto
  have rev: "rev xs = rev (tl xs) @ [?x]" using p(2) by (cases xs) auto
  then have 2: "e_next ?s ?x = None" using N(2) by (simp add: path_snoc)
  have 3: "?x \<notin> set (concat cs)" using d(3) p(2) hd_in_set by blast
  obtain M where M: "flatten_slots (Some (last xs)) (Some ?x) (e_next s ?x) ?s = Some (Some (last xs), ?s\<lparr>e_next := M\<rparr>)"
    "chain M (M ?x) (concat (map rev cs))" "\<forall>y. y \<noteq> ?x \<longrightarrow> y \<notin> set (concat cs) \<longrightarrow> M y = N y"
    using flatten_rest [OF 1 d(2) 3 2, of "Some (last xs)"] by auto
  have "chain M (Some (last xs)) (rev xs @ concat (map rev cs))"
    by (rule reversed_slot [OF N(2) p(2) d(1) _ M(2)]) (use M(3) d(3) in blast)
  moreover have "flatten_slots p None p s = Some (Some (last xs), s\<lparr>e_next := M\<rparr>)"
    using M(1) N(1) p(1) by (subst flatten_slots.simps) (simp add: Let_def)
  moreover have "M y = e_next s y" if "y \<notin> set (concat ss)" for y
  proof -
    have "y \<noteq> ?x" using that p(2) Cons by auto
    then show ?thesis using M(3) N(3) that Cons by simp
  qed
  ultimately show ?thesis using that Cons by simp
qed

section \<open>Collecting the events that are due\<close>

text \<open>All that the operations on the list leave alone.\<close>

definition data where
  "data s = ((eq_break s, eq_buffer s, eq_npw2 s, eq_chunks s, slab_size s, slab_data s, bg_active s, bg_update s),
     (e_size s, e_id s, e_generation s, e_target s, e_period s, e_dtor s, e_cb s, ec_cb s, ec_data s),
     (now s, lapses s, user s))"

lemma data_links [simp]: "data (assign (behind q as) v s) = data s" "data (set_ref x p s) = data s"
  by (auto simp: data_def place_after_def set_ref_def split: option.splits)

lemma equeue_dequeue_due:
  assumes h: "holds s q (as @ bs)"
    and due: "\<And>xs. xs \<in> set as \<Longrightarrow> equeue_tickdiff (e_target s (hd xs)) target \<le> 0"
    and later: "\<And>xs ds. bs = xs # ds \<Longrightarrow> 0 < equeue_tickdiff (e_target s (hd xs)) target"
  obtains es s' where "equeue_dequeue q target s = Some (es, s')"
    and "chain (e_next s') es (concat (map rev as))" and "holds s' q bs"
    and "\<And>x. x \<notin> set (concat as) \<Longrightarrow> e_next s' x = e_next s x" and "e_sibling s' = e_sibling s"
    and "data s' = data s" and "eq_generation s' q = eq_generation s q + 1"
    and "eq_tick s' q = (if equeue_tickdiff (eq_tick s q) target \<le> 0 then target else eq_tick s q)"
proof -
  obtain r where r: "segs (e_next s) (e_sibling s) (e_ref s) (Queue_Of q) (eq_queue s q) as r"
    "segs (e_next s) (e_sibling s) (e_ref s) (behind q as) r bs None"
    "r = (case bs of [] \<Rightarrow> None | xs # _ \<Rightarrow> Some (hd xs))"
    and d: "distinct (concat as)" "distinct (concat bs)" "set (concat as) \<inter> set (concat bs) = {}"
    using h by (rule holds_split)
  define s1 where "s1 = (let s = s\<lparr>eq_generation := (eq_generation s)(q := eq_generation s q + 1)\<rparr>
    in if equeue_tickdiff (eq_tick s q) target \<le> 0 then s\<lparr>eq_tick := (eq_tick s)(q := target)\<rparr> else s)"
  have s1: "e_next s1 = e_next s" "e_sibling s1 = e_sibling s" "e_ref s1 = e_ref s" "eq_queue s1 = eq_queue s"
    "e_target s1 = e_target s" "data s1 = data s" "eq_generation s1 q = eq_generation s q + 1"
    "eq_tick s1 q = (if equeue_tickdiff (eq_tick s q) target \<le> 0 then target else eq_tick s q)"
    by (simp_all add: s1_def data_def Let_def)
  have "expired_end s1 target None (eq_queue s q) = Some (if as = [] then None else Some (hd (last as)), r)"
    unfolding r(3) by (rule expired_end_split [where sb = "e_sibling s" and rf = "e_ref s" and pl = "Queue_Of q"])
      (use h due later in \<open>auto simp: s1 holds_def\<close>)
  note found = this
  define s2 where "s2 = set_ref r (Queue_Of q) (s1\<lparr>eq_queue := (eq_queue s1)(q := r)\<rparr>)"
  define s3 where "s3 = (if as = [] then s2 else s2\<lparr>e_next := (e_next s2)(hd (last as) := None)\<rparr>)"
  define hd0 where "hd0 = (if as = [] then None else eq_queue s q)"
  have s2: "e_next s2 = e_next s" "e_sibling s2 = e_sibling s" "eq_queue s2 = (eq_queue s)(q := r)" "data s2 = data s"
    "e_ref s2 = (case r of None \<Rightarrow> e_ref s | Some x \<Rightarrow> (e_ref s)(x := Queue_Of q))"
    "eq_generation s2 = eq_generation s1" "eq_tick s2 = eq_tick s1"
    using s1 by (simp_all add: s2_def data_def set_ref_def split: option.splits)
  have s3: "e_sibling s3 = e_sibling s" "eq_queue s3 q = r" "data s3 = data s" "e_ref s3 = e_ref s2"
    "e_next s3 = (if as = [] then e_next s else (e_next s)(hd (last as) := None))"
    "eq_generation s3 = eq_generation s1" "eq_tick s3 = eq_tick s1"
    using s2 by (auto simp: s3_def data_def)
  have rx: "x \<in> set (concat bs)" if "r = Some x" for x
    using r(3) segs_nonempty [OF r(2)] that by (cases bs) auto
  have last_in: "hd (last as) \<in> set (concat as)" if "as \<noteq> []"
    using segs_nonempty [OF r(1), of "last as"] that by (auto intro!: bexI [of _ "last as"])
  have "segs (e_next s3) (e_sibling s3) (e_ref s) (Queue_Of q) hd0 as None"
    using segs_relink [OF r(1) d(1) _ refl, of None] s3 by (cases "as = []") (simp_all add: hd0_def)
  then obtain es N where N: "flatten_slots hd0 None hd0 s3 = Some (es, s3\<lparr>e_next := N\<rparr>)"
    "chain N es (concat (map rev as))" "\<And>y. y \<notin> set (concat as) \<Longrightarrow> N y = e_next s3 y"
    by (rule flatten_slots_chain [OF _ d(1)]) (rule that)
  let ?s = "s3\<lparr>e_next := N\<rparr>"
  have N': "N x = e_next s x" if "x \<notin> set (concat as)" for x
    using N(3) [OF that] that last_in by (auto simp: s3(5))
  have fold2: "set_ref r (Queue_Of q) (s1\<lparr>eq_queue := (eq_queue s)(q := r)\<rparr>) = s2"
    by (simp add: s2_def s1(4))
  have "equeue_dequeue q target s = Some (es, ?s)"
    using N(1) found s1(1,4) s2(1,2) fold2
    unfolding equeue_dequeue_def s1_def [unfolded Let_def, symmetric] Let_def
    by (auto simp: s3_def hd0_def)
  moreover have "holds ?s q bs"
  proof -
    have "segs N (e_sibling s) (e_ref s2) (Queue_Of q) r bs None"
    proof (rule segs_move [OF r(2) d(2)])
      fix x assume "x \<in> set (concat bs)"
      then have "x \<notin> set (concat as)" using d(3) by blast
      then show "N x = e_next s x" by (rule N')
    qed (auto simp: s2(5) split: option.splits)
    then show ?thesis using d(2) s3 by (simp add: holds_def)
  qed
  moreover have "data ?s = data s" using s3(3) by (simp add: data_def)
  ultimately show ?thesis using that [of es ?s] N(2) N' s3 s1(7,8) by simp
qed

end
