(* ===== verification/Equeue_Agenda.thy ===== *)
theory Equeue_Agenda
  imports Equeue_Walk
begin

text \<open>
  What an event queue (events/source/equeue.c) promises: an agenda of entries in the order of
  their times, first come first served within one, and the programs that use it.
\<close>

section \<open>Programs\<close>

text \<open>
  What a thread or a call-back does with the queue before it returns. A posted call-back is a
  number and a data word; \<open>Cancel n\<close> cancels the event of the \<open>n\<close>-th call that succeeded.
\<close>

datatype 'v act =
    Done 'v
  | Call nat u32 "bool \<Rightarrow> 'v act"
  | Call_In u32 nat u32 "bool \<Rightarrow> 'v act"
  | Call_Every u32 nat u32 "bool \<Rightarrow> 'v act"
  | Cancel nat "bool \<Rightarrow> 'v act"

datatype 'v step = Client "'v \<Rightarrow> 'v act" | Dispatch

definition nth_id :: "nat \<Rightarrow> u32 list \<Rightarrow> u32" where
  "nth_id n is = (if n < length is then rev is ! n else 0)"

text \<open>The state of such a program: the identifiers it was given, the last one first, and a value.\<close>

type_synonym 'v client = "u32 list \<times> 'v"

definition note_id :: "u32 \<Rightarrow> 'v client equeue \<Rightarrow> 'v client equeue" where
  "note_id i s = (if i = 0 then s else s\<lparr>user := (i # fst (user s), snd (user s))\<rparr>)"

primrec perform :: "'v client platform \<Rightarrow> u32 \<Rightarrow> 'v act \<Rightarrow> 'v client equeue \<Rightarrow> 'v client equeue option" where
  "perform P q (Done v) s = Some (s\<lparr>user := (fst (user s), v)\<rparr>)"
| "perform P q (Call n d k) s = do {
     (i, s) \<leftarrow> equeue_call P q (Some (User_Function n)) d s; perform P q (k (i \<noteq> 0)) (note_id i s) }"
| "perform P q (Call_In ms n d k) s = do {
     (i, s) \<leftarrow> equeue_call_in P q ms (Some (User_Function n)) d s; perform P q (k (i \<noteq> 0)) (note_id i s) }"
| "perform P q (Call_Every ms n d k) s = do {
     (i, s) \<leftarrow> equeue_call_every P q ms (Some (User_Function n)) d s; perform P q (k (i \<noteq> 0)) (note_id i s) }"
| "perform P q (Cancel n k) s = do {
     (b, s) \<leftarrow> equeue_cancel P q (nth_id n (fst (user s))) s; perform P q (k b) s }"

text \<open>Call-back \<open>n\<close> with data \<open>d\<close> does \<open>run n d v\<close>; there are no destructors and no timers.\<close>

definition silent :: "'u platform" where
  "silent = \<lparr>call_cb = \<lambda>_ _ _. None, call_update = \<lambda>_ _ _ _. None, wait_event = \<lambda>_ _ _. None\<rparr>"

definition program :: "(nat \<Rightarrow> u32 \<Rightarrow> 'v \<Rightarrow> 'v act) \<Rightarrow> u32 \<Rightarrow> 'v client platform" where
  "program run q = linked 2 \<lparr>call_cb = \<lambda>f d s. (case f of
       User_Function n \<Rightarrow> perform silent q (run n d (snd (user s))) s | _ \<Rightarrow> None),
     call_update = \<lambda>_ _ _ _. None, wait_event = \<lambda>_ _ _. None\<rparr>"

primrec perform_steps ::
    "(nat \<Rightarrow> u32 \<Rightarrow> 'v \<Rightarrow> 'v act) \<Rightarrow> u32 \<Rightarrow> 'v step list \<Rightarrow> 'v client equeue \<Rightarrow> 'v client equeue option" where
  "perform_steps run q [] s = Some s"
| "perform_steps run q (x # xs) s = do {
     s \<leftarrow> (case x of Client f \<Rightarrow> perform silent q (f (snd (user s))) s
        | Dispatch \<Rightarrow> equeue_dispatch (program run q) q 0 s);
     perform_steps run q xs s }"

section \<open>The agenda\<close>

text \<open>
  An entry has its identifier, its time, the round in which it was entered, its call-back
  (none once it is cancelled) with its data, and its period (negative for a single call).
\<close>

record entry =
  en_id :: u32
  due :: nat
  born :: nat
  action :: "nat option"
  arg :: u32
  per :: u32

text \<open>
  \<open>pend\<close> waits, \<open>batch\<close> has been collected and will run in this round, \<open>cur\<close> runs. Time does
  not wrap around here. \<open>last_round\<close> is the time of the last round.
\<close>

record 'v agenda =
  pend :: "entry list"
  batch :: "entry list"
  cur :: "entry option"
  clock :: nat
  laps :: "u32 list"
  last_round :: nat
  rounds :: nat
  issued :: "u32 list"
  val :: 'v

definition running :: "'v agenda \<Rightarrow> entry list" where
  "running A = (case cur A of None \<Rightarrow> [] | Some e \<Rightarrow> [e]) @ batch A"

definition live_ids :: "'v agenda \<Rightarrow> u32 set" where
  "live_ids A = en_id ` set (pend A @ running A)"

definition load :: "'v agenda \<Rightarrow> nat" where
  "load A = length (pend A @ running A)"

text \<open>All times are within 2^30 ms, more than twelve days, of each other.\<close>

definition timely :: "'v agenda \<Rightarrow> bool" where
  "timely A \<longleftrightarrow> clock A < last_round A + 1073741824 \<and>
     (\<forall>e\<in>set (pend A @ running A). clock A < due e + 1073741824 \<and> due e < clock A + 1073741824)"

definition advance :: "'v agenda \<Rightarrow> 'v agenda" where
  "advance A = (case laps A of [] \<Rightarrow> A | d # ds \<Rightarrow> A\<lparr>clock := clock A + unat d, laps := ds\<rparr>)"

definition enter :: "entry \<Rightarrow> entry list \<Rightarrow> entry list" where
  "enter e es = takeWhile (\<lambda>x. due x \<le> due e) es @ e # dropWhile (\<lambda>x. due x \<le> due e) es"

definition fresh :: "u32 \<Rightarrow> 'v agenda \<Rightarrow> bool" where
  "fresh i A \<longleftrightarrow> i \<noteq> 0 \<and> i \<notin> live_ids A \<and> i \<notin> set (take 254 (issued A))"

definition agenda_post :: "u32 \<Rightarrow> u32 \<Rightarrow> u32 \<Rightarrow> nat \<Rightarrow> u32 \<Rightarrow> 'v agenda \<Rightarrow> 'v agenda" where
  "agenda_post i ms period n d A =
     (let A = advance A;
          e = \<lparr>en_id = i, due = clock A + nat (sint ms), born = rounds A, action = Some n, arg = d, per = period\<rparr>
      in A\<lparr>pend := enter e (pend A), issued := i # issued A\<rparr>)"

definition void :: "u32 \<Rightarrow> entry \<Rightarrow> entry" where
  "void i e = (if en_id e = i then e\<lparr>action := None, per := - 1\<rparr> else e)"

definition agenda_cancel :: "u32 \<Rightarrow> 'v agenda \<Rightarrow> bool \<times> 'v agenda" where
  "agenda_cancel i A =
     (if i \<in> en_id ` set (pend A) then (True, A\<lparr>pend := filter (\<lambda>e. en_id e \<noteq> i) (pend A)\<rparr>)
      else (False, A\<lparr>batch := map (void i) (batch A), cur := map_option (void i) (cur A)\<rparr>))"

text \<open>
  Cancelling is careless where nothing can be promised: the event is due right now, has been
  collected, and was entered a multiple of 256 rounds before; or it is gone, and more
  than 254 events have been posted since.
\<close>

definition careless :: "u32 \<Rightarrow> 'v agenda \<Rightarrow> bool" where
  "careless i A \<longleftrightarrow>
     (\<exists>e\<in>set (running A). en_id e = i \<and> due e = last_round A \<and> (rounds A - born e) mod 256 = 0) \<or>
     i \<noteq> 0 \<and> i \<notin> live_ids A \<and> i \<notin> set (take 254 (issued A))"

fun as_post :: "'v act \<Rightarrow> (u32 \<times> u32 \<times> nat \<times> u32 \<times> (bool \<Rightarrow> 'v act)) option" where
  "as_post (Call n d k) = Some (0, - 1, n, d, k)"
| "as_post (Call_In ms n d k) = Some (ms, - 1, n, d, k)"
| "as_post (Call_Every ms n d k) = Some (ms, ms, n, d, k)"
| "as_post _ = None"

text \<open>
  What a program may do to the agenda of a queue with room for \<open>c\<close> events. The outcome \<open>None\<close> is a
  program that was careless or late, for which nothing is promised.
\<close>

inductive agenda_act :: "nat \<Rightarrow> 'v act \<Rightarrow> 'v agenda \<Rightarrow> 'v agenda option \<Rightarrow> bool" for c where
  finished: "agenda_act c (Done v) A (Some (A\<lparr>val := v\<rparr>))"
| full: "as_post a = Some (ms, p, n, d, k) \<Longrightarrow> load A = c \<Longrightarrow> agenda_act c (k False) A B \<Longrightarrow> agenda_act c a A B"
| post: "as_post a = Some (ms, p, n, d, k) \<Longrightarrow> load A < c \<Longrightarrow> fresh i A \<Longrightarrow>
     timely (agenda_post i ms p n d A) \<Longrightarrow> agenda_act c (k True) (agenda_post i ms p n d A) B \<Longrightarrow> agenda_act c a A B"
| late: "as_post a = Some (ms, p, n, d, k) \<Longrightarrow> load A < c \<Longrightarrow> fresh i A \<Longrightarrow>
     \<not> timely (agenda_post i ms p n d A) \<Longrightarrow> agenda_act c a A None"
| cancel: "\<not> careless (nth_id n (issued A)) A \<Longrightarrow> agenda_cancel (nth_id n (issued A)) A = (b, A') \<Longrightarrow>
     agenda_act c (k b) A' B \<Longrightarrow> agenda_act c (Cancel n k) A B"
| lost: "careless (nth_id n (issued A)) A \<Longrightarrow> agenda_act c (Cancel n k) A None"

text \<open>A round: the collected entries run one after the other, and periodic ones are entered again.\<close>

definition agenda_finish :: "'v agenda \<Rightarrow> 'v agenda" where
  "agenda_finish A = (case cur A of None \<Rightarrow> A
     | Some e \<Rightarrow>
         if 0 \<le> sint (per e)
         then let A = advance A;
                  e = e\<lparr>due := max (due e + unat (per e)) (clock A), born := rounds A\<rparr>
              in A\<lparr>pend := enter e (pend A), cur := None\<rparr>
         else A\<lparr>cur := None\<rparr>)"

definition agenda_call ::
    "nat \<Rightarrow> (nat \<Rightarrow> u32 \<Rightarrow> 'v \<Rightarrow> 'v act) \<Rightarrow> entry \<Rightarrow> 'v agenda \<Rightarrow> 'v agenda option \<Rightarrow> bool" where
  "agenda_call c run e A B = (case action e of None \<Rightarrow> B = Some A
     | Some n \<Rightarrow> agenda_act c (run n (arg e) (val A)) A B)"

inductive agenda_batch :: "nat \<Rightarrow> (nat \<Rightarrow> u32 \<Rightarrow> 'v \<Rightarrow> 'v act) \<Rightarrow> 'v agenda \<Rightarrow> 'v agenda option \<Rightarrow> bool"
    for c run where
  batch_done: "batch A = [] \<Longrightarrow> agenda_batch c run A (Some A)"
| batch_lost: "batch A = e # es \<Longrightarrow> agenda_call c run e (A\<lparr>batch := es, cur := Some e\<rparr>) None \<Longrightarrow>
     agenda_batch c run A None"
| batch_late: "batch A = e # es \<Longrightarrow> agenda_call c run e (A\<lparr>batch := es, cur := Some e\<rparr>) (Some B) \<Longrightarrow>
     \<not> timely (agenda_finish B) \<Longrightarrow> agenda_batch c run A None"
| batch_next: "batch A = e # es \<Longrightarrow> agenda_call c run e (A\<lparr>batch := es, cur := Some e\<rparr>) (Some B) \<Longrightarrow>
     timely (agenda_finish B) \<Longrightarrow> agenda_batch c run (agenda_finish B) O' \<Longrightarrow> agenda_batch c run A O'"

definition collect :: "'v agenda \<Rightarrow> 'v agenda" where
  "collect A = A\<lparr>last_round := clock A, rounds := rounds A + 1,
     batch := takeWhile (\<lambda>e. due e \<le> clock A) (pend A), pend := dropWhile (\<lambda>e. due e \<le> clock A) (pend A)\<rparr>"

inductive agenda_step ::
    "nat \<Rightarrow> (nat \<Rightarrow> u32 \<Rightarrow> 'v \<Rightarrow> 'v act) \<Rightarrow> 'v step \<Rightarrow> 'v agenda \<Rightarrow> 'v agenda option \<Rightarrow> bool"
    for c run where
  client: "agenda_act c (f (val A)) A B \<Longrightarrow> agenda_step c run (Client f) A B"
| wake_late: "\<not> timely (advance A) \<Longrightarrow> agenda_step c run Dispatch A None"
| round_lost: "timely (advance A) \<Longrightarrow> agenda_batch c run (collect (advance A)) None \<Longrightarrow> agenda_step c run Dispatch A None"
| round_late: "timely (advance A) \<Longrightarrow> agenda_batch c run (collect (advance A)) (Some B) \<Longrightarrow>
     \<not> timely (advance B) \<Longrightarrow> agenda_step c run Dispatch A None"
| round: "timely (advance A) \<Longrightarrow> agenda_batch c run (collect (advance A)) (Some B) \<Longrightarrow>
     timely (advance B) \<Longrightarrow> agenda_step c run Dispatch A (Some (advance B))"

inductive agenda_run ::
    "nat \<Rightarrow> (nat \<Rightarrow> u32 \<Rightarrow> 'v \<Rightarrow> 'v act) \<Rightarrow> 'v step list \<Rightarrow> 'v agenda \<Rightarrow> 'v agenda option \<Rightarrow> bool"
    for c run where
  run_done: "agenda_run c run [] A (Some A)"
| run_lost: "agenda_step c run x A None \<Longrightarrow> agenda_run c run (x # xs) A None"
| run_step: "agenda_step c run x A (Some B) \<Longrightarrow> agenda_run c run xs B C \<Longrightarrow> agenda_run c run (x # xs) A C"

end
