(* ===== verification/Equeue_Order.thy ===== *)
theory Equeue_Order
  imports Equeue_Agenda
begin

text \<open>
  The list of an event queue (events/source/equeue.c) with the entries of the agenda: what
  entering, cancelling and collecting events do to it, with times that wrap around.
\<close>

section \<open>Times\<close>

lemma sint_small: "- 2147483648 \<le> i \<Longrightarrow> i < 2147483648 \<Longrightarrow> sint (word_of_int i :: u32) = i"
  by (simp add: signed_of_int signed_take_bit_int_eq_self)

lemma tickdiff_of_nat:
  assumes "int a - int b < 2147483648" and "- 2147483648 \<le> int a - int b"
  shows "equeue_tickdiff (of_nat a) (of_nat b) = int a - int b"
proof -
  have "(of_nat a - of_nat b :: u32) = word_of_int (int a - int b)" by simp
  then show ?thesis using sint_small [OF assms(2,1)] by (simp add: equeue_tickdiff_def)
qed

lemma clamp_of_nat:
  assumes "int t - int n < 2147483648" and "- 2147483648 \<le> int t - int n"
  shows "(of_nat n :: u32) + equeue_clampdiff (of_nat t) (of_nat n) = of_nat (max t n)"
proof (cases "n < t")
  case True
  then show ?thesis using tickdiff_of_nat [OF assms] by (simp add: equeue_clampdiff_def)
next
  case False
  then show ?thesis using tickdiff_of_nat [OF assms] by (simp add: equeue_clampdiff_def max_def)
qed

lemma sint_nonneg_unat:
  assumes "0 \<le> sint (w :: u32)"
  shows "sint w = int (unat w)"
proof (cases "uint w < 2147483648")
  case True
  then have "sint (word_of_int (uint w) :: u32) = uint w" by (intro sint_small) (use uint_ge_0 [of w] in linarith)+
  then show ?thesis by simp
next
  case False
  have "uint w < 4294967296" using uint_lt2p [of w] by simp
  then have "sint (word_of_int (uint w - 4294967296) :: u32) = uint w - 4294967296"
    using False by (intro sint_small) simp_all
  moreover have "(word_of_int (uint w - 4294967296) :: u32) = w" by simp
  ultimately have "sint w = uint w - 4294967296" by (simp only:)
  then show ?thesis using assms \<open>uint w < 4294967296\<close> by linarith
qed

lemma clamp_delay:
  "(of_nat n :: u32) + equeue_clampdiff (of_nat n + ms) (of_nat n) = of_nat (n + nat (sint ms))"
proof (cases "0 < sint ms")
  case True
  then have "nat (sint ms) = unat ms" using sint_nonneg_unat [of ms] by simp
  then show ?thesis using True by (simp add: equeue_clampdiff_def equeue_tickdiff_def)
next
  case False
  then show ?thesis by (simp add: equeue_clampdiff_def equeue_tickdiff_def)
qed

section \<open>Slots with their entries\<close>

type_synonym slot = "(u32 \<times> entry) list"

definition slot_due :: "slot \<Rightarrow> nat" where "slot_due z = due (snd (hd z))"

lemma slot_due_Cons [simp]: "slot_due (a # z) = due (snd a)"
  by (simp add: slot_due_def)

definition in_order :: "slot list \<Rightarrow> bool" where
  "in_order zs \<longleftrightarrow> (\<forall>z\<in>set zs. z \<noteq> [] \<and> (\<forall>a\<in>set z. due (snd a) = slot_due z)) \<and>
     sorted_wrt (\<lambda>y z. slot_due y < slot_due z) zs"

definition flat :: "slot list \<Rightarrow> (u32 \<times> entry) list" where
  "flat zs = concat (map rev zs)"

abbreviation events :: "slot list \<Rightarrow> u32 list list" where
  "events zs \<equiv> map (map fst) zs"

lemma flat_simps [simp]: "flat [] = []" "flat (z # zs) = rev z @ flat zs" "flat (ys @ zs) = flat ys @ flat zs"
  by (simp_all add: flat_def)

lemma set_flat: "set (flat zs) = set (concat zs)"
  by (simp add: flat_def)

lemma fst_flat: "map fst (flat zs) = concat (map rev (events zs))"
  by (induction zs) (simp_all add: rev_map)

lemma set_events: "set (concat (events zs)) = fst ` set (flat zs)"
  by (auto simp: set_flat)

lemma distinct_flat: "distinct (map fst (flat zs)) = distinct (concat (events zs))"
  by (induction zs) (auto simp: rev_map [symmetric] set_flat)

lemma in_order_Nil [simp]: "in_order []"
  by (simp add: in_order_def)

lemma in_order_Cons:
  "in_order (z # zs) \<longleftrightarrow> z \<noteq> [] \<and> (\<forall>a\<in>set z. due (snd a) = slot_due z) \<and> (\<forall>y\<in>set zs. slot_due z < slot_due y) \<and> in_order zs"
  by (auto simp: in_order_def)

lemma in_order_append:
  "in_order (ys @ zs) \<longleftrightarrow> in_order ys \<and> in_order zs \<and> (\<forall>y\<in>set ys. \<forall>z\<in>set zs. slot_due y < slot_due z)"
  by (auto simp: in_order_def sorted_wrt_append)

lemma flat_due: "in_order zs \<Longrightarrow> a \<in> set (flat zs) \<Longrightarrow> \<exists>z\<in>set zs. due (snd a) = slot_due z"
  by (auto simp: in_order_def set_flat)

text \<open>Where a new event goes.\<close>

fun put_slot :: "u32 \<times> entry \<Rightarrow> slot list \<Rightarrow> slot list" where
  "put_slot a [] = [[a]]"
| "put_slot a (z # zs) =
     (if slot_due z < due (snd a) then z # put_slot a zs
      else if slot_due z = due (snd a) then (a # z) # zs else [a] # z # zs)"

lemma put_slot_flat:
  "in_order zs \<Longrightarrow>
   flat (put_slot a zs) = takeWhile (\<lambda>b. due (snd b) \<le> due (snd a)) (flat zs) @ a # dropWhile (\<lambda>b. due (snd b) \<le> due (snd a)) (flat zs)"
proof (induction zs)
  case (Cons z zs)
  have z: "z \<noteq> []" "\<forall>b\<in>set z. due (snd b) = slot_due z" "\<forall>y\<in>set zs. slot_due z < slot_due y" "in_order zs"
    using Cons.prems by (simp_all add: in_order_Cons)
  let ?P = "\<lambda>b :: u32 \<times> entry. due (snd b) \<le> due (snd a)"
  consider "slot_due z < due (snd a)" | "slot_due z = due (snd a)" | "due (snd a) < slot_due z" by linarith
  then show ?case
  proof cases
    case 1
    then have p: "\<And>b. b \<in> set (rev z) \<Longrightarrow> ?P b" using z(2) by simp
    have "takeWhile ?P (rev z @ flat zs) = rev z @ takeWhile ?P (flat zs)"
      "dropWhile ?P (rev z @ flat zs) = dropWhile ?P (flat zs)"
      by (rule takeWhile_append2, erule p) (rule dropWhile_append2, erule p)
    then show ?thesis using 1 Cons.IH [OF z(4)] by simp
  next
    case 2
    then have p: "\<And>b. b \<in> set (rev z) \<Longrightarrow> ?P b" using z(2) by simp
    have "takeWhile ?P (flat zs) = []" "dropWhile ?P (flat zs) = flat zs"
    proof (atomize (full), cases "flat zs")
      case (Cons b bs)
      then have "\<exists>y\<in>set zs. due (snd b) = slot_due y" using flat_due [OF z(4), of b] by simp
      then have "\<not> ?P b" using z(3) 2 by auto
      then show "takeWhile ?P (flat zs) = [] \<and> dropWhile ?P (flat zs) = flat zs" using Cons by simp
    qed simp
    moreover have "takeWhile ?P (rev z @ flat zs) = rev z @ takeWhile ?P (flat zs)"
      "dropWhile ?P (rev z @ flat zs) = dropWhile ?P (flat zs)"
      by (rule takeWhile_append2, erule p) (rule dropWhile_append2, erule p)
    ultimately show ?thesis using 2 by simp
  next
    case 3
    obtain b bs where b: "rev z = b # bs" using z(1) by (cases "rev z") auto
    then have "b \<in> set z" by (metis list.set_intros(1) set_rev)
    then have "\<not> ?P b" using z(2) 3 by auto
    then show ?thesis using 3 b by simp
  qed
qed simp

lemma put_slot_enter:
  assumes "in_order zs"
  shows "map snd (flat (put_slot a zs)) = enter (snd a) (map snd (flat zs))"
  unfolding put_slot_flat [OF assms] enter_def
  by (simp add: takeWhile_map dropWhile_map comp_def)

lemma put_slot_due: "y \<in> set (put_slot a zs) \<Longrightarrow> slot_due y = due (snd a) \<or> slot_due y \<in> slot_due ` set zs"
  by (induction zs) (auto split: if_splits)

lemma put_slot_order: "in_order zs \<Longrightarrow> in_order (put_slot a zs)"
proof (induction zs)
  case Nil
  then show ?case by (simp add: in_order_def)
next
  case (Cons z zs)
  have z: "z \<noteq> []" "\<forall>b\<in>set z. due (snd b) = slot_due z" "\<forall>y\<in>set zs. slot_due z < slot_due y" "in_order zs"
    using Cons.prems by (simp_all add: in_order_Cons)
  consider "slot_due z < due (snd a)" | "slot_due z = due (snd a)" | "due (snd a) < slot_due z" by linarith
  then show ?case
  proof cases
    case 1
    moreover have "slot_due z < slot_due y" if "y \<in> set (put_slot a zs)" for y
      using put_slot_due [OF that] 1 z(3) by auto
    ultimately show ?thesis using z Cons.IH by (simp add: in_order_Cons)
  qed (use z in \<open>auto simp: in_order_Cons\<close>)
qed

lemma put_slot_split:
  assumes "in_order zs"
  obtains as bs where "zs = as @ bs" and "\<forall>z\<in>set as. slot_due z < due e"
    and "\<And>z cs. bs = z # cs \<Longrightarrow> due e \<le> slot_due z"
    and "put_slot (x, e) zs = as @ (case bs of [] \<Rightarrow> [[(x, e)]]
      | z # cs \<Rightarrow> if slot_due z = due e then ((x, e) # z) # cs else [(x, e)] # z # cs)"
proof -
  have "\<exists>as bs. zs = as @ bs \<and> (\<forall>z\<in>set as. slot_due z < due e) \<and> (\<forall>z cs. bs = z # cs \<longrightarrow> due e \<le> slot_due z) \<and>
    put_slot (x, e) zs = as @ (case bs of [] \<Rightarrow> [[(x, e)]]
      | z # cs \<Rightarrow> if slot_due z = due e then ((x, e) # z) # cs else [(x, e)] # z # cs)"
  proof (induction zs)
    case (Cons z zs)
    show ?case
    proof (cases "slot_due z < due e")
      case True
      obtain as bs where "zs = as @ bs" "\<forall>z\<in>set as. slot_due z < due e"
        "\<forall>z cs. bs = z # cs \<longrightarrow> due e \<le> slot_due z"
        "put_slot (x, e) zs = as @ (case bs of [] \<Rightarrow> [[(x, e)]]
          | z # cs \<Rightarrow> if slot_due z = due e then ((x, e) # z) # cs else [(x, e)] # z # cs)"
        using Cons.IH by (elim exE conjE) (rule that)
      then show ?thesis using True by (intro exI [of _ "z # as"] exI [of _ bs]) simp
    next
      case False
      then show ?thesis by (intro exI [of _ "[]"] exI [of _ "z # zs"]) simp
    qed
  qed simp
  then show ?thesis by (elim exE conjE) (rule that; blast)
qed

section \<open>The list and its entries\<close>

definition orders :: "'u equeue \<Rightarrow> u32 \<Rightarrow> slot list \<Rightarrow> bool" where
  "orders s q zs \<longleftrightarrow> holds s q (events zs) \<and> in_order zs \<and>
     (\<forall>b\<in>set (flat zs). e_target s (fst b) = of_nat (due (snd b)))"

abbreviation near :: "nat \<Rightarrow> nat \<Rightarrow> bool" where
  "near a b \<equiv> int a - int b < 2147483648 \<and> - 2147483648 \<le> int a - int b"

lemma near_eq: "near a b \<Longrightarrow> (of_nat a :: u32) = of_nat b \<longleftrightarrow> a = b"
proof
  assume "near a b" and "(of_nat a :: u32) = of_nat b"
  then have "int a - int b = sint (0 :: u32)" using tickdiff_of_nat [of a b] by (simp add: equeue_tickdiff_def)
  then show "a = b" by simp
qed simp

text \<open>A slot is represented by its first event.\<close>

lemma orders_slot:
  assumes "orders s q zs" and "z \<in> set zs"
  obtains a where "hd (map fst z) = fst a" and "a \<in> set (flat zs)" and "due (snd a) = slot_due z"
    and "e_target s (fst a) = of_nat (slot_due z)"
proof -
  have "z \<noteq> []" using assms by (auto simp: orders_def in_order_def)
  then have "hd z \<in> set (flat zs)" using assms(2) by (auto simp: set_flat intro!: bexI [of _ z])
  moreover have "hd (map fst z) = fst (hd z)" using \<open>z \<noteq> []\<close> by (simp add: hd_map)
  ultimately show ?thesis using that [of "hd z"] assms(1) by (simp add: orders_def slot_due_def)
qed

lemma slot_target:
  assumes "orders s q zs" and "z \<in> set zs"
  shows "e_target s (hd (map fst z)) = of_nat (slot_due z)"
  by (rule orders_slot [OF assms]) simp

lemma link_event_frame [simp]:
  "data (link_event e (behind q as) s) = data s" "eq_tick (link_event e (behind q as) s) = eq_tick s"
  "eq_generation (link_event e (behind q as) s) = eq_generation s"
  by (auto simp: link_event_def Let_def data_def set_ref_def place_after_def split: option.splits)

lemma enqueue_orders:
  assumes o: "orders s q zs" and x: "x \<notin> fst ` set (flat zs)"
    and target: "tick + equeue_clampdiff (e_target s x) tick = of_nat (due e)"
    and near: "\<And>b. b \<in> set (flat zs) \<Longrightarrow> near (due (snd b)) (due e)" and bg: "bg_update s q = None"
  obtains s' where "equeue_enqueue P q x tick s = Some s'" and "orders s' q (put_slot (x, e) zs)"
    and "data s' = data (s\<lparr>e_target := (e_target s)(x := of_nat (due e)),
      e_generation := (e_generation s)(x := eq_generation s q)\<rparr>)"
    and "eq_tick s' = eq_tick s" "eq_generation s' = eq_generation s"
    and "\<And>y. y \<noteq> x \<Longrightarrow> y \<notin> fst ` set (flat zs) \<Longrightarrow> e_next s' y = e_next s y \<and> e_sibling s' y = e_sibling s y"
proof -
  define s0 where "s0 = s\<lparr>e_target := (e_target s)(x := of_nat (due e))\<rparr>"
  define s1 where "s1 = s0\<lparr>e_generation := (e_generation s0)(x := eq_generation s0 q)\<rparr>"
  have code: "s1 = s\<lparr>e_target := (e_target s)(x := of_nat (due e)), e_generation := (e_generation s)(x := eq_generation s q)\<rparr>"
    by (simp add: s1_def s0_def)
  have in_zs: "in_order zs" using o by (simp add: orders_def)
  have h1: "holds s1 q (events zs)" using o by (simp add: orders_def holds_def code)
  have t1: "e_target s1 (fst b) = of_nat (due (snd b))" if "b \<in> set (flat zs)" for b
    using o x that by (auto simp: orders_def code)
  then have o1: "orders s1 q zs" using h1 in_zs by (simp add: orders_def)
  have tx: "e_target s1 x = of_nat (due e)" by (simp add: code)
  obtain as bs where zs: "zs = as @ bs" "\<forall>z\<in>set as. slot_due z < due e"
    "\<And>z cs. bs = z # cs \<Longrightarrow> due e \<le> slot_due z"
    and put: "put_slot (x, e) zs = as @ (case bs of [] \<Rightarrow> [[(x, e)]]
      | z # cs \<Rightarrow> if slot_due z = due e then ((x, e) # z) # cs else [(x, e)] # z # cs)"
    by (rule put_slot_split [OF in_zs, of e x]) (rule that)
  have diff: "equeue_tickdiff (e_target s1 (hd (map fst z))) (e_target s1 x) = int (slot_due z) - int (due e)"
    "near (slot_due z) (due e)" if z: "z \<in> set zs" for z
  proof (atomize (full))
    obtain a where a: "hd (map fst z) = fst a" "a \<in> set (flat zs)" "due (snd a) = slot_due z"
      "e_target s1 (fst a) = of_nat (slot_due z)" by (rule orders_slot [OF o1 z])
    have "near (slot_due z) (due e)" using near [OF a(2)] a(3) by simp
    then show "equeue_tickdiff (e_target s1 (hd (map fst z))) (e_target s1 x) = int (slot_due z) - int (due e) \<and>
        near (slot_due z) (due e)"
      unfolding a(1,4) tx using tickdiff_of_nat by blast
  qed
  have slot: "event_slot s1 (e_target s1 x) (Queue_Of q) = Some (behind q (events as))"
  proof -
    have "event_slot s1 (e_target s1 x) (behind q []) = Some (behind q ([] @ events as))"
    proof (rule event_slot_split)
      show "segs (e_next s1) (e_sibling s1) (e_ref s1) (Queue_Of q) (eq_queue s1 q) ([] @ events as @ events bs) None"
        using h1 zs(1) by (simp add: holds_def)
      show "equeue_tickdiff (e_target s1 (hd xs)) (e_target s1 x) < 0" if "xs \<in> set (events as)" for xs
        using that diff(1) zs(1,2) by auto
      show "0 \<le> equeue_tickdiff (e_target s1 (hd xs)) (e_target s1 x)" if "events bs = xs # ds" for xs ds
        using that diff(1) zs(1,3) by auto
    qed
    then show ?thesis by simp
  qed
  let ?s = "link_event x (behind q (events as)) s1"
  have evs: "events as @ events bs = events zs" using zs(1) by simp
  have xnot: "x \<notin> set (concat (events as @ events bs))" unfolding evs set_events by (rule x)
  have both: "holds ?s q (events (put_slot (x, e) zs)) \<and>
    (\<forall>y. y \<noteq> x \<longrightarrow> y \<notin> set (concat (events as @ events bs)) \<longrightarrow> e_next ?s y = e_next s1 y \<and> e_sibling ?s y = e_sibling s1 y)"
  proof (cases "\<exists>z cs. bs = z # cs \<and> slot_due z = due e")
    case True
    then obtain z cs where bs: "bs = z # cs" "slot_due z = due e" by blast
    have "z \<in> set zs" using zs(1) bs(1) by simp
    note a = slot_target [OF o1 this]
    have bsz: "events bs = map fst z # events cs" using bs(1) by simp
    have "holds s1 q (events as @ map fst z # events cs)" using h1 zs(1) bsz by simp
    moreover have "x \<notin> set (concat (events as @ map fst z # events cs))" using xnot unfolding bsz .
    moreover have "e_target s1 (hd (map fst z)) = e_target s1 x" unfolding a tx bs(2) by (rule refl)
    ultimately have "holds ?s q (events as @ (x # map fst z) # events cs)"
      "\<And>y. y \<noteq> x \<Longrightarrow> y \<notin> set (concat (events as @ map fst z # events cs)) \<Longrightarrow>
        e_next ?s y = e_next s1 y \<and> e_sibling ?s y = e_sibling s1 y"
      by (rule link_event_join)+
    moreover have "events (put_slot (x, e) zs) = events as @ (x # map fst z) # events cs" using put bs by simp
    ultimately show ?thesis unfolding bsz by simp
  next
    case False
    then have ev: "events (put_slot (x, e) zs) = events as @ [x] # events bs" using put by (cases bs) auto
    have h: "holds s1 q (events as @ events bs)" using h1 zs(1) by simp
    have other: "e_target s1 (hd xs) \<noteq> e_target s1 x" if e: "events bs = xs # cs" for xs cs
    proof -
      obtain z cs' where bs: "bs = z # cs'" "xs = map fst z" using e by (cases bs) auto
      then have "z \<in> set zs" using zs(1) by simp
      then have "near (slot_due z) (due e)" "e_target s1 (hd xs) = of_nat (slot_due z)"
        using diff(2) [of z] slot_target [OF o1, of z] bs(2) by simp_all
      moreover have "slot_due z \<noteq> due e" using False bs(1) by blast
      ultimately show ?thesis using near_eq [of "slot_due z" "due e"] tx by simp
    qed
    have "holds ?s q (events as @ [x] # events bs)" by (rule link_event_new [OF h xnot other])
    moreover have "\<And>y. y \<noteq> x \<Longrightarrow> y \<notin> set (concat (events as @ events bs)) \<Longrightarrow>
        e_next ?s y = e_next s1 y \<and> e_sibling ?s y = e_sibling s1 y"
      by (rule link_event_new(2) [OF h xnot other])
    ultimately show ?thesis unfolding ev by simp
  qed
  have "orders ?s q (put_slot (x, e) zs)"
  proof -
    have "e_target ?s = e_target s1" using link_event_frame(1) [of x q "events as" s1] by (simp add: data_def)
    moreover have "set (flat (put_slot (x, e) zs)) = insert (x, e) (set (flat zs))"
      unfolding put_slot_flat [OF in_zs] by (metis (no_types, lifting) append_Cons list.simps(15) set_append Un_insert_right takeWhile_dropWhile_id)
    ultimately show ?thesis using both put_slot_order [OF in_zs] t1 tx by (auto simp: orders_def)
  qed
  moreover have "equeue_enqueue P q x tick s = Some ?s"
  proof -
    have "bg_update ?s q = None" using link_event_frame(1) [of x q "events as" s1] bg by (simp add: data_def code)
    then show ?thesis
      using slot unfolding equeue_enqueue_def Let_def target s0_def [symmetric] s1_def [symmetric]
      by (simp add: notify_background_def)
  qed
  moreover have "e_next ?s y = e_next s y \<and> e_sibling ?s y = e_sibling s y" if "y \<noteq> x" "y \<notin> fst ` set (flat zs)" for y
  proof -
    have "y \<notin> set (concat (events as @ events bs))" unfolding evs set_events by (rule that(2))
    then show ?thesis using both that(1) by (simp add: code)
  qed
  ultimately show ?thesis using that [of ?s] by (simp add: code)
qed

section \<open>Taking an event out\<close>

lemma sibs_ref: "sibs sb rf pl p xs \<Longrightarrow> \<forall>c. pl \<noteq> Chunks_Of c \<Longrightarrow> x \<in> set xs \<Longrightarrow> rf x \<noteq> Chunks_Of c"
  by (induction xs arbitrary: pl p) auto

lemma segs_ref: "segs nx sb rf pl p ss r \<Longrightarrow> \<forall>c. pl \<noteq> Chunks_Of c \<Longrightarrow> x \<in> set (concat ss) \<Longrightarrow> rf x \<noteq> Chunks_Of c"
  by (induction ss arbitrary: pl p) (auto dest: sibs_ref)

lemma assign_data:
  assumes "\<forall>c. p \<noteq> Chunks_Of c"
  shows "data (assign p v s) = data s" and "eq_tick (assign p v s) = eq_tick s"
    and "eq_generation (assign p v s) = eq_generation s"
  using assms by (cases p; simp add: data_def)+

lemma set_ref_data: "data (set_ref y p s) = data s" "eq_tick (set_ref y p s) = eq_tick s"
  "eq_generation (set_ref y p s) = eq_generation s" "data (s\<lparr>e_next := n\<rparr>) = data s"
  by (auto simp: set_ref_def data_def split: option.splits)

lemma unlink_frame:
  assumes "holds s q ss" and "x \<in> set (concat ss)"
  shows "data (unlink_event x s) = data s" and "eq_tick (unlink_event x s) = eq_tick s"
    and "eq_generation (unlink_event x s) = eq_generation s"
proof -
  have r: "\<forall>c. e_ref s x \<noteq> Chunks_Of c" using assms segs_ref by (fastforce simp: holds_def)
  have "data (unlink_event x s) = data s \<and> eq_tick (unlink_event x s) = eq_tick s \<and>
    eq_generation (unlink_event x s) = eq_generation s"
  proof (cases "e_sibling s x")
    case None
    then show ?thesis by (simp add: unlink_event_def Let_def set_ref_data assign_data [OF r])
  next
    case (Some b)
    define t where "t = set_ref (e_next s x) (Next_Of b) (s\<lparr>e_next := (e_next s)(b := e_next s x)\<rparr>)"
    have "\<forall>c. e_ref t x \<noteq> Chunks_Of c" using r by (simp add: t_def split: option.splits)
    moreover have "data t = data s \<and> eq_tick t = eq_tick s \<and> eq_generation t = eq_generation s"
      by (simp add: t_def set_ref_data)
    moreover have "unlink_event x s = (let u = assign (e_ref t x) (Some b) t in set_ref (Some b) (e_ref u x) u)"
      using Some by (simp add: unlink_event_def t_def Let_def)
    ultimately show ?thesis by (simp add: Let_def set_ref_data assign_data)
  qed
  then show "data (unlink_event x s) = data s" "eq_tick (unlink_event x s) = eq_tick s"
    "eq_generation (unlink_event x s) = eq_generation s" by auto
qed

lemma unlink_orders:
  assumes o: "orders s q zs" and x: "(x, e) \<in> set (flat zs)"
  obtains zs' where "orders (unlink_event x s) q zs'" and "flat zs' = filter (\<lambda>b. fst b \<noteq> x) (flat zs)"
    and "\<And>y. y \<notin> fst ` set (flat zs) \<Longrightarrow> e_next (unlink_event x s) y = e_next s y \<and>
      e_sibling (unlink_event x s) y = e_sibling s y"
    and "data (unlink_event x s) = data s" and "eq_tick (unlink_event x s) = eq_tick s"
    and "eq_generation (unlink_event x s) = eq_generation s"
proof -
  have h: "holds s q (events zs)" using o by (simp add: orders_def)
  obtain z where z: "z \<in> set zs" "(x, e) \<in> set z" using x by (auto simp: set_flat)
  obtain as bs where as: "zs = as @ z # bs" using z(1) by (meson split_list)
  obtain us vs where us: "z = us @ (x, e) # vs" using z(2) by (meson split_list)
  have d: "distinct (map fst (flat zs))" using h by (simp add: distinct_flat holds_def)
  let ?s = "unlink_event x s"
  define zs' where "zs' = as @ (if us @ vs = [] then [] else [us @ vs]) @ bs"
  have ev: "events zs = events as @ (map fst us @ x # map fst vs) # events bs" using as us by simp
  have h': "holds ?s q (events zs')" and frame: "\<And>y. y \<notin> set (concat (events zs)) \<Longrightarrow>
      e_next ?s y = e_next s y \<and> e_sibling ?s y = e_sibling s y"
  proof (atomize (full), cases "us = []")
    case True
    then have h0: "holds s q (events as @ (x # map fst vs) # events bs)" using h ev by simp
    have "events zs' = events as @ (if map fst vs = [] then events bs else map fst vs # events bs)"
      using True by (simp add: zs'_def)
    then show "holds ?s q (events zs') \<and> (\<forall>y. y \<notin> set (concat (events zs)) \<longrightarrow>
        e_next ?s y = e_next s y \<and> e_sibling ?s y = e_sibling s y)"
      using unlink_head [OF h0] ev True by simp
  next
    case False
    then have h0: "holds s q (events as @ (map fst us @ x # map fst vs) # events bs)" using h ev by simp
    have "events zs' = events as @ (map fst us @ map fst vs) # events bs" using False by (simp add: zs'_def)
    then show "holds ?s q (events zs') \<and> (\<forall>y. y \<notin> set (concat (events zs)) \<longrightarrow>
        e_next ?s y = e_next s y \<and> e_sibling ?s y = e_sibling s y)"
      using unlink_inner [OF h0] ev False by simp
  qed
  have flat': "flat zs' = filter (\<lambda>b. fst b \<noteq> x) (flat zs)"
  proof -
    have "flat zs = flat as @ rev vs @ (x, e) # rev us @ flat bs" using as us by simp
    moreover have "flat zs' = flat as @ rev vs @ rev us @ flat bs" by (simp add: zs'_def)
    moreover have "x \<notin> fst ` set (flat as @ rev vs @ rev us @ flat bs)" using d as us by auto
    then have "filter (\<lambda>b. fst b \<noteq> x) (flat as @ rev vs @ rev us @ flat bs) = flat as @ rev vs @ rev us @ flat bs"
      by (intro filter_True) force
    ultimately show ?thesis by simp
  qed
  have in_ss: "x \<in> set (concat (events zs))" using x set_events [of zs] by force
  note fr = unlink_frame [OF h in_ss]
  have "in_order zs'"
  proof -
    have "in_order zs" using o by (simp add: orders_def)
    then have o1: "in_order as" "in_order bs" "\<forall>a\<in>set z. due (snd a) = slot_due z" "\<forall>y\<in>set bs. slot_due z < slot_due y"
      "\<forall>y\<in>set as. slot_due y < slot_due z \<and> (\<forall>b\<in>set bs. slot_due y < slot_due b)"
      unfolding as by (auto simp: in_order_append in_order_Cons)
    show ?thesis
    proof (cases "us @ vs = []")
      case False
      then have "hd (us @ vs) \<in> set (us @ vs)" by (rule hd_in_set)
      then have "slot_due (us @ vs) = slot_due z" using o1(3) us unfolding slot_due_def [of "us @ vs"] by auto
      then show ?thesis using False o1 us by (auto simp: zs'_def in_order_append in_order_Cons)
    qed (use o1 in \<open>auto simp: zs'_def in_order_append\<close>)
  qed
  moreover have "e_target ?s = e_target s" using fr(1) by (simp add: data_def)
  ultimately have "orders ?s q zs'" using h' o flat' by (auto simp: orders_def)
  then show ?thesis
    by (rule that [OF _ flat' frame [unfolded set_events] fr])
qed

section \<open>Collecting events\<close>

lemma in_order_split:
  assumes "in_order zs"
  obtains as bs where "zs = as @ bs" and "\<forall>z\<in>set as. slot_due z \<le> t" and "\<forall>z\<in>set bs. t < slot_due z"
    and "flat as = takeWhile (\<lambda>b. due (snd b) \<le> t) (flat zs)" and "flat bs = dropWhile (\<lambda>b. due (snd b) \<le> t) (flat zs)"
    and "in_order as" and "in_order bs"
proof -
  let ?as = "takeWhile (\<lambda>z. slot_due z \<le> t) zs" and ?bs = "dropWhile (\<lambda>z. slot_due z \<le> t) zs"
  have o: "in_order (?as @ ?bs)" using assms by simp
  have as: "\<forall>z\<in>set ?as. slot_due z \<le> t" using set_takeWhileD by fast
  have bs: "\<forall>z\<in>set ?bs. t < slot_due z"
  proof (cases ?bs)
    case (Cons z cs)
    then have "t < slot_due z" using hd_dropWhile [of "\<lambda>z. slot_due z \<le> t" zs] by simp
    then show ?thesis using o unfolding Cons in_order_append in_order_Cons by auto
  next
    case Nil
    show ?thesis unfolding Nil by simp
  qed
  have oo: "in_order ?as" "in_order ?bs" using o unfolding in_order_append by blast+
  have 1: "\<And>b. b \<in> set (flat ?as) \<Longrightarrow> due (snd b) \<le> t" using flat_due [OF oo(1)] as by fastforce
  have 2: "\<And>b. b \<in> set (flat ?bs) \<Longrightarrow> t < due (snd b)" using flat_due [OF oo(2)] bs by fastforce
  have fl: "flat zs = flat ?as @ flat ?bs" using flat_simps(3) [of ?as ?bs] by simp
  have "takeWhile (\<lambda>b. due (snd b) \<le> t) (flat ?bs) = []" "dropWhile (\<lambda>b. due (snd b) \<le> t) (flat ?bs) = flat ?bs"
    using 2 by (cases "flat ?bs"; force)+
  then have "flat ?as = takeWhile (\<lambda>b. due (snd b) \<le> t) (flat zs)" "flat ?bs = dropWhile (\<lambda>b. due (snd b) \<le> t) (flat zs)"
    unfolding fl using 1 by simp_all
  then show ?thesis using that [of ?as ?bs] as bs oo by simp
qed

lemma dequeue_orders:
  assumes o: "orders s q zs" and near: "\<And>b. b \<in> set (flat zs) \<Longrightarrow> near (due (snd b)) t"
    and tick: "eq_tick s q = of_nat l" "l \<le> t" "t < l + 2147483648"
  obtains es s' zs' where "equeue_dequeue q (of_nat t) s = Some (es, s')"
    and "chain (e_next s') es (map fst (takeWhile (\<lambda>b. due (snd b) \<le> t) (flat zs)))"
    and "orders s' q zs'" and "flat zs' = dropWhile (\<lambda>b. due (snd b) \<le> t) (flat zs)"
    and "\<And>y. y \<notin> fst ` set (flat zs) \<Longrightarrow> e_next s' y = e_next s y" and "e_sibling s' = e_sibling s"
    and "data s' = data s" and "eq_generation s' q = eq_generation s q + 1" and "eq_tick s' q = of_nat t"
proof -
  have in_zs: "in_order zs" using o by (simp add: orders_def)
  obtain as bs where zs: "zs = as @ bs" and as: "\<forall>z\<in>set as. slot_due z \<le> t" and bs: "\<forall>z\<in>set bs. t < slot_due z"
    and fl: "flat as = takeWhile (\<lambda>b. due (snd b) \<le> t) (flat zs)" "flat bs = dropWhile (\<lambda>b. due (snd b) \<le> t) (flat zs)"
    and oo: "in_order as" "in_order bs"
    using in_zs by (rule in_order_split)
  have diff: "equeue_tickdiff (e_target s (hd (map fst z))) (of_nat t) = int (slot_due z) - int t" if z: "z \<in> set zs" for z
  proof -
    have "near (slot_due z) t" using orders_slot [OF o z] near by metis
    then show ?thesis unfolding slot_target [OF o z] by (intro tickdiff_of_nat) simp_all
  qed
  have h: "holds s q (events as @ events bs)" using o zs by (simp add: orders_def)
  have 1: "equeue_tickdiff (e_target s (hd xs)) (of_nat t) \<le> 0" if "xs \<in> set (events as)" for xs
    using that diff as zs by auto
  have 2: "0 < equeue_tickdiff (e_target s (hd xs)) (of_nat t)" if e: "events bs = xs # ds" for xs ds
  proof -
    obtain z where "z \<in> set bs" "xs = map fst z" using e by (cases bs) auto
    then show ?thesis using diff [of z] bs zs by simp
  qed
  obtain es s' where s': "equeue_dequeue q (of_nat t) s = Some (es, s')"
    "chain (e_next s') es (concat (map rev (events as)))" "holds s' q (events bs)"
    "\<And>x. x \<notin> set (concat (events as)) \<Longrightarrow> e_next s' x = e_next s x" "e_sibling s' = e_sibling s"
    "data s' = data s" "eq_generation s' q = eq_generation s q + 1"
    "eq_tick s' q = (if equeue_tickdiff (eq_tick s q) (of_nat t) \<le> 0 then of_nat t else eq_tick s q)"
    by (rule equeue_dequeue_due [where target = "of_nat t", OF h]) (assumption | rule that | erule 1 | erule 2)+
  have "equeue_tickdiff (eq_tick s q) (of_nat t) = int l - int t" unfolding tick(1)
    by (rule tickdiff_of_nat) (use tick in auto)
  then have tk: "eq_tick s' q = of_nat t" using s'(8) tick(2) by simp
  have "e_target s' = e_target s" using s'(6) by (simp add: data_def)
  then have "orders s' q bs" using s'(3) oo(2) o zs by (simp add: orders_def)
  moreover have "chain (e_next s') es (map fst (flat as))" using s'(2) by (simp add: fst_flat)
  moreover have "e_next s' y = e_next s y" if "y \<notin> fst ` set (flat zs)" for y
  proof (rule s'(4))
    show "y \<notin> set (concat (events as))" using that zs unfolding set_events by auto
  qed
  ultimately show ?thesis using that [OF s'(1)] fl s'(5-7) tk by simp
qed

end
