(* ===== verification/Equeue_Memory.thy ===== *)
theory Equeue_Memory
  imports Equeue_Order
begin

text \<open>
  The chunks of an event queue (events/source/equeue.c) whose events are all simple call-backs,
  44 bytes each, and the identifiers of events, which hold 8 bits of a counter per chunk.
\<close>

section \<open>Chunks\<close>

definition chunk :: "u32 \<Rightarrow> nat \<Rightarrow> u32" where
  "chunk b i = b + of_nat (44 * i)"

text \<open>\<open>live\<close> are the events in use, \<open>fs\<close> the chunks that are free again.\<close>

definition room :: "'u equeue \<Rightarrow> u32 \<Rightarrow> nat \<Rightarrow> bool" where
  "room s q c \<longleftrightarrow> eq_buffer s q \<noteq> 0 \<and> eq_npw2 s q \<le> 24 \<and> 44 * c < 2 ^ eq_npw2 s q \<and>
     unat (eq_buffer s q) + 44 * c < 4294967296"

definition chunks_ok :: "'u equeue \<Rightarrow> u32 \<Rightarrow> nat \<Rightarrow> u32 set \<Rightarrow> u32 list \<Rightarrow> bool" where
  "chunks_ok s q c live fs \<longleftrightarrow> room s q c \<and> distinct fs \<and> live \<inter> set fs = {} \<and>
     (\<forall>x\<in>live \<union> set fs. e_size s x = 44) \<and> chain (e_sibling s) (eq_chunks s q) fs \<and>
     (fs \<noteq> [] \<longrightarrow> e_next s (hd fs) = None) \<and>
     (\<exists>k\<le>c. slab_data s q = chunk (eq_buffer s q) k \<and> unat (slab_size s q) div 44 = c - k \<and>
        live \<union> set fs = chunk (eq_buffer s q) ` {..<k})"

lemma unat_chunk: "unat b + 44 * c < 4294967296 \<Longrightarrow> i \<le> c \<Longrightarrow> unat (chunk b i) = unat b + 44 * i"
  unfolding chunk_def by (rule unat_plus) simp

lemma chunk_inj:
  assumes "unat b + 44 * c < 4294967296" and "i \<le> c" and "j \<le> c"
  shows "chunk b i = chunk b j \<longleftrightarrow> i = j"
proof
  assume "chunk b i = chunk b j"
  then have "unat b + 44 * i = unat b + 44 * j" using unat_chunk [OF assms(1,2)] unat_chunk [OF assms(1,3)] by (simp only:)
  then show "i = j" by simp
qed simp

lemma chunks_inj: "unat b + 44 * c < 4294967296 \<Longrightarrow> k \<le> c \<Longrightarrow> inj_on (chunk b) {..<k}"
  by (rule inj_onI) (simp add: chunk_inj [of b c])

lemma chunks_count:
  assumes "chunks_ok s q c live fs"
  obtains k where "k \<le> c" and "slab_data s q = chunk (eq_buffer s q) k" and "unat (slab_size s q) div 44 = c - k"
    and "live \<union> set fs = chunk (eq_buffer s q) ` {..<k}" and "card live + length fs = k"
proof -
  obtain k where k: "k \<le> c" "slab_data s q = chunk (eq_buffer s q) k" "unat (slab_size s q) div 44 = c - k"
    "live \<union> set fs = chunk (eq_buffer s q) ` {..<k}"
    using assms unfolding chunks_ok_def by blast
  have "card (live \<union> set fs) = k"
    unfolding k(4) using assms k(1) by (subst card_image [OF chunks_inj]) (auto simp: chunks_ok_def room_def)
  moreover have "finite (live \<union> set fs)" unfolding k(4) by simp
  then have "card (live \<union> set fs) = card live + card (set fs)"
    using assms by (intro card_Un_disjoint) (auto simp: chunks_ok_def)
  ultimately have "card live + length fs = k" using assms by (simp add: chunks_ok_def distinct_card)
  then show ?thesis using that k by blast
qed

lemma chunks_load: "chunks_ok s q c live fs \<Longrightarrow> card live \<le> c"
  by (erule chunks_count) simp

lemma chunk_address:
  assumes "chunks_ok s q c live fs" and "x \<in> live \<union> set fs"
  obtains i where "i < c" and "x = chunk (eq_buffer s q) i" and "\<not> is_user_allocated_event q x s"
proof -
  obtain k where k: "k \<le> c" "slab_data s q = chunk (eq_buffer s q) k"
    "live \<union> set fs = chunk (eq_buffer s q) ` {..<k}" using assms(1) by (rule chunks_count)
  obtain i where i: "i < k" "x = chunk (eq_buffer s q) i" using assms(2) k(3) by auto
  have r: "unat (eq_buffer s q) + 44 * c < 4294967296" "eq_buffer s q \<noteq> 0"
    using assms(1) by (auto simp: chunks_ok_def room_def)
  have "\<not> is_user_allocated_event q x s"
    using unat_chunk [OF r(1), of i] unat_chunk [OF r(1), of k] i k r(2)
    by (simp add: is_user_allocated_event_def word_less_nat_alt)
  then show ?thesis by (intro that [of i]) (use i k(1) in simp_all)
qed

text \<open>What the memory functions leave alone.\<close>

definition others where
  "others s = ((eq_queue s, eq_tick s, eq_break s, eq_generation s, eq_buffer s, eq_npw2 s, bg_active s, bg_update s),
     (e_generation s, e_ref s, e_target s, e_period s, e_dtor s, e_cb s, ec_cb s, ec_data s),
     (now s, lapses s, user s))"

lemma mem_alloc_ok:
  assumes ok: "chunks_ok s q c live fs"
  shows "card live = c \<and> equeue_mem_alloc q 8 s = Some (None, s) \<or>
    card live < c \<and> (\<exists>x s' gs. equeue_mem_alloc q 8 s = Some (Some x, s') \<and> x \<notin> live \<and>
      chunks_ok s' q c (insert x live) gs \<and> (insert x live \<union> set gs) = insert x (live \<union> set fs) \<and>
      others s' = others s \<and> e_sibling s' = e_sibling s \<and> (\<forall>y. y \<notin> set fs \<longrightarrow> e_next s' y = e_next s y) \<and>
      e_id s' = (if x \<in> set fs then e_id s else (e_id s)(x := 1)))"
proof -
  have sz: "(8 + event_size + 3) AND NOT 3 = (44 :: u32)" by (simp add: event_size_def)
  obtain k where k: "k \<le> c" "slab_data s q = chunk (eq_buffer s q) k" "unat (slab_size s q) div 44 = c - k"
    "live \<union> set fs = chunk (eq_buffer s q) ` {..<k}" "card live + length fs = k"
    using ok by (rule chunks_count)
  have r: "unat (eq_buffer s q) + 44 * c < 4294967296" using ok by (simp add: chunks_ok_def room_def)
  show ?thesis
  proof (cases fs)
    case Nil
    then have found: "find_chunk s 44 (Chunks_Of q) = Some None"
      using ok by (subst find_chunk.simps) (simp add: chunks_ok_def)
    have live: "live = chunk (eq_buffer s q) ` {..<k}" "card live = k" using k(4,5) Nil by simp_all
    show ?thesis
    proof (cases "k < c")
      case False
      then have "unat (slab_size s q) < 44" using k(3) by (simp add: div_eq_0_iff)
      then have "\<not> (44 :: u32) \<le> slab_size s q" by (simp add: word_le_nat_alt)
      then have "equeue_mem_alloc q 8 s = Some (None, s)" using found sz by (simp add: equeue_mem_alloc_def Let_def)
      then show ?thesis using False k(1) live(2) by simp
    next
      case True
      let ?x = "chunk (eq_buffer s q) k"
      let ?s = "s\<lparr>slab_data := (slab_data s)(q := ?x + 44), slab_size := (slab_size s)(q := slab_size s q - 44),
        e_size := (e_size s)(?x := 44), e_id := (e_id s)(?x := 1)\<rparr>"
      have big: "44 \<le> unat (slab_size s q)" using k(3) True by (cases "unat (slab_size s q) < 44") simp_all
      then have le: "(44 :: u32) \<le> slab_size s q" by (simp add: word_le_nat_alt)
      have "unat (slab_size s q - 44) = unat (slab_size s q) - 44" using unat_sub_le [OF le] by simp
      then have "unat (slab_size s q - 44) div 44 = c - Suc k" using k(3) big by (metis diff_Suc_eq_diff_pred diff_commute diff_Suc_1 le_div_geq zero_less_numeral)
      moreover have "?x + 44 = chunk (eq_buffer s q) (Suc k)" by (simp add: chunk_def)
      moreover have new: "?x \<notin> live"
      proof
        assume "?x \<in> live"
        then obtain i where "i < k" "?x = chunk (eq_buffer s q) i" unfolding live(1) by (elim imageE) simp
        then show False using chunk_inj [OF r, of k i] True by simp
      qed
      moreover have "insert ?x live = chunk (eq_buffer s q) ` {..<Suc k}" unfolding live(1) lessThan_Suc by simp
      moreover have "room ?s q c" using ok by (simp add: chunks_ok_def room_def)
      moreover have "\<forall>y\<in>insert ?x live. e_size ?s y = 44" using ok Nil by (simp add: chunks_ok_def)
      moreover have "eq_chunks ?s q = None" using ok Nil by (simp add: chunks_ok_def)
      ultimately have "chunks_ok ?s q c (insert ?x live) []"
        using True unfolding chunks_ok_def by (intro conjI exI [of _ "Suc k"]) simp_all
      moreover have "equeue_mem_alloc q 8 s = Some (Some ?x, ?s)"
        using found sz le k(2) by (simp add: equeue_mem_alloc_def Let_def)
      moreover have "others ?s = others s" by (simp add: others_def)
      ultimately show ?thesis
        using True live(2) new Nil by (intro disjI2 conjI exI [of _ ?x] exI [of _ ?s] exI [of _ "[]"]) simp_all
    qed
  next
    case (Cons f gs)
    have f: "eq_chunks s q = Some f" "e_size s f = 44" "e_next s f = None" "chain (e_sibling s) (e_sibling s f) gs"
      "f \<notin> live" "f \<notin> set gs" "distinct gs" "live \<inter> set gs = {}"
      using ok Cons by (auto simp: chunks_ok_def)
    have found: "find_chunk s 44 (Chunks_Of q) = Some (Some (Chunks_Of q, f))"
      using f by (subst find_chunk.simps) simp
    define s' where "s' = (case gs of [] \<Rightarrow> s\<lparr>eq_chunks := (eq_chunks s)(q := None)\<rparr>
      | g # _ \<Rightarrow> s\<lparr>eq_chunks := (eq_chunks s)(q := Some g), e_next := (e_next s)(g := None)\<rparr>)"
    have "equeue_mem_alloc q 8 s = Some (Some f, s')"
      using found sz f by (cases gs) (auto simp: equeue_mem_alloc_def Let_def s'_def)
    moreover have "chunks_ok s' q c (insert f live) gs"
    proof -
      have "insert f live \<union> set gs = live \<union> set fs" using Cons by auto
      moreover have "chain (e_sibling s') (eq_chunks s' q) gs" "gs \<noteq> [] \<longrightarrow> e_next s' (hd gs) = None"
        using f(4) by (cases gs; auto simp: s'_def)+
      moreover have "e_size s' = e_size s" "slab_data s' = slab_data s" "slab_size s' = slab_size s"
        "eq_buffer s' = eq_buffer s" "eq_npw2 s' = eq_npw2 s"
        by (simp_all add: s'_def split: list.split)
      ultimately show ?thesis using ok f Cons unfolding chunks_ok_def room_def by auto
    qed
    moreover have "others s' = others s" "e_sibling s' = e_sibling s" "e_id s' = e_id s"
      "\<forall>y. y \<notin> set fs \<longrightarrow> e_next s' y = e_next s y"
      using Cons by (auto simp: s'_def others_def split: list.split)
    moreover have "card live < c" using k(1,5) Cons by simp
    moreover have "insert f live \<union> set gs = insert f (live \<union> set fs)" using Cons by auto
    ultimately show ?thesis
      using f(5) Cons by (intro disjI2 conjI exI [of _ f] exI [of _ s'] exI [of _ gs]) simp_all
  qed
qed

lemma mem_dealloc_ok:
  assumes ok: "chunks_ok s q c live fs" and x: "x \<in> live"
  obtains s' where "equeue_mem_dealloc q x s = Some s'" and "chunks_ok s' q c (live - {x}) (x # fs)"
    and "others s' = others s" and "e_id s' = e_id s"
    and "\<And>y. y \<noteq> x \<Longrightarrow> e_next s' y = e_next s y \<and> e_sibling s' y = e_sibling s y"
proof -
  have sz: "e_size s x = 44" using ok x by (simp add: chunks_ok_def)
  have xf: "x \<notin> set fs" using ok x by (auto simp: chunks_ok_def)
  have slot: "chunk_slot s 44 (Chunks_Of q) = Some (Chunks_Of q)"
    using ok by (cases fs; subst chunk_slot.simps) (auto simp: chunks_ok_def)
  let ?s = "s\<lparr>e_sibling := (e_sibling s)(x := eq_chunks s q), e_next := (e_next s)(x := None),
    eq_chunks := (eq_chunks s)(q := Some x)\<rparr>"
  have "equeue_mem_dealloc q x s = Some ?s"
    using ok slot sz by (cases fs) (auto simp: equeue_mem_dealloc_def Let_def chunks_ok_def)
  moreover have "chunks_ok ?s q c (live - {x}) (x # fs)"
  proof -
    have "(live - {x}) \<union> set (x # fs) = live \<union> set fs" using x by auto
    moreover have "chain (e_sibling ?s) (eq_chunks ?s q) (x # fs)" using ok xf by (simp add: chunks_ok_def)
    ultimately show ?thesis using ok xf x unfolding chunks_ok_def room_def by auto
  qed
  moreover have "others ?s = others s" by (simp add: others_def)
  ultimately show ?thesis using that [of ?s] by simp
qed

section \<open>Identifiers\<close>

text \<open>The counter of a chunk runs from 1 to 255 and starts again; an identifier adds the place of the chunk.\<close>

definition number :: "nat \<Rightarrow> u8" where
  "number n = of_nat (n mod 255 + 1)"

definition enc :: "u32 \<Rightarrow> nat \<Rightarrow> u32 \<Rightarrow> nat \<Rightarrow> u32" where
  "enc b w x n = push_bit w (ucast (number n)) OR (x - b)"

text \<open>The identifiers of the events posted at the addresses of a list, the last one first.\<close>

fun ids :: "u32 \<Rightarrow> nat \<Rightarrow> u32 list \<Rightarrow> u32 list" where
  "ids b w [] = []"
| "ids b w (x # L) = enc b w x (count_list L x) # ids b w L"

lemma unat_number: "unat (number n) = n mod 255 + 1"
proof -
  have "n mod 255 < 255" by simp
  then show ?thesis unfolding number_def by (subst unat_of_nat_eq) simp_all
qed

lemma number_eq: "number n = number m \<longleftrightarrow> n mod 255 = m mod 255"
  using unat_number [of n] unat_number [of m] by (metis add_right_cancel word_unat_eq_iff)

lemma unat_number_u32: "unat (ucast (number n) :: u32) = n mod 255 + 1"
  using unat_ucast_widen [of "number n", where 'b = 32] unat_number [of n] by simp

lemma take_bit_small: "w \<le> 24 \<Longrightarrow> unat (d :: u32) < 2 ^ w \<Longrightarrow> take_bit w d = d"
  by (simp add: take_bit_eq_mod word_unat_eq_iff unat_mod_distrib unat_2p)

lemma drop_bit_small: "w \<le> 24 \<Longrightarrow> unat (d :: u32) < 2 ^ w \<Longrightarrow> drop_bit w d = 0"
  by (simp add: drop_bit_eq_div word_unat_eq_iff unat_div_distrib unat_2p)

lemma mask_word: "push_bit w 1 - 1 = (mask w :: u32)"
  by (simp add: mask_eq_exp_minus_1 push_bit_eq_mult)

lemma drop_push_number: "w \<le> 24 \<Longrightarrow> drop_bit w (push_bit w (ucast (a :: u8)) :: u32) = ucast a"
  by (rule bit_word_eqI) (auto simp: bit_simps dest: bit_imp_le_length)

text \<open>The distance of a chunk from the buffer fits under the counter.\<close>

definition offset_ok :: "u32 \<Rightarrow> nat \<Rightarrow> u32 \<Rightarrow> bool" where
  "offset_ok b w x \<longleftrightarrow> w \<le> 24 \<and> unat (x - b) < 2 ^ w"

lemma enc_place: "offset_ok b w x \<Longrightarrow> enc b w x n AND (push_bit w 1 - 1) = x - b"
  unfolding offset_ok_def mask_word take_bit_eq_mask [symmetric]
  by (simp add: enc_def take_bit_push_bit take_bit_small)

lemma enc_number: "offset_ok b w x \<Longrightarrow> drop_bit w (enc b w x n) = ucast (number n)"
  by (simp add: offset_ok_def enc_def drop_bit_small drop_push_number)

lemma ucast_u8_eq: "(ucast (a :: u8) :: u32) = ucast c \<longleftrightarrow> a = c"
  using unat_ucast_widen [of a, where 'b = 32] unat_ucast_widen [of c, where 'b = 32]
  by (simp add: word_unat_eq_iff)

lemma enc_eq:
  assumes "offset_ok b w x" and "offset_ok b w y"
  shows "enc b w x n = enc b w y m \<longleftrightarrow> x = y \<and> n mod 255 = m mod 255"
proof
  assume e: "enc b w x n = enc b w y m"
  have "x - b = y - b" using e enc_place [OF assms(1), of n] enc_place [OF assms(2), of m] by simp
  moreover have "number n = number m"
    using e enc_number [OF assms(1), of n] enc_number [OF assms(2), of m] by (simp add: ucast_u8_eq)
  ultimately show "x = y \<and> n mod 255 = m mod 255" by (simp add: number_eq)
next
  assume "x = y \<and> n mod 255 = m mod 255"
  then have "number n = number m" "x = y" by (simp_all add: number_eq)
  then show "enc b w x n = enc b w y m" by simp_all (simp add: enc_def)
qed

lemma enc_nonzero: "offset_ok b w x \<Longrightarrow> enc b w x n \<noteq> 0"
proof
  assume o: "offset_ok b w x" and "enc b w x n = 0"
  then have "unat (ucast (number n) :: u32) = 0" using enc_number [OF o, of n] by simp
  then show False unfolding unat_number_u32 by simp
qed

lemma ids_take:
  "i \<in> set (take p (ids b w L)) \<Longrightarrow>
   \<exists>us x vs. L = us @ x # vs \<and> i = enc b w x (count_list vs x) \<and> length us < p"
proof (induction L arbitrary: p)
  case (Cons y L)
  then obtain r where p: "p = Suc r" by (cases p) auto
  show ?case
  proof (cases "i = enc b w y (count_list L y)")
    case True
    then show ?thesis using p by (intro exI [of _ "[]"] exI [of _ y] exI [of _ L]) simp
  next
    case False
    then have "i \<in> set (take r (ids b w L))" using Cons.prems p by simp
    then obtain us x vs where "L = us @ x # vs" "i = enc b w x (count_list vs x)" "length us < r"
      using Cons.IH by blast
    then show ?thesis using p by (intro exI [of _ "y # us"] exI [of _ x] exI [of _ vs]) simp
  qed
qed simp

lemma ids_set: "i \<in> set (ids b w L) \<Longrightarrow> \<exists>us x vs. L = us @ x # vs \<and> i = enc b w x (count_list vs x)"
  using ids_take [of i "length (ids b w L)" b w L] by auto

text \<open>Before a chunk can repeat an identifier, 254 others of its events have been posted.\<close>

lemma repeat_late:
  assumes "L = us @ x # vs" and "count_list L x mod 255 = count_list vs x mod 255"
  shows "254 \<le> length us"
proof -
  have c: "count_list L x = count_list us x + 1 + count_list vs x" using assms(1) by simp
  then have "255 dvd count_list L x - count_list vs x" using assms(2) mod_eq_dvd_iff_nat [of "count_list vs x" "count_list L x" 255] by simp
  then have "255 \<le> count_list L x - count_list vs x" using c by (intro dvd_imp_le) simp_all
  then have "254 \<le> count_list us x" using c by simp
  then show ?thesis using count_le_length [of us x] by linarith
qed

lemma repeat_not_recent:
  assumes "\<forall>y\<in>insert x (set L). offset_ok b w y"
  shows "enc b w x (count_list L x) \<notin> set (take 254 (ids b w L))"
proof
  assume "enc b w x (count_list L x) \<in> set (take 254 (ids b w L))"
  from ids_take [OF this] obtain us y vs where L: "L = us @ y # vs"
    "enc b w x (count_list L x) = enc b w y (count_list vs y)" "length us < 254" by blast
  then have "x = y" "count_list L x mod 255 = count_list vs y mod 255"
    using enc_eq [of b w x y] assms by auto
  then show False using repeat_late [of L us x vs] L by simp
qed

section \<open>The counters of the chunks\<close>

definition numbered :: "'u equeue \<Rightarrow> u32 set \<Rightarrow> u32 set \<Rightarrow> u32 list \<Rightarrow> bool" where
  "numbered s live al L \<longleftrightarrow> set L \<subseteq> al \<and> live \<subseteq> set L \<and>
     (\<forall>x\<in>al. e_id s x = number (count_list L x - (if x \<in> live then 1 else 0)))"

lemma incid_number:
  assumes "e_id s x = number n" and "eq_npw2 s q \<le> 24"
  shows "equeue_incid q x s = s\<lparr>e_id := (e_id s)(x := number (n + 1))\<rparr>"
proof -
  have u: "unat (number n + 1) = (if n mod 255 = 254 then 0 else n mod 255 + 2)"
    using unat_number [of n] by (simp add: unat_word_ariths)
  have "push_bit (eq_npw2 s q) (ucast (number n + 1) :: u32) = 0 \<longleftrightarrow> number n + 1 = 0"
  proof
    assume "push_bit (eq_npw2 s q) (ucast (number n + 1) :: u32) = 0"
    then have "(ucast (number n + 1) :: u32) = ucast (0 :: u8)" using drop_push_number [OF assms(2), of "number n + 1"] by simp
    then show "number n + 1 = 0" unfolding ucast_u8_eq .
  qed simp
  moreover have "number (n + 1) = (if number n + 1 = 0 then 1 else number n + 1)"
  proof (cases "n mod 255 = 254")
    case True
    then have "(n + 1) mod 255 = 0" by (simp add: mod_Suc)
    moreover have "number n + 1 = 0" using u True by (simp add: word_unat_eq_iff)
    ultimately show ?thesis by (simp add: number_def)
  next
    case False
    then have "(n + 1) mod 255 = n mod 255 + 1" by (simp add: mod_Suc)
    moreover have "number n + 1 \<noteq> 0" using u False by (auto simp: word_unat_eq_iff)
    ultimately show ?thesis by (simp add: number_def)
  qed
  ultimately show ?thesis using assms(1) by (simp add: equeue_incid_def Let_def)
qed

end
