(* ===== verification/Equeue_Calls.thy ===== *)
theory Equeue_Calls
  imports Equeue_Memory "HOL-Library.Multiset"
begin

text \<open>
  What an event queue (events/source/equeue.c) has to do with its agenda, and that posting and
  cancelling events keep it so.
\<close>

section \<open>The relation\<close>

definition entered :: "'u equeue \<Rightarrow> u32 \<Rightarrow> u32 \<Rightarrow> entry \<Rightarrow> bool" where
  "entered s q x e \<longleftrightarrow> e_target s x = of_nat (due e) \<and> e_period s x = per e \<and> e_generation s x = of_nat (born e) \<and>
     e_dtor s x = None \<and> en_id e = equeue_event_id q x s \<and>
     (case action e of None \<Rightarrow> e_cb s x = None
      | Some n \<Rightarrow> e_cb s x = Some Ecallback_dispatch \<and> ec_cb s (x + event_size) = Some (User_Function n) \<and>
          ec_data s (x + event_size) = arg e)"

text \<open>\<open>zs\<close> are the events that wait, \<open>bs\<close> the collected ones, \<open>cs\<close> the one that runs, if any.\<close>

abbreviation all_events :: "slot list \<Rightarrow> slot \<Rightarrow> slot \<Rightarrow> slot" where
  "all_events zs cs bs \<equiv> flat zs @ cs @ bs"

definition addresses :: "slot list \<Rightarrow> slot \<Rightarrow> slot \<Rightarrow> u32 set" where
  "addresses zs cs bs = fst ` set (all_events zs cs bs)"

text \<open>
  \<open>fs\<close> are the free chunks, \<open>L\<close> the addresses of all events ever posted, the last one first, and
  \<open>p\<close> points to the collected events.
\<close>

definition rep :: "'v client equeue \<Rightarrow> u32 \<Rightarrow> nat \<Rightarrow> u32 option \<Rightarrow> 'v agenda \<Rightarrow>
    slot list \<Rightarrow> slot \<Rightarrow> slot \<Rightarrow> u32 list \<Rightarrow> u32 list \<Rightarrow> bool" where
  "rep s q c p A zs cs bs fs L \<longleftrightarrow>
     (orders s q zs \<and> chain (e_next s) p (map fst bs) \<and>
      distinct (map fst (all_events zs cs bs)) \<and> (\<forall>a\<in>set (all_events zs cs bs). entered s q (fst a) (snd a))) \<and>
     (pend A = map snd (flat zs) \<and> batch A = map snd bs \<and> cur A = (case cs of [] \<Rightarrow> None | a # _ \<Rightarrow> Some (snd a)) \<and>
      length cs \<le> 1) \<and>
     (chunks_ok s q c (addresses zs cs bs) fs \<and>
      numbered s (addresses zs cs bs) (addresses zs cs bs \<union> set fs) L) \<and>
     (issued A = ids (eq_buffer s q) (eq_npw2 s q) L \<and> user s = (issued A, val A) \<and>
      now s = of_nat (clock A) \<and> lapses s = laps A \<and> eq_tick s q = of_nat (last_round A) \<and>
      eq_generation s q = of_nat (rounds A) \<and> bg_update s q = None)"

definition agenda_ok :: "'v agenda \<Rightarrow> bool" where
  "agenda_ok A \<longleftrightarrow> timely A \<and> last_round A \<le> clock A \<and>
     (\<forall>e\<in>set (pend A). last_round A \<le> due e \<and> (due e = last_round A \<longrightarrow> born e = rounds A) \<and> born e \<le> rounds A) \<and>
     (\<forall>e\<in>set (running A). due e \<le> last_round A \<and> born e \<le> rounds A)"

lemma repD:
  assumes "rep s q c p A zs cs bs fs L"
  shows "orders s q zs" "chain (e_next s) p (map fst bs)" "distinct (map fst (all_events zs cs bs))"
    "\<And>a. a \<in> set (all_events zs cs bs) \<Longrightarrow> entered s q (fst a) (snd a)"
    "pend A = map snd (flat zs)" "batch A = map snd bs" "cur A = (case cs of [] \<Rightarrow> None | a # _ \<Rightarrow> Some (snd a))"
    "length cs \<le> 1" "chunks_ok s q c (addresses zs cs bs) fs"
    "numbered s (addresses zs cs bs) (addresses zs cs bs \<union> set fs) L"
    "issued A = ids (eq_buffer s q) (eq_npw2 s q) L" "user s = (issued A, val A)" "now s = of_nat (clock A)"
    "lapses s = laps A" "eq_tick s q = of_nat (last_round A)" "eq_generation s q = of_nat (rounds A)"
    "bg_update s q = None"
  using assms unfolding rep_def by blast+

lemma rep_running: "rep s q c p A zs cs bs fs L \<Longrightarrow> running A = map snd (cs @ bs)"
  unfolding rep_def running_def by (cases cs) auto

lemma rep_load:
  assumes "rep s q c p A zs cs bs fs L"
  shows "load A = card (addresses zs cs bs)"
proof -
  have "distinct (map fst (all_events zs cs bs))" using assms by (simp add: rep_def)
  then have "card (set (map fst (all_events zs cs bs))) = length (all_events zs cs bs)"
    by (metis distinct_card length_map)
  then have "card (addresses zs cs bs) = length (all_events zs cs bs)" unfolding addresses_def set_map .
  moreover have "load A = length (all_events zs cs bs)"
    using rep_running [OF assms] assms by (simp add: load_def rep_def)
  ultimately show ?thesis by simp
qed

lemma chunk_offset:
  assumes ok: "chunks_ok s q c live fs" and x: "x \<in> live \<union> set fs"
  shows "offset_ok (eq_buffer s q) (eq_npw2 s q) x"
proof -
  obtain i where i: "i < c" "x = chunk (eq_buffer s q) i" using chunk_address [OF ok x] by metis
  have "x - eq_buffer s q = of_nat (44 * i)" using i(2) by (simp add: chunk_def)
  moreover have "44 * i < 2 ^ eq_npw2 s q" "eq_npw2 s q \<le> 24" "44 * i < 4294967296"
    using ok i(1) by (auto simp: chunks_ok_def room_def)
  ultimately show ?thesis unfolding offset_ok_def by (simp add: unat_of_nat_u32 del: of_nat_mult)
qed

text \<open>The identifier of an event in use, and the addresses of the events of other identifiers.\<close>

lemma rep_id:
  assumes r: "rep s q c p A zs cs bs fs L" and a: "a \<in> set (all_events zs cs bs)"
  shows "en_id (snd a) = enc (eq_buffer s q) (eq_npw2 s q) (fst a) (count_list L (fst a) - 1)"
    and "e_id s (fst a) = number (count_list L (fst a) - 1)" and "0 < count_list L (fst a)"
proof -
  have x: "fst a \<in> addresses zs cs bs" using a unfolding addresses_def by blast
  have n: "numbered s (addresses zs cs bs) (addresses zs cs bs \<union> set fs) L" using r by (simp add: rep_def)
  then show e: "e_id s (fst a) = number (count_list L (fst a) - 1)" using x unfolding numbered_def by auto
  have "entered s q (fst a) (snd a)" using r a unfolding rep_def by blast
  then show "en_id (snd a) = enc (eq_buffer s q) (eq_npw2 s q) (fst a) (count_list L (fst a) - 1)"
    by (simp add: entered_def equeue_event_id_def enc_def e)
  show "0 < count_list L (fst a)" using n x unfolding numbered_def by (metis count_list_0_iff neq0_conv subsetD)
qed

lemma live_ids_set: "rep s q c p A zs cs bs fs L \<Longrightarrow> live_ids A = en_id ` snd ` set (all_events zs cs bs)"
  using rep_running [of s q c p A zs cs bs fs L] by (auto simp: live_ids_def rep_def image_Un)

lemma rep_offset:
  assumes "rep s q c p A zs cs bs fs L" and "y \<in> set L"
  shows "offset_ok (eq_buffer s q) (eq_npw2 s q) y"
  using chunk_offset [OF repD(9) [OF assms(1)]] repD(10) [OF assms(1)] assms(2) unfolding numbered_def by blast

section \<open>What the parts of the relation depend on\<close>

lemma orders_cong:
  assumes "orders s q zs" and "eq_queue s' q = eq_queue s q"
    and "\<And>y. y \<in> fst ` set (flat zs) \<Longrightarrow> e_next s' y = e_next s y \<and> e_sibling s' y = e_sibling s y \<and>
      e_ref s' y = e_ref s y \<and> e_target s' y = e_target s y"
  shows "orders s' q zs"
proof -
  have f: "e_next s' y = e_next s y" "e_sibling s' y = e_sibling s y" "e_ref s' y = e_ref s y" if "y \<in> set (concat (events zs))" for y
    using that assms(3) unfolding set_events by blast+
  have "segs (e_next s') (e_sibling s') (e_ref s') (Queue_Of q) (eq_queue s q) (events zs) None =
    segs (e_next s) (e_sibling s) (e_ref s) (Queue_Of q) (eq_queue s q) (events zs) None"
    by (rule segs_cong; erule f)
  then have "holds s' q (events zs)" using assms(1,2) unfolding orders_def holds_def by simp
  then show ?thesis using assms(1,3) unfolding orders_def by auto
qed

lemma entered_cong:
  assumes "entered s q x e" and "e_target s' x = e_target s x" "e_period s' x = e_period s x"
    "e_generation s' x = e_generation s x" "e_dtor s' x = e_dtor s x" "e_id s' x = e_id s x" "e_cb s' x = e_cb s x"
    "ec_cb s' (x + event_size) = ec_cb s (x + event_size)" "ec_data s' (x + event_size) = ec_data s (x + event_size)"
    "eq_npw2 s' q = eq_npw2 s q" "eq_buffer s' q = eq_buffer s q"
  shows "entered s' q x e"
  using assms unfolding entered_def equeue_event_id_def by (simp split: option.splits)

lemma chunks_cong:
  assumes "chunks_ok s q c live fs" and "eq_buffer s' q = eq_buffer s q" "eq_npw2 s' q = eq_npw2 s q"
    "slab_data s' q = slab_data s q" "slab_size s' q = slab_size s q" "eq_chunks s' q = eq_chunks s q"
    "\<And>x. x \<in> live \<union> set fs \<Longrightarrow> e_size s' x = e_size s x" "\<And>x. x \<in> set fs \<Longrightarrow> e_sibling s' x = e_sibling s x"
    "\<And>x. x \<in> set fs \<Longrightarrow> e_next s' x = e_next s x"
  shows "chunks_ok s' q c live fs"
proof -
  have "chain (e_sibling s') (eq_chunks s q) fs = chain (e_sibling s) (eq_chunks s q) fs"
    by (rule path_cong) (rule assms(8))
  moreover have "fs \<noteq> [] \<longrightarrow> e_next s' (hd fs) = e_next s (hd fs)" using assms(9) by simp
  moreover have "(\<forall>x\<in>live \<union> set fs. e_size s' x = 44) = (\<forall>x\<in>live \<union> set fs. e_size s x = 44)" using assms(7) by simp
  ultimately show ?thesis using assms(1-6) unfolding chunks_ok_def room_def by simp
qed

lemma numbered_cong: "numbered s live al L \<Longrightarrow> (\<And>x. x \<in> al \<Longrightarrow> e_id s' x = e_id s x) \<Longrightarrow> numbered s' live al L"
  by (simp add: numbered_def)

text \<open>Times that are close.\<close>

lemma timely_near:
  assumes "timely A" and "e \<in> set (pend A @ running A)" and "e' \<in> set (pend A @ running A)"
  shows "near (due e) (due e')"
  using assms(1) bspec [OF conjunct2 [OF assms(1) [unfolded timely_def]] assms(2)]
    bspec [OF conjunct2 [OF assms(1) [unfolded timely_def]] assms(3)] by linarith

lemma timely_near_clock:
  assumes "timely A" and "e \<in> set (pend A @ running A)"
  shows "near (due e) (clock A)" and "near (clock A) (due e)"
  using bspec [OF conjunct2 [OF assms(1) [unfolded timely_def]] assms(2)] by linarith+

section \<open>The clock\<close>

lemma advance_fields [simp]:
  "pend (advance A) = pend A" "batch (advance A) = batch A" "cur (advance A) = cur A" "last_round (advance A) = last_round A"
  "rounds (advance A) = rounds A" "issued (advance A) = issued A" "val (advance A) = val A" "running (advance A) = running A"
  "clock A \<le> clock (advance A)"
  by (auto simp: advance_def running_def split: list.splits)

lemma tick_advance:
  assumes "now s = of_nat (clock A)" and "lapses s = laps A"
  shows "equeue_tick s = (of_nat (clock (advance A)),
    s\<lparr>now := of_nat (clock (advance A)), lapses := laps (advance A)\<rparr>)"
  using assms by (cases "laps A") (simp_all add: equeue_tick_def advance_def)

lemma enter_set: "set (enter e es) = insert e (set es)"
  by (auto simp: enter_def dest: set_takeWhileD set_dropWhileD)
    (metis (lifting) Un_iff set_append takeWhile_dropWhile_id)

section \<open>Posting\<close>

text \<open>A call-back posted with delay \<open>ms\<close> and period \<open>pr\<close>, by one of the three calls.\<close>

definition sets_up :: "(u32 \<Rightarrow> 'u equeue \<Rightarrow> 'u equeue) \<Rightarrow> u32 \<Rightarrow> u32 \<Rightarrow> bool" where
  "sets_up f ms pr \<longleftrightarrow> (\<forall>x s. e_target s x = 0 \<longrightarrow> e_period s x = - 1 \<longrightarrow>
     f (x + event_size) s = s\<lparr>e_target := (e_target s)(x := ms), e_period := (e_period s)(x := pr)\<rparr>)"

lemma upd_same: "f x = v \<Longrightarrow> f(x := v) = f"
  by auto

lemma setups:
  "sets_up (\<lambda>p s. s) 0 (- 1)" "sets_up (\<lambda>p. equeue_event_delay p ms) ms (- 1)"
  "sets_up (\<lambda>p s. equeue_event_period p ms (equeue_event_delay p ms s)) ms ms"
  by (simp_all add: sets_up_def equeue_event_period_def equeue_event_delay_def upd_same)

lemma others_fields:
  assumes "others s' = others s"
  shows "eq_queue s' = eq_queue s" "eq_tick s' = eq_tick s" "eq_generation s' = eq_generation s" "eq_buffer s' = eq_buffer s"
    "eq_npw2 s' = eq_npw2 s" "bg_update s' = bg_update s" "e_generation s' = e_generation s" "e_ref s' = e_ref s"
    "e_target s' = e_target s" "e_period s' = e_period s" "e_dtor s' = e_dtor s" "e_cb s' = e_cb s" "ec_cb s' = ec_cb s"
    "ec_data s' = ec_data s" "now s' = now s" "lapses s' = lapses s" "user s' = user s"
  using assms unfolding others_def by simp_all

lemma data_fields:
  assumes "data s' = data s"
  shows "eq_buffer s' = eq_buffer s" "eq_npw2 s' = eq_npw2 s" "eq_chunks s' = eq_chunks s" "slab_size s' = slab_size s"
    "slab_data s' = slab_data s" "bg_update s' = bg_update s" "e_size s' = e_size s" "e_id s' = e_id s"
    "e_generation s' = e_generation s" "e_target s' = e_target s" "e_period s' = e_period s" "e_dtor s' = e_dtor s"
    "e_cb s' = e_cb s" "ec_cb s' = ec_cb s" "ec_data s' = ec_data s" "now s' = now s" "lapses s' = lapses s" "user s' = user s"
  using assms unfolding data_def by simp_all

text \<open>The state in which a new event \<open>x\<close> is entered into the list.\<close>

definition prepared :: "u32 \<Rightarrow> u32 \<Rightarrow> u32 \<Rightarrow> nat \<Rightarrow> u32 \<Rightarrow> u32 \<Rightarrow> nat \<Rightarrow> u32 list \<Rightarrow> 'u equeue \<Rightarrow> 'u equeue" where
  "prepared x ms pr n d tick t ds s = s\<lparr>e_target := (e_target s)(x := tick + ms), e_period := (e_period s)(x := pr),
     e_dtor := (e_dtor s)(x := None), e_cb := (e_cb s)(x := Some Ecallback_dispatch),
     ec_cb := (ec_cb s)(x + event_size := Some (User_Function n)), ec_data := (ec_data s)(x + event_size := d),
     now := of_nat t, lapses := ds\<rparr>"

lemma post_callback_prepared:
  assumes "equeue_mem_alloc q 8 s = Some (Some x, s1)" and "sets_up f ms pr"
    and "now s1 = of_nat (clock A)" "lapses s1 = laps A"
  shows "post_callback P q f (Some (User_Function n)) d s = do {
    s \<leftarrow> equeue_enqueue P q x (of_nat (clock (advance A)))
      (prepared x ms pr n d (of_nat (clock (advance A))) (clock (advance A)) (laps (advance A)) s1);
    Some (equeue_event_id q x s, equeue_sema_signal q s) }"
proof -
  define s2 where "s2 = s1\<lparr>e_target := (e_target s1)(x := 0), e_period := (e_period s1)(x := - 1), e_dtor := (e_dtor s1)(x := None)\<rparr>"
  have alloc: "equeue_alloc q 8 s = Some (Some (x + event_size), s2)"
    using assms(1) by (simp add: equeue_alloc_def s2_def)
  have f: "f (x + event_size) s2 = s2\<lparr>e_target := (e_target s2)(x := ms), e_period := (e_period s2)(x := pr)\<rparr>"
    using assms(2) by (simp add: sets_up_def s2_def)
  define s3 where "s3 = (f (x + event_size) s2)\<lparr>ec_cb := (ec_cb (f (x + event_size) s2))(x + event_size := Some (User_Function n)),
    ec_data := (ec_data (f (x + event_size) s2))(x + event_size := d)\<rparr>"
  have "now s3 = of_nat (clock A)" "lapses s3 = laps A" unfolding s3_def f using assms(3,4) by (simp_all add: s2_def)
  note tick = tick_advance [OF this]
  have "(s3\<lparr>now := of_nat (clock (advance A)), lapses := laps (advance A)\<rparr>)\<lparr>e_cb := (e_cb s3)(x := Some Ecallback_dispatch),
      e_target := (e_target s3)(x := of_nat (clock (advance A)) + e_target s3 x)\<rparr> =
    prepared x ms pr n d (of_nat (clock (advance A))) (clock (advance A)) (laps (advance A)) s1"
    unfolding s3_def f by (simp add: s2_def prepared_def)
  then have "post_event P q (Some Ecallback_dispatch) x s3 = equeue_enqueue P q x (of_nat (clock (advance A)))
      (prepared x ms pr n d (of_nat (clock (advance A))) (clock (advance A)) (laps (advance A)) s1)"
    by (simp add: post_event_def tick)
  then show ?thesis
    by (simp add: post_callback_def alloc s3_def [symmetric] Let_def equeue_post_def)
qed

lemma fresh_id:
  assumes r: "rep s q c p A zs cs bs fs L" and x: "x \<notin> addresses zs cs bs"
    and o: "offset_ok (eq_buffer s q) (eq_npw2 s q) x"
  shows "fresh (enc (eq_buffer s q) (eq_npw2 s q) x (count_list L x)) A"
proof -
  let ?i = "enc (eq_buffer s q) (eq_npw2 s q) x (count_list L x)"
  have "?i \<notin> live_ids A"
  proof
    assume "?i \<in> live_ids A"
    then obtain a where a: "a \<in> set (all_events zs cs bs)" "?i = en_id (snd a)"
      unfolding live_ids_set [OF r] by blast
    then have "x = fst a"
      using rep_id(1) [OF r a(1)] enc_eq [OF o chunk_offset [OF repD(9) [OF r]]] unfolding addresses_def by auto
    then show False using x a(1) unfolding addresses_def by blast
  qed
  moreover have "?i \<notin> set (take 254 (issued A))"
    unfolding repD(11) [OF r] using rep_offset [OF r] o by (intro repeat_not_recent) auto
  ultimately show ?thesis using enc_nonzero [OF o] by (simp add: fresh_def)
qed

lemma post_full:
  assumes "equeue_mem_alloc q 8 s = Some (None, s)"
  shows "post_callback P q f cb d s = Some (0, s)"
  by (simp add: post_callback_def equeue_alloc_def assms)

lemma put_slot_mset: "in_order zs \<Longrightarrow> mset (flat (put_slot a zs)) = add_mset a (mset (flat zs))"
  by (subst put_slot_flat; simp) (simp flip: mset_append)

lemma put_slot_set: "in_order zs \<Longrightarrow> set (flat (put_slot a zs)) = insert a (set (flat zs))"
  using put_slot_mset [of zs a] by (metis set_mset_add_mset_insert set_mset_mset)

lemma put_slot_distinct:
  assumes "in_order zs" and "fst a \<notin> fst ` set (all_events zs cs bs)" and "distinct (map fst (all_events zs cs bs))"
  shows "distinct (map fst (all_events (put_slot a zs) cs bs))"
proof -
  have "mset (map fst (all_events (put_slot a zs) cs bs)) = mset (fst a # map fst (all_events zs cs bs))"
    using put_slot_mset [OF assms(1), of a] by (simp add: mset_map)
  moreover have "distinct (fst a # map fst (all_events zs cs bs))" using assms(2,3) by (simp only: distinct.simps set_map) simp
  ultimately show ?thesis by (metis mset_eq_imp_distinct_iff)
qed

lemma numbered_post:
  assumes "numbered s live al L" and "x \<notin> live" and "e_id s' x = number (count_list L x)"
    and "\<And>y. y \<in> al \<Longrightarrow> y \<noteq> x \<Longrightarrow> e_id s' y = e_id s y"
  shows "numbered s' (insert x live) (insert x al) (x # L)"
  using assms unfolding numbered_def by auto

lemma post_sim:
  assumes r: "rep s q c p A zs cs bs fs L" and f: "sets_up f ms pr"
    and alloc: "equeue_mem_alloc q 8 s = Some (Some x, s1)" and x: "x \<notin> addresses zs cs bs"
    and s1: "chunks_ok s1 q c (insert x (addresses zs cs bs)) gs" "others s1 = others s" "e_sibling s1 = e_sibling s"
      "\<forall>y. y \<notin> set fs \<longrightarrow> e_next s1 y = e_next s y" "e_id s1 = (if x \<in> set fs then e_id s else (e_id s)(x := 1))"
      "insert x (addresses zs cs bs) \<union> set gs = insert x (addresses zs cs bs \<union> set fs)"
    and i: "i = enc (eq_buffer s q) (eq_npw2 s q) x (count_list L x)" and timely: "timely (agenda_post i ms pr n d A)"
  shows "\<exists>s' zs'. post_callback P q f (Some (User_Function n)) d s = Some (i, s') \<and>
    rep (note_id i s') q c p (agenda_post i ms pr n d A) zs' cs bs gs (x # L)"
proof -
  note R = repD [OF r]
  note O = others_fields [OF s1(2)]
  let ?A = "agenda_post i ms pr n d A" let ?t = "clock (advance A)"
  let ?e = "\<lparr>en_id = i, due = ?t + nat (sint ms), born = rounds A, action = Some n, arg = d, per = pr\<rparr>"
  define s6 where "s6 = prepared x ms pr n d (of_nat ?t) ?t (laps (advance A)) s1"
  have live: "y \<notin> set fs" "y \<noteq> x" if "y \<in> addresses zs cs bs" for y
    using that R(9) x by (auto simp: chunks_ok_def)
  have zsa: "y \<in> addresses zs cs bs" if "y \<in> fst ` set (flat zs)" for y using that by (auto simp: addresses_def)
  have o6: "orders s6 q zs"
    by (rule orders_cong [OF R(1)]) (use O live [OF zsa] s1(3,4) in \<open>simp_all add: s6_def prepared_def\<close>)
  have pendA: "pend ?A = enter ?e (map snd (flat zs))" "running ?A = running A" "clock ?A = ?t"
    using R(5) by (simp_all add: agenda_post_def Let_def running_def)
  have near: "near (due (snd b)) (due ?e)" if b: "b \<in> set (flat zs)" for b
    by (rule timely_near [OF timely]) (use b pendA in \<open>simp_all add: enter_set\<close>)
  have target: "of_nat ?t + equeue_clampdiff (e_target s6 x) (of_nat ?t) = of_nat (due ?e)"
    using clamp_delay [of ?t ms] by (simp add: s6_def prepared_def)
  have xz: "x \<notin> fst ` set (flat zs)" using x zsa by blast
  have bg: "bg_update s6 q = None" using R(17) O by (simp add: s6_def prepared_def)
  obtain s7 where s7: "equeue_enqueue P q x (of_nat ?t) s6 = Some s7" "orders s7 q (put_slot (x, ?e) zs)"
    "data s7 = data (s6\<lparr>e_target := (e_target s6)(x := of_nat (due ?e)), e_generation := (e_generation s6)(x := eq_generation s6 q)\<rparr>)"
    "eq_tick s7 = eq_tick s6" "eq_generation s7 = eq_generation s6"
    "\<And>y. y \<noteq> x \<Longrightarrow> y \<notin> fst ` set (flat zs) \<Longrightarrow> e_next s7 y = e_next s6 y \<and> e_sibling s7 y = e_sibling s6 y"
    by (rule enqueue_orders [where P = P, OF o6 xz target near bg]) (assumption, rule that, assumption+)
  have d7: "eq_buffer s7 = eq_buffer s" "eq_npw2 s7 = eq_npw2 s" "eq_chunks s7 = eq_chunks s1" "slab_size s7 = slab_size s1"
    "slab_data s7 = slab_data s1" "bg_update s7 = bg_update s" "e_size s7 = e_size s1" "e_id s7 = e_id s1"
    "e_generation s7 = (e_generation s)(x := eq_generation s q)" "e_target s7 = (e_target s)(x := of_nat (due ?e))"
    "e_period s7 = (e_period s)(x := pr)" "e_dtor s7 = (e_dtor s)(x := None)" "e_cb s7 = (e_cb s)(x := Some Ecallback_dispatch)"
    "ec_cb s7 = (ec_cb s)(x + event_size := Some (User_Function n))" "ec_data s7 = (ec_data s)(x + event_size := d)"
    "now s7 = of_nat ?t" "lapses s7 = laps (advance A)" "user s7 = user s" "eq_tick s7 = eq_tick s"
    "eq_generation s7 = eq_generation s"
    using data_fields [OF s7(3)] s7(4,5) O by (simp_all add: s6_def prepared_def)
  have nx: "e_next s7 y = e_next s1 y" "e_sibling s7 y = e_sibling s y" if "y \<noteq> x" "y \<notin> fst ` set (flat zs)" for y
    using s7(6) [OF that] s1(3) by (simp_all add: s6_def prepared_def)
  have off: "offset_ok (eq_buffer s q) (eq_npw2 s q) x"
    using chunk_offset [OF s1(1)] O by simp
  then have i0: "i \<noteq> 0" unfolding i by (rule enc_nonzero)
  have idx: "e_id s1 x = number (count_list L x)"
  proof (cases "x \<in> set fs")
    case True
    then show ?thesis using R(10) s1(5) x by (simp add: numbered_def)
  next
    case False
    then have "x \<notin> set L" using R(10) x unfolding numbered_def by blast
    then show ?thesis using False s1(5) by (simp add: number_def count_list_0_iff)
  qed
  have ev: "equeue_event_id q x s7 = i" using idx by (simp add: equeue_event_id_def enc_def d7 i)
  define s8 where "s8 = note_id i (equeue_sema_signal q s7)"
  have s8: "s8 = s7\<lparr>eventsema := (eventsema s7)(q := True), user := (i # issued A, val A)\<rparr>"
    using i0 R(12) d7(18) by (simp add: s8_def note_id_def equeue_sema_signal_def)
  let ?zs = "put_slot (x, ?e) zs"
  have in_zs: "in_order zs" using R(1) by (simp add: orders_def)
  have set_zs: "set (flat ?zs) = insert (x, ?e) (set (flat zs))" by (rule put_slot_set [OF in_zs])
  have adr: "addresses ?zs cs bs = insert x (addresses zs cs bs)" unfolding addresses_def using set_zs by auto
  have "rep s8 q c p ?A ?zs cs bs gs (x # L)" unfolding rep_def
  proof (intro conjI)
    show "orders s8 q ?zs" by (rule orders_cong [OF s7(2)]) (simp_all add: s8)
    have "e_next s7 y = e_next s y" if "y \<in> set (map fst bs)" for y
    proof -
      have "y \<in> addresses zs cs bs" "y \<notin> fst ` set (flat zs)" using that R(3) by (auto simp: addresses_def)
      then show ?thesis using live [of y] nx [of y] s1(4) by simp
    qed
    then have "chain (e_next s8) p (map fst bs) = chain (e_next s) p (map fst bs)" by (intro path_cong) (simp add: s8)
    then show "chain (e_next s8) p (map fst bs)" using R(2) by simp
    have "x \<notin> fst ` set (all_events zs cs bs)" using x unfolding addresses_def .
    then show "distinct (map fst (all_events ?zs cs bs))" 
      using R(3) by (intro put_slot_distinct [OF in_zs]) simp_all
    show "\<forall>a\<in>set (all_events ?zs cs bs). entered s8 q (fst a) (snd a)"
    proof
      fix a assume "a \<in> set (all_events ?zs cs bs)"
      then consider "a = (x, ?e)" | "a \<in> set (all_events zs cs bs)" using set_zs by auto
      then show "entered s8 q (fst a) (snd a)"
      proof cases
        case 1
        then show ?thesis using ev R(16) by (simp add: entered_def s8 equeue_event_id_def d7)
      next
        case 2
        then have a: "fst a \<in> addresses zs cs bs" by (auto simp: addresses_def)
        then have "fst a \<noteq> x" "fst a \<notin> set fs" using live by auto
        then show ?thesis
          by (intro entered_cong [OF R(4) [OF 2]]) (simp_all add: s8 d7 s1(5))
      qed
    qed
    show "pend ?A = map snd (flat ?zs)" using pendA(1) put_slot_enter [OF in_zs, of "(x, ?e)"] by simp
    have f: "batch ?A = batch A" "cur ?A = cur A" "issued ?A = i # issued A" "val ?A = val A" "laps ?A = laps (advance A)"
      "last_round ?A = last_round A" "rounds ?A = rounds A"
      by (simp_all add: agenda_post_def Let_def)
    show "batch ?A = map snd bs" "cur ?A = (case cs of [] \<Rightarrow> None | a # _ \<Rightarrow> Some (snd a))" "length cs \<le> 1"
      using f R(6-8) by simp_all
    have "y \<notin> fst ` set (flat zs) \<and> y \<noteq> x" if "y \<in> set gs" for y
    proof -
      have "y \<notin> insert x (addresses zs cs bs)" using that s1(1) by (auto simp: chunks_ok_def)
      then show ?thesis using zsa by blast
    qed
    then have "chunks_ok s8 q c (insert x (addresses zs cs bs)) gs"
      using nx s1(3) O(4,5) by (intro chunks_cong [OF s1(1)]) (simp_all add: s8 d7)
    then show "chunks_ok s8 q c (addresses ?zs cs bs) gs" unfolding adr .
    have "numbered s1 (insert x (addresses zs cs bs)) (insert x (addresses zs cs bs \<union> set fs)) (x # L)"
      by (rule numbered_post [OF R(10) x idx]) (use s1(5) in auto)
    then show "numbered s8 (addresses ?zs cs bs) (addresses ?zs cs bs \<union> set gs) (x # L)"
      unfolding adr s1(6) by (rule numbered_cong) (simp add: s8 d7)
    show "issued ?A = ids (eq_buffer s8 q) (eq_npw2 s8 q) (x # L)" using f(3) R(11) by (simp add: s8 d7 i)
    show "user s8 = (issued ?A, val ?A)" "now s8 = of_nat (clock ?A)" "lapses s8 = laps ?A"
      "eq_tick s8 q = of_nat (last_round ?A)" "eq_generation s8 q = of_nat (rounds ?A)" "bg_update s8 q = None"
      using f pendA(3) R(15-17) by (simp_all add: s8 d7)
  qed
  moreover have "post_callback P q f (Some (User_Function n)) d s = Some (i, equeue_sema_signal q s7)"
    using post_callback_prepared [OF alloc f, of A P n d] O R(13,14) s7(1) ev by (simp add: s6_def)
  ultimately show ?thesis unfolding s8_def by blast
qed

end
