(* ===== verification/Equeue_Cancel.thy ===== *)
theory Equeue_Cancel
  imports Equeue_Calls
begin

text \<open>
  Cancelling an event of a queue (events/source/equeue.c) by its identifier does to the agenda
  what it should, unless it is careless.
\<close>

section \<open>Whose identifier it is\<close>

lemma id_owner:
  assumes r: "rep s q c p A zs cs bs fs L" and a: "a \<in> set (all_events zs cs bs)"
    and "offset_ok (eq_buffer s q) (eq_npw2 s q) x" and "en_id (snd a) = enc (eq_buffer s q) (eq_npw2 s q) x n"
  shows "fst a = x"
proof -
  have "fst a \<in> addresses zs cs bs" using a unfolding addresses_def by blast
  then have "offset_ok (eq_buffer s q) (eq_npw2 s q) (fst a)" using chunk_offset [OF repD(9) [OF r]] by blast
  then show ?thesis using rep_id(1) [OF r a] enc_eq assms(3,4) by metis
qed

lemma same_address: "distinct (map fst xs) \<Longrightarrow> a \<in> set xs \<Longrightarrow> b \<in> set xs \<Longrightarrow> fst a = fst b \<Longrightarrow> a = b"
  by (metis distinct_map inj_on_def)

lemma same_id:
  assumes r: "rep s q c p A zs cs bs fs L" and "a \<in> set (all_events zs cs bs)" and b: "b \<in> set (all_events zs cs bs)"
    and "en_id (snd a) = en_id (snd b)"
  shows "a = b"
proof (rule same_address [OF repD(3) [OF r] assms(2,3)])
  have "fst b \<in> addresses zs cs bs" using b unfolding addresses_def by blast
  then show "fst a = fst b"
    using id_owner [OF r assms(2) chunk_offset [OF repD(9) [OF r]]] rep_id(1) [OF r b] assms(4) by simp
qed

text \<open>The decoding of an identifier.\<close>

lemma event_of_enc: "offset_ok (eq_buffer s q) (eq_npw2 s q) x \<Longrightarrow>
    event_of_id q (enc (eq_buffer s q) (eq_npw2 s q) x n) s = x"
  unfolding event_of_id_def enc_place by simp

lemma matches_enc: "offset_ok (eq_buffer s q) (eq_npw2 s q) x \<Longrightarrow>
    id_matches q (enc (eq_buffer s q) (eq_npw2 s q) x n) s \<longleftrightarrow> e_id s x = number n"
  by (simp add: id_matches_def event_of_enc enc_number ucast_u8_eq)

section \<open>Cancelling what is gone\<close>

lemma agenda_cancel_gone:
  assumes "i \<notin> live_ids A"
  shows "agenda_cancel i A = (False, A)"
proof -
  have v: "void i e = e" if "e \<in> set (running A)" for e
    using assms that by (auto simp: live_ids_def void_def)
  have "map (void i) (batch A) = batch A" by (rule map_idI) (rule v, simp add: running_def)
  moreover have "map_option (void i) (cur A) = cur A"
    by (cases "cur A") (auto intro: v simp: running_def)
  ultimately show ?thesis using assms by (auto simp: agenda_cancel_def live_ids_def)
qed

lemma cancel_gone: "i = 0 \<or> \<not> id_matches q i s \<Longrightarrow> equeue_cancel P q i s = Some (False, s)"
  by (auto simp: equeue_cancel_def equeue_unqueue_by_id_def)

section \<open>Cancelling a waiting event\<close>

lemma agenda_okD:
  assumes "agenda_ok A"
  shows "timely A" "last_round A \<le> clock A"
    "\<And>e. e \<in> set (pend A) \<Longrightarrow> last_round A \<le> due e" "\<And>e. e \<in> set (pend A) \<Longrightarrow> due e = last_round A \<Longrightarrow> born e = rounds A"
    "\<And>e. e \<in> set (pend A) \<Longrightarrow> born e \<le> rounds A"
    "\<And>e. e \<in> set (running A) \<Longrightarrow> due e \<le> last_round A" "\<And>e. e \<in> set (running A) \<Longrightarrow> born e \<le> rounds A"
  using assms unfolding agenda_ok_def by blast+

lemma timely_round:
  assumes "agenda_ok A" and "e \<in> set (pend A @ running A)"
  shows "near (due e) (last_round A)"
proof -
  have "clock A < last_round A + 1073741824" "clock A < due e + 1073741824" "due e < clock A + 1073741824"
    using agenda_okD(1) [OF assms(1)] assms(2) unfolding timely_def by blast+
  then show ?thesis using agenda_okD(2) [OF assms(1)] by linarith
qed

lemma rep_flight:
  assumes r: "rep s q c p A zs cs bs fs L" and ok: "agenda_ok A" and a: "a \<in> set (all_events zs cs bs)"
    and s': "e_target s' = e_target s" "e_generation s' = e_generation s" "eq_tick s' = eq_tick s" "eq_generation s' = eq_generation s"
  shows "in_flight q (fst a) s' \<longleftrightarrow> due (snd a) < last_round A \<or>
    due (snd a) = last_round A \<and> (rounds A - born (snd a)) mod 256 \<noteq> 0"
proof -
  have e: "snd a \<in> set (pend A @ running A)" using a rep_running [OF r] repD(5) [OF r] by auto
  have t: "equeue_tickdiff (e_target s (fst a)) (eq_tick s q) = int (due (snd a)) - int (last_round A)"
    using tickdiff_of_nat timely_round [OF ok e] repD(15) [OF r] repD(4) [OF r a] by (simp add: entered_def)
  have b: "born (snd a) \<le> rounds A" using e agenda_okD(5,7) [OF ok] by auto
  have "(of_nat (born (snd a)) :: u8) = of_nat (rounds A) \<longleftrightarrow> born (snd a) mod 256 = rounds A mod 256"
    by (simp add: word_of_nat_eq_iff take_bit_eq_mod)
  also have "\<dots> \<longleftrightarrow> (rounds A - born (snd a)) mod 256 = 0"
    using mod_eq_dvd_iff_nat [OF b, of 256] unfolding dvd_eq_mod_eq_0 by (subst eq_commute)
  finally have g: "e_generation s (fst a) = eq_generation s q \<longleftrightarrow> (rounds A - born (snd a)) mod 256 = 0"
    using repD(16) [OF r] repD(4) [OF r a] by (simp add: entered_def)
  show ?thesis unfolding in_flight_def Let_def s' t g by simp
qed

lemma cancel_matched:
  assumes r: "rep s q c p A zs cs bs fs L" and a: "a \<in> set (all_events zs cs bs)"
  shows "en_id (snd a) \<noteq> 0" and "event_of_id q (en_id (snd a)) s = fst a" and "id_matches q (en_id (snd a)) s"
proof -
  have "fst a \<in> addresses zs cs bs" using a unfolding addresses_def by blast
  then have o: "offset_ok (eq_buffer s q) (eq_npw2 s q) (fst a)" using chunk_offset [OF repD(9) [OF r]] by blast
  show "en_id (snd a) \<noteq> 0" "event_of_id q (en_id (snd a)) s = fst a" "id_matches q (en_id (snd a)) s"
    using enc_nonzero [OF o] event_of_enc [OF o] matches_enc [OF o] rep_id(2) [OF r a] unfolding rep_id(1) [OF r a] by auto
qed

section \<open>Cancelling an event that has been collected\<close>

abbreviation void_slot :: "u32 \<Rightarrow> slot \<Rightarrow> slot" where
  "void_slot i xs \<equiv> map (\<lambda>a. (fst a, void i (snd a))) xs"

lemma cancel_running:
  assumes r: "rep s q c p A zs cs bs fs L" and ok: "agenda_ok A" and a: "a \<in> set (cs @ bs)"
    and care: "\<not> careless (en_id (snd a)) A"
  shows "\<exists>s'. equeue_cancel P q (en_id (snd a)) s = Some (False, s') \<and> fst (agenda_cancel (en_id (snd a)) A) = False \<and>
    rep s' q c p (snd (agenda_cancel (en_id (snd a)) A)) zs (void_slot (en_id (snd a)) cs) (void_slot (en_id (snd a)) bs) fs L"
proof -
  note R = repD [OF r]
  let ?x = "fst a" let ?i = "en_id (snd a)"
  define s1 where "s1 = s\<lparr>e_cb := (e_cb s)(?x := None), e_period := (e_period s)(?x := - 1)\<rparr>"
  have al: "a \<in> set (all_events zs cs bs)" using a by simp
  have run: "snd a \<in> set (running A)" using a unfolding rep_running [OF r] by auto
  have "in_flight q ?x s1"
  proof (subst rep_flight [OF r ok al])
    show "due (snd a) < last_round A \<or> due (snd a) = last_round A \<and> (rounds A - born (snd a)) mod 256 \<noteq> 0"
      using care run agenda_okD(6) [OF ok run] unfolding careless_def by force
  qed (simp_all add: s1_def)
  then have code: "equeue_cancel P q ?i s = Some (False, s1)"
    using cancel_matched [OF r al] by (simp add: equeue_cancel_def equeue_unqueue_by_id_def equeue_unqueue_by_address_def s1_def Let_def)
  have other: "en_id (snd b) \<noteq> ?i" if "b \<in> set (flat zs)" for b
  proof
    assume "en_id (snd b) = ?i"
    then have "b = a" using same_id [OF r _ al, of b] that by simp
    then show False using R(3) that a by auto
  qed
  then have notp: "?i \<notin> en_id ` set (pend A)" unfolding R(5) by fastforce
  let ?A = "snd (agenda_cancel ?i A)"
  have A: "fst (agenda_cancel ?i A) = False" "?A = A\<lparr>batch := map (void ?i) (batch A), cur := map_option (void ?i) (cur A)\<rparr>"
    using notp by (simp_all add: agenda_cancel_def)
  let ?ev = "all_events zs (void_slot ?i cs) (void_slot ?i bs)"
  have "void_slot ?i (flat zs) = flat zs" by (rule map_idI) (use other in \<open>simp add: void_def\<close>)
  then have ev: "?ev = void_slot ?i (all_events zs cs bs)" by simp
  have fsts: "map fst ?ev = map fst (all_events zs cs bs)" by (simp add: comp_def)
  then have adr: "addresses zs (void_slot ?i cs) (void_slot ?i bs) = addresses zs cs bs"
    unfolding addresses_def by (metis set_map)
  have "rep s1 q c p ?A zs (void_slot ?i cs) (void_slot ?i bs) fs L" unfolding rep_def adr fsts
  proof (intro conjI)
    show "orders s1 q zs" by (rule orders_cong [OF R(1)]) (simp_all add: s1_def)
    show "chain (e_next s1) p (map fst (void_slot ?i bs))" using R(2) by (simp add: s1_def comp_def)
    show "distinct (map fst (all_events zs cs bs))" by (rule R(3))
    show "\<forall>b\<in>set ?ev. entered s1 q (fst b) (snd b)"
    proof
      fix b assume "b \<in> set ?ev"
      then obtain b0 where b0: "b0 \<in> set (all_events zs cs bs)" "fst b = fst b0" "snd b = void ?i (snd b0)"
        unfolding ev set_map by (elim imageE) (rule that; simp)
      show "entered s1 q (fst b) (snd b)"
      proof (cases "b0 = a")
        case True
        then show ?thesis using R(4) [OF al] b0 by (simp add: entered_def void_def s1_def equeue_event_id_def)
      next
        case False
        then have "en_id (snd b0) \<noteq> ?i" "fst b0 \<noteq> ?x"
          using same_id [OF r b0(1) al] same_address [OF R(3) b0(1) al] by blast+
        then show ?thesis unfolding b0(2,3) void_def
          by (simp, intro entered_cong [OF R(4) [OF b0(1)]]) (simp_all add: s1_def)
      qed
    qed
    show "pend ?A = map snd (flat zs)" "batch ?A = map snd (void_slot ?i bs)"
      "cur ?A = (case void_slot ?i cs of [] \<Rightarrow> None | b # _ \<Rightarrow> Some (snd b))" "length (void_slot ?i cs) \<le> 1"
      using R(5-8) by (simp_all add: A comp_def split: list.split)
    show "chunks_ok s1 q c (addresses zs cs bs) fs" by (rule chunks_cong [OF R(9)]) (simp_all add: s1_def)
    show "numbered s1 (addresses zs cs bs) (addresses zs cs bs \<union> set fs) L"
      by (rule numbered_cong [OF R(10)]) (simp add: s1_def)
    show "issued ?A = ids (eq_buffer s1 q) (eq_npw2 s1 q) L" "user s1 = (issued ?A, val ?A)" "now s1 = of_nat (clock ?A)"
      "lapses s1 = laps ?A" "eq_tick s1 q = of_nat (last_round ?A)" "eq_generation s1 q = of_nat (rounds ?A)" "bg_update s1 q = None"
      using R(11-17) by (simp_all add: A s1_def)
  qed
  then show ?thesis using code A(1) by blast
qed

text \<open>
  The generation of the queue has 8 bits: an event that is due exactly now and was entered 256
  rounds before is taken for a waiting one although it has been collected, so that cancelling it, as
  its own call-back may, frees it a first time.
\<close>

lemma wrapped_generation:
  assumes r: "rep s q c p A zs cs bs fs L" and ok: "agenda_ok A" and a: "a \<in> set (cs @ bs)"
    and "due (snd a) = last_round A" and "(rounds A - born (snd a)) mod 256 = 0"
  shows "fst (equeue_unqueue_by_id q (en_id (snd a)) s) = Some (fst a)"
proof -
  have al: "a \<in> set (all_events zs cs bs)" using a by simp
  have "\<not> in_flight q (fst a) (s\<lparr>e_cb := (e_cb s)(fst a := None), e_period := (e_period s)(fst a := - 1)\<rparr>)"
    by (subst rep_flight [OF r ok al]) (use assms(4,5) in simp_all)
  then show ?thesis
    using cancel_matched [OF r al] by (simp add: equeue_unqueue_by_id_def equeue_unqueue_by_address_def Let_def)
qed

section \<open>Cancelling an event that waits\<close>

lemma dealloc_live:
  assumes ok: "chunks_ok s q c live fs" and x: "x \<in> live" and "e_dtor s x = None"
  obtains s' where "equeue_dealloc P q (x + event_size) s = Some s'" and "chunks_ok s' q c (live - {x}) (x # fs)"
    and "others s' = others s" and "e_id s' = e_id s"
    and "\<And>y. y \<noteq> x \<Longrightarrow> e_next s' y = e_next s y \<and> e_sibling s' y = e_sibling s y"
proof -
  have "\<not> is_user_allocated_event q x s" using chunk_address [OF ok] x by blast
  then have "equeue_dealloc P q (x + event_size) s = equeue_mem_dealloc q x s"
    using assms(3) by (simp add: equeue_dealloc_def run_dtor_def)
  then show ?thesis using mem_dealloc_ok [OF ok x] that by metis
qed

lemma numbered_free:
  assumes "numbered s live al L" and "x \<in> live" and "e_id s' = (e_id s)(x := number (count_list L x))"
  shows "numbered s' (live - {x}) al L"
  using assms unfolding numbered_def by auto

text \<open>An event \<open>x\<close> that is in no list any more is freed.\<close>

lemma rep_freed:
  assumes r: "rep s q c p A zs cs bs fs L" and x: "x \<in> addresses zs cs bs" "x \<notin> fst ` set bs"
    and o: "orders s3 q zs'" and d: "data s3 = data (s\<lparr>e_cb := (e_cb s)(x := v), e_period := (e_period s)(x := w),
      e_id := (e_id s)(x := number (count_list L x))\<rparr>)" "eq_tick s3 = eq_tick s" "eq_generation s3 = eq_generation s"
    and frame: "\<And>y. y \<notin> fst ` set (flat zs) \<Longrightarrow> e_next s3 y = e_next s y \<and> e_sibling s3 y = e_sibling s y"
    and ev: "set (all_events zs' cs' bs) = {b \<in> set (all_events zs cs bs). fst b \<noteq> x}"
      "distinct (map fst (all_events zs' cs' bs))"
    and B: "pend B = map snd (flat zs')" "cur B = (case cs' of [] \<Rightarrow> None | b # _ \<Rightarrow> Some (snd b))" "length cs' \<le> 1"
      "batch B = batch A" "clock B = clock A" "laps B = laps A" "last_round B = last_round A" "rounds B = rounds A"
      "issued B = issued A" "val B = val A"
  shows "\<exists>s'. equeue_dealloc P q (x + event_size) s3 = Some s' \<and> rep s' q c p B zs' cs' bs (x # fs) L"
proof -
  note R = repD [OF r] and D = data_fields [OF d(1)]
  have ok3: "chunks_ok s3 q c (addresses zs cs bs) fs"
  proof (rule chunks_cong [OF R(9)])
    fix y assume "y \<in> set fs"
    then have "y \<notin> fst ` set (flat zs)" using R(9) by (auto simp: chunks_ok_def addresses_def)
    then show "e_sibling s3 y = e_sibling s y" "e_next s3 y = e_next s y" using frame by simp_all
  qed (use D in simp_all)
  obtain a where "a \<in> set (all_events zs cs bs)" "x = fst a" using x(1) unfolding addresses_def by blast
  then have "e_dtor s3 x = None" using R(4) D by (simp add: entered_def)
  then obtain s4 where s4: "equeue_dealloc P q (x + event_size) s3 = Some s4"
    "chunks_ok s4 q c (addresses zs cs bs - {x}) (x # fs)" "others s4 = others s3" "e_id s4 = e_id s3"
    "\<And>y. y \<noteq> x \<Longrightarrow> e_next s4 y = e_next s3 y \<and> e_sibling s4 y = e_sibling s3 y"
    by (rule dealloc_live [where P = P, OF ok3 x(1)]) (rule that, assumption+)
  note O = others_fields [OF s4(3)]
  have adr: "addresses zs' cs' bs = addresses zs cs bs - {x}" unfolding addresses_def ev by auto
  have "rep s4 q c p B zs' cs' bs (x # fs) L" unfolding rep_def adr
  proof (intro conjI)
    show "orders s4 q zs'"
    proof (rule orders_cong [OF o])
      fix y assume "y \<in> fst ` set (flat zs')"
      then obtain b where "b \<in> set (all_events zs' cs' bs)" "y = fst b" by auto
      then have "y \<noteq> x" unfolding ev(1) by blast
      then show "e_next s4 y = e_next s3 y \<and> e_sibling s4 y = e_sibling s3 y \<and> e_ref s4 y = e_ref s3 y \<and> e_target s4 y = e_target s3 y"
        using s4(5) O by simp
    qed (use O in simp)
    have "e_next s4 y = e_next s y" if "y \<in> set (map fst bs)" for y
    proof -
      have "y \<notin> fst ` set (flat zs)" "y \<noteq> x" using that R(3) x(2) by auto
      then show ?thesis using s4(5) frame by simp
    qed
    then have "chain (e_next s4) p (map fst bs) = chain (e_next s) p (map fst bs)" by (intro path_cong)
    then show "chain (e_next s4) p (map fst bs)" using R(2) by simp
    show "distinct (map fst (all_events zs' cs' bs))" by (rule ev(2))
    show "\<forall>b\<in>set (all_events zs' cs' bs). entered s4 q (fst b) (snd b)"
    proof
      fix b assume "b \<in> set (all_events zs' cs' bs)"
      then have b: "b \<in> set (all_events zs cs bs)" "fst b \<noteq> x" unfolding ev(1) by blast+
      then show "entered s4 q (fst b) (snd b)"
        by (intro entered_cong [OF R(4) [OF b(1)]]) (simp_all add: O D s4(4))
    qed
    show "pend B = map snd (flat zs')" "batch B = map snd bs" "cur B = (case cs' of [] \<Rightarrow> None | b # _ \<Rightarrow> Some (snd b))"
      "length cs' \<le> 1"
      using B R(6) by simp_all
    show "chunks_ok s4 q c (addresses zs cs bs - {x}) (x # fs)" by (rule s4(2))
    have "addresses zs cs bs - {x} \<union> set (x # fs) = addresses zs cs bs \<union> set fs" using x(1) by auto
    moreover have "numbered s4 (addresses zs cs bs - {x}) (addresses zs cs bs \<union> set fs) L"
      by (rule numbered_free [OF R(10) x(1)]) (simp add: s4(4) D)
    ultimately show "numbered s4 (addresses zs cs bs - {x}) (addresses zs cs bs - {x} \<union> set (x # fs)) L" by simp
    show "issued B = ids (eq_buffer s4 q) (eq_npw2 s4 q) L" "user s4 = (issued B, val B)" "now s4 = of_nat (clock B)"
      "lapses s4 = laps B" "eq_tick s4 q = of_nat (last_round B)" "eq_generation s4 q = of_nat (rounds B)" "bg_update s4 q = None"
      using R(11-17) by (simp_all add: O D d(2,3) B)
  qed
  then show ?thesis using s4(1) by blast
qed

lemma rep_incid:
  assumes r: "rep s q c p A zs cs bs fs L" and a: "a \<in> set (all_events zs cs bs)"
    and t: "e_id t (fst a) = e_id s (fst a)" "eq_npw2 t q = eq_npw2 s q"
  shows "equeue_incid q (fst a) t = t\<lparr>e_id := (e_id t)(fst a := number (count_list L (fst a)))\<rparr>"
proof -
  have "e_id t (fst a) = number (count_list L (fst a) - 1)" using rep_id(2) [OF r a] t by simp
  moreover have "eq_npw2 t q \<le> 24" using repD(9) [OF r] t by (simp add: chunks_ok_def room_def)
  ultimately show ?thesis using rep_id(3) [OF r a] incid_number by fastforce
qed

lemma cancel_pending:
  assumes r: "rep s q c p A zs cs bs fs L" and ok: "agenda_ok A" and a: "a \<in> set (flat zs)"
  shows "\<exists>s' zs'. equeue_cancel P q (en_id (snd a)) s = Some (True, s') \<and> fst (agenda_cancel (en_id (snd a)) A) = True \<and>
    rep s' q c p (snd (agenda_cancel (en_id (snd a)) A)) zs' cs bs (fst a # fs) L"
proof -
  note R = repD [OF r]
  let ?x = "fst a" let ?i = "en_id (snd a)"
  have al: "a \<in> set (all_events zs cs bs)" using a by simp
  have live: "?x \<in> addresses zs cs bs" using al unfolding addresses_def by blast
  define s1 where "s1 = s\<lparr>e_cb := (e_cb s)(?x := None), e_period := (e_period s)(?x := - 1)\<rparr>"
  have "\<not> in_flight q ?x s1"
  proof (subst rep_flight [OF r ok al])
    have "snd a \<in> set (pend A)" using a unfolding R(5) by simp
    then show "\<not> (due (snd a) < last_round A \<or> due (snd a) = last_round A \<and> (rounds A - born (snd a)) mod 256 \<noteq> 0)"
      using agenda_okD(3,4) [OF ok] by force
  qed (simp_all add: s1_def)
  note flight = this
  have o1: "orders s1 q zs" by (rule orders_cong [OF R(1)]) (simp_all add: s1_def)
  define s2 where "s2 = unlink_event ?x s1"
  obtain zs' where s2: "orders s2 q zs'" "flat zs' = filter (\<lambda>b. fst b \<noteq> ?x) (flat zs)"
    "\<And>y. y \<notin> fst ` set (flat zs) \<Longrightarrow> e_next s2 y = e_next s1 y \<and> e_sibling s2 y = e_sibling s1 y"
    "data s2 = data s1" "eq_tick s2 = eq_tick s1" "eq_generation s2 = eq_generation s1"
    by (rule unlink_orders [OF o1, of ?x "snd a", folded s2_def]) (use a in simp, rule that, assumption+)
  note D = data_fields [OF s2(4)]
  let ?s3 = "s2\<lparr>e_id := (e_id s2)(?x := number (count_list L ?x))\<rparr>"
  have incid: "equeue_incid q ?x s2 = ?s3" by (rule rep_incid [OF r al]) (simp_all add: D s1_def)
  have same: "en_id (snd b) = ?i \<longleftrightarrow> fst b = ?x" if "b \<in> set (flat zs)" for b
    using same_id [OF r _ al, of b] same_address [OF R(3) _ al, of b] that by auto
  have pend: "filter (\<lambda>e. en_id e \<noteq> ?i) (pend A) = map snd (flat zs')"
    unfolding R(5) s2(2) filter_map comp_def using same by (intro arg_cong [where f = "map snd"] filter_cong) simp_all
  let ?A = "A\<lparr>pend := filter (\<lambda>e. en_id e \<noteq> ?i) (pend A)\<rparr>"
  have A: "agenda_cancel ?i A = (True, ?A)" using a by (simp add: agenda_cancel_def R(5))
  have "\<exists>s'. equeue_dealloc P q (?x + event_size) ?s3 = Some s' \<and> rep s' q c p ?A zs' cs bs (?x # fs) L"
  proof (rule rep_freed [OF r live])
    show "?x \<notin> fst ` set bs" using R(3) a by auto
    show "orders ?s3 q zs'" by (rule orders_cong [OF s2(1)]) simp_all
    show "data ?s3 = data (s\<lparr>e_cb := (e_cb s)(?x := None), e_period := (e_period s)(?x := - 1),
        e_id := (e_id s)(?x := number (count_list L ?x))\<rparr>)"
      using s2(4) by (simp add: data_def s1_def)
    show "set (all_events zs' cs bs) = {b \<in> set (all_events zs cs bs). fst b \<noteq> ?x}" using R(3) a by (auto simp: s2(2))
    show "distinct (map fst (all_events zs' cs bs))" using R(3) by (auto simp: s2(2) distinct_map_filter)
    show "e_next ?s3 y = e_next s y \<and> e_sibling ?s3 y = e_sibling s y" if "y \<notin> fst ` set (flat zs)" for y
      using s2(3) [OF that] by (simp add: s1_def)
  qed (use pend R(7,8) s2(5,6) in \<open>simp_all add: s1_def\<close>)
  then obtain s' where s': "equeue_dealloc P q (?x + event_size) ?s3 = Some s'" "rep s' q c p ?A zs' cs bs (?x # fs) L" by blast
  have "equeue_unqueue_by_id q ?i s = (Some ?x, ?s3)"
    using cancel_matched [OF r al] flight incid
    by (simp add: equeue_unqueue_by_id_def equeue_unqueue_by_address_def s1_def [symmetric] s2_def [symmetric] Let_def)
  then have "equeue_cancel P q ?i s = Some (True, s')"
    using cancel_matched(1) [OF r al] s'(1) by (simp add: equeue_cancel_def)
  then show ?thesis using s'(2) A by auto
qed

section \<open>Cancelling in general\<close>

lemma nth_id_cases: "nth_id n is = 0 \<or> nth_id n is \<in> set is"
  using nth_mem [of n "rev is"] by (auto simp: nth_id_def)

lemma live_event: "rep s q c p A zs cs bs fs L \<Longrightarrow> i \<in> live_ids A \<Longrightarrow> \<exists>a\<in>set (all_events zs cs bs). i = en_id (snd a)"
  by (auto simp: live_ids_set)

lemma cancel_lost:
  assumes r: "rep s q c p A zs cs bs fs L" and i: "i \<in> set (issued A)" "i \<notin> live_ids A" and care: "\<not> careless i A"
  shows "\<not> id_matches q i s"
proof -
  note R = repD [OF r]
  let ?b = "eq_buffer s q" let ?w = "eq_npw2 s q"
  obtain us x vs where d: "L = us @ x # vs" "i = enc ?b ?w x (count_list vs x)" using i(1) ids_set unfolding R(11) by metis
  have x: "offset_ok ?b ?w x" by (rule rep_offset [OF r]) (simp add: d(1))
  have xal: "x \<in> addresses zs cs bs \<union> set fs" using R(10) d(1) unfolding numbered_def by auto
  show ?thesis
  proof
    assume "id_matches q i s"
    then have m: "e_id s x = number (count_list vs x)" unfolding d(2) matches_enc [OF x] .
    show False
    proof (cases "x \<in> addresses zs cs bs")
      case True
      then obtain a where a: "a \<in> set (all_events zs cs bs)" "x = fst a" unfolding addresses_def by blast
      have "en_id (snd a) = i" using m rep_id(1,2) [OF r a(1)] by (simp add: d(2) a(2) enc_def)
      then show False using i(2) a(1) unfolding live_ids_set [OF r] by blast
    next
      case False
      have "i \<noteq> 0" unfolding d(2) by (rule enc_nonzero [OF x])
      then have "i \<in> set (take 254 (issued A))" using care i(2) unfolding careless_def by blast
      then obtain us' x' vs' where d': "L = us' @ x' # vs'" "i = enc ?b ?w x' (count_list vs' x')" "length us' < 254"
        unfolding R(11) using ids_take by blast
      have "offset_ok ?b ?w x'" by (rule rep_offset [OF r]) (simp add: d'(1))
      then have e: "x' = x" "count_list vs' x' mod 255 = count_list vs x mod 255"
        using enc_eq [OF x] d(2) d'(2) by metis+
      have "e_id s x = number (count_list L x)" using R(10) xal False by (simp add: numbered_def)
      then have "count_list L x' mod 255 = count_list vs' x' mod 255" using m e by (simp add: number_eq)
      then show False using repeat_late [OF d'(1)] d'(3) by simp
    qed
  qed
qed

lemma cancel_sim:
  assumes r: "rep s q c p A zs cs bs fs L" and ok: "agenda_ok A" and care: "\<not> careless (nth_id n (issued A)) A"
  obtains s' zs' cs' bs' fs' where
    "equeue_cancel P q (nth_id n (issued A)) s = Some (fst (agenda_cancel (nth_id n (issued A)) A), s')"
    and "rep s' q c p (snd (agenda_cancel (nth_id n (issued A)) A)) zs' cs' bs' fs' L"
    and "map fst cs' = map fst cs" and "map fst bs' = map fst bs"
proof -
  let ?i = "nth_id n (issued A)"
  consider "?i \<notin> live_ids A" | a where "a \<in> set (flat zs)" "?i = en_id (snd a)" | a where "a \<in> set (cs @ bs)" "?i = en_id (snd a)"
    using live_event [OF r, of ?i] by (cases "?i \<in> live_ids A") auto
  then show ?thesis
  proof cases
    case 1
    then have "?i = 0 \<or> \<not> id_matches q ?i s" using nth_id_cases [of n "issued A"] cancel_lost [OF r _ 1 care] by blast
    then show ?thesis using that [of s zs cs bs fs] r agenda_cancel_gone [OF 1] by (simp add: cancel_gone)
  next
    case 2
    from cancel_pending [OF r ok 2(1), of P] obtain s' zs' where
      "equeue_cancel P q ?i s = Some (True, s')" "fst (agenda_cancel ?i A) = True"
      "rep s' q c p (snd (agenda_cancel ?i A)) zs' cs bs (fst a # fs) L"
      unfolding 2(2) [symmetric] by blast
    then show ?thesis by (intro that [of s' zs' cs bs "fst a # fs"]) simp_all
  next
    case 3
    have "\<not> careless (en_id (snd a)) A" using care 3(2) by simp
    then obtain s' where "equeue_cancel P q ?i s = Some (False, s')" "fst (agenda_cancel ?i A) = False"
      "rep s' q c p (snd (agenda_cancel ?i A)) zs (void_slot ?i cs) (void_slot ?i bs) fs L"
      using cancel_running [OF r ok 3(1), of P] 3(2) by auto
    then show ?thesis by (intro that [of s' zs "void_slot ?i cs" "void_slot ?i bs" fs]) (simp_all add: comp_def)
  qed
qed

end
