(* ===== verification/Equeue_Acts.thy ===== *)
theory Equeue_Acts
  imports Equeue_Cancel
begin

text \<open>
  Whatever a thread or a call-back does with an event queue (events/source/equeue.c), the queue
  keeps to its agenda, unless the program is careless or late.
\<close>

section \<open>The agenda stays in order\<close>

lemma agenda_ok_post:
  assumes "agenda_ok A" and "timely (agenda_post i ms pr n d A)"
  shows "agenda_ok (agenda_post i ms pr n d A)"
proof -
  let ?A = "agenda_post i ms pr n d A" let ?t = "clock (advance A)"
  let ?e = "\<lparr>en_id = i, due = ?t + nat (sint ms), born = rounds A, action = Some n, arg = d, per = pr\<rparr>"
  have f: "set (pend ?A) = insert ?e (set (pend A))" "running ?A = running A" "last_round ?A = last_round A"
    "rounds ?A = rounds A" "clock ?A = ?t"
    by (simp_all add: agenda_post_def Let_def running_def enter_set)
  have "last_round A \<le> ?t" using agenda_okD(2) [OF assms(1)] advance_fields(9) by (rule le_trans)
  then show ?thesis using assms unfolding agenda_ok_def [of ?A] f by (auto simp: agenda_ok_def)
qed

lemma void_fields [simp]: "due (void i e) = due e" "born (void i e) = born e" "en_id (void i e) = en_id e"
  by (simp_all add: void_def)

lemma running_cancel: "running (snd (agenda_cancel i A)) = running A \<or>
    running (snd (agenda_cancel i A)) = map (void i) (running A)"
  by (auto simp: agenda_cancel_def running_def split: option.splits)

lemma agenda_ok_cancel:
  assumes "agenda_ok A"
  shows "agenda_ok (snd (agenda_cancel i A))"
proof -
  let ?A = "snd (agenda_cancel i A)"
  have f: "set (pend ?A) \<subseteq> set (pend A)" "last_round ?A = last_round A" "rounds ?A = rounds A" "clock ?A = clock A"
    by (auto simp: agenda_cancel_def)
  have r: "\<exists>e0\<in>set (running A). due e = due e0 \<and> born e = born e0" if "e \<in> set (running ?A)" for e
    using running_cancel [of i A]
  proof
    assume "running ?A = running A"
    then show ?thesis using that by (intro bexI [of _ e]) simp_all
  next
    assume "running ?A = map (void i) (running A)"
    then have "e \<in> void i ` set (running A)" using that by simp
    then obtain e0 where "e0 \<in> set (running A)" "e = void i e0" by (elim imageE)
    then show ?thesis by (intro bexI [of _ e0]) simp_all
  qed
  have p: "e \<in> set (pend A)" if "e \<in> set (pend ?A)" for e using f(1) that by blast
  note D = agenda_okD [OF assms]
  have all: "\<exists>e0\<in>set (pend A @ running A). due e = due e0" if "e \<in> set (pend ?A @ running ?A)" for e
  proof (cases "e \<in> set (pend ?A)")
    case True
    then show ?thesis using p by (intro bexI [of _ e]) simp_all
  next
    case False
    then have "e \<in> set (running ?A)" using that by simp
    then obtain e0 where "e0 \<in> set (running A)" "due e = due e0" using r by blast
    then show ?thesis by (intro bexI [of _ e0]) simp_all
  qed
  have "timely ?A" unfolding timely_def f(2,4)
  proof (intro conjI ballI)
    show "clock A < last_round A + 1073741824" using D(1) by (simp add: timely_def)
    fix e assume "e \<in> set (pend ?A @ running ?A)"
    from all [OF this] obtain e0 where e0: "e0 \<in> set (pend A @ running A)" "due e = due e0" by blast
    then have "clock A < due e0 + 1073741824 \<and> due e0 < clock A + 1073741824" using D(1) by (simp only: timely_def)
    then show "clock A < due e + 1073741824" "due e < clock A + 1073741824" unfolding e0(2) by simp_all
  qed
  moreover have run: "due e \<le> last_round A \<and> born e \<le> rounds A" if "e \<in> set (running ?A)" for e
    using r [OF that] D(6,7) by auto
  moreover have "last_round A \<le> due e \<and> (due e = last_round A \<longrightarrow> born e = rounds A) \<and> born e \<le> rounds A" if "e \<in> set (pend ?A)" for e
    using D(3-5) [OF p [OF that]] by blast
  ultimately show ?thesis unfolding agenda_ok_def f(2-4)
    by (intro conjI [OF _ conjI [OF D(2) conjI [OF ballI ballI]]])
qed

section \<open>Acts\<close>

text \<open>\<open>xs\<close> is the event that runs, if any, \<open>ys\<close> are those that have been collected.\<close>

definition agrees :: "'v client equeue \<Rightarrow> u32 \<Rightarrow> nat \<Rightarrow> u32 option \<Rightarrow> u32 list \<Rightarrow> u32 list \<Rightarrow> 'v agenda \<Rightarrow> bool" where
  "agrees s q c p xs ys A \<longleftrightarrow> agenda_ok A \<and>
     (\<exists>zs cs bs fs L. rep s q c p A zs cs bs fs L \<and> map fst cs = xs \<and> map fst bs = ys)"

text \<open>What performing an act comes to: the agenda allows it, or promises nothing.\<close>

definition act_agrees :: "'v client platform \<Rightarrow> u32 \<Rightarrow> nat \<Rightarrow> u32 option \<Rightarrow> u32 list \<Rightarrow> u32 list \<Rightarrow>
    'v act \<Rightarrow> 'v client equeue \<Rightarrow> 'v agenda \<Rightarrow> bool" where
  "act_agrees P q c p xs ys a s A \<longleftrightarrow> agenda_act c a A None \<or>
     (\<exists>s' A'. perform P q a s = Some s' \<and> agenda_act c a A (Some A') \<and> agrees s' q c p xs ys A')"

lemma act_agrees_via:
  assumes "act_agrees P q c p xs ys a s A" and "perform P q b t = perform P q a s"
    and "\<And>B. agenda_act c a A B \<Longrightarrow> agenda_act c b A' B"
  shows "act_agrees P q c p xs ys b t A'"
  using assms unfolding act_agrees_def by auto

lemma perform_post:
  assumes "as_post a = Some (ms, pr, n, d, k)"
  obtains f where "sets_up f ms pr" and "\<And>s. perform P q a s = do {
    (i, s) \<leftarrow> post_callback P q f (Some (User_Function n)) d s; perform P q (k (i \<noteq> 0)) (note_id i s) }"
proof (cases a)
  case (Call n' d' k')
  show ?thesis by (rule that [of "\<lambda>p s. s"]) (use assms Call setups(1) in \<open>simp_all add: equeue_call_def\<close>)
next
  case (Call_In ms' n' d' k')
  show ?thesis
    by (rule that [of "\<lambda>p. equeue_event_delay p ms"]) (use assms Call_In setups(2) in \<open>simp_all add: equeue_call_in_def\<close>)
next
  case (Call_Every ms' n' d' k')
  show ?thesis
    by (rule that [of "\<lambda>p s. equeue_event_period p ms (equeue_event_delay p ms s)"])
      (use assms Call_Every setups(3) [of ms] in \<open>auto simp: equeue_call_every_def\<close>)
qed (use assms in simp_all)

lemma act_post:
  assumes a: "as_post a = Some (ms, pr, n, d, k)" and s: "agrees s q c p xs ys A"
    and IH: "\<And>b s A. agrees s q c p xs ys A \<Longrightarrow> act_agrees P q c p xs ys (k b) s A"
  shows "act_agrees P q c p xs ys a s A"
proof -
  obtain f where f: "sets_up f ms pr" and perform: "\<And>s. perform P q a s = do {
    (i, s) \<leftarrow> post_callback P q f (Some (User_Function n)) d s; perform P q (k (i \<noteq> 0)) (note_id i s) }"
    by (rule perform_post [OF a]) (rule that)
  obtain zs cs bs fs L where r: "rep s q c p A zs cs bs fs L" and m: "map fst cs = xs" "map fst bs = ys"
    and ok: "agenda_ok A" using s unfolding agrees_def by blast
  note R = repD [OF r]
  have load: "load A = card (addresses zs cs bs)" by (rule rep_load [OF r])
  from mem_alloc_ok [OF R(9)] show ?thesis
  proof (elim disjE conjE exE)
    assume "card (addresses zs cs bs) = c" and "equeue_mem_alloc q 8 s = Some (None, s)"
    then show ?thesis
      using act_agrees_via [OF IH [OF s, of False] _ agenda_act.full [OF a]] load
      by (simp add: perform post_full note_id_def)
  next
    fix x s1 gs
    assume "card (addresses zs cs bs) < c" and alloc: "equeue_mem_alloc q 8 s = Some (Some x, s1)"
      and x: "x \<notin> addresses zs cs bs" and ok1: "chunks_ok s1 q c (insert x (addresses zs cs bs)) gs"
      and al: "insert x (addresses zs cs bs) \<union> set gs = insert x (addresses zs cs bs \<union> set fs)"
      and s1: "others s1 = others s" "e_sibling s1 = e_sibling s" "\<forall>y. y \<notin> set fs \<longrightarrow> e_next s1 y = e_next s y"
        "e_id s1 = (if x \<in> set fs then e_id s else (e_id s)(x := 1))"
    let ?i = "enc (eq_buffer s q) (eq_npw2 s q) x (count_list L x)"
    have off: "offset_ok (eq_buffer s q) (eq_npw2 s q) x"
      using chunk_offset [OF ok1] others_fields [OF s1(1)] by simp
    have fresh: "fresh ?i A" by (rule fresh_id [OF r x off])
    have l: "load A < c" using load \<open>card (addresses zs cs bs) < c\<close> by simp
    show ?thesis
    proof (cases "timely (agenda_post ?i ms pr n d A)")
      case False
      then show ?thesis unfolding act_agrees_def using agenda_act.late [OF a l fresh] by blast
    next
      case True
      then obtain s' zs' where s': "post_callback P q f (Some (User_Function n)) d s = Some (?i, s')"
        "rep (note_id ?i s') q c p (agenda_post ?i ms pr n d A) zs' cs bs gs (x # L)"
        using post_sim [OF r f alloc x ok1 s1 al refl, of n d P] by blast
      then have "agrees (note_id ?i s') q c p xs ys (agenda_post ?i ms pr n d A)"
        using m agenda_ok_post [OF ok True] unfolding agrees_def by blast
      then show ?thesis
        using act_agrees_via [OF IH [of _ _ True] _ agenda_act.post [OF a l fresh True]] s'(1) enc_nonzero [OF off]
        by (simp add: perform)
    qed
  qed
qed

lemma act_cancel:
  assumes s: "agrees s q c p xs ys A"
    and IH: "\<And>b s A. agrees s q c p xs ys A \<Longrightarrow> act_agrees P q c p xs ys (k b) s A"
  shows "act_agrees P q c p xs ys (Cancel n k) s A"
proof (cases "careless (nth_id n (issued A)) A")
  case True
  then show ?thesis unfolding act_agrees_def by (blast intro: agenda_act.lost)
next
  case False
  obtain zs cs bs fs L where r: "rep s q c p A zs cs bs fs L" and m: "map fst cs = xs" "map fst bs = ys"
    and ok: "agenda_ok A" using s unfolding agrees_def by blast
  let ?i = "nth_id n (issued A)"
  obtain s' zs' cs' bs' fs' where s': "equeue_cancel P q ?i s = Some (fst (agenda_cancel ?i A), s')"
    "rep s' q c p (snd (agenda_cancel ?i A)) zs' cs' bs' fs' L" "map fst cs' = map fst cs" "map fst bs' = map fst bs"
    by (rule cancel_sim [OF r ok False]) (rule that)
  then have "agrees s' q c p xs ys (snd (agenda_cancel ?i A))"
    using m agenda_ok_cancel [OF ok] unfolding agrees_def by metis
  note IH [OF this, of "fst (agenda_cancel ?i A)"]
  then show ?thesis
    by (rule act_agrees_via) (use s'(1) repD(12) [OF r] agenda_act.cancel [OF False surjective_pairing] in simp_all)
qed

text \<open>Changes of the state that do not concern the events.\<close>

lemma rep_update:
  assumes r: "rep s q c p A zs cs bs fs L"
  shows "rep (s\<lparr>eq_break := h, bg_active := g, now := of_nat t, lapses := ds, user := (issued A, v)\<rparr>) q c p
    (A\<lparr>clock := t, laps := ds, val := v\<rparr>) zs cs bs fs L"
  unfolding rep_def
proof (intro conjI)
  let ?s = "s\<lparr>eq_break := h, bg_active := g, now := of_nat t, lapses := ds, user := (issued A, v)\<rparr>"
  note R = repD [OF r]
  show "orders ?s q zs" by (rule orders_cong [OF R(1)]) simp_all
  show "\<forall>a\<in>set (all_events zs cs bs). entered ?s q (fst a) (snd a)"
    by (intro ballI entered_cong [OF R(4)]) simp_all
  show "chunks_ok ?s q c (addresses zs cs bs) fs" by (rule chunks_cong [OF R(9)]) simp_all
  show "numbered ?s (addresses zs cs bs) (addresses zs cs bs \<union> set fs) L" by (rule numbered_cong [OF R(10)]) simp
qed (use repD [OF r] in simp_all)

lemma act_done:
  assumes "agrees s q c p xs ys A"
  shows "act_agrees P q c p xs ys (Done v) s A"
proof -
  obtain zs cs bs fs L where r: "rep s q c p A zs cs bs fs L" and m: "map fst cs = xs" "map fst bs = ys"
    and ok: "agenda_ok A" using assms unfolding agrees_def by blast
  have "s\<lparr>user := (fst (user s), v)\<rparr> = s\<lparr>eq_break := eq_break s, bg_active := bg_active s,
      now := of_nat (clock A), lapses := laps A, user := (issued A, v)\<rparr>"
    using repD(12-14) [OF r] by simp
  then have "rep (s\<lparr>user := (fst (user s), v)\<rparr>) q c p (A\<lparr>val := v\<rparr>) zs cs bs fs L"
    using rep_update [OF r, where h = "eq_break s" and g = "bg_active s" and t = "clock A" and ds = "laps A" and v = v] by simp
  moreover have "agenda_ok (A\<lparr>val := v\<rparr>)" using ok by (simp add: agenda_ok_def timely_def running_def)
  ultimately show ?thesis using m unfolding act_agrees_def agrees_def perform.simps(1)
    by (blast intro: agenda_act.finished)
qed

lemma perform_agrees: "agrees s q c p xs ys A \<Longrightarrow> act_agrees P q c p xs ys a s A"
proof (induction a arbitrary: s A)
  case (Done v)
  then show ?case by (rule act_done)
next
  case (Call n d k)
  then show ?case by (intro act_post [of "Call n d k"]) auto
next
  case (Call_In ms n d k)
  then show ?case by (intro act_post [of "Call_In ms n d k"]) auto
next
  case (Call_Every ms n d k)
  then show ?case by (intro act_post [of "Call_Every ms n d k"]) auto
next
  case (Cancel n k)
  then show ?case by (intro act_cancel) auto
qed

end
