(* ===== verification/Equeue_Rounds.thy ===== *)
theory Equeue_Rounds
  imports Equeue_Acts
begin

text \<open>
  Dispatching an event queue (events/source/equeue.c) with a time of 0: a round of its agenda.
\<close>

section \<open>After a call-back\<close>

text \<open>The entry that a periodic one turns into.\<close>

definition again :: "'v agenda \<Rightarrow> entry \<Rightarrow> entry" where
  "again A e = e\<lparr>due := max (due e + unat (per e)) (clock (advance A)), born := rounds A\<rparr>"

lemma finish_again: "cur A = Some e \<Longrightarrow> 0 \<le> sint (per e) \<Longrightarrow>
    agenda_finish A = (advance A)\<lparr>pend := enter (again A e) (pend A), cur := None\<rparr>"
  by (simp add: agenda_finish_def again_def Let_def)

lemma finish_single: "cur A = Some e \<Longrightarrow> \<not> 0 \<le> sint (per e) \<Longrightarrow> agenda_finish A = A\<lparr>cur := None\<rparr>"
  by (simp add: agenda_finish_def)

lemma agenda_ok_finish:
  assumes ok: "agenda_ok A" and cur: "cur A = Some e" and timely: "timely (agenda_finish A)"
  shows "agenda_ok (agenda_finish A)"
proof (cases "0 \<le> sint (per e)")
  case True
  let ?A = "agenda_finish A"
  have f: "set (pend ?A) = insert (again A e) (set (pend A))" "set (running ?A) \<subseteq> set (running A)"
    "last_round ?A = last_round A" "rounds ?A = rounds A" "clock ?A = clock (advance A)"
    unfolding finish_again [OF cur True] by (auto simp: running_def enter_set)
  have "last_round A \<le> clock (advance A)" using agenda_okD(2) [OF ok] advance_fields(9) by (rule le_trans)
  moreover from this have "last_round A \<le> due (again A e)" "born (again A e) = rounds A" by (simp_all add: again_def)
  ultimately show ?thesis using ok timely f(2) unfolding agenda_ok_def [of ?A] f(1,3-5) by (auto simp: agenda_ok_def)
next
  case False
  let ?A = "agenda_finish A"
  have "set (running ?A) \<subseteq> set (running A)" "pend ?A = pend A" "last_round ?A = last_round A" "rounds ?A = rounds A"
    "clock ?A = clock A"
    unfolding finish_single [OF cur False] by (auto simp: running_def)
  then show ?thesis using ok timely unfolding agenda_ok_def by auto
qed

lemma finish_single_sim:
  assumes r: "rep s q c p A zs [(x, e)] bs fs L" and single: "\<not> 0 \<le> sint (per e)"
  shows "\<exists>s' fs'. finish_event P q x s = Some s' \<and> rep s' q c p (agenda_finish A) zs [] bs fs' L"
proof -
  note R = repD [OF r]
  have a: "(x, e) \<in> set (all_events zs [(x, e)] bs)" by simp
  let ?t = "s\<lparr>e_id := (e_id s)(x := number (count_list L x))\<rparr>"
  have incid: "equeue_incid q x s = ?t" using rep_incid [OF r a refl refl] by simp
  have cur: "cur A = Some e" using R(7) by simp
  have "\<exists>s'. equeue_dealloc P q (x + event_size) ?t = Some s' \<and> rep s' q c p (agenda_finish A) zs [] bs (x # fs) L"
    unfolding finish_single [OF cur single]
  proof (rule rep_freed [OF r, where v = "e_cb s x" and w = "e_period s x"])
    show "x \<in> addresses zs [(x, e)] bs" by (simp add: addresses_def)
    show "x \<notin> fst ` set bs" using R(3) by simp
    show "orders ?t q zs" by (rule orders_cong [OF R(1)]) simp_all
    show "data ?t = data (s\<lparr>e_cb := (e_cb s)(x := e_cb s x), e_period := (e_period s)(x := e_period s x),
        e_id := (e_id s)(x := number (count_list L x))\<rparr>)"
      by (simp add: data_def)
    show "set (all_events zs [] bs) = {b \<in> set (all_events zs [(x, e)] bs). fst b \<noteq> x}" using R(3) by force
    show "distinct (map fst (all_events zs [] bs))" using R(3) by simp
  qed (use R(5) in simp_all)
  moreover have "e_period s x = per e" using R(4) [OF a] by (simp add: entered_def)
  ultimately show ?thesis using single incid by (auto simp: finish_event_def)
qed

lemma finish_again_sim:
  assumes r: "rep s q c p A zs [(x, e)] bs fs L" and ok: "agenda_ok A" and periodic: "0 \<le> sint (per e)"
    and timely: "timely (agenda_finish A)"
  shows "\<exists>s' zs'. finish_event P q x s = Some s' \<and> rep s' q c p (agenda_finish A) zs' [] bs fs L"
proof -
  note R = repD [OF r]
  let ?t = "clock (advance A)" let ?e = "again A e" let ?B = "agenda_finish A"
  have a: "(x, e) \<in> set (all_events zs [(x, e)] bs)" by simp
  have cur: "cur A = Some e" using R(7) by simp
  note B = finish_again [OF cur periodic]
  have x: "x \<notin> fst ` set (flat zs)" "x \<notin> fst ` set bs" using R(3) by auto
  have in_zs: "in_order zs" using R(1) by (simp add: orders_def)
  have per: "e_period s x = per e" "e_target s x = of_nat (due e)" using R(4) [OF a] by (simp_all add: entered_def)
  define s1 where "s1 = s\<lparr>e_target := (e_target s)(x := of_nat (due e + unat (per e))), now := of_nat ?t, lapses := laps (advance A)\<rparr>"
  have tick: "equeue_tick (s\<lparr>e_target := (e_target s)(x := e_target s x + e_period s x)\<rparr>) = (of_nat ?t, s1)"
    by (subst tick_advance [of _ A]) (use R(13,14) per in \<open>simp_all add: s1_def\<close>)
  have o1: "orders s1 q zs" by (rule orders_cong [OF R(1)]) (use x(1) in \<open>auto simp: s1_def\<close>)
  have running: "e \<in> set (running A)" unfolding running_def cur by simp
  have tB: "?t < last_round A + 1073741824" "due ?e < ?t + 1073741824"
    using timely unfolding timely_def B by (simp_all add: enter_set)
  have "clock A < due e + 1073741824" using agenda_okD(1) [OF ok] running unfolding timely_def by auto
  moreover have "due e + unat (per e) \<le> due ?e" by (simp add: again_def)
  ultimately have "near (due e + unat (per e)) ?t" using tB agenda_okD(2) [OF ok] by linarith
  then have target: "of_nat ?t + equeue_clampdiff (e_target s1 x) (of_nat ?t) = of_nat (due ?e)"
    using clamp_of_nat [of "due e + unat (per e)" ?t] by (simp add: s1_def again_def)
  have near: "near (due (snd b)) (due ?e)" if b: "b \<in> set (flat zs)" for b
    by (rule timely_near [OF timely]) (use b R(5) in \<open>simp_all add: B enter_set\<close>)
  have bg: "bg_update s1 q = None" using R(17) by (simp add: s1_def)
  obtain s2 where s2: "equeue_enqueue P q x (of_nat ?t) s1 = Some s2" "orders s2 q (put_slot (x, ?e) zs)"
    "data s2 = data (s1\<lparr>e_target := (e_target s1)(x := of_nat (due ?e)), e_generation := (e_generation s1)(x := eq_generation s1 q)\<rparr>)"
    "eq_tick s2 = eq_tick s1" "eq_generation s2 = eq_generation s1"
    "\<And>y. y \<noteq> x \<Longrightarrow> y \<notin> fst ` set (flat zs) \<Longrightarrow> e_next s2 y = e_next s1 y \<and> e_sibling s2 y = e_sibling s1 y"
    by (rule enqueue_orders [where P = P, OF o1 x(1) target near bg]) (assumption, rule that, assumption+)
  note D = data_fields [OF s2(3)]
  let ?zs = "put_slot (x, ?e) zs"
  have set_zs: "set (flat ?zs) = insert (x, ?e) (set (flat zs))" by (rule put_slot_set [OF in_zs])
  have adr: "addresses ?zs [] bs = addresses zs [(x, e)] bs" unfolding addresses_def using set_zs by auto
  have frame: "e_next s2 y = e_next s y \<and> e_sibling s2 y = e_sibling s y" if "y \<noteq> x" "y \<notin> fst ` set (flat zs)" for y
    using s2(6) [OF that] by (simp add: s1_def)
  have "rep s2 q c p ?B ?zs [] bs fs L" unfolding rep_def adr
  proof (intro conjI)
    show "orders s2 q ?zs" by (rule s2(2))
    have "e_next s2 y = e_next s y" if "y \<in> set (map fst bs)" for y
    proof -
      have "y \<noteq> x" "y \<notin> fst ` set (flat zs)" using that R(3) by auto
      then show ?thesis using frame by simp
    qed
    then have "chain (e_next s2) p (map fst bs) = chain (e_next s) p (map fst bs)" by (intro path_cong)
    then show "chain (e_next s2) p (map fst bs)" using R(2) by simp
    show "distinct (map fst (all_events ?zs [] bs))"
      by (rule put_slot_distinct [OF in_zs]) (use R(3) in auto)
    show "\<forall>b\<in>set (all_events ?zs [] bs). entered s2 q (fst b) (snd b)"
    proof
      fix b assume "b \<in> set (all_events ?zs [] bs)"
      then consider "b = (x, ?e)" | "b \<in> set (flat zs @ bs)" using set_zs by auto
      then show "entered s2 q (fst b) (snd b)"
      proof cases
        case 1
        then show ?thesis using R(4) [OF a] R(16)
          by (simp add: entered_def again_def equeue_event_id_def D s1_def split: option.splits)
      next
        case 2
        then have "fst b \<noteq> x" using x by auto
        then show ?thesis using 2 by (intro entered_cong [OF R(4)]) (simp_all add: D s1_def)
      qed
    qed
    show "pend ?B = map snd (flat ?zs)" using put_slot_enter [OF in_zs, of "(x, ?e)"] R(5) by (simp add: B)
    show "batch ?B = map snd bs" "cur ?B = (case [] :: slot of [] \<Rightarrow> None | b # _ \<Rightarrow> Some (snd b))" "length ([] :: slot) \<le> 1"
      using R(6) by (simp_all add: B)
    show "chunks_ok s2 q c (addresses zs [(x, e)] bs) fs"
    proof (rule chunks_cong [OF R(9)])
      fix y assume "y \<in> set fs"
      then have "y \<notin> addresses zs [(x, e)] bs" using R(9) by (auto simp: chunks_ok_def)
      then have "y \<noteq> x" "y \<notin> fst ` set (flat zs)" by (auto simp: addresses_def)
      then show "e_sibling s2 y = e_sibling s y" "e_next s2 y = e_next s y" using frame by simp_all
    qed (simp_all add: D s1_def)
    show "numbered s2 (addresses zs [(x, e)] bs) (addresses zs [(x, e)] bs \<union> set fs) L"
      by (rule numbered_cong [OF R(10)]) (simp add: D s1_def)
    show "issued ?B = ids (eq_buffer s2 q) (eq_npw2 s2 q) L" "user s2 = (issued ?B, val ?B)" "now s2 = of_nat (clock ?B)"
      "lapses s2 = laps ?B" "eq_tick s2 q = of_nat (last_round ?B)" "eq_generation s2 q = of_nat (rounds ?B)" "bg_update s2 q = None"
      using R(11-17) by (simp_all add: B D s2(4,5) s1_def)
  qed
  moreover have "finish_event P q x s = Some s2" using tick s2(1) periodic per by (simp add: finish_event_def)
  ultimately show ?thesis by blast
qed

lemma finish_sim:
  assumes s: "agrees s q c p [x] ys A" and timely: "timely (agenda_finish A)"
  obtains s' where "finish_event P q x s = Some s'" and "agrees s' q c p [] ys (agenda_finish A)"
proof -
  obtain zs cs bs fs L where r: "rep s q c p A zs cs bs fs L" and m: "map fst cs = [x]" "map fst bs = ys"
    and ok: "agenda_ok A" using s unfolding agrees_def by (elim exE conjE) (rule that)
  obtain e where cs: "cs = [(x, e)]" using m(1) by auto
  note r = r [unfolded cs]
  have "cur A = Some e" using repD(7) [OF r] by simp
  note ok' = agenda_ok_finish [OF ok this timely]
  have "\<exists>s' zs' fs'. finish_event P q x s = Some s' \<and> rep s' q c p (agenda_finish A) zs' [] bs fs' L"
    using finish_single_sim [OF r, of P] finish_again_sim [OF r ok _ timely, of P] by (cases "0 \<le> sint (per e)") blast+
  then show ?thesis using that ok' m(2) unfolding agrees_def by (metis list.simps(8))
qed

section \<open>The collected events\<close>

lemma rep_start:
  assumes r: "rep s q c p A zs [] ((x, e) # bs) fs L" and ok: "agenda_ok A"
  shows "p = Some x" and "batch A = e # map snd bs"
    and "rep s q c (e_next s x) (A\<lparr>batch := map snd bs, cur := Some e\<rparr>) zs [(x, e)] bs fs L"
    and "agenda_ok (A\<lparr>batch := map snd bs, cur := Some e\<rparr>)" and "entered s q x e"
proof -
  note R = repD [OF r]
  show "p = Some x" and b: "batch A = e # map snd bs" and "entered s q x e" using R(2,6) R(4) [of "(x, e)"] by simp_all
  have same: "addresses zs [] ((x, e) # bs) = addresses zs [(x, e)] bs" by (simp add: addresses_def)
  show "rep s q c (e_next s x) (A\<lparr>batch := map snd bs, cur := Some e\<rparr>) zs [(x, e)] bs fs L"
    using r unfolding rep_def same by simp
  have "running (A\<lparr>batch := map snd bs, cur := Some e\<rparr>) = running A" using b R(7) by (simp add: running_def)
  then show "agenda_ok (A\<lparr>batch := map snd bs, cur := Some e\<rparr>)" using ok by (simp add: agenda_ok_def timely_def)
qed

lemma program_call:
  assumes "entered s q x e" and "action e = Some n"
  shows "e_cb s x = Some Ecallback_dispatch"
    and "call_cb (program run q) Ecallback_dispatch (x + event_size) s = perform silent q (run n (arg e) (snd (user s))) s"
  using assms by (simp_all add: entered_def program_def numeral_2_eq_2 ecallback_dispatch_def)

lemma event_call:
  assumes s: "agrees s q c p [x] ys A" and e: "entered s q x e"
  shows "agenda_call c run e A None \<or>
    (\<exists>s' B. (case e_cb s x of None \<Rightarrow> Some s | Some cb \<Rightarrow> call_cb (program run q) cb (x + event_size) s) = Some s' \<and>
      agenda_call c run e A (Some B) \<and> agrees s' q c p [x] ys B)"
proof (cases "action e")
  case None
  then show ?thesis using s e by (simp add: entered_def agenda_call_def)
next
  case (Some n)
  have "user s = (issued A, val A)" using s repD(12) unfolding agrees_def by blast
  then show ?thesis
    using perform_agrees [OF s, of silent "run n (arg e) (val A)"] Some program_call(1) [OF e Some] program_call(2) [OF e Some, of run]
    by (simp add: agenda_call_def act_agrees_def)
qed

lemma dispatch_agrees:
  assumes "agrees s q c p [] ys A"
  shows "agenda_batch c run A None \<or> (\<exists>s' A'. dispatch_events (program run q) q p s = Some s' \<and>
    agenda_batch c run A (Some A') \<and> agrees s' q c None [] [] A')"
  using assms
proof (induction ys arbitrary: s p A)
  case Nil
  then obtain zs fs L where r: "rep s q c p A zs [] [] fs L" unfolding agrees_def by auto
  then have "p = None" "batch A = []" using repD(2,6) [OF r] by (cases p; simp)+
  then show ?case using Nil by (subst dispatch_events.simps) (auto intro: batch_done)
next
  case (Cons x ys)
  from Cons.prems obtain zs bs fs L where r: "rep s q c p A zs [] bs fs L" and m: "map fst bs = x # ys"
    and ok: "agenda_ok A" unfolding agrees_def by auto
  obtain e bs' where bs: "bs = (x, e) # bs'" "map fst bs' = ys" using m by auto
  note S = rep_start [OF r [unfolded bs(1)] ok]
  let ?A = "A\<lparr>batch := map snd bs', cur := Some e\<rparr>"
  have s: "agrees s q c (e_next s x) [x] ys ?A"
    unfolding agrees_def using S(3,4) bs(2) by (intro conjI exI [of _ zs] exI [of _ "[(x, e)]"] exI) simp_all
  from event_call [OF s S(5), where run = run] show ?case
  proof (elim disjE exE conjE)
    assume "agenda_call c run e ?A None"
    then show ?thesis using batch_lost [OF S(2)] by blast
  next
    fix s1 B
    assume call: "(case e_cb s x of None \<Rightarrow> Some s | Some cb \<Rightarrow> call_cb (program run q) cb (x + event_size) s) = Some s1"
      and B: "agenda_call c run e ?A (Some B)" and s1: "agrees s1 q c (e_next s x) [x] ys B"
    show ?thesis
    proof (cases "timely (agenda_finish B)")
      case False
      then show ?thesis using batch_late [OF S(2) B] by blast
    next
      case True
      obtain s2 where s2: "finish_event (program run q) q x s1 = Some s2"
        "agrees s2 q c (e_next s x) [] ys (agenda_finish B)"
        by (rule finish_sim [OF s1 True]) (rule that)
      have "dispatch_events (program run q) q p s = dispatch_events (program run q) q (e_next s x) s2"
        unfolding S(1) using call s2(1) by (subst dispatch_events.simps) (simp add: Let_def)
      then show ?thesis using Cons.IH [OF s2(2)] batch_next [OF S(2) B True] by metis
    qed
  qed
qed

section \<open>A round\<close>

lemma agenda_act_round: "agenda_act c a A O' \<Longrightarrow> O' = Some B \<Longrightarrow> last_round B = last_round A"
  by (induction rule: agenda_act.induct) (auto simp: agenda_post_def agenda_cancel_def Let_def split: if_splits)

lemma agenda_batch_round: "agenda_batch c run A O' \<Longrightarrow> O' = Some B \<Longrightarrow> last_round B = last_round A"
proof (induction rule: agenda_batch.induct)
  case (batch_next A e es C O')
  have "last_round C = last_round A"
    using batch_next.hyps(2) agenda_act_round by (fastforce simp: agenda_call_def split: option.splits)
  moreover have "last_round (agenda_finish C) = last_round C"
    by (auto simp: agenda_finish_def Let_def split: option.splits)
  ultimately show ?case using batch_next by simp
qed simp_all

lemma collect_fields: "last_round (collect A) = clock A" "rounds (collect A) = rounds A + 1" "clock (collect A) = clock A"
  "batch (collect A) = takeWhile (\<lambda>e. due e \<le> clock A) (pend A)" "cur (collect A) = cur A"
  "pend (collect A) = dropWhile (\<lambda>e. due e \<le> clock A) (pend A)" "issued (collect A) = issued A" "val (collect A) = val A"
  "laps (collect A) = laps A"
  by (simp_all add: collect_def)

lemma collect_running: "cur A = None \<Longrightarrow> running (collect A) = takeWhile (\<lambda>e. due e \<le> clock A) (pend A)"
  by (simp add: running_def collect_fields)

lemma in_order_sorted: "in_order zs \<Longrightarrow> sorted (map due (map snd (flat zs)))"
proof (induction zs)
  case (Cons z zs)
  have z: "\<forall>a\<in>set z. due (snd a) = slot_due z" "\<forall>y\<in>set zs. slot_due z < slot_due y" "in_order zs"
    using Cons.prems by (simp_all add: in_order_Cons)
  have "map due (map snd (rev z)) = map (\<lambda>_. slot_due z) (rev z)" using z(1) by simp
  then have "sorted (map due (map snd (rev z)))" by (metis map_replicate_const sorted_replicate)
  moreover have "due (snd a) \<le> due (snd b)" if "a \<in> set z" "b \<in> set (flat zs)" for a b
    using flat_due [OF z(3) that(2)] z(1,2) that(1) by auto
  ultimately show ?case using Cons.IH [OF z(3)] by (auto simp: sorted_append)
qed simp

lemma sorted_later: "sorted (map f xs) \<Longrightarrow> x \<in> set (dropWhile (\<lambda>x. f x \<le> t) xs) \<Longrightarrow> t < f x" for t :: nat
  by (induction xs) (fastforce split: if_splits)+

lemma agenda_ok_collect:
  assumes ok: "agenda_ok A" and cur: "cur A = None" and sorted: "sorted (map due (pend A))"
  shows "agenda_ok (collect A)"
proof -
  note D = agenda_okD [OF ok]
  have p: "e \<in> set (pend A)" if "e \<in> set (pend (collect A) @ running (collect A))" for e
    using that set_dropWhileD set_takeWhileD unfolding collect_running [OF cur] collect_fields by fastforce
  have "timely (collect A)" unfolding timely_def collect_fields(1,3)
  proof (intro conjI ballI)
    fix e assume "e \<in> set (pend (collect A) @ running (collect A))"
    then have "e \<in> set (pend A @ running A)" using p [of e] by simp
    then have "clock A < due e + 1073741824 \<and> due e < clock A + 1073741824" using D(1) by (simp only: timely_def)
    then show "clock A < due e + 1073741824" "due e < clock A + 1073741824" by simp_all
  qed simp
  moreover have "clock A < due e \<and> born e \<le> rounds A + 1" if "e \<in> set (pend (collect A))" for e
    using sorted_later [OF sorted] that D(5) [OF p, of e] by (simp add: collect_fields)
  then have "clock A \<le> due e \<and> (due e = clock A \<longrightarrow> born e = rounds A + 1) \<and> born e \<le> rounds A + 1"
    if "e \<in> set (pend (collect A))" for e using that by fastforce
  moreover have "due e \<le> clock A \<and> born e \<le> rounds A + 1" if "e \<in> set (running (collect A))" for e
    using that D(5) [OF p, of e] set_takeWhileD [of e] unfolding collect_running [OF cur] by fastforce
  ultimately show ?thesis unfolding agenda_ok_def collect_fields(1-3)
    by (intro conjI [OF _ conjI [OF order_refl conjI [OF ballI ballI]]])
qed

text \<open>The clock has been read.\<close>

definition clocked :: "'v agenda \<Rightarrow> 'v client equeue \<Rightarrow> 'v client equeue" where
  "clocked A s = s\<lparr>now := of_nat (clock (advance A)), lapses := laps (advance A)\<rparr>"

lemma advance_update: "advance A = A\<lparr>clock := clock (advance A), laps := laps (advance A), val := val A\<rparr>"
  by (simp add: advance_def split: list.split)

lemma agrees_advance:
  assumes s: "agrees s q c p xs ys A" and timely: "timely (advance A)"
  shows "agrees ((clocked A s)\<lparr>eq_break := h, bg_active := g\<rparr>) q c p xs ys (advance A)"
    and "equeue_tick s = (of_nat (clock (advance A)), clocked A s)"
proof -
  obtain zs cs bs fs L where r: "rep s q c p A zs cs bs fs L" and m: "map fst cs = xs" "map fst bs = ys"
    and ok: "agenda_ok A" using s unfolding agrees_def by blast
  note R = repD [OF r]
  show "equeue_tick s = (of_nat (clock (advance A)), clocked A s)"
    unfolding clocked_def by (rule tick_advance [OF R(13,14)])
  have "(clocked A s)\<lparr>eq_break := h, bg_active := g\<rparr> = s\<lparr>eq_break := h, bg_active := g, now := of_nat (clock (advance A)),
      lapses := laps (advance A), user := (issued A, val A)\<rparr>"
    using R(12) by (simp add: clocked_def)
  then have "rep ((clocked A s)\<lparr>eq_break := h, bg_active := g\<rparr>) q c p (advance A) zs cs bs fs L"
    using rep_update [OF r, where h = h and g = g and t = "clock (advance A)" and ds = "laps (advance A)" and v = "val A"]
      advance_update [of A] by simp
  moreover have "last_round A \<le> clock (advance A)" using agenda_okD(2) [OF ok] advance_fields(9) by (rule le_trans)
  then have "agenda_ok (advance A)" using ok timely by (simp add: agenda_ok_def)
  ultimately show "agrees ((clocked A s)\<lparr>eq_break := h, bg_active := g\<rparr>) q c p xs ys (advance A)"
    unfolding agrees_def using m by blast
qed

lemma mset_collected: "mset (dropWhile P xs @ takeWhile P xs) = mset xs"
  by (induction xs) simp_all

lemma collect_agrees:
  assumes s: "agrees s q c None [] [] A"
  obtains es s' ys where "equeue_dequeue q (of_nat (clock A)) s = Some (es, s')" and "agrees s' q c es [] ys (collect A)"
proof -
  obtain zs fs L where r: "rep s q c None A zs [] [] fs L" and ok: "agenda_ok A" using s unfolding agrees_def by auto
  note R = repD [OF r]
  have cur: "cur A = None" "batch A = []" using R(6,7) by simp_all
  have sorted: "sorted (map due (pend A))" using R(1) in_order_sorted unfolding R(5) orders_def by blast
  let ?P = "\<lambda>b :: u32 \<times> entry. due (snd b) \<le> clock A"
  have near: "near (due (snd b)) (clock A)" if "b \<in> set (flat zs)" for b
    by (rule timely_near_clock(1) [OF agenda_okD(1) [OF ok]]) (use that R(5) in simp)
  have lt: "clock A < last_round A + 2147483648" using agenda_okD(1) [OF ok] by (simp add: timely_def)
  obtain es s' zs' where s': "equeue_dequeue q (of_nat (clock A)) s = Some (es, s')"
    "chain (e_next s') es (map fst (takeWhile ?P (flat zs)))" "orders s' q zs'" "flat zs' = dropWhile ?P (flat zs)"
    "\<And>y. y \<notin> fst ` set (flat zs) \<Longrightarrow> e_next s' y = e_next s y" "e_sibling s' = e_sibling s" "data s' = data s"
    "eq_generation s' q = eq_generation s q + 1" "eq_tick s' q = of_nat (clock A)"
    by (rule dequeue_orders [OF R(1) near R(15) agenda_okD(2) [OF ok] lt]) (assumption, rule that, assumption+)
  note D = data_fields [OF s'(7)]
  let ?bs = "takeWhile ?P (flat zs)"
  have sev: "set (all_events zs' [] ?bs) = set (all_events zs [] [])"
    using mset_eq_setD [OF mset_collected [of ?P "flat zs"]] by (simp add: s'(4))
  have adr: "addresses zs' [] ?bs = addresses zs [] []" unfolding addresses_def sev by (rule refl)
  have "rep s' q c es (collect A) zs' [] ?bs fs L" unfolding rep_def adr
  proof (intro conjI)
    show "orders s' q zs'" by (rule s'(3))
    show "chain (e_next s') es (map fst ?bs)" by (rule s'(2))
    have "mset (map fst (all_events zs' [] ?bs)) = mset (map fst (all_events zs [] []))"
      using arg_cong [where f = "image_mset fst", OF mset_collected [of ?P "flat zs"]] by (simp add: s'(4))
    then show "distinct (map fst (all_events zs' [] ?bs))" using R(3) by (metis mset_eq_imp_distinct_iff)
    show "\<forall>b\<in>set (all_events zs' [] ?bs). entered s' q (fst b) (snd b)"
      unfolding sev by (intro ballI entered_cong [OF R(4)]) (simp_all add: D)
    show "pend (collect A) = map snd (flat zs')" "batch (collect A) = map snd ?bs"
      using R(5) by (simp_all add: collect_fields s'(4) takeWhile_map dropWhile_map comp_def)
    show "cur (collect A) = (case [] :: slot of [] \<Rightarrow> None | b # _ \<Rightarrow> Some (snd b))" "length ([] :: slot) \<le> 1"
      by (simp_all add: collect_fields cur)
    show "chunks_ok s' q c (addresses zs [] []) fs"
    proof (rule chunks_cong [OF R(9)])
      fix y assume "y \<in> set fs"
      then have "y \<notin> fst ` set (flat zs)" using R(9) by (auto simp: chunks_ok_def addresses_def)
      then show "e_next s' y = e_next s y" by (rule s'(5))
    qed (simp_all add: D s'(6))
    show "numbered s' (addresses zs [] []) (addresses zs [] [] \<union> set fs) L" by (rule numbered_cong [OF R(10)]) (simp add: D)
    show "issued (collect A) = ids (eq_buffer s' q) (eq_npw2 s' q) L" "user s' = (issued (collect A), val (collect A))"
      "now s' = of_nat (clock (collect A))" "lapses s' = laps (collect A)" "eq_tick s' q = of_nat (last_round (collect A))"
      "eq_generation s' q = of_nat (rounds (collect A))" "bg_update s' q = None"
      using R(11-17) by (simp_all add: collect_fields D s'(8,9))
  qed
  then have "agrees s' q c es [] (map fst ?bs) (collect A)"
    using agenda_ok_collect [OF ok cur(1) sorted] unfolding agrees_def by (metis list.simps(8))
  then show ?thesis using that s'(1) by blast
qed

lemma batch_round:
  assumes "agenda_batch c run (collect A) (Some B)"
  shows "last_round B = clock A"
  using agenda_batch_round [OF assms refl] by (simp add: collect_fields)

lemma stop_agrees:
  assumes s: "agrees s q c None [] [] B" and timely: "timely (advance B)"
  obtains s' where "stop_dispatch P q tick (clocked B s) = Some s'" and "agrees s' q c None [] [] (advance B)"
proof -
  have "bg_update s q = None" using s repD(17) unfolding agrees_def by blast
  then have "stop_dispatch P q tick (clocked B s) =
      Some ((clocked B s)\<lparr>eq_break := (eq_break s)(q := False), bg_active := bg_active s\<rparr>)"
    by (simp add: stop_dispatch_def clocked_def)
  then show ?thesis using agrees_advance(1) [OF s timely] that by blast
qed

lemma round_agrees:
  assumes s: "agrees s q c None [] [] A"
  shows "agenda_step c run Dispatch A None \<or> (\<exists>s' A'. equeue_dispatch (program run q) q 0 s = Some s' \<and>
    agenda_step c run Dispatch A (Some A') \<and> agrees s' q c None [] [] A')"
proof (cases "timely (advance A)")
  case False
  then show ?thesis by (blast intro: wake_late)
next
  case True
  let ?t = "of_nat (clock (advance A)) :: u32"
  define s1 where "s1 = (clocked A s)\<lparr>bg_active := (bg_active s)(q := False)\<rparr>"
  have "s1 = (clocked A s)\<lparr>eq_break := eq_break s, bg_active := (bg_active s)(q := False)\<rparr>" by (simp add: s1_def clocked_def)
  then have "agrees s1 q c None [] [] (advance A)" using agrees_advance(1) [OF s True] by metis
  then obtain es s2 ys where s2: "equeue_dequeue q ?t s1 = Some (es, s2)" "agrees s2 q c es [] ys (collect (advance A))"
    by (rule collect_agrees) (rule that)
  have "bg_active (clocked A s) = bg_active s" by (simp add: clocked_def)
  then have start: "equeue_dispatch (program run q) q 0 s = dispatch_loop (program run q) q 0 ?t ?t s1"
    using agrees_advance(2) [OF s True] by (simp add: equeue_dispatch_def s1_def)
  from dispatch_agrees [OF s2(2), of run] show ?thesis
  proof (elim disjE exE conjE)
    assume "agenda_batch c run (collect (advance A)) None"
    then show ?thesis using round_lost [OF True] by blast
  next
    fix s3 B
    assume s3: "dispatch_events (program run q) q es s2 = Some s3" and B: "agenda_batch c run (collect (advance A)) (Some B)"
      and a3: "agrees s3 q c None [] [] B"
    show ?thesis
    proof (cases "timely (advance B)")
      case False
      then show ?thesis using round_late [OF True B] by blast
    next
      case late: True
      obtain s4 where s4: "stop_dispatch (program run q) q (of_nat (clock (advance B))) (clocked B s3) = Some s4"
        "agrees s4 q c None [] [] (advance B)" by (rule stop_agrees [OF a3 late]) (rule that)
      have "agenda_ok (advance B)" using s4(2) by (simp add: agrees_def)
      then have "clock (advance A) \<le> clock (advance B)" "clock (advance B) < clock (advance A) + 1073741824"
        using agenda_okD(2) [of "advance B"] late batch_round [OF B] by (simp_all add: timely_def)
      then have "equeue_tickdiff ?t (of_nat (clock (advance B))) \<le> 0" by (subst tickdiff_of_nat) simp_all
      then have "dispatch_loop (program run q) q 0 ?t ?t s1 = Some s4"
        using s2(1) s3 agrees_advance(2) [OF a3 late] s4(1) by (subst dispatch_loop.simps) simp
      then show ?thesis using start s4(2) agenda_step.round [OF True B late] by auto
    qed
  qed
qed

section \<open>Programs\<close>

lemma steps_agree:
  assumes "agrees s q c None [] [] A"
  shows "agenda_run c run xs A None \<or> (\<exists>s' A'. perform_steps run q xs s = Some s' \<and>
    agenda_run c run xs A (Some A') \<and> agrees s' q c None [] [] A')"
  using assms
proof (induction xs arbitrary: s A)
  case Nil
  then show ?case by (auto intro: run_done)
next
  case (Cons x xs)
  have user: "snd (user s) = val A" using Cons.prems repD(12) unfolding agrees_def by fastforce
  have "agenda_step c run x A None \<or> (\<exists>s' A'. (case x of Client f \<Rightarrow> perform silent q (f (snd (user s))) s
      | Dispatch \<Rightarrow> equeue_dispatch (program run q) q 0 s) = Some s' \<and>
    agenda_step c run x A (Some A') \<and> agrees s' q c None [] [] A')"
  proof (cases x)
    case (Client f)
    then show ?thesis
      using perform_agrees [OF Cons.prems, of silent "f (val A)"] user
      by (auto simp: act_agrees_def intro: agenda_step.client)
  next
    case Dispatch
    then show ?thesis using round_agrees [OF Cons.prems, of run] by simp
  qed
  then show ?case
  proof (elim disjE exE conjE)
    assume "agenda_step c run x A None"
    then show ?thesis by (blast intro: run_lost)
  next
    fix s1 A1
    assume s1: "(case x of Client f \<Rightarrow> perform silent q (f (snd (user s))) s
        | Dispatch \<Rightarrow> equeue_dispatch (program run q) q 0 s) = Some s1"
      and A1: "agenda_step c run x A (Some A1)" and "agrees s1 q c None [] [] A1"
    then show ?thesis using Cons.IH [of s1 A1] run_step [OF A1] by (simp add: s1) blast
  qed
qed

end
