(* ===== verification/Equeue_Guarantee.thy ===== *)
theory Equeue_Guarantee
  imports Equeue_Rounds
begin

text \<open>
  An event queue (events/source/equeue.c) from its creation in a given buffer on, and the
  refinement of its agenda.
\<close>

section \<open>A new queue\<close>

lemma bit_count_bounds:
  "unat s < 2 ^ k \<Longrightarrow> unat s < 2 ^ bit_count k s \<and> (unat s < 2 ^ n \<longrightarrow> bit_count k s \<le> n)"
proof (induction k arbitrary: s n)
  case (Suc k)
  show ?case
  proof (cases "s = 0")
    case False
    have half: "unat (drop_bit 1 s) = unat s div 2" by (simp add: drop_bit_eq_div unat_div)
    then have "unat (drop_bit 1 s) < 2 ^ k" using Suc.prems by simp
    note IH = Suc.IH [OF this]
    have "unat s < 2 ^ bit_count (Suc k) s" using IH half False by (simp add: div_less_iff_less_mult mult.commute)
    moreover have "bit_count (Suc k) s \<le> n" if "unat s < 2 ^ n"
    proof (cases n)
      case 0
      then show ?thesis using that False by (simp add: unat_eq_zero)
    next
      case (Suc m)
      then have "unat (drop_bit 1 s) < 2 ^ m" using that half by simp
      then show ?thesis using IH [of m] Suc False by simp
    qed
    ultimately show ?thesis by blast
  qed simp
qed simp

definition first_agenda :: "nat \<Rightarrow> u32 list \<Rightarrow> 'v \<Rightarrow> 'v agenda" where
  "first_agenda t ds v = \<lparr>pend = [], batch = [], cur = None, clock = t, laps = ds, last_round = t,
     rounds = 0, issued = [], val = v\<rparr>"

lemma buffer_fits:
  assumes "4 \<le> sz" and "unat buffer + unat sz < 4294967296"
  defines "b \<equiv> (buffer + 3) AND NOT (3 :: u32)"
  shows "unat buffer \<le> unat b" and "unat b + unat ((sz - (b - buffer)) AND NOT 3) < 4294967296"
    and "unat ((sz - (b - buffer)) AND NOT 3) \<le> unat sz"
proof -
  have sz: "4 \<le> unat sz" using assms(1) by (simp add: word_le_nat_alt)
  then have "unat (buffer + 3) = unat buffer + 3" using assms(2) by (intro unat_add_u32 [of buffer 3, simplified]) simp
  then have b: "unat b = 4 * ((unat buffer + 3) div 4)" unfolding b_def by (simp only: round_down_4)
  then show le: "unat buffer \<le> unat b" by presburger
  have le3: "unat b \<le> unat buffer + 3" using b by presburger
  have d: "unat (b - buffer) = unat b - unat buffer" using le by (intro unat_sub_le) (simp add: word_le_nat_alt)
  then have "unat (sz - (b - buffer)) = unat sz - (unat b - unat buffer)"
    using sz le3 by (subst unat_sub_le) (simp_all add: word_le_nat_alt)
  then have "unat ((sz - (b - buffer)) AND NOT 3) = 4 * ((unat sz - (unat b - unat buffer)) div 4)"
    by (simp only: round_down_4)
  then have "unat ((sz - (b - buffer)) AND NOT 3) \<le> unat sz - (unat b - unat buffer)" by simp
  then show "unat b + unat ((sz - (b - buffer)) AND NOT 3) < 4294967296"
    "unat ((sz - (b - buffer)) AND NOT 3) \<le> unat sz"
    using le le3 sz assms(2) by linarith+
qed

text \<open>A queue has room for as many events as 44 bytes fit into what is left of its buffer.\<close>

definition capacity :: "u32 \<Rightarrow> 'u equeue \<Rightarrow> nat" where
  "capacity q s = unat (slab_size s q) div 44"

lemma create_agrees:
  assumes new: "equeue_create_inplace q sz buffer s0 = (err, s)" and user: "user s0 = ([], v)"
    and buf: "buffer \<noteq> 0" "4 \<le> sz" "unat sz < 16777216" "unat buffer + unat sz < 4294967296"
  shows "agrees s q (capacity q s) None [] [] (first_agenda (unat (now s)) (lapses s) v)"
proof -
  define b where "b = (buffer + 3) AND NOT (3 :: u32)"
  define z where "z = (sz - (b - buffer)) AND NOT 3"
  note fits = buffer_fits [OF buf(2,4), folded b_def, folded z_def]
  have s: "eq_buffer s q = b" "eq_npw2 s q = bit_count 32 z" "eq_chunks s q = None" "slab_size s q = z" "slab_data s q = b"
    "eq_queue s q = None" "eq_tick s q = now s" "eq_generation s q = 0" "bg_update s q = None" "user s = ([], v)"
    using new user buf(2) by (auto simp: equeue_create_inplace_def Let_def b_def z_def equeue_tick_def split: list.splits)
  have z: "unat z < 2 ^ eq_npw2 s q" "eq_npw2 s q \<le> 24"
    using bit_count_bounds [of z 32 24] fits(3) buf(3) unat_u32_lt [of z] by (simp_all add: s(2))
  have c: "44 * capacity q s \<le> unat z" by (simp add: capacity_def s)
  have "b \<noteq> 0" using fits(1) buf(1) by (auto simp: unat_eq_0)
  then have "room s q (capacity q s)" using z c fits(2) unfolding room_def s(1) by linarith
  then have "chunks_ok s q (capacity q s) {} []"
    unfolding chunks_ok_def by (simp add: s chunk_def capacity_def exI [of _ 0])
  moreover have "orders s q []" by (simp add: orders_def holds_def s)
  ultimately have "rep s q (capacity q s) None (first_agenda (unat (now s)) (lapses s) v) [] [] [] [] []"
    by (simp add: rep_def addresses_def first_agenda_def numbered_def s)
  moreover have "agenda_ok (first_agenda (unat (now s)) (lapses s) v)"
    by (simp add: agenda_ok_def timely_def first_agenda_def running_def)
  ultimately show ?thesis unfolding agrees_def by (intro conjI exI) simp_all
qed

section \<open>The refinement\<close>

inductive_simps agenda_act_simps: "agenda_act c (Done v) A B" "agenda_act c (Call n d k) A B"
  "agenda_act c (Call_In ms n d k) A B" "agenda_act c (Call_Every ms n d k) A B" "agenda_act c (Cancel n k) A B"

inductive_simps agenda_batch_simps: "agenda_batch c run A B"

inductive_simps agenda_run_simps: "agenda_step c run (Client f) A B" "agenda_step c run Dispatch A B"
  "agenda_run c run [] A B" "agenda_run c run (x # xs) A B"

text \<open>A queue with nothing in its memory yet, for a program that starts with the value \<open>v\<close>.\<close>

definition blank :: "u32 list \<Rightarrow> 'v \<Rightarrow> 'v client equeue" where
  "blank ds v = \<lparr>eq_queue = \<lambda>_. None, eq_tick = \<lambda>_. 0, eq_break = \<lambda>_. False, eq_generation = \<lambda>_. 0, eq_buffer = \<lambda>_. 0,
     eq_npw2 = \<lambda>_. 0, eq_allocated = \<lambda>_. 0, eq_chunks = \<lambda>_. None, slab_size = \<lambda>_. 0, slab_data = \<lambda>_. 0,
     bg_active = \<lambda>_. False, bg_update = \<lambda>_. None, bg_timer = \<lambda>_. 0, eventsema = \<lambda>_. False, e_size = \<lambda>_. 0,
     e_id = \<lambda>_. 0, e_generation = \<lambda>_. 0, e_next = \<lambda>_. None, e_sibling = \<lambda>_. None, e_ref = \<lambda>_. Queue_Of 0,
     e_target = \<lambda>_. 0, e_period = \<lambda>_. 0, e_dtor = \<lambda>_. None, e_cb = \<lambda>_. None, ec_cb = \<lambda>_. None, ec_data = \<lambda>_. 0,
     ctx_q = \<lambda>_. 0, ctx_target = \<lambda>_. 0, ctx_id = \<lambda>_. 0, now = 0, lapses = ds, user = ([], v)\<rparr>"

text \<open>
  C12: whatever a program posts to an event queue, with whatever delays and periods, cancels and
  dispatches, from call-backs too, the queue does what its agenda says. It returns; call-backs run
  at or after their times, in the order of their times, first come first served within one, and
  periodic ones wait again after each run; a call fails exactly when the buffer is full; its
  identifier is new; a cancelled event does not run. This holds while the program cancels no
  event that is gone and more than 254 posts old, nor one that runs right on time having been entered
  a multiple of 256 rounds before, and while all times are within 2^30 ms.
\<close>

theorem event_queue_refines:
  assumes new: "equeue_create_inplace q sz buffer s0 = (err, s)" and "user s0 = ([], v)"
    and "buffer \<noteq> 0" "4 \<le> sz" "unat sz < 16777216" "unat buffer + unat sz < 4294967296"
    and safe: "\<not> agenda_run (capacity q s) run xs (first_agenda (unat (now s)) (lapses s) v) None"
  shows "\<exists>s' A. perform_steps run q xs s = Some s' \<and>
    agenda_run (capacity q s) run xs (first_agenda (unat (now s)) (lapses s) v) (Some A) \<and>
    user s' = (issued A, val A) \<and> now s' = of_nat (clock A) \<and> lapses s' = laps A"
proof -
  have "agrees s q (capacity q s) None [] [] (first_agenda (unat (now s)) (lapses s) v)"
    by (rule create_agrees [OF new]) (fact assms)+
  from steps_agree [OF this, of run xs] safe obtain s' A where s': "perform_steps run q xs s = Some s'"
    "agenda_run (capacity q s) run xs (first_agenda (unat (now s)) (lapses s) v) (Some A)"
    "agrees s' q (capacity q s) None [] [] A" by blast
  then obtain zs cs bs fs L where "rep s' q (capacity q s) None A zs cs bs fs L" unfolding agrees_def by blast
  note R = repD [OF this]
  show ?thesis using s'(1,2) R(12-14) by blast
qed

text \<open>
  Three calls and the cancellation of the first: the other two run in the order of their times,
  the second in the first round, the third in the second one.
\<close>

definition log_call :: "nat \<Rightarrow> u32 \<Rightarrow> (nat \<times> u32) list \<Rightarrow> (nat \<times> u32) list act" where
  "log_call n d v = Done (v @ [(n, d)])"

definition three_calls :: "(nat \<times> u32) list step list" where
  "three_calls = [Client (\<lambda>v. Call_In 9 1 10 (\<lambda>_. Call_In 8 3 30 (\<lambda>_. Call_In 4 2 20 (\<lambda>_. Cancel 0 (\<lambda>_. Done v))))),
     Dispatch, Dispatch]"

definition small_queue :: "(nat \<times> u32) list client equeue" where
  "small_queue = snd (equeue_create_inplace 0 1000 4096 (blank [0, 1, 1, 1, 4, 1, 5, 1] []))"

lemma small_queue_facts: "capacity 0 small_queue = 22" "now small_queue = 0" "lapses small_queue = [1, 1, 1, 4, 1, 5, 1]"
  by (simp_all add: small_queue_def blank_def equeue_create_inplace_def equeue_tick_def Let_def capacity_def)

lemma batch_empty: "batch A = [] \<Longrightarrow> agenda_batch c run A B \<longleftrightarrow> B = Some A"
  by (subst agenda_batch_simps) auto

lemma batch_first: "batch A = e # es \<Longrightarrow> agenda_batch c run A B \<longleftrightarrow>
    agenda_call c run e (A\<lparr>batch := es, cur := Some e\<rparr>) None \<and> B = None \<or>
    (\<exists>C. agenda_call c run e (A\<lparr>batch := es, cur := Some e\<rparr>) (Some C) \<and>
      (if timely (agenda_finish C) then agenda_batch c run (agenda_finish C) B else B = None))"
  by (subst agenda_batch_simps) auto

lemmas agenda_eval = agenda_run_simps agenda_act_simps batch_empty batch_first load_def running_def agenda_post_def
  advance_def Let_def timely_def enter_def fresh_def live_ids_def nth_id_def careless_def agenda_cancel_def void_def
  collect_def agenda_call_def agenda_finish_def

lemma three_calls_outcome:
  "agenda_run 22 log_call three_calls (first_agenda 0 [1, 1, 1, 4, 1, 5, 1] []) B \<Longrightarrow>
   \<exists>A. B = Some A \<and> val A = [(2, 20), (3, 30)]"
  by (auto simp: three_calls_def first_agenda_def log_call_def agenda_eval)

theorem event_queue_refines_witness:
  "\<exists>s'. perform_steps log_call 0 three_calls small_queue = Some s' \<and> snd (user s') = [(2, 20), (3, 30)]"
proof -
  have new: "equeue_create_inplace 0 1000 4096 (blank [0, 1, 1, 1, 4, 1, 5, 1] []) = (0, small_queue)"
    by (simp add: small_queue_def equeue_create_inplace_def Let_def split: prod.split)
  have "\<not> agenda_run (capacity 0 small_queue) log_call three_calls
    (first_agenda (unat (now small_queue)) (lapses small_queue) []) None"
    using three_calls_outcome [of None] by (auto simp: small_queue_facts)
  from event_queue_refines [OF new _ _ _ _ _ this] obtain s' A where
    "perform_steps log_call 0 three_calls small_queue = Some s'"
    "agenda_run 22 log_call three_calls (first_agenda 0 [1, 1, 1, 4, 1, 5, 1] []) (Some A)" "user s' = (issued A, val A)"
    by (auto simp: small_queue_facts blank_def)
  then show ?thesis using three_calls_outcome [of "Some A"] by auto
qed

end
