(* ===== verification/Spec2Isabelle.thy ===== *)
theory Spec2Isabelle
  imports Rtc_Time Light_Modes Luminary Sensors Led_Handler SmartCell_Util Us_Ticker Rtx_Guarantees Rtx_Memory_Safety Rtx_Message_Guarantee Rtx_Timer_Exact Rtx_Objects Rtx_Anomalies Equeue_Guarantee
begin

text \<open>
  The SmartCell firmware: a street-light controller on a LoRa node (MultiTech xDot, STM32L151)
  and the parts of mbed-os 5.15 it stands on. This theory collects the development; it has no
  definitions of its own. Paths are relative to src/ of the repository, and
  \<open>RTX/\<close> stands for mbed-os/rtos/source/TARGET_CORTEX/rtx5/RTX/.

  \<^bold>\<open>How the parts work together.\<close> The main loop of src/luminary.cpp asks the light controller
  for a dimming level, which depends on the mode of operation, the clock and the photocell,
  drives the lamp, sends a status frame, and sleeps. Downlink packets reach \<open>payloadParser\<close>,
  which changes the mode, the curves and the on/off times and saves them in non-volatile
  memory. The clock is set from the network and read through the calendar functions of mbed-os.
  Sleeping, leds and time-outs go through the ticker layer (mbed-os/hal), which runs on the
  microsecond timer of the chip. All of it runs in threads of the RTX kernel, which schedules
  them, gives them their memory and lets them wait for each other.

  \<^bold>\<open>The application.\<close>
  \<^item> \<open>Light_Modes\<close>: one record and one definition per member function of the classes of
    lib/DimmingCurves, OnOffByTime, DimmingDemo, PhotoCell and LightOutput. The lemmas compare the
    curves with the table of the Readme, describe the on/off window, the demonstration
    ramp and the hysteresis, and bound what reaches the lamp.
  \<^item> \<open>Luminary\<close>: lib/LightController and src/luminary.cpp. The global objects are the fields of
    the record \<open>luminary\<close>; \<open>payloadParser\<close> has a branch per command, \<open>load_config\<close> and
    \<open>saveSmartcellConfig\<close> the layout of the saved bytes. The locale \<open>byte_nvm\<close> states what the
    non-volatile memory promises, and is interpreted on an array of bytes. The lemmas show that
    every packet keeps the configuration valid, that a saved one is read back, that short packets
    change nothing, and that the pacing loop ends.
  \<^item> \<open>Led_Handler\<close>: lib/LedHandler, the led sequences and their call-back.
  \<^item> \<open>SmartCell_Util\<close>: src/SmartCell_util.cpp and \<open>join_network\<close> of src/dot_util.cpp: setting the
    clock, the bytes of the uplink frames, the attempts to join. The xDot library is a parameter.
  \<^item> \<open>Sensors\<close>: lib/CurrentSensor, whose readings over 40 ms are a list, lib/PulseCounter with its
    filter, and lib/ISL29011 on a bus that is a parameter; the locale \<open>answering_sensor\<close> states
    what the driver needs of the chip, and is interpreted on its registers.
  \<^item> \<open>Binary_Float\<close>: a \<open>float\<close> as a rational rounded to 24 bits. \<open>Rtc_Time\<close>: the calendar of
    mbed-os/platform/source/mbed_mktime.c with its 32-bit wrap-around, inverse to each other and
    equal to a day count over the Gregorian rules.

  \<^bold>\<open>The ticker.\<close>
  \<^item> \<open>Hal_Ticker\<close>: mbed-os/hal/mbed_ticker_api.c. Events live in an explicit store and are linked by
    pointers; the hardware is the record of functions \<open>ticker_interface_t\<close>. The locale
    \<open>tick_counter\<close> states what the layer needs of a counter; in it the 64-bit clock is shown not
    to drift, and the interrupt handler to run the events that are due.
  \<^item> \<open>Us_Ticker\<close>: mbed-os/targets/TARGET_STM/us_ticker.c as such a counter (the interpretation
    \<open>us_counter\<close>), and the states a program reaches with it. Time that passes between two accesses
    to a register is an input (\<open>lapses\<close>), so statements hold for all of them up to their bounds.

  \<^bold>\<open>The kernel, as the code has it.\<close> \<open>Rtx_State\<close> has \<open>osRtxInfo\<close> (RTX/Include/rtx_os.h) as the record
  \<open>rtx\<close>. The control blocks are an explicit store: each field is a function from addresses, so that
  all aliasing of the C pointers is in the model. A state also holds words of memory and the
  variables of the port. A function of the code is a function from the state to \<open>None\<close> or
  \<open>Some\<close> of a result and a state. \<open>None\<close> is a null pointer that is followed, or a loop that
  does not end: the loops over lists are \<open>partial_function (option)\<close>, without any fuel. That a
  call returns is therefore part of what is proved.
  \<^item> \<open>Rtx_Memory\<close>, \<open>Rtx_Pool\<close>, \<open>Rtx_Mempool\<close>: rtx_memory.c and rtx_mempool.c, and the allocation and
    release of control blocks that every ...New and ...Delete has.
  \<^item> \<open>Rtx_Isr_Queue\<close>: the ring between interrupts and the kernel (rtx_system.c); \<open>Rtx_Kernel\<close>: the
    PendSV and tick handlers, and the kernel control of rtx_kernel.c.
  \<^item> \<open>Rtx_Thread\<close>, \<open>Rtx_Life\<close>: rtx_thread.c, first the lists, the dispatcher and the calls, then
    creation and end of threads.
  \<^item> \<open>Rtx_Mutex\<close>, \<open>Rtx_Semaphore\<close>, \<open>Rtx_Evflags\<close>, \<open>Rtx_Msgqueue\<close>, \<open>Rtx_Timer\<close>: one file each of RTX/Source.

  \<^bold>\<open>The kernel, what is proved.\<close> \<open>Linked_List\<close> has paths through a link field and the effect of
  updates on them.
  \<^item> Scheduler: \<open>Rtx_Lists\<close> and \<open>Rtx_Delays\<close> relate the pointer structures to lists of threads
    and to expiry times, \<open>Rtx_Sched\<close> states the invariant between thread states and lists,
    \<open>Rtx_Dispatch\<close>, \<open>Rtx_Tick\<close>, \<open>Rtx_Calls\<close>, \<open>Rtx_Waits\<close> and \<open>Rtx_Events\<close> show that each operation keeps
    it, and \<open>Rtx_Guarantees\<close> concludes for all sequences of events: no step is stuck, the most
    urgent thread runs, the ready list is exact, delays have the length asked for. Events are the
    calls of threads that yield, change priorities, suspend, resume, delay, and
    use thread flags, semaphores and event flags, interrupts that release or set these, and the
    PendSV and tick exceptions.
  \<^item> Memory: \<open>Rtx_Memory_Chain\<close>, \<open>Rtx_Memory_Steps\<close> and \<open>Rtx_Memory_Safety\<close>: pools of any
    size up to the address space, and clients that allocate, free and write to their
    blocks in any order. \<open>Rtx_Objects\<close> builds on them: the locale \<open>object_class\<close> states what
    a class of kernel objects promises, and is interpreted for semaphores, mutexes, flags and timers.
  \<^item> Messages: \<open>Rtx_Pool_Blocks\<close>, \<open>Rtx_Message_List\<close>, \<open>Rtx_Message_Guarantee\<close>: a message queue from its
    creation on refines a bounded list ordered by priority.
  \<^item> Timers: \<open>Rtx_Timer_Exact\<close> reads the list of relative times as absolute ones; a timer expires on
    its tick whatever other timers are started and stopped.
  \<^item> Interrupt ring: the locale \<open>isr_fifo\<close> is its client's view, interpreted on the ring.
  \<^item> \<open>Rtx_Anomalies\<close>: two defects of the kernel on concrete states.

  \<^bold>\<open>The event queue.\<close> \<open>Equeue\<close> has every function of mbed-os/events/source/equeue.c over the same
  kind of store: \<open>equeue_t\<close> and \<open>struct equeue_event\<close> as functions from addresses, pointers to
  pointers as the datatype \<open>place\<close>, call-backs, timers and the wait for the semaphore as the record
  \<open>platform\<close> (mutual calls between a queue and its call-backs are tied in \<open>linked\<close>).
  \<^item> \<open>Equeue_List\<close>, \<open>Equeue_Walk\<close>: the list of slots with its siblings and back references; linking,
    unlinking and collecting events.
  \<^item> \<open>Equeue_Agenda\<close>: what is promised, as an agenda of entries ordered by time, and the programs that
    post, cancel and dispatch, from call-backs too. \<open>Equeue_Order\<close> relates the slots to entries,
    with times that wrap around, \<open>Equeue_Memory\<close> the chunks of the buffer and the identifiers.
  \<^item> \<open>Equeue_Calls\<close>, \<open>Equeue_Cancel\<close>, \<open>Equeue_Acts\<close>, \<open>Equeue_Rounds\<close>: the relation between queue and
    agenda, and that posting, cancelling, and dispatching with a time of 0 keep to it;
    \<open>Equeue_Guarantee\<close> concludes for all programs from the creation of the queue on. It covers simple
    call-backs (\<open>equeue_call\<close>, \<open>equeue_call_in\<close>, \<open>equeue_call_every\<close>); destructors, events of other
    sizes or allocated by the user, background timers, chained queues and waiting for the semaphore
    are modelled, but not part of that theorem.

  \<^bold>\<open>Bounds.\<close> Words have their width (32 bits for pointers, counters and ticks) and wrap. Where a
  statement needs the absence of wrap-around, it is a hypothesis: a pool ends before the end of the
  address space, with room for a header and the rounding (15 bytes); a delay is at most
  0xFFFFFFFE ticks (\<open>osWaitForever\<close> is another meaning); microseconds between
  two readings of a counter are less than its range; the times of an event queue are within 2^30 ms
  of each other, its buffer has less than 2^24 bytes (the identifiers keep 8 bits for a counter, so a
  stale one is told from a new one for 254 posts). \<open>Luminary.delay_loop\<close> and the attempts of
  \<open>SmartCell_Util.join_network\<close> end for the reasons their theorems give, not by fuel.

  \<^bold>\<open>Not modelled.\<close> The closed xDot library (a parameter where its results matter), registers and
  drivers below the microsecond ticker, assembler entries of the kernel (their effect on
  \<open>thread.run\<close> is modelled), the stack of a new thread beyond its first four registers, the
  logging and the energy display of \<open>main\<close> and
  the example programs of src/. The rest of mbed-os (mbedtls, lwIP, nanostack, BLE, file systems,
  drivers, CMSIS) is vendored code that the controller does not call or that only accesses
  registers.

  Properties carry an identifier \<open>C\<close> and a number, in the order of their importance; a theorem
  with hypotheses is followed by a witness that applies it to a concrete input.
\<close>

end
